(* ===== verification/Prelude.thy ===== *)
theory Prelude
  imports Complex_Main "HOL-Library.Word" "HOL-Library.AList"
begin

text \<open>
  Shared vocabulary of the development: Python strings as lists of Unicode code points, JSON-like
  values, the parts of the Python standard library the sources use (truth value and equality of
  values, \<open>str.strip\<close>, \<open>str.split\<close>, UTF-8 sizes, \<open>json.dumps\<close>), errors as sums, and the list,
  dictionary and association lemmas that the component theories share.
\<close>

section \<open>Errors as values\<close>

text \<open>The built-in Python exceptions that the modelled code can raise or catch.\<close>

datatype py_exn = TypeError | ValueError | KeyError | IndexError | AttributeError | OSError | OverflowError

definition ebind :: "'e + 'a \<Rightarrow> ('a \<Rightarrow> 'e + 'b) \<Rightarrow> 'e + 'b" where
  "ebind r f = (case r of Inl e \<Rightarrow> Inl e | Inr x \<Rightarrow> f x)"

lemma ebind_simps [simp]: "ebind (Inl e) f = Inl e" "ebind (Inr x) f = f x"
  by (simp_all add: ebind_def)

lemma ebind_Inr_iff: "ebind r f = Inr y \<longleftrightarrow> (\<exists>x. r = Inr x \<and> f x = Inr y)"
  by (cases r) auto

lemma ebind_Inl_iff:
  "ebind r f = Inl e \<longleftrightarrow> r = Inl e \<or> (\<exists>x. r = Inr x \<and> f x = Inl e)"
  by (cases r) auto

section \<open>Lists\<close>

lemma find_SomeD: "find P xs = Some x \<Longrightarrow> x \<in> set xs \<and> P x"
  by (induction xs) (auto split: if_splits)

lemma find_distinct:
  assumes "distinct (map f xs)" "x \<in> set xs"
  shows "find (\<lambda>y. f y = f x) xs = Some x"
  using assms by (induction xs) auto

lemma filter_distinct:
  assumes "distinct (map f xs)" "x \<in> set xs"
  shows "filter (\<lambda>y. f y = f x) xs = [x]"
  using assms
proof (induction xs)
  case (Cons y ys)
  then have "f y \<notin> f ` set ys" by simp
  then have new: "f z \<noteq> f y" if "z \<in> set ys" for z using that by (metis imageI)
  show ?case
  proof (cases "x = y")
    case True
    then show ?thesis using new by (simp add: filter_empty_conv)
  next
    case False
    then show ?thesis using Cons new [of x] by auto
  qed
qed simp

lemma distinct_concat_map:
  assumes "distinct xs" "\<And>x. distinct (f x)" "\<And>x y. x \<noteq> y \<Longrightarrow> set (f x) \<inter> set (f y) = {}"
  shows "distinct (concat (map f xs))"
  using assms(1)
proof (induction xs)
  case (Cons x xs)
  have "set (f x) \<inter> set (f y) = {}" if "y \<in> set xs" for y using Cons.prems that by (intro assms(3)) auto
  then have "set (f x) \<inter> set (concat (map f xs)) = {}" by auto
  then show ?case using Cons assms(2) by simp
qed simp

lemma find_append: "find P (xs @ ys) = (case find P xs of Some x \<Rightarrow> Some x | None \<Rightarrow> find P ys)"
  by (induction xs) auto

section \<open>Python strings\<close>

text \<open>A Python \<open>str\<close> is a sequence of code points; \<open>len\<close> is the length of the list.\<close>

type_synonym pystr = "nat list"

definition lit :: "string \<Rightarrow> pystr" where
  "lit s = map of_char s"

lemma lit_eq_iff [simp]: "lit a = lit b \<longleftrightarrow> a = b"
  unfolding lit_def by (rule inj_map_eq_map) (auto intro: injI)

lemma lit_Nil_iff [simp]: "lit s = [] \<longleftrightarrow> s = []" "[] = lit s \<longleftrightarrow> s = []"
  by (auto simp: lit_def)

lemma length_lit [simp]: "length (lit s) = length s"
  by (simp add: lit_def)

lemma lit_Cons: "lit (c # s) = of_char c # lit s" and lit_Nil: "lit [] = []"
  by (simp_all add: lit_def)

text \<open>What a request handler raises: an HTTP error with its detail, a built-in exception, a \<open>RuntimeError\<close>.\<close>

datatype server_error = Http nat pystr | Raised py_exn | Runtime_error pystr

definition raised :: "py_exn + 'a \<Rightarrow> server_error + 'a" where
  "raised r = (case r of Inl e \<Rightarrow> Inl (Raised e) | Inr x \<Rightarrow> Inr x)"

lemma raised_Inr_iff [simp]: "raised r = Inr x \<longleftrightarrow> r = Inr x"
  by (cases r) (simp_all add: raised_def)

text \<open>The white space of \<open>str.strip()\<close> and \<open>str.split()\<close> (\<open>str.isspace\<close> code points).\<close>

definition is_space :: "nat \<Rightarrow> bool" where
  "is_space c \<longleftrightarrow> (9 \<le> c \<and> c \<le> 13) \<or> (28 \<le> c \<and> c \<le> 32) \<or> c = 133 \<or> c = 160 \<or> c = 5760
     \<or> (8192 \<le> c \<and> c \<le> 8202) \<or> c = 8232 \<or> c = 8233 \<or> c = 8239 \<or> c = 8287 \<or> c = 12288"

definition lstrip :: "pystr \<Rightarrow> pystr" where
  "lstrip s = dropWhile is_space s"

definition rstrip :: "pystr \<Rightarrow> pystr" where
  "rstrip s = rev (dropWhile is_space (rev s))"

definition strip :: "pystr \<Rightarrow> pystr" where
  "strip s = rstrip (lstrip s)"

lemma strip_Nil_iff: "strip s = [] \<longleftrightarrow> list_all is_space s"
proof -
  have "dropWhile is_space (rev (dropWhile is_space s)) = [] \<longleftrightarrow>
    (\<forall>x \<in> set (dropWhile is_space s). is_space x)"
    by simp
  also have "\<dots> \<longleftrightarrow> (\<forall>x \<in> set s. is_space x)"
  proof
    assume *: "\<forall>x \<in> set (dropWhile is_space s). is_space x"
    then have "dropWhile is_space s = []"
      by (metis dropWhile_eq_Nil_conv dropWhile_idem)
    then show "\<forall>x \<in> set s. is_space x"
      by simp
  qed (auto dest: set_dropWhileD)
  finally show ?thesis
    by (simp add: strip_def rstrip_def lstrip_def list_all_iff)
qed

text \<open>\<open>str.split()\<close>: the maximal runs of characters that are not white space.\<close>

fun split_ws_acc :: "pystr \<Rightarrow> pystr \<Rightarrow> pystr list" where
  "split_ws_acc w [] = (if w = [] then [] else [rev w])"
| "split_ws_acc w (c # s) =
     (if is_space c then (if w = [] then split_ws_acc [] s else rev w # split_ws_acc [] s)
      else split_ws_acc (c # w) s)"

definition split_ws :: "pystr \<Rightarrow> pystr list" where
  "split_ws s = split_ws_acc [] s"

text \<open>\<open>sep.join(parts)\<close>.\<close>

fun join :: "'a list \<Rightarrow> 'a list list \<Rightarrow> 'a list" where
  "join sep [] = []"
| "join sep [x] = x"
| "join sep (x # y # zs) = x @ sep @ join sep (y # zs)"

lemma join_append: "xs \<noteq> [] \<Longrightarrow> ys \<noteq> [] \<Longrightarrow> join sep (xs @ ys) = join sep xs @ sep @ join sep ys"
proof (induction sep xs rule: join.induct)
  case (2 sep x)
  then show ?case by (cases ys) simp_all
qed simp_all

text \<open>\<open>" ".join(text.split())\<close>, which the transcript readers use to compare texts.\<close>

definition normalize_ws :: "pystr \<Rightarrow> pystr" where
  "normalize_ws s = join (lit '' '') (split_ws s)"

text \<open>\<open>s.split(sep)\<close> for a one-element separator: always at least one part.\<close>

fun split_on :: "'a \<Rightarrow> 'a list \<Rightarrow> 'a list list" where
  "split_on d [] = [[]]"
| "split_on d (c # s) =
     (if c = d then [] # split_on d s
      else (case split_on d s of [] \<Rightarrow> [[c]] | p # ps \<Rightarrow> (c # p) # ps))"

lemma split_on_not_Nil [simp]: "split_on d s \<noteq> []"
  by (cases s) (auto split: list.splits)

lemma split_on_no_sep: "d \<notin> set p \<Longrightarrow> split_on d p = [p]"
  by (induction p) auto

lemma split_on_append_sep: "split_on d (a @ d # b) = split_on d a @ split_on d b"
  by (induction a) (auto split: list.splits)

lemma join_split_on: "join [d] (split_on d s) = s"
proof (induction s)
  case (Cons c s)
  obtain p ps where p: "split_on d s = p # ps" by (cases "split_on d s") simp_all
  then show ?case using Cons by (cases ps) auto
qed simp

lemma split_on_line: "d \<notin> set l \<Longrightarrow> split_on d (l @ d # b) = l # split_on d b"
  by (simp add: split_on_append_sep split_on_no_sep)

text \<open>\<open>s.startswith(p)\<close> and the first place of a substring, \<open>s.find(p)\<close>; \<open>p in s\<close> is \<open>contains\<close>.\<close>

definition starts_with :: "'a list \<Rightarrow> 'a list \<Rightarrow> bool" where
  "starts_with p s \<longleftrightarrow> take (length p) s = p"

fun find_sub :: "'a list \<Rightarrow> 'a list \<Rightarrow> nat option" where
  "find_sub p s = (if starts_with p s then Some 0
     else case s of [] \<Rightarrow> None | c # r \<Rightarrow> map_option Suc (find_sub p r))"

declare find_sub.simps [simp del]

fun rfind_sub :: "'a list \<Rightarrow> 'a list \<Rightarrow> nat option" where
  "rfind_sub p s = (case s of
     [] \<Rightarrow> if p = [] then Some 0 else None
   | c # r \<Rightarrow> (case rfind_sub p r of Some n \<Rightarrow> Some (Suc n)
              | None \<Rightarrow> if starts_with p s then Some 0 else None))"

declare rfind_sub.simps [simp del]

definition contains :: "'a list \<Rightarrow> 'a list \<Rightarrow> bool" where
  "contains p s \<longleftrightarrow> find_sub p s \<noteq> None"

text \<open>Character classes of the regular expressions the sources match against.\<close>

definition is_digit :: "nat \<Rightarrow> bool" where
  "is_digit c \<longleftrightarrow> 48 \<le> c \<and> c \<le> 57"

definition is_lower :: "nat \<Rightarrow> bool" where
  "is_lower c \<longleftrightarrow> 97 \<le> c \<and> c \<le> 122"

definition is_upper :: "nat \<Rightarrow> bool" where
  "is_upper c \<longleftrightarrow> 65 \<le> c \<and> c \<le> 90"

definition is_alnum :: "nat \<Rightarrow> bool" where
  "is_alnum c \<longleftrightarrow> is_digit c \<or> is_lower c \<or> is_upper c"

definition is_hex :: "nat \<Rightarrow> bool" where
  "is_hex c \<longleftrightarrow> is_digit c \<or> (97 \<le> c \<and> c \<le> 102) \<or> (65 \<le> c \<and> c \<le> 70)"

definition is_hexlow :: "nat \<Rightarrow> bool" where
  "is_hexlow c \<longleftrightarrow> is_digit c \<or> (97 \<le> c \<and> c \<le> 102)"

text \<open>\<open>re.fullmatch(prefix + "[0-9a-f]{32}", s)\<close>.\<close>

definition prefixed_hex32 :: "string \<Rightarrow> pystr \<Rightarrow> bool" where
  "prefixed_hex32 pre s \<longleftrightarrow> take (length pre) s = lit pre
     \<and> length s = length pre + 32 \<and> list_all is_hexlow (drop (length pre) s)"

text \<open>
  Fixed-width patterns: \<open>d\<close> stands for a digit, \<open>h\<close> for a hexadecimal digit, every other character
  for itself.
\<close>

fun pattern_char :: "char \<Rightarrow> nat \<Rightarrow> bool" where
  "pattern_char p c = (if p = CHR ''d'' then is_digit c else if p = CHR ''h'' then is_hex c else c = of_char p)"

definition matches :: "string \<Rightarrow> pystr \<Rightarrow> bool" where
  "matches pat s \<longleftrightarrow> list_all2 pattern_char pat s"

text \<open>\<open>re.compile(r"[A-Za-z0-9_-]{1,128}\Z")\<close>.\<close>

definition identifier128 :: "pystr \<Rightarrow> bool" where
  "identifier128 s \<longleftrightarrow> s \<noteq> [] \<and> length s \<le> 128 \<and> list_all (\<lambda>c. is_alnum c \<or> c = 95 \<or> c = 45) s"

section \<open>UTF-8\<close>

definition is_surrogate :: "nat \<Rightarrow> bool" where
  "is_surrogate c \<longleftrightarrow> 55296 \<le> c \<and> c \<le> 57343"

definition utf8_width :: "nat \<Rightarrow> nat" where
  "utf8_width c = (if c < 128 then 1 else if c < 2048 then 2 else if c < 65536 then 3 else 4)"

text \<open>\<open>len(s.encode("utf-8"))\<close>; \<open>None\<close> is the \<open>UnicodeEncodeError\<close> of a lone surrogate.\<close>

definition utf8_size :: "pystr \<Rightarrow> nat option" where
  "utf8_size s = (if list_ex is_surrogate s then None else Some (sum_list (map utf8_width s)))"

lemma utf8_size_ge_length: "utf8_size s = Some n \<Longrightarrow> length s \<le> n"
proof -
  have "length s \<le> sum_list (map utf8_width s)"
    by (induction s) (auto simp: utf8_width_def)
  then show "utf8_size s = Some n \<Longrightarrow> length s \<le> n"
    by (auto simp: utf8_size_def split: if_splits)
qed

type_synonym byte = "8 word"
type_synonym bytes = "byte list"

abbreviation NL :: byte where
  "NL \<equiv> 10"

definition utf8_char :: "nat \<Rightarrow> bytes" where
  "utf8_char c = map of_nat
     (if c < 128 then [c]
      else if c < 2048 then [192 + c div 64, 128 + c mod 64]
      else if c < 65536 then [224 + c div 4096, 128 + c div 64 mod 64, 128 + c mod 64]
      else [240 + c div 262144, 128 + c div 4096 mod 64, 128 + c div 64 mod 64, 128 + c mod 64])"

definition utf8_encode :: "pystr \<Rightarrow> bytes option" where
  "utf8_encode s = (if list_ex is_surrogate s then None else Some (concat (map utf8_char s)))"

lemma length_utf8_encode: "map_option length (utf8_encode s) = utf8_size s"
proof -
  have "length (utf8_char c) = utf8_width c" for c
    by (simp add: utf8_char_def utf8_width_def)
  then show ?thesis by (simp add: utf8_encode_def utf8_size_def length_concat comp_def)
qed

section \<open>JSON-like Python values\<close>

datatype json =
    JNull
  | JBool bool
  | JInt int
  | JFloat rat
  | JStr pystr
  | JArr "json list"
  | JObj "(pystr \<times> json) list"

type_synonym jdict = "(pystr \<times> json) list"

abbreviation js :: "string \<Rightarrow> json" where
  "js s \<equiv> JStr (lit s)"

text \<open>\<open>d.get(k)\<close>: the value or \<open>None\<close>. \<open>dict_set\<close> is \<open>d[k] = v\<close>, which keeps a present key's place.\<close>

definition dget :: "jdict \<Rightarrow> string \<Rightarrow> json" where
  "dget d k = (case map_of d (lit k) of Some v \<Rightarrow> v | None \<Rightarrow> JNull)"

definition dhas :: "jdict \<Rightarrow> string \<Rightarrow> bool" where
  "dhas d k \<longleftrightarrow> map_of d (lit k) \<noteq> None"

definition dset :: "jdict \<Rightarrow> string \<Rightarrow> json \<Rightarrow> jdict" where
  "dset d k v = AList.update (lit k) v d"

definition dpop :: "jdict \<Rightarrow> string \<Rightarrow> jdict" where
  "dpop d k = AList.delete (lit k) d"

text \<open>\<open>isinstance(v, str)\<close>.\<close>

fun is_str :: "json \<Rightarrow> bool" where
  "is_str (JStr _) = True"
| "is_str _ = False"

lemma is_str_iff: "is_str v \<longleftrightarrow> (\<exists>s. v = JStr s)"
  by (cases v) simp_all

text \<open>\<open>set(d) == {...}\<close>.\<close>

definition dkeys_eq :: "jdict \<Rightarrow> string list \<Rightarrow> bool" where
  "dkeys_eq d ks \<longleftrightarrow> list_all (\<lambda>k. k \<in> set (map lit ks)) (map fst d) \<and> list_all (dhas d) ks"

lemma dget_dset [simp]: "dget (dset d k v) k' = (if k = k' then v else dget d k')"
  by (auto simp: dget_def dset_def update_conv')

lemma dget_dpop [simp]: "dget (dpop d k) k' = (if k = k' then JNull else dget d k')"
  by (auto simp: dget_def dpop_def delete_conv')

lemma in_dpop [simp]: "x \<in> set (dpop d k) \<longleftrightarrow> x \<in> set d \<and> fst x \<noteq> lit k"
  by (induction d) (auto simp: dpop_def)

lemma dget_Nil [simp]: "dget [] k = JNull"
  by (simp add: dget_def)

lemma dget_Cons [simp]:
  "dget ((lit k', v) # d) k = (if k' = k then v else dget d k)"
  by (simp add: dget_def)

lemma dhas_Nil [simp]: "\<not> dhas [] k"
  by (simp add: dhas_def)

lemma dhas_Cons [simp]: "dhas ((lit k', v) # d) k \<longleftrightarrow> k' = k \<or> dhas d k"
  by (simp add: dhas_def)

lemma dhas_dset [simp]: "dhas (dset d k v) k' \<longleftrightarrow> k = k' \<or> dhas d k'"
  by (auto simp: dhas_def dset_def update_conv')

lemma keys_AList_delete [simp]: "fst ` set (AList.delete k al) = fst ` set al - {k}"
proof -
  have "set (map fst (AList.delete k al)) = set (map fst al) - {k}"
    by (simp only: delete_keys set_removeAll)
  then show ?thesis by simp
qed

lemma keys_AList_update [simp]: "fst ` set (AList.update k v al) = insert k (fst ` set al)"
  using dom_update [of k v al] by (simp add: dom_map_of_conv_image_fst)

text \<open>Truth value of a Python value.\<close>

fun truthy :: "json \<Rightarrow> bool" where
  "truthy JNull = False"
| "truthy (JBool b) = b"
| "truthy (JInt i) = (i \<noteq> 0)"
| "truthy (JFloat r) = (r \<noteq> 0)"
| "truthy (JStr s) = (s \<noteq> [])"
| "truthy (JArr xs) = (xs \<noteq> [])"
| "truthy (JObj d) = (d \<noteq> [])"

text \<open>A dict or a list is unhashable: testing its membership in a set raises \<open>TypeError\<close>.\<close>

fun hashable :: "json \<Rightarrow> bool" where
  "hashable (JArr _) = False"
| "hashable (JObj _) = False"
| "hashable _ = True"

text \<open>Python equality: \<open>True == 1 == 1.0\<close>, and dictionaries compare without order.\<close>

fun num_of :: "json \<Rightarrow> rat option" where
  "num_of (JBool b) = Some (if b then 1 else 0)"
| "num_of (JInt i) = Some (of_int i)"
| "num_of (JFloat r) = Some r"
| "num_of _ = None"

fun py_eq :: "json \<Rightarrow> json \<Rightarrow> bool" where
  "py_eq JNull y = (y = JNull)"
| "py_eq (JStr s) y = (y = JStr s)"
| "py_eq (JArr xs) y = (case y of JArr ys \<Rightarrow> list_all2 py_eq xs ys | _ \<Rightarrow> False)"
| "py_eq (JObj d) y = (case y of
     JObj e \<Rightarrow> length d = length e
       \<and> list_all (\<lambda>kv. case map_of e (fst kv) of None \<Rightarrow> False | Some w \<Rightarrow> py_eq (snd kv) w) d
   | _ \<Rightarrow> False)"
| "py_eq (JBool b) y = (num_of y = Some (if b then 1 else 0))"
| "py_eq (JInt i) y = (num_of y = Some (of_int i))"
| "py_eq (JFloat r) y = (num_of y = Some r)"

text \<open>
  \<open>int(x)\<close>: numbers truncate, a string is an optional sign and decimal digits with single
  underscores between them and white space around them (ASCII digits only here), anything else
  raises.
\<close>

fun int_digits :: "bool \<Rightarrow> nat \<Rightarrow> pystr \<Rightarrow> nat option" where
  "int_digits prev acc [] = (if prev then Some acc else None)"
| "int_digits prev acc (c # s) =
     (if is_digit c then int_digits True (acc * 10 + (c - 48)) s
      else if c = 95 \<and> prev then int_digits False acc s
      else None)"

definition int_of_str :: "pystr \<Rightarrow> int option" where
  "int_of_str s = (case strip s of
     [] \<Rightarrow> None
   | c # r \<Rightarrow> if c = 45 then map_option (\<lambda>n. - int n) (int_digits False 0 r)
              else if c = 43 then map_option int (int_digits False 0 r)
              else map_option int (int_digits False 0 (c # r)))"

definition trunc_rat :: "rat \<Rightarrow> int" where
  "trunc_rat r = (if r < 0 then - floor (- r) else floor r)"

fun py_int :: "json \<Rightarrow> py_exn + int" where
  "py_int (JBool b) = Inr (if b then 1 else 0)"
| "py_int (JInt i) = Inr i"
| "py_int (JFloat r) = Inr (trunc_rat r)"
| "py_int (JStr s) = (case int_of_str s of None \<Rightarrow> Inl ValueError | Some i \<Rightarrow> Inr i)"
| "py_int _ = Inl TypeError"

text \<open>\<open>x or y\<close>.\<close>

definition py_or :: "json \<Rightarrow> json \<Rightarrow> json" where
  "py_or x y = (if truthy x then x else y)"

text \<open>The values \<open>json.loads\<close> builds: dictionaries have distinct keys.\<close>

fun wf_json :: "json \<Rightarrow> bool" where
  "wf_json (JArr xs) = list_all wf_json xs"
| "wf_json (JObj d) = (distinct (map fst d) \<and> list_all (\<lambda>kv. wf_json (snd kv)) d)"
| "wf_json _ = True"

lemma py_eq_refl: "wf_json v \<Longrightarrow> py_eq v v"
proof (induction v rule: wf_json.induct)
  case (1 xs)
  then show ?case by (auto simp: list_all_iff list_all2_same)
next
  case (2 d)
  then show ?case
    by (auto simp: list_all_iff)
qed simp_all

section \<open>\<open>json.dumps\<close>\<close>

fun dec_nat :: "nat \<Rightarrow> pystr" where
  "dec_nat n = (if n < 10 then [48 + n] else dec_nat (n div 10) @ [48 + n mod 10])"

declare dec_nat.simps [simp del]

lemma dec_nat_digits: "list_all is_digit (dec_nat n)"
proof (induction n rule: dec_nat.induct)
  case (1 n)
  have "is_digit (48 + m)" if "m < 10" for m using that by (simp add: is_digit_def)
  then show ?case using 1 by (subst dec_nat.simps) simp
qed

lemma dec_nat_value: "foldl (\<lambda>v c. v * 10 + (c - 48)) 0 (dec_nat n) = n"
proof (induction n rule: dec_nat.induct)
  case (1 n)
  then show ?case by (subst dec_nat.simps) simp
qed

lemma dec_nat_inject [simp]: "dec_nat m = dec_nat n \<longleftrightarrow> m = n"
  by (metis dec_nat_value)

definition dec_int :: "int \<Rightarrow> pystr" where
  "dec_int i = (if i < 0 then 45 # dec_nat (nat (- i)) else dec_nat (nat i))"

definition hex_digit :: "nat \<Rightarrow> nat" where
  "hex_digit n = (if n < 10 then 48 + n else 87 + n)"

definition hex4 :: "nat \<Rightarrow> pystr" where
  "hex4 n = [92, 117, hex_digit (n div 4096 mod 16), hex_digit (n div 256 mod 16),
     hex_digit (n div 16 mod 16), hex_digit (n mod 16)]"

definition escape_char :: "bool \<Rightarrow> nat \<Rightarrow> pystr" where
  "escape_char ensure_ascii c =
    (if c = 34 then [92, 34] else if c = 92 then [92, 92]
     else if c = 10 then [92, 110] else if c = 13 then [92, 114] else if c = 9 then [92, 116]
     else if c = 12 then [92, 102] else if c = 8 then [92, 98]
     else if c < 32 then hex4 c
     else if ensure_ascii \<and> 126 < c then
       (if c < 65536 then hex4 c
        else hex4 (55296 + (c - 65536) div 1024) @ hex4 (56320 + (c - 65536) mod 1024))
     else [c])"

definition dumps_str :: "bool \<Rightarrow> pystr \<Rightarrow> pystr" where
  "dumps_str ensure_ascii s = [34] @ concat (map (escape_char ensure_ascii) s) @ [34]"

text \<open>
  The encoder's options: \<open>ensure_ascii\<close>, the item and key separators, and how a float is printed
  (\<open>float.__repr__\<close>, left abstract).
\<close>

record dumps_opts =
  ascii :: bool
  item_sep :: pystr
  key_sep :: pystr
  float_repr :: "rat \<Rightarrow> pystr"

fun dumps :: "dumps_opts \<Rightarrow> json \<Rightarrow> pystr" where
  "dumps opt JNull = lit ''null''"
| "dumps opt (JBool b) = (if b then lit ''true'' else lit ''false'')"
| "dumps opt (JInt i) = dec_int i"
| "dumps opt (JFloat r) = float_repr opt r"
| "dumps opt (JStr s) = dumps_str (ascii opt) s"
| "dumps opt (JArr xs) = [91] @ join (item_sep opt) (map (dumps opt) xs) @ [93]"
| "dumps opt (JObj d) = [123] @ join (item_sep opt)
     (map (\<lambda>kv. dumps_str (ascii opt) (fst kv) @ key_sep opt @ dumps opt (snd kv)) d) @ [125]"

text \<open>\<open>separators=(",", ":")\<close> with and without \<open>ensure_ascii\<close>.\<close>

definition compact_opts :: "bool \<Rightarrow> (rat \<Rightarrow> pystr) \<Rightarrow> dumps_opts" where
  "compact_opts a fr = \<lparr>ascii = a, item_sep = [44], key_sep = [58], float_repr = fr\<rparr>"

end
