(* ===== verification/Interfaces.thy ===== *)
theory Interfaces
  imports Prelude
begin

text \<open>
  Contracts that several components share, as locales. Each is interpreted on the components'
  own definitions, in the theory of the component that provides them.
\<close>

section \<open>Allocation of sequence numbers\<close>

text \<open>
  \<open>high\<close> bounds every number that is already in use; an allocation returns a number above it and
  raises it. The event log and the chat mailbox number their records this way.
\<close>

fun allocs :: "('s \<Rightarrow> 's \<times> int) \<Rightarrow> nat \<Rightarrow> 's \<Rightarrow> int list" where
  "allocs alloc 0 s = []"
| "allocs alloc (Suc n) s = (case alloc s of (s', k) \<Rightarrow> k # allocs alloc n s')"

locale seq_allocator =
  fixes alloc :: "'s \<Rightarrow> 's \<times> int"
    and high :: "'s \<Rightarrow> int"
    and inv :: "'s \<Rightarrow> bool"
  assumes alloc_fresh: "inv s \<Longrightarrow> alloc s = (s', k) \<Longrightarrow> high s < k"
    and alloc_high: "inv s \<Longrightarrow> alloc s = (s', k) \<Longrightarrow> k \<le> high s'"
    and alloc_inv: "inv s \<Longrightarrow> alloc s = (s', k) \<Longrightarrow> inv s'"
begin

lemma allocs_above: "inv s \<Longrightarrow> k \<in> set (allocs alloc n s) \<Longrightarrow> high s < k"
proof (induction n arbitrary: s)
  case (Suc n)
  obtain s' k' where a: "alloc s = (s', k')" by fastforce
  with Suc.prems have "k = k' \<or> k \<in> set (allocs alloc n s')" by simp
  then show ?case
  proof
    assume "k = k'"
    then show ?thesis using alloc_fresh [OF Suc.prems(1) a] by simp
  next
    assume "k \<in> set (allocs alloc n s')"
    then have "high s' < k" by (rule Suc.IH [OF alloc_inv [OF Suc.prems(1) a]])
    then show ?thesis
      using alloc_fresh [OF Suc.prems(1) a] alloc_high [OF Suc.prems(1) a] by simp
  qed
qed simp

lemma allocs_increasing: "inv s \<Longrightarrow> sorted_wrt (<) (allocs alloc n s)"
proof (induction n arbitrary: s)
  case (Suc n)
  obtain s' k where a: "alloc s = (s', k)" by fastforce
  have "inv s'" by (rule alloc_inv [OF Suc.prems a])
  moreover from this have "k < j" if "j \<in> set (allocs alloc n s')" for j
    using allocs_above [OF _ that] alloc_high [OF Suc.prems a] by force
  ultimately show ?case using Suc.IH a by simp
qed simp

end

section \<open>Normal forms\<close>

text \<open>
  A parser that maps arbitrary JSON to a normal form and accepts what it produces: re-reading what was
  written back gives the same value, so that a stored value can be told from a foreign one by
  comparing it with its own normal form.
\<close>

locale normal_form =
  fixes norm :: "json \<Rightarrow> 'a" and embed :: "'a \<Rightarrow> json"
  assumes idem: "norm (embed (norm v)) = norm v"
begin

lemma canonical_iff: "norm (embed x) = x \<longleftrightarrow> x \<in> range norm"
  using idem by (metis rangeE rangeI)

lemma norm_rewrites: "((\<lambda>v. embed (norm v)) ^^ Suc n) v = embed (norm v)"
  by (induction n) (simp_all add: idem)

end

section \<open>Stores that only grow\<close>

text \<open>
  Every operation of the store leaves it in a state that extends the one before; whatever \<open>ext\<close>
  promises holds after any sequence of operations. The share stores are used this way.
\<close>

locale growing_store =
  fixes step :: "'o \<Rightarrow> 's \<Rightarrow> 's"
    and ext :: "'s \<Rightarrow> 's \<Rightarrow> bool"
  assumes ext_refl: "ext s s"
    and ext_trans: "ext a b \<Longrightarrow> ext b c \<Longrightarrow> ext a c"
    and step_ext: "ext s (step op s)"
begin

lemma run_ext: "ext s (foldl (\<lambda>s op. step op s) s ops)"
proof (induction ops arbitrary: s)
  case (Cons op ops)
  have "ext s (foldl (\<lambda>s op. step op s) (step op s) ops)" by (rule ext_trans [OF step_ext Cons.IH])
  then show ?case by simp
qed (simp add: ext_refl)

end

section \<open>Schedules\<close>

text \<open>A source of occurrences that only names times after the one it is given. Its clients ask for the time after
  both an occurrence that is spent and the current time.\<close>

locale later_schedule =
  fixes next_at :: "'j \<Rightarrow> rat \<Rightarrow> 'e + rat option"
  assumes next_later: "next_at job t = Inr (Some u) \<Longrightarrow> t < u"
begin

lemma advance_later: "next_at job (max t now) = Inr (Some u) \<Longrightarrow> t < u" "next_at job (max t now) = Inr (Some u) \<Longrightarrow> now < u"
  using next_later by fastforce+

end

end
