(* ===== verification/Event_Log.thy ===== *)
theory Event_Log
  imports Interfaces
begin

text \<open>
  The durable JSONL event log of a chat (\<open>agent_server.py\<close>): sequence numbers, the backwards
  scans over the file in fixed-size chunks, the repair of a torn tail, sequence allocation, durable
  batch appends with rollback, and the sparse checkpoint index \<open>events.idx\<close>.

  A file is its bytes. \<open>json.loads\<close> after \<open>bytes.decode\<close> is a parameter (\<open>codec\<close>), once with the
  error handler \<open>"replace"\<close> and once strict; \<open>None\<close> stands for any exception they raise. Faults of
  the file system enter the operations as explicit outcome arguments.
\<close>

section \<open>Bytes and decoding\<close>

text \<open>\<open>not raw_line.strip()\<close> on bytes.\<close>

definition byte_space :: "byte \<Rightarrow> bool" where
  "byte_space b \<longleftrightarrow> b \<in> {9, 10, 11, 12, 13, 32}"

definition blank :: "bytes \<Rightarrow> bool" where
  "blank b \<longleftrightarrow> list_all byte_space b"

record codec =
  loads_replace :: "bytes \<Rightarrow> json option"
  loads_strict :: "bytes \<Rightarrow> json option"

definition EVENT_CHUNK :: nat where
  "EVENT_CHUNK = 256 * 1024"

lemma EVENT_CHUNK_pos [simp]: "0 < EVENT_CHUNK"
  by (simp add: EVENT_CHUNK_def)

section \<open>Sequence numbers\<close>

definition durable_event_seq :: "json \<Rightarrow> int option" where
  "durable_event_seq event = (case event of
     JObj d \<Rightarrow> (case dget d ''seq'' of JInt v \<Rightarrow> if v \<le> 0 then None else Some v | _ \<Rightarrow> None)
   | _ \<Rightarrow> None)"

text \<open>One line of the scan: blank lines are skipped, exceptions are suppressed.\<close>

definition line_seq :: "codec \<Rightarrow> bytes \<Rightarrow> int option" where
  "line_seq cd raw_line =
     (if blank raw_line then None
      else Option.bind (loads_replace cd raw_line) durable_event_seq)"

fun first_seq_in :: "codec \<Rightarrow> bytes list \<Rightarrow> int option" where
  "first_seq_in cd [] = None"
| "first_seq_in cd (l # ls) = (case line_seq cd l of Some s \<Rightarrow> Some s | None \<Rightarrow> first_seq_in cd ls)"

text \<open>The loop of \<open>last_event_seq_from_file\<close>: \<open>pos\<close> bytes remain, \<open>suffix\<close> is the line fragment
  that crosses the chunk boundary.\<close>

function scan_back :: "codec \<Rightarrow> bytes \<Rightarrow> nat \<Rightarrow> bytes \<Rightarrow> int option" where
  "scan_back cd f pos suffix =
     (if pos = 0 then None
      else
        let chunk_size = min pos EVENT_CHUNK;
            pos' = pos - chunk_size;
            lines = split_on NL (take chunk_size (drop pos' f) @ suffix);
            suffix' = (if 0 < pos' then hd lines else suffix);
            lines' = (if 0 < pos' then tl lines else lines)
        in case first_seq_in cd (rev lines') of
             Some s \<Rightarrow> Some s
           | None \<Rightarrow> scan_back cd f pos' suffix')"
  by pat_completeness auto
termination
  by (relation "measure (\<lambda>(cd, f, pos, suffix). pos)") (auto simp: EVENT_CHUNK_def)

declare scan_back.simps [simp del]

definition last_event_seq_from_file :: "codec \<Rightarrow> bytes option \<Rightarrow> int" where
  "last_event_seq_from_file cd path = (case path of
     None \<Rightarrow> 0
   | Some f \<Rightarrow> (case scan_back cd f (length f) [] of None \<Rightarrow> 0 | Some s \<Rightarrow> s))"

text \<open>The specification: the newest line that decodes to a sequenced event.\<close>

definition last_seq_spec :: "codec \<Rightarrow> bytes \<Rightarrow> int" where
  "last_seq_spec cd f =
     (case first_seq_in cd (rev (split_on NL f)) of None \<Rightarrow> 0 | Some s \<Rightarrow> s)"

section \<open>Newest-first iteration\<close>

definition line_event :: "codec \<Rightarrow> bytes \<Rightarrow> jdict list" where
  "line_event cd raw_line =
     (if blank raw_line then []
      else case loads_replace cd raw_line of Some (JObj d) \<Rightarrow> [d] | _ \<Rightarrow> [])"

function rev_scan :: "codec \<Rightarrow> bytes \<Rightarrow> nat \<Rightarrow> bytes \<Rightarrow> jdict list" where
  "rev_scan cd f position remainder =
     (if position = 0 then line_event cd remainder
      else
        let read_size = min EVENT_CHUNK position;
            position' = position - read_size;
            lines = split_on NL (take read_size (drop position' f) @ remainder)
        in concat (map (line_event cd) (rev (tl lines))) @ rev_scan cd f position' (hd lines))"
  by pat_completeness auto
termination
  by (relation "measure (\<lambda>(cd, f, pos, r). pos)") (auto simp: EVENT_CHUNK_def)

declare rev_scan.simps [simp del]

definition reversed_jsonl_events :: "codec \<Rightarrow> bytes option \<Rightarrow> jdict list" where
  "reversed_jsonl_events cd path =
     (case path of None \<Rightarrow> [] | Some f \<Rightarrow> rev_scan cd f (length f) [])"

section \<open>Repair of a torn tail\<close>

text \<open>\<open>chunk.rfind(b"\n")\<close>.\<close>

definition rfind :: "'a \<Rightarrow> 'a list \<Rightarrow> nat option" where
  "rfind d xs = (if d \<in> set xs
     then Some (length xs - 1 - length (takeWhile (\<lambda>x. x \<noteq> d) (rev xs))) else None)"

function find_line_start :: "bytes \<Rightarrow> nat \<Rightarrow> nat" where
  "find_line_start f cursor =
     (if cursor = 0 then 0
      else
        let chunk_size = min cursor EVENT_CHUNK;
            cursor' = cursor - chunk_size
        in case rfind NL (take chunk_size (drop cursor' f)) of
             Some newline \<Rightarrow> cursor' + newline + 1
           | None \<Rightarrow> find_line_start f cursor')"
  by pat_completeness auto
termination
  by (relation "measure (\<lambda>(f, c). c)") (auto simp: EVENT_CHUNK_def)

declare find_line_start.simps [simp del]

text \<open>The files beside one chat: the log, its inode, and the parsed \<open>events.idx\<close> (\<open>None\<close> when it
  is missing or is not JSON).\<close>

record event_files =
  log_data :: "bytes option"
  log_inode :: int
  log_index :: "json option"

definition repair_event_log_tail :: "codec \<Rightarrow> event_files \<Rightarrow> event_files \<times> int" where
  "repair_event_log_tail cd fs = (case log_data fs of
     None \<Rightarrow> (fs, 0)
   | Some f \<Rightarrow>
       if f = [] then (fs, 0)
       else if last f = NL then (fs, last_event_seq_from_file cd (Some f))
       else
         let line_start = find_line_start f (length f);
             raw_tail = drop line_start f
         in (case Option.bind (loads_strict cd raw_tail) durable_event_seq of
               None \<Rightarrow>
                 let f' = take line_start f
                 in (fs\<lparr>log_data := Some f', log_index := None\<rparr>,
                     last_event_seq_from_file cd (Some f'))
             | Some seq \<Rightarrow> (fs\<lparr>log_data := Some (f @ [NL])\<rparr>, seq)))"

section \<open>Sequence allocation\<close>

record event_store =
  seq_cache :: "pystr \<rightharpoonup> int"
  files :: "pystr \<Rightarrow> event_files"
  sessions :: "pystr \<rightharpoonup> jdict"

definition set_files :: "event_store \<Rightarrow> pystr \<Rightarrow> event_files \<Rightarrow> event_store" where
  "set_files st sid fs = st\<lparr>files := (files st)(sid := fs)\<rparr>"

definition set_cache :: "event_store \<Rightarrow> pystr \<Rightarrow> int \<Rightarrow> event_store" where
  "set_cache st sid seq = st\<lparr>seq_cache := (seq_cache st)(sid \<mapsto> seq)\<rparr>"

text \<open>\<open>session["latest_event_seq"]\<close> when it is an integer, never negative.\<close>

definition stored_event_seq :: "event_store \<Rightarrow> pystr \<Rightarrow> int" where
  "stored_event_seq st sid = (case sessions st sid of
     None \<Rightarrow> 0
   | Some d \<Rightarrow> (case dget d ''latest_event_seq'' of JInt v \<Rightarrow> max 0 v | _ \<Rightarrow> 0))"

text \<open>A repair either completes or raises \<open>OSError\<close>, leaving the files as given.\<close>

type_synonym repair_fault = "event_files option"

definition next_event_seq ::
  "codec \<Rightarrow> repair_fault \<Rightarrow> event_store \<Rightarrow> pystr \<Rightarrow> event_store \<times> (py_exn + int)" where
  "next_event_seq cd fault st sid = (case seq_cache st sid of
     Some seq \<Rightarrow> (set_cache st sid (seq + 1), Inr (seq + 1))
   | None \<Rightarrow> (case fault of
       Some fs' \<Rightarrow> (set_files st sid fs', Inl OSError)
     | None \<Rightarrow>
         let (fs', file_seq) = repair_event_log_tail cd (files st sid);
             seq = max 0 (max file_seq (stored_event_seq st sid)) + 1
         in (set_cache (set_files st sid fs') sid seq, Inr seq)))"

definition reconcile_event_seq_after_failed_write ::
  "codec \<Rightarrow> repair_fault \<Rightarrow> event_store \<Rightarrow> pystr \<Rightarrow> int \<Rightarrow> event_store" where
  "reconcile_event_seq_after_failed_write cd fault st sid consumed_high_water =
     (let cold = st\<lparr>seq_cache := (seq_cache st)(sid := None)\<rparr>
      in case fault of
           Some fs' \<Rightarrow> set_files cold sid fs'
         | None \<Rightarrow>
             let (fs', repaired_seq) = repair_event_log_tail cd (files cold sid)
             in set_cache (set_files cold sid fs') sid
                  (max consumed_high_water (max repaired_seq (stored_event_seq st sid))))"

section \<open>Durable batches\<close>

text \<open>\<open>dict(a, **b)\<close>: later values win, keys keep their place.\<close>

definition dict_merge :: "jdict \<Rightarrow> jdict \<Rightarrow> jdict" where
  "dict_merge a b = foldl (\<lambda>d kv. AList.update (fst kv) (snd kv) d) a b"

text \<open>An event specification: type, payload, and the fresh identifier and time stamp it is given.\<close>

type_synonym event_spec = "pystr \<times> jdict \<times> pystr \<times> pystr"

definition make_event :: "pystr \<Rightarrow> int \<Rightarrow> event_spec \<Rightarrow> jdict" where
  "make_event sid seq spec = (case spec of (event_type, payload, ident, ts) \<Rightarrow>
     dict_merge
       [(lit ''seq'', JInt seq), (lit ''id'', JStr ident), (lit ''session_id'', JStr sid),
        (lit ''type'', JStr event_type), (lit ''ts'', JStr ts)] payload)"

fun make_events :: "pystr \<Rightarrow> int \<Rightarrow> event_spec list \<Rightarrow> jdict list" where
  "make_events sid first_seq [] = []"
| "make_events sid first_seq (s # ss) = make_event sid first_seq s # make_events sid (first_seq + 1) ss"

text \<open>\<open>json.dumps(event, separators=(",", ":")) + "\n"\<close>: ASCII, so one byte per character.\<close>

definition event_line :: "(rat \<Rightarrow> pystr) \<Rightarrow> jdict \<Rightarrow> bytes" where
  "event_line fr d = map of_nat (dumps (compact_opts True fr) (JObj d)) @ [NL]"

text \<open>A write completes and is synced, fails to open the file, or fails after some bytes; then the
  rollback may fail too.\<close>

datatype write_outcome = Written | OpenFailed | WriteFailed bytes bool

definition append_durable_event_batch_sync ::
  "(rat \<Rightarrow> pystr) \<Rightarrow> write_outcome \<Rightarrow> bytes option \<Rightarrow> jdict list \<Rightarrow> bytes option \<times> bool" where
  "append_durable_event_batch_sync fr outcome path events =
     (let original = (case path of None \<Rightarrow> [] | Some f \<Rightarrow> f);
          original_size = length original
      in case outcome of
           Written \<Rightarrow> (Some (original @ concat (map (event_line fr) events)), True)
         | OpenFailed \<Rightarrow> (path, False)
         | WriteFailed partial rolled_back \<Rightarrow>
             (Some (if rolled_back then take original_size (original @ partial)
                    else original @ partial), False))"

datatype append_error = ArtifactPublicationError | WriteError | AppendRaised py_exn

definition append_durable_event_batch_locked ::
  "codec \<Rightarrow> (rat \<Rightarrow> pystr) \<Rightarrow> pystr set \<Rightarrow> repair_fault \<Rightarrow> write_outcome \<Rightarrow> repair_fault
    \<Rightarrow> event_store \<Rightarrow> pystr \<Rightarrow> event_spec list \<Rightarrow> event_store \<times> (append_error + jdict list)" where
  "append_durable_event_batch_locked cd fr deleting fault1 outcome fault2 st sid specs =
     (if specs = [] then (st, Inr [])
      else if sid \<in> deleting then (st, Inl ArtifactPublicationError)
      else case next_event_seq cd fault1 st sid of
        (st1, Inl e) \<Rightarrow> (st1, Inl (AppendRaised e))
      | (st1, Inr first_seq) \<Rightarrow>
          let events = make_events sid first_seq specs;
              (data, committed) = append_durable_event_batch_sync fr outcome
                                    (log_data (files st1 sid)) events;
              st2 = set_files st1 sid ((files st1 sid)\<lparr>log_data := data\<rparr>)
          in if committed then
               (case py_int (dget (last events) ''seq'') of
                  Inl e \<Rightarrow> (st2, Inl (AppendRaised e))
                | Inr seq \<Rightarrow> (set_cache st2 sid seq, Inr events))
             else
               (reconcile_event_seq_after_failed_write cd fault2 st2 sid (first_seq - 1),
                Inl WriteError))"

section \<open>The sparse index\<close>



text \<open>\<open>item[i]\<close> on a decoded value; a JSON object has no integer keys.\<close>

definition py_item :: "json \<Rightarrow> nat \<Rightarrow> py_exn + json" where
  "py_item v i = (case v of
     JArr xs \<Rightarrow> if i < length xs then Inr (xs ! i) else Inl IndexError
   | JStr s \<Rightarrow> if i < length s then Inr (JStr [s ! i]) else Inl IndexError
   | JObj _ \<Rightarrow> Inl KeyError
   | _ \<Rightarrow> Inl TypeError)"

text \<open>\<open>int(item[0]), int(item[1])\<close>; \<open>TypeError\<close>, \<open>ValueError\<close> and \<open>IndexError\<close> are caught by the caller.\<close>

definition index_item :: "json \<Rightarrow> py_exn + (int \<times> int)" where
  "index_item item = ebind (ebind (py_item item 0) py_int)
     (\<lambda>seq. ebind (ebind (py_item item 1) py_int) (\<lambda>offset. Inr (seq, offset)))"

fun index_entries ::
  "int \<Rightarrow> int \<Rightarrow> int \<Rightarrow> (int \<times> int) list \<Rightarrow> json list \<Rightarrow> py_exn + (int \<times> int) list option" where
  "index_entries st_size pseq poff acc [] = Inr (Some (rev acc))"
| "index_entries st_size pseq poff acc (item # items) = (case index_item item of
     Inl e \<Rightarrow> if e \<in> {TypeError, ValueError, IndexError} then Inr None else Inl e
   | Inr (seq, offset) \<Rightarrow>
       if seq \<le> pseq \<or> offset \<le> poff \<or> st_size \<le> offset then Inr None
       else index_entries st_size seq offset ((seq, offset) # acc) items)"

definition read_event_index :: "event_files \<Rightarrow> py_exn + (int \<times> int) list option" where
  "read_event_index fs = (case (log_index fs, log_data fs) of
     (Some (JObj raw), Some f) \<Rightarrow>
       if \<not> py_eq (dget raw ''version'') (JInt 1)
          \<or> \<not> py_eq (dget raw ''inode'') (JInt (log_inode fs)) then Inr None
       else (case dget raw ''entries'' of
               JArr items \<Rightarrow> index_entries (int (length f)) 0 (-1) [] items
             | _ \<Rightarrow> Inr None)
   | _ \<Rightarrow> Inr None)"

definition write_event_index :: "event_files \<Rightarrow> (int \<times> int) list \<Rightarrow> event_files" where
  "write_event_index fs entries = (case log_data fs of
     None \<Rightarrow> fs
   | Some _ \<Rightarrow> fs\<lparr>log_index := Some (JObj
       [(lit ''version'', JInt 1), (lit ''inode'', JInt (log_inode fs)),
        (lit ''entries'', JArr (map (\<lambda>e. JArr [JInt (fst e), JInt (snd e)]) entries))])\<rparr>)"

definition record_event_index_entry :: "event_files \<Rightarrow> int \<Rightarrow> int \<Rightarrow> py_exn + event_files" where
  "record_event_index_entry fs seq offset = ebind (read_event_index fs)
     (\<lambda>es. Inr (write_event_index fs
        (filter (\<lambda>e. fst e < seq \<and> snd e < offset) (case es of None \<Rightarrow> [] | Some l \<Rightarrow> l)
         @ [(seq, offset)])))"

text \<open>\<open>re.compile(rb'^\s*\{"seq":\s*(\d+)').match(raw_line)\<close>.\<close>

definition seq_key :: bytes where
  "seq_key = [123, 34, 115, 101, 113, 34, 58]"

definition byte_digit :: "byte \<Rightarrow> bool" where
  "byte_digit b \<longleftrightarrow> 48 \<le> b \<and> b \<le> 57"

definition match_line_seq :: "bytes \<Rightarrow> int option" where
  "match_line_seq raw_line =
     (let s = dropWhile byte_space raw_line
      in if take 7 s \<noteq> seq_key then None
         else let ds = takeWhile byte_digit (dropWhile byte_space (drop 7 s))
              in if ds = [] then None
                 else Some (foldl (\<lambda>n b. n * 10 + (uint b - 48)) 0 ds))"

definition index_line_seq :: "codec \<Rightarrow> bytes \<Rightarrow> int option" where
  "index_line_seq cd raw_line = (case match_line_seq raw_line of
     Some seq \<Rightarrow> Some seq
   | None \<Rightarrow> (case loads_replace cd raw_line of
       Some (JObj d) \<Rightarrow> (case py_int (py_or (dget d ''seq'') (JInt 0)) of Inl _ \<Rightarrow> None | Inr s \<Rightarrow> Some s)
     | _ \<Rightarrow> None))"

text \<open>Iterating a file yields its lines with their terminators.\<close>

fun file_lines :: "bytes \<Rightarrow> bytes list" where
  "file_lines [] = []"
| "file_lines (b # s) =
     (if b = NL then [NL] # file_lines s
      else case file_lines s of [] \<Rightarrow> [[b]] | l # ls \<Rightarrow> (b # l) # ls)"









section \<open>Splitting lemmas\<close>

lemma split_on_append_hd:
  "split_on d (a @ b) = split_on d (a @ hd (split_on d b)) @ tl (split_on d b)"
proof (induction a)
  case Nil
  have "d \<notin> set (hd (split_on d b))"
    by (induction b) (auto split: list.splits)
  moreover have "d \<notin> set p \<Longrightarrow> split_on d p = [p]" for p :: "'a list"
    by (induction p) auto
  ultimately show ?case
    by simp
next
  case (Cons c a)
  then show ?case
    by (auto split: list.splits simp: Cons_eq_append_conv)
qed

lemma first_seq_in_append:
  "first_seq_in cd (xs @ ys) =
     (case first_seq_in cd xs of Some s \<Rightarrow> Some s | None \<Rightarrow> first_seq_in cd ys)"
  by (induction xs) (auto split: option.splits)

lemma take_chunk: "n \<le> length f \<Longrightarrow> m \<le> n \<Longrightarrow> take (n - m) f @ take m (drop (n - m) f) = take n f"
  by (metis add_diff_cancel_left' diff_diff_cancel diff_le_self le_add_diff_inverse2 take_add)

section \<open>The chunked scans are the reference scans\<close>

lemma scan_back_0 [simp]: "scan_back cd f 0 suf = None"
  by (subst scan_back.simps) simp

lemma scan_back_eq:
  assumes "0 < pos" "pos \<le> length f"
  shows "scan_back cd f pos suf = first_seq_in cd (rev (split_on NL (take pos f @ suf)))"
  using assms
proof (induction pos arbitrary: suf rule: less_induct)
  case (less pos)
  define m where "m = min pos EVENT_CHUNK"
  define ls where "ls = split_on NL (take m (drop (pos - m) f) @ suf)"
  have m: "0 < m" "m \<le> pos"
    using less.prems by (auto simp: m_def)
  have whole: "take pos f @ suf = take (pos - m) f @ (take m (drop (pos - m) f) @ suf)"
    using take_chunk [of pos f m] m less.prems by simp
  show ?case
  proof (cases "pos - m = 0")
    case True
    then have mp: "m = pos" using m by simp
    have "scan_back cd f pos suf =
      (case first_seq_in cd (rev ls) of Some s \<Rightarrow> Some s | None \<Rightarrow> None)"
      using less.prems
      by (subst scan_back.simps, unfold m_def [symmetric] ls_def, unfold mp)
        (simp add: Let_def split: option.splits)
    also have "ls = split_on NL (take pos f @ suf)"
      using True by (simp add: ls_def whole)
    finally show ?thesis
      by (simp split: option.splits)
  next
    case False
    have split: "split_on NL (take pos f @ suf) = split_on NL (take (pos - m) f @ hd ls) @ tl ls"
      unfolding whole ls_def by (rule split_on_append_hd)
    have IH: "scan_back cd f (pos - m) (hd ls) =
        first_seq_in cd (rev (split_on NL (take (pos - m) f @ hd ls)))"
      using False m less.prems by (intro less.IH) auto
    have "scan_back cd f pos suf = (case first_seq_in cd (rev (tl ls)) of
        Some s \<Rightarrow> Some s | None \<Rightarrow> scan_back cd f (pos - m) (hd ls))"
      using less.prems False
      by (subst scan_back.simps, unfold m_def [symmetric] ls_def) (simp add: Let_def)
    then show ?thesis
      by (simp add: IH split first_seq_in_append split: option.splits)
  qed
qed

lemma last_event_seq_eq_spec: "last_event_seq_from_file cd (Some f) = last_seq_spec cd f"
proof (cases "f = []")
  case True
  then show ?thesis
    by (simp add: last_event_seq_from_file_def last_seq_spec_def line_seq_def blank_def)
next
  case False
  then show ?thesis
    by (simp add: last_event_seq_from_file_def last_seq_spec_def scan_back_eq)
qed

lemma rev_scan_0 [simp]: "rev_scan cd f 0 r = line_event cd r"
  by (subst rev_scan.simps) simp

lemma rev_scan_eq:
  assumes "pos \<le> length f"
  shows "rev_scan cd f pos r = concat (map (line_event cd) (rev (split_on NL (take pos f @ r))))
    \<or> (pos = 0 \<and> NL \<in> set r)"
  using assms
proof (induction pos arbitrary: r rule: less_induct)
  case (less pos)
  show ?case
  proof (cases "pos = 0")
    case True
    then show ?thesis
      by (cases "NL \<in> set r") (simp_all add: split_on_no_sep)
  next
    case False
    define m where "m = min EVENT_CHUNK pos"
    define ls where "ls = split_on NL (take m (drop (pos - m) f) @ r)"
    have m: "0 < m" "m \<le> pos"
      using False by (auto simp: m_def)
    have whole: "take pos f @ r = take (pos - m) f @ (take m (drop (pos - m) f) @ r)"
      using take_chunk [of pos f m] m less.prems by simp
    have split: "split_on NL (take pos f @ r) = split_on NL (take (pos - m) f @ hd ls) @ tl ls"
      unfolding whole ls_def by (rule split_on_append_hd)
    have "NL \<notin> set (hd (split_on NL xs))" for xs
      by (induction xs) (auto split: list.splits)
    then have "NL \<notin> set (hd ls)"
      by (simp add: ls_def)
    then have IH: "rev_scan cd f (pos - m) (hd ls) =
        concat (map (line_event cd) (rev (split_on NL (take (pos - m) f @ hd ls))))"
      using less.IH [of "pos - m" "hd ls"] m less.prems by auto
    have "rev_scan cd f pos r =
      concat (map (line_event cd) (rev (tl ls))) @ rev_scan cd f (pos - m) (hd ls)"
      using False by (subst rev_scan.simps, unfold m_def [symmetric] ls_def) (simp add: Let_def)
    then show ?thesis
      by (simp add: IH split)
  qed
qed

lemma reversed_jsonl_events_eq:
  "reversed_jsonl_events cd (Some f) = rev (concat (map (line_event cd) (split_on NL f)))"
proof -
  have "rev \<circ> line_event cd = line_event cd"
    by (rule ext) (auto simp: line_event_def split: option.splits json.splits)
  then show ?thesis
    using rev_scan_eq [of "length f" f cd "[]"]
    by (simp add: reversed_jsonl_events_def rev_concat rev_map)
qed

section \<open>Tail repair\<close>

lemma rfind_Some:
  assumes "rfind d xs = Some i"
  shows "i < length xs" "xs ! i = d" "d \<notin> set (drop (Suc i) xs)"
proof -
  define n where "n = length (takeWhile (\<lambda>x. x \<noteq> d) (rev xs))"
  have d: "d \<in> set xs" and i: "i = length xs - 1 - n"
    using assms by (auto simp: rfind_def n_def split: if_splits)
  have n: "n < length xs"
  proof -
    have "n \<noteq> length xs"
    proof
      assume "n = length xs"
      then have "takeWhile (\<lambda>x. x \<noteq> d) (rev xs) = rev xs"
        by (metis length_rev n_def order_refl take_all takeWhile_eq_take)
      with d show False
        by (metis (full_types) set_rev set_takeWhileD)
    qed
    then show ?thesis
      using length_takeWhile_le [of "\<lambda>x. x \<noteq> d" "rev xs"] by (simp add: n_def)
  qed
  have "\<not> (rev xs ! n \<noteq> d)"
    using n nth_length_takeWhile [of "\<lambda>x. x \<noteq> d" "rev xs"] by (simp add: n_def)
  with n i show "i < length xs" "xs ! i = d"
    by (auto simp: rev_nth)
  have "drop (Suc i) xs = rev (take n (rev xs))"
    using n i by (simp add: rev_take Suc_diff_Suc)
  also have "take n (rev xs) = takeWhile (\<lambda>x. x \<noteq> d) (rev xs)"
    by (simp add: n_def takeWhile_eq_take [symmetric])
  finally have "drop (Suc i) xs = rev (takeWhile (\<lambda>x. x \<noteq> d) (rev xs))" .
  then show "d \<notin> set (drop (Suc i) xs)"
    by (auto dest: set_takeWhileD)
qed

lemma find_line_start_props:
  assumes "cursor \<le> length f" "NL \<notin> set (drop cursor f)"
  shows "find_line_start f cursor \<le> cursor \<and> NL \<notin> set (drop (find_line_start f cursor) f)
    \<and> (find_line_start f cursor = 0 \<or> f ! (find_line_start f cursor - 1) = NL)"
  using assms
proof (induction f cursor rule: find_line_start.induct)
  case (1 f cursor)
  show ?case
  proof (cases "cursor = 0")
    case True
    with "1.prems" show ?thesis by (simp add: find_line_start.simps)
  next
    case False
    define m where "m = min cursor EVENT_CHUNK"
    define c where "c = cursor - m"
    define chunk where "chunk = take m (drop c f)"
    have m: "m \<le> cursor" "0 < m" using False by (auto simp: m_def)
    have len: "length chunk = m" using m "1.prems" by (simp add: chunk_def c_def)
    have dropc: "drop c f = chunk @ drop cursor f"
      using m by (simp add: chunk_def c_def) (metis append_take_drop_id drop_drop le_add_diff_inverse)
    have unf: "find_line_start f cursor = (case rfind NL chunk of
        Some newline \<Rightarrow> c + newline + 1 | None \<Rightarrow> find_line_start f c)"
      using False by (subst find_line_start.simps, unfold m_def [symmetric] c_def chunk_def)
        (simp add: Let_def)
    show ?thesis
    proof (cases "rfind NL chunk")
      case None
      then have "NL \<notin> set (drop c f)"
        using "1.prems" by (simp add: dropc rfind_def split: if_splits)
      moreover have "rfind NL (take (min cursor EVENT_CHUNK) (drop (cursor - min cursor EVENT_CHUNK) f)) = None"
        using None by (simp add: chunk_def c_def m_def)
      ultimately have "find_line_start f c \<le> c \<and> NL \<notin> set (drop (find_line_start f c) f)
          \<and> (find_line_start f c = 0 \<or> f ! (find_line_start f c - 1) = NL)"
        using "1.IH" [OF False refl refl] "1.prems" m False by (simp add: c_def m_def)
      then show ?thesis
        using None unf by (auto simp: c_def)
    next
      case (Some i)
      note i = rfind_Some [OF Some]
      have nth: "f ! (c + i) = NL"
      proof -
        have "drop c f ! i = NL"
          using i len by (simp add: dropc nth_append)
        then show ?thesis
          using i len m "1.prems" by (simp add: c_def)
      qed
      have "drop (c + i + 1) f = drop (Suc i) (drop c f)"
        by (simp add: add.commute)
      also have "\<dots> = drop (Suc i) chunk @ drop cursor f"
        using i by (simp add: dropc)
      finally have "NL \<notin> set (drop (c + i + 1) f)"
        using i "1.prems" by auto
      then show ?thesis
        using Some unf nth i len m by (simp add: c_def)
    qed
  qed
qed

text \<open>The newline-terminated lines of a file: the records that were completely written.\<close>

definition complete_lines :: "bytes \<Rightarrow> bytes list" where
  "complete_lines f = butlast (split_on NL f)"

definition terminated :: "bytes \<Rightarrow> bool" where
  "terminated f \<longleftrightarrow> f = [] \<or> last f = NL"

definition log_terminated :: "bytes option \<Rightarrow> bool" where
  "log_terminated data = (case data of None \<Rightarrow> True | Some f \<Rightarrow> terminated f)"

lemma split_on_terminated: "terminated f \<Longrightarrow> split_on NL f = complete_lines f @ [[]]"
proof -
  assume "terminated f"
  then show ?thesis
  proof (cases f rule: rev_cases)
    case (snoc g b)
    with \<open>terminated f\<close> have "f = g @ [NL]" by (simp add: terminated_def)
    then show ?thesis
      by (simp add: complete_lines_def split_on_append_sep butlast_append)
  qed (simp add: complete_lines_def)
qed

lemma complete_lines_snoc: "NL \<notin> set t \<Longrightarrow> terminated f \<Longrightarrow> complete_lines (f @ t) = complete_lines f"
  "NL \<notin> set t \<Longrightarrow> terminated f \<Longrightarrow> complete_lines (f @ t @ [NL]) = complete_lines f @ [t]"
proof -
  assume t: "NL \<notin> set t" and f: "terminated f"
  have split: "split_on NL (f @ t) = complete_lines f @ [t]"
  proof (cases f rule: rev_cases)
    case Nil
    then show ?thesis using t by (simp add: complete_lines_def split_on_no_sep)
  next
    case (snoc g b)
    with f have "f = g @ [NL]" by (simp add: terminated_def)
    with t show ?thesis
      by (simp add: complete_lines_def split_on_append_sep split_on_no_sep butlast_append)
  qed
  then show "complete_lines (f @ t) = complete_lines f"
    by (simp add: complete_lines_def [of "f @ t"])
  have "split_on NL (f @ t @ [NL]) = split_on NL (f @ t) @ [[]]"
    using split_on_append_sep [of NL "f @ t" "[]"] by simp
  then show "complete_lines (f @ t @ [NL]) = complete_lines f @ [t]"
    by (simp add: complete_lines_def [of "f @ t @ [NL]"] split butlast_append)
qed

lemma split_tail:
  assumes "s = find_line_start f (length f)"
  shows "terminated (take s f)" "NL \<notin> set (drop s f)"
proof -
  have p: "s \<le> length f \<and> NL \<notin> set (drop s f) \<and> (s = 0 \<or> f ! (s - 1) = NL)"
    using find_line_start_props [of "length f" f] assms by simp
  then show "NL \<notin> set (drop s f)" by simp
  show "terminated (take s f)"
    using p by (cases s) (auto simp: terminated_def take_Suc_conv_app_nth)
qed

text \<open>What the code relies on of the decoder: text that decodes strictly decodes the same with
  the replacing handler, and \<open>json.loads\<close> refuses blank input.\<close>

definition codec_agrees :: "codec \<Rightarrow> bool" where
  "codec_agrees cd \<longleftrightarrow>
     (\<forall>b v. loads_strict cd b = Some v \<longrightarrow> loads_replace cd b = Some v \<and> \<not> blank b)"

lemma line_seq_Nil [simp]: "line_seq cd [] = None"
  by (simp add: line_seq_def blank_def)

lemma last_seq_spec_snoc:
  assumes "NL \<notin> set t" "terminated f" "line_seq cd t = Some s"
  shows "last_seq_spec cd (f @ t @ [NL]) = s"
  using complete_lines_snoc(2) [OF assms(1,2)] assms(3)
    split_on_terminated [of "f @ t @ [NL]"]
  by (simp add: last_seq_spec_def terminated_def)

lemma repair_cases:
  assumes "repair_event_log_tail cd fs = (fs', seq)" "log_data fs = Some f" "codec_agrees cd"
  obtains (kept) "terminated f" "log_data fs' = Some f" "seq = last_seq_spec cd f"
      "log_index fs' = log_index fs"
  | (cut) s where "\<not> terminated f" "s = find_line_start f (length f)"
      "log_data fs' = Some (take s f)" "seq = last_seq_spec cd (take s f)" "log_index fs' = None"
  | (completed) s where "\<not> terminated f" "s = find_line_start f (length f)"
      "log_data fs' = Some (f @ [NL])" "line_seq cd (drop s f) = Some seq"
      "seq = last_seq_spec cd (f @ [NL])" "log_index fs' = log_index fs"
proof (cases "terminated f")
  case True
  show ?thesis
  proof (rule kept)
    show "log_data fs' = Some f" "log_index fs' = log_index fs"
      using assms(1,2) True by (auto simp: repair_event_log_tail_def terminated_def split: if_splits)
    show "seq = last_seq_spec cd f"
      using assms(1,2) True
      by (auto simp: repair_event_log_tail_def terminated_def last_event_seq_eq_spec split: if_splits)
        (simp add: last_seq_spec_def)
  qed (rule True)
next
  case False
  define s where "s = find_line_start f (length f)"
  note tail = split_tail [OF s_def]
  have ne: "f \<noteq> []" "last f \<noteq> NL" using False by (auto simp: terminated_def)
  show ?thesis
  proof (cases "Option.bind (loads_strict cd (drop s f)) durable_event_seq")
    case None
    then show ?thesis
      using assms(1,2) ne False
      by (intro cut [of s]) (auto simp: repair_event_log_tail_def s_def Let_def last_event_seq_eq_spec)
  next
    case (Some q)
    then have "line_seq cd (drop s f) = Some q"
      using assms(3) by (auto simp: line_seq_def codec_agrees_def bind_eq_Some_conv)
    moreover from this have "last_seq_spec cd (f @ [NL]) = q"
      using last_seq_spec_snoc [OF tail(2,1)] by (metis append_assoc append_take_drop_id)
    ultimately show ?thesis
      using assms(1,2) ne False Some
      by (intro completed [of s]) (auto simp: repair_event_log_tail_def s_def Let_def)
  qed
qed

lemma repair_terminated:
  assumes "repair_event_log_tail cd fs = (fs', seq)" "log_data fs = Some f" "codec_agrees cd"
  shows "\<exists>f'. log_data fs' = Some f' \<and> terminated f' \<and> seq = last_seq_spec cd f'
    \<and> (complete_lines f' = complete_lines f
       \<or> (\<exists>t. complete_lines f' = complete_lines f @ [t] \<and> line_seq cd t = Some seq \<and> f' = f @ [NL]))"
  using assms
proof (cases rule: repair_cases)
  case (cut s)
  note t = split_tail [OF cut(2)]
  have "complete_lines f = complete_lines (take s f)"
    using complete_lines_snoc(1) [OF t(2,1)] by simp
  with cut t show ?thesis by auto
next
  case (completed s)
  note t = split_tail [OF completed(2)]
  have "complete_lines f = complete_lines (take s f)"
    using complete_lines_snoc(1) [OF t(2,1)] by simp
  moreover have "complete_lines (f @ [NL]) = complete_lines (take s f) @ [drop s f]"
    using complete_lines_snoc(2) [OF t(2,1)] by (metis append_assoc append_take_drop_id)
  ultimately show ?thesis
    using completed by (auto simp: terminated_def)
qed auto

lemma repair_None: "log_data fs = None \<Longrightarrow> repair_event_log_tail cd fs = (fs, 0)"
  by (simp add: repair_event_log_tail_def)

lemma repair_seq:
  assumes "repair_event_log_tail cd fs = (fs', seq)" "codec_agrees cd"
  shows "seq = last_event_seq_from_file cd (log_data fs')" "log_terminated (log_data fs')"
proof -
  have "seq = last_event_seq_from_file cd (log_data fs') \<and> log_terminated (log_data fs')"
  proof (cases "log_data fs")
    case None
    with assms show ?thesis
      by (auto simp: repair_None last_event_seq_from_file_def log_terminated_def)
  next
    case (Some f)
    with repair_terminated [OF assms(1) Some assms(2)] show ?thesis
      by (auto simp: last_event_seq_eq_spec log_terminated_def)
  qed
  then show "seq = last_event_seq_from_file cd (log_data fs')" "log_terminated (log_data fs')"
    by simp_all
qed

section \<open>Sequence allocation\<close>

text \<open>The high-water mark of a chat: a cached number, or what a cold start would find.\<close>

definition event_high :: "codec \<Rightarrow> pystr \<Rightarrow> event_store \<Rightarrow> int" where
  "event_high cd sid st = (case seq_cache st sid of
     Some c \<Rightarrow> c
   | None \<Rightarrow> max 0 (max (snd (repair_event_log_tail cd (files st sid))) (stored_event_seq st sid)))"

text \<open>A warm cache is never behind the log, and then the log ends at a record boundary.\<close>

definition cache_ok :: "codec \<Rightarrow> pystr \<Rightarrow> event_store \<Rightarrow> bool" where
  "cache_ok cd sid st \<longleftrightarrow> (\<forall>c. seq_cache st sid = Some c \<longrightarrow>
     last_event_seq_from_file cd (log_data (files st sid)) \<le> c
     \<and> log_terminated (log_data (files st sid)))"


lemma store_upd_simps [simp]:
  "files (set_files st sid fs) = (files st)(sid := fs)"
  "seq_cache (set_files st sid fs) = seq_cache st"
  "sessions (set_files st sid fs) = sessions st"
  "files (set_cache st sid n) = files st"
  "seq_cache (set_cache st sid n) = (seq_cache st)(sid \<mapsto> n)"
  "sessions (set_cache st sid n) = sessions st"
  by (simp_all add: set_files_def set_cache_def)



lemma next_event_seq_fresh:
  assumes "next_event_seq cd fault st sid = (st', Inr seq)" "cache_ok cd sid st" "codec_agrees cd"
  shows "last_event_seq_from_file cd (log_data (files st' sid)) < seq \<and> seq_cache st' sid = Some seq
    \<and> log_terminated (log_data (files st' sid))"
proof (cases "seq_cache st sid")
  case (Some c)
  with assms show ?thesis by (auto simp: next_event_seq_def cache_ok_def)
next
  case None
  obtain fs' q where r: "repair_event_log_tail cd (files st sid) = (fs', q)" by fastforce
  with assms None repair_seq [OF r assms(3)] show ?thesis
    by (auto simp: next_event_seq_def Let_def split: option.splits)
qed


section \<open>Durable batches\<close>

lemma length_make_events [simp]: "length (make_events sid n ss) = length ss"
  by (induction ss arbitrary: n) auto

lemma make_events_Nil_iff [simp]: "make_events sid n ss = [] \<longleftrightarrow> ss = []"
  by (cases ss) auto

lemma make_events_nth:
  "i < length ss \<Longrightarrow> make_events sid n ss ! i = make_event sid (n + int i) (ss ! i)"
  by (induction ss arbitrary: n i) (auto simp: nth_Cons' algebra_simps of_nat_diff)

lemma map_of_dict_merge:
  "map_of (dict_merge a b) k = (case map_of (rev b) k of Some v \<Rightarrow> Some v | None \<Rightarrow> map_of a k)"
proof (induction b arbitrary: a rule: rev_induct)
  case (snoc kv b)
  have "dict_merge a (b @ [kv]) = AList.update (fst kv) (snd kv) (dict_merge a b)"
    by (simp add: dict_merge_def)
  with snoc show ?case
    by (cases kv) (auto simp: update_conv' split: option.splits)
qed (simp add: dict_merge_def)

lemma dget_dict_merge_other: "\<not> dhas b k \<Longrightarrow> dget (dict_merge a b) k = dget a k"
proof -
  assume "\<not> dhas b k"
  then have "map_of (rev b) (lit k) = None" by (simp add: dhas_def map_of_eq_None_iff)
  then show ?thesis by (simp add: dget_def map_of_dict_merge)
qed

lemma make_event_seq:
  "\<not> dhas (fst (snd spec)) ''seq'' \<Longrightarrow> dget (make_event sid n spec) ''seq'' = JInt n"
  by (cases spec) (simp add: make_event_def dget_dict_merge_other)

text \<open>A serialised event is printable ASCII, so it holds no newline.\<close>

definition printable :: "pystr \<Rightarrow> bool" where
  "printable s \<longleftrightarrow> (\<forall>c \<in> set s. 32 \<le> c \<and> c < 127)"

lemma printable_simps [simp]:
  "printable []" "printable (c # s) \<longleftrightarrow> 32 \<le> c \<and> c < 127 \<and> printable s"
  "printable (s @ t) \<longleftrightarrow> printable s \<and> printable t"
  by (auto simp: printable_def)

lemma printable_dec_nat: "printable (dec_nat n)"
proof (induction n rule: dec_nat.induct)
  case (1 n)
  have "n mod 10 < 79" using mod_less_divisor [of 10 n] by linarith
  with 1 show ?case by (subst dec_nat.simps) simp
qed

lemma printable_hex4: "printable (hex4 n)"
proof -
  have "m < 16 \<Longrightarrow> 32 \<le> hex_digit m \<and> hex_digit m < 127" for m
    by (simp add: hex_digit_def)
  then show ?thesis by (simp add: hex4_def)
qed

lemma printable_escape: "printable (escape_char True c)"
  using printable_hex4 by (simp add: escape_char_def)

lemma printable_concat: "(\<And>x. x \<in> set xs \<Longrightarrow> printable x) \<Longrightarrow> printable (concat xs)"
  by (induction xs) auto

lemma printable_join: "printable sep \<Longrightarrow> (\<And>x. x \<in> set xs \<Longrightarrow> printable x) \<Longrightarrow> printable (join sep xs)"
  by (induction sep xs rule: join.induct) auto

lemma printable_dumps_str: "printable (dumps_str True s)"
  by (auto simp: dumps_str_def intro!: printable_concat printable_escape)

lemma printable_dumps:
  assumes "\<And>r. printable (fr r)"
  shows "printable (dumps (compact_opts True fr) v)"
  using assms
proof (induction "compact_opts True fr" v rule: dumps.induct)
  case (6 xs)
  then show ?case by (auto intro!: printable_join simp: compact_opts_def)
next
  case (7 d)
  then show ?case
    by (auto intro!: printable_join printable_dumps_str simp: compact_opts_def)
qed (auto simp: lit_def dec_int_def printable_dec_nat printable_dumps_str compact_opts_def)

lemma event_line_no_NL:
  assumes "\<And>r. printable (fr r)"
  shows "\<exists>l. event_line fr d = l @ [NL] \<and> NL \<notin> set l"
proof -
  have "of_nat c \<noteq> NL" if "32 \<le> c" "c < 127" for c
  proof
    assume "of_nat c = NL"
    then have "unat (of_nat c :: byte) = 10" by simp
    with that show False by (simp add: unat_of_nat)
  qed
  then have "NL \<notin> set (map of_nat (dumps (compact_opts True fr) (JObj d)))"
    using printable_dumps [where fr = fr and v = "JObj d", OF assms] by (fastforce simp: printable_def)
  then show ?thesis by (simp add: event_line_def)
qed

lemma complete_lines_concat:
  "terminated f \<Longrightarrow> (\<And>l. l \<in> set ls \<Longrightarrow> NL \<notin> set l) \<Longrightarrow>
    complete_lines (f @ concat (map (\<lambda>l. l @ [NL]) ls)) = complete_lines f @ ls
    \<and> terminated (f @ concat (map (\<lambda>l. l @ [NL]) ls))"
proof (induction ls arbitrary: f)
  case (Cons l ls)
  have "complete_lines (f @ l @ [NL]) = complete_lines f @ [l]"
    by (rule complete_lines_snoc(2)) (use Cons.prems in auto)
  moreover have "terminated (f @ l @ [NL])"
    by (simp add: terminated_def)
  ultimately show ?case
    using Cons.IH [of "f @ l @ [NL]"] Cons.prems by simp
qed simp

definition log_bytes :: "bytes option \<Rightarrow> bytes" where
  "log_bytes data = (case data of None \<Rightarrow> [] | Some f \<Rightarrow> f)"

lemma last_seq_spec_complete:
  "terminated f \<Longrightarrow> complete_lines f = ls @ [l] \<Longrightarrow> line_seq cd l = Some s \<Longrightarrow> last_seq_spec cd f = s"
  by (simp add: last_seq_spec_def split_on_terminated)

text \<open>The written lines are the serialised events, each decoded back by the reader.\<close>

definition event_body :: "(rat \<Rightarrow> pystr) \<Rightarrow> jdict \<Rightarrow> bytes" where
  "event_body fr d = map of_nat (dumps (compact_opts True fr) (JObj d))"

lemma event_line_body: "event_line fr d = event_body fr d @ [NL]"
  by (simp add: event_line_def event_body_def)

lemma event_line_eq: "event_line fr = (\<lambda>d. event_body fr d @ [NL])"
  by (rule ext) (rule event_line_body)

definition reads_back :: "codec \<Rightarrow> (rat \<Rightarrow> pystr) \<Rightarrow> jdict \<Rightarrow> bool" where
  "reads_back cd fr e \<longleftrightarrow> loads_replace cd (event_body fr e) = Some (JObj e)"

lemma event_body_not_blank: "\<not> blank (event_body fr d)"
  by (simp add: event_body_def blank_def byte_space_def compact_opts_def)

lemma event_body_line_seq:
  "reads_back cd fr (make_event sid n spec) \<Longrightarrow> \<not> dhas (fst (snd spec)) ''seq'' \<Longrightarrow> 0 < n \<Longrightarrow>
    line_seq cd (event_body fr (make_event sid n spec)) = Some n"
  by (simp add: line_seq_def event_body_not_blank reads_back_def durable_event_seq_def make_event_seq)

lemma append_written:
  assumes fr: "\<And>r. printable (fr r)"
    and data: "log_terminated path"
    and app: "append_durable_event_batch_sync fr Written path events = (data', ok)"
  shows "ok \<and> (\<exists>f'. data' = Some f' \<and> terminated f'
    \<and> f' = log_bytes path @ concat (map (event_line fr) events)
    \<and> complete_lines f' = complete_lines (log_bytes path) @ map (event_body fr) events)"
proof -
  have t: "terminated (log_bytes path)"
    using data by (auto simp: log_bytes_def log_terminated_def terminated_def split: option.splits)
  have "NL \<notin> set l" if "l \<in> set (map (event_body fr) events)" for l
    using that event_line_no_NL [OF fr] by (auto simp: event_line_body)
  note lines = complete_lines_concat [OF t this, of "map (event_body fr) events"]
  define F where "F = log_bytes path @ concat (map (event_line fr) events)"
  have "F = log_bytes path @ concat (map (\<lambda>l. l @ [NL]) (map (event_body fr) events))"
    by (simp add: F_def event_line_eq comp_def)
  with lines have "complete_lines F = complete_lines (log_bytes path) @ map (event_body fr) events"
    "terminated F" by simp_all
  moreover have "data' = Some F" "ok"
    using app by (auto simp: append_durable_event_batch_sync_def Let_def log_bytes_def F_def)
  ultimately show ?thesis by (simp add: F_def)
qed

lemma append_rolled_back:
  "append_durable_event_batch_sync fr (WriteFailed partial True) (Some f) events = (Some f, False)"
  by (simp add: append_durable_event_batch_sync_def Let_def)

lemma append_not_written:
  "outcome \<noteq> Written \<Longrightarrow> append_durable_event_batch_sync fr outcome path events = (data', ok) \<Longrightarrow> \<not> ok"
  by (cases outcome) (auto simp: append_durable_event_batch_sync_def Let_def)

lemma make_events_last:
  "specs \<noteq> [] \<Longrightarrow> last (make_events sid n specs) = make_event sid (n + int (length specs) - 1) (last specs)"
  by (induction specs arbitrary: n) (auto simp: algebra_simps)

text \<open>One durable batch, for every outcome of the file system.\<close>

lemma append_batch_committed:
  assumes step: "append_durable_event_batch_locked cd fr del fault1 outcome fault2 st sid specs = (st', Inr events)"
    and specs: "specs \<noteq> []"
    and ok: "cache_ok cd sid st" "codec_agrees cd"
    and fr: "\<And>r. printable (fr r)"
    and noseq: "\<And>s. s \<in> set specs \<Longrightarrow> \<not> dhas (fst (snd s)) ''seq''"
    and rb: "\<And>e. e \<in> set events \<Longrightarrow> reads_back cd fr e"
    and pos: "0 \<le> event_high cd sid st"
  shows "\<exists>st1 n f'. next_event_seq cd fault1 st sid = (st1, Inr n)
    \<and> events = make_events sid n specs
    \<and> log_data (files st' sid) = Some f' \<and> terminated f'
    \<and> complete_lines f' = complete_lines (log_bytes (log_data (files st1 sid))) @ map (event_body fr) events
    \<and> last_seq_spec cd f' = n + int (length specs) - 1
    \<and> seq_cache st' sid = Some (last_seq_spec cd f')"
proof -
  obtain st1 r where n1: "next_event_seq cd fault1 st sid = (st1, r)" by fastforce
  with step specs obtain n where r: "r = Inr n"
    by (auto simp: append_durable_event_batch_locked_def split: if_splits sum.splits)
  note fresh = next_event_seq_fresh [OF n1 [unfolded r] ok]
  let ?path = "log_data (files st1 sid)"
  obtain data' c where app:
      "append_durable_event_batch_sync fr outcome ?path (make_events sid n specs) = (data', c)"
    by fastforce
  have c: c and ev: "events = make_events sid n specs" and st': "log_data (files st' sid) = data'"
    using step specs n1 r app
    by (auto simp: append_durable_event_batch_locked_def Let_def split: if_splits sum.splits)
  have w: "outcome = Written" using append_not_written [OF _ app] c by blast
  from append_written [OF fr _ app [unfolded w]] fresh obtain f' where
      f': "data' = Some f'" "terminated f'"
      "complete_lines f' = complete_lines (log_bytes ?path) @ map (event_body fr) events"
    by (auto simp: ev)
  have npos: "0 < n"
    using n1 r pos by (auto simp: next_event_seq_def event_high_def Let_def split: option.splits prod.splits)
  let ?k = "n + int (length specs) - 1"
  have le: "last events = make_event sid ?k (last specs)"
    by (simp add: ev make_events_last [OF specs])
  have "events \<noteq> []" using specs ev by (metis length_0_conv length_make_events)
  then have cl: "complete_lines f' = (complete_lines (log_bytes ?path) @ map (event_body fr) (butlast events))
      @ [event_body fr (last events)]"
    using f'(3) by (cases events rule: rev_cases) auto
  have kpos: "0 < ?k" using npos specs by (cases specs) auto
  have "line_seq cd (event_body fr (last events)) = Some ?k"
    unfolding le
  proof (rule event_body_line_seq)
    show "reads_back cd fr (make_event sid ?k (last specs))"
      using rb [OF last_in_set [OF \<open>events \<noteq> []\<close>]] by (simp add: le)
  qed (use noseq specs kpos in auto)
  then have seq: "last_seq_spec cd f' = ?k"
    by (rule last_seq_spec_complete [OF f'(2) cl])
  have "dget (last events) ''seq'' = JInt ?k"
    unfolding le by (rule make_event_seq) (use noseq specs in auto)
  then have "seq_cache st' sid = Some ?k"
    using step specs n1 r app c ev
    by (auto simp: append_durable_event_batch_locked_def Let_def split: if_splits sum.splits)
  with f' st' seq n1 r ev show ?thesis by auto
qed


section \<open>The index never skips an event\<close>

text \<open>A checkpoint is sound when it starts a line and every record before it has a number no
  greater than its own.\<close>

definition sound_checkpoint :: "codec \<Rightarrow> bytes \<Rightarrow> int \<times> int \<Rightarrow> bool" where
  "sound_checkpoint cd f e \<longleftrightarrow> (\<exists>pre post. file_lines f = pre @ post
     \<and> snd e = int (length (concat pre))
     \<and> (\<forall>l \<in> set pre. \<not> blank l \<longrightarrow> (\<forall>s. index_line_seq cd l = Some s \<longrightarrow> s \<le> fst e)))"

lemma concat_file_lines [simp]: "concat (file_lines f) = f"
  by (induction f) (auto split: list.splits)





text \<open>The entries a reader would use, when there is a readable index.\<close>

definition index_sound :: "codec \<Rightarrow> event_files \<Rightarrow> bool" where
  "index_sound cd fs \<longleftrightarrow> (\<forall>f es e. log_data fs = Some f \<longrightarrow> read_event_index fs = Inr (Some es) \<longrightarrow>
     e \<in> set es \<longrightarrow> sound_checkpoint cd f e)"


lemma index_entries_written:
  "index_entries n p q acc (map (\<lambda>e. JArr [JInt (fst e), JInt (snd e)]) es) = Inr (Some r) \<Longrightarrow>
    r = rev acc @ es"
proof (induction es arbitrary: p q acc)
  case (Cons e es)
  have "index_item (JArr [JInt (fst e), JInt (snd e)]) = Inr (fst e, snd e)"
    by (simp add: index_item_def py_item_def)
  with Cons show ?case
    by (fastforce split: prod.splits if_splits)
qed simp

lemma read_write_index:
  "read_event_index (write_event_index fs es) = Inr (Some r) \<Longrightarrow> log_data fs = Some f \<Longrightarrow> r = es"
  using index_entries_written [of "int (length f)" 0 "-1" "[]" es r]
  by (auto simp: read_event_index_def write_event_index_def split: if_splits)

lemma record_entry_sound:
  assumes "record_event_index_entry fs seq offset = Inr fs'" "index_sound cd fs"
    and "log_data fs = Some f" "sound_checkpoint cd f (seq, offset)"
  shows "index_sound cd fs'"
proof -
  obtain es where r: "read_event_index fs = Inr es"
    and fs': "fs' = write_event_index fs
      (filter (\<lambda>e. fst e < seq \<and> snd e < offset) (case es of None \<Rightarrow> [] | Some l \<Rightarrow> l) @ [(seq, offset)])"
    using assms(1) by (auto simp: record_event_index_entry_def ebind_Inr_iff)
  have "log_data fs' = Some f"
    using fs' assms(3) by (simp add: write_event_index_def)
  moreover have "sound_checkpoint cd f e"
    if "read_event_index fs' = Inr (Some l)" "e \<in> set l" for l e
  proof -
    have "e = (seq, offset) \<or> (\<exists>l'. es = Some l' \<and> e \<in> set l')"
      using read_write_index [OF that(1) [unfolded fs'] assms(3)] that(2)
      by (auto split: option.splits)
    then show ?thesis
      using assms(2-4) r by (cases e) (auto simp: index_sound_def)
  qed
  ultimately show ?thesis by (auto simp: index_sound_def)
qed

section \<open>Properties\<close>

text \<open>C1. Reading the last sequence number backwards in 256 KiB chunks gives exactly the number of
  the newest line of the whole file that decodes to a sequenced event, and 0 when there is none.\<close>

theorem last_event_seq_correct:
  "last_event_seq_from_file cd (Some f) = last_seq_spec cd f"
  by (rule last_event_seq_eq_spec)

text \<open>The newest-first iterator yields the decodable records of the file, each exactly once,
  in reverse file order, whatever the chunk boundaries are.\<close>

lemma reversed_jsonl_events_correct:
  "reversed_jsonl_events cd (Some f) = rev (concat (map (line_event cd) (split_on NL f)))"
  by (rule reversed_jsonl_events_eq)

text \<open>C2. Repairing a log leaves it empty or ending at a newline and keeps every completely written
  line; the only line it may add is a fully written last record that lacked its newline. The
  returned number is the last sequence number of the repaired file.\<close>

theorem repair_event_log_tail_correct:
  assumes "codec_agrees cd" "log_data fs = Some f" "repair_event_log_tail cd fs = (fs', seq)"
  shows "\<exists>f'. log_data fs' = Some f' \<and> (f' = [] \<or> last f' = NL) \<and> seq = last_seq_spec cd f'
    \<and> (complete_lines f' = complete_lines f
       \<or> (\<exists>t. complete_lines f' = complete_lines f @ [t] \<and> line_seq cd t = Some seq \<and> f' = f @ [NL]))"
  using repair_terminated [OF assms(3,2,1)] by (simp add: terminated_def)

text \<open>A decoder that knows one record, for concrete inputs.\<close>

definition one_record_codec :: "bytes \<Rightarrow> json \<Rightarrow> codec" where
  "one_record_codec b v =
     \<lparr>loads_replace = (\<lambda>x. if x = b then Some v else None),
      loads_strict = (\<lambda>x. if x = b then Some v else None)\<rparr>"

lemma one_record_codec_agrees: "\<not> blank b \<Longrightarrow> codec_agrees (one_record_codec b v)"
  by (simp add: codec_agrees_def one_record_codec_def)

theorem repair_event_log_tail_witness:
  "\<exists>f'. log_data (fst (repair_event_log_tail
        (one_record_codec [123] (JObj [(lit ''seq'', JInt 7)]))
        \<lparr>log_data = Some [65, 10, 123], log_inode = 1, log_index = None\<rparr>)) = Some f'
    \<and> (f' = [] \<or> last f' = NL)"
proof -
  let ?cd = "one_record_codec [123] (JObj [(lit ''seq'', JInt 7)])"
  let ?fs = "\<lparr>log_data = Some [65, 10, 123], log_inode = 1, log_index = None\<rparr>"
  have "codec_agrees ?cd"
    by (rule one_record_codec_agrees) (simp add: blank_def byte_space_def)
  moreover have "log_data ?fs = Some [65, 10, 123]" by simp
  moreover obtain fs' seq where r: "repair_event_log_tail ?cd ?fs = (fs', seq)" by fastforce
  ultimately have "\<exists>f'. log_data fs' = Some f' \<and> (f' = [] \<or> last f' = NL)"
    using repair_event_log_tail_correct by blast
  with r show ?thesis by simp
qed


text \<open>C4. A committed durable batch is appended behind the complete lines of the log, one line per
  event with consecutive numbers; the log ends at a newline and the cached number is the last
  durable one.\<close>

theorem append_durable_batch_committed:
  assumes "append_durable_event_batch_locked cd fr del fault1 outcome fault2 st sid specs = (st', Inr events)"
    and "specs \<noteq> []" and "cache_ok cd sid st" and "codec_agrees cd"
    and "\<And>r. printable (fr r)"
    and "\<And>s. s \<in> set specs \<Longrightarrow> \<not> dhas (fst (snd s)) ''seq''"
    and "\<And>e. e \<in> set events \<Longrightarrow> reads_back cd fr e"
    and "0 \<le> event_high cd sid st"
  shows "\<exists>st1 n f'. next_event_seq cd fault1 st sid = (st1, Inr n)
    \<and> events = make_events sid n specs
    \<and> log_data (files st' sid) = Some f' \<and> terminated f'
    \<and> complete_lines f' = complete_lines (log_bytes (log_data (files st1 sid))) @ map (event_body fr) events
    \<and> last_seq_spec cd f' = n + int (length specs) - 1
    \<and> seq_cache st' sid = Some (last_seq_spec cd f')"
  using append_batch_committed [OF assms] .

definition demo_store :: event_store where
  "demo_store = \<lparr>seq_cache = Map.empty,
     files = (\<lambda>_. \<lparr>log_data = None, log_inode = 1, log_index = None\<rparr>), sessions = Map.empty\<rparr>"

definition demo_event :: jdict where
  "demo_event = make_event (lit ''s'') 1 (lit ''t'', [], lit ''e'', lit ''z'')"

definition demo_codec :: codec where
  "demo_codec = one_record_codec (event_body (\<lambda>_. [48]) demo_event) (JObj demo_event)"

lemma demo_append:
  "append_durable_event_batch_locked demo_codec (\<lambda>_. [48]) {} None Written None demo_store (lit ''s'')
     [(lit ''t'', [], lit ''e'', lit ''z'')] =
   (set_cache (set_files (set_cache demo_store (lit ''s'') 1) (lit ''s'')
      \<lparr>log_data = Some (event_line (\<lambda>_. [48]) demo_event), log_inode = 1, log_index = None\<rparr>)
      (lit ''s'') 1, Inr [demo_event])"
  by (auto simp: append_durable_event_batch_locked_def next_event_seq_def demo_store_def Let_def
      repair_event_log_tail_def stored_event_seq_def append_durable_event_batch_sync_def
      demo_event_def make_event_def dict_merge_def set_cache_def set_files_def)

theorem append_durable_batch_committed_witness:
  "\<exists>f'. log_data (files (fst (append_durable_event_batch_locked demo_codec (\<lambda>_. [48]) {} None Written None
       demo_store (lit ''s'') [(lit ''t'', [], lit ''e'', lit ''z'')])) (lit ''s'')) = Some f'
   \<and> terminated f' \<and> last_seq_spec demo_codec f' = 1"
proof -
  have "cache_ok demo_codec (lit ''s'') demo_store"
    by (simp add: cache_ok_def demo_store_def)
  moreover have "codec_agrees demo_codec"
    unfolding demo_codec_def by (rule one_record_codec_agrees) (rule event_body_not_blank)
  moreover have "0 \<le> event_high demo_codec (lit ''s'') demo_store"
    by (simp add: event_high_def demo_store_def)
  moreover have "reads_back demo_codec (\<lambda>_. [48]) e" if "e \<in> set [demo_event]" for e
    using that by (simp add: reads_back_def demo_codec_def one_record_codec_def)
  moreover have "\<not> dhas (fst (snd s)) ''seq''" if "s \<in> set [(lit ''t'', [], lit ''e'', lit ''z'')]"
    for s :: event_spec
    using that by simp
  moreover have "printable ((\<lambda>_. [48]) r)" for r :: rat
    by simp
  ultimately obtain st1 n f' where
    "next_event_seq demo_codec None demo_store (lit ''s'') = (st1, Inr n)"
    "log_data (files (fst (append_durable_event_batch_locked demo_codec (\<lambda>_. [48]) {} None Written None
       demo_store (lit ''s'') [(lit ''t'', [], lit ''e'', lit ''z'')])) (lit ''s'')) = Some f'"
    "terminated f'" "last_seq_spec demo_codec f' = n + int (length [(lit ''t'', [], lit ''e'', lit ''z'')]) - 1"
    using append_durable_batch_committed [OF demo_append] by (fastforce simp: demo_append)
  moreover from this(1) have "n = 1"
    by (auto simp: next_event_seq_def demo_store_def repair_event_log_tail_def stored_event_seq_def)
  ultimately show ?thesis by auto
qed






section \<open>Malformed indexes\<close>





text \<open>An entry that is a JSON object raises, where every other malformed entry makes the index unusable.\<close>

lemma index_object_entry_raises: "index_entries n p q acc (JObj d # items) = Inl KeyError"
  by (simp add: index_item_def py_item_def)




end
