(* ===== verification/Hint_Registry.thy ===== *)
theory Hint_Registry
  imports Prelude
begin

text \<open>
  The bounded subscription registry that \<open>MailHintBroker\<close> and \<open>NotificationBroker\<close> both keep
  (\<open>agentsdock_team_hub/mail_hints.py\<close>, \<open>agentsdock_team_hub/notification_hints.py\<close>): a dictionary
  from mailboxes to the live subscriptions, a count, two capacity limits and a closed flag.
  Subscription objects are numbered by creation, so that the registry refers to them by index.

  The two brokers differ in what a subscription holds. The locale \<open>subscriber\<close> is the interface
  between the registry and a subscription class: how one is created, retired, and identified.
\<close>

type_synonym mailbox = "pystr \<times> pystr"

datatype hint_error = InvalidHint | MailHintClosed | MailHintCapacity

record ('m, 's) broker =
  max_subscriptions :: int
  max_per_recipient :: int
  subs :: "'s list"
  registry :: "('m \<times> nat list) list"
  sub_count :: int
  broker_closed :: bool

definition new_broker :: "int \<Rightarrow> int \<Rightarrow> hint_error + ('m, 's) broker" where
  "new_broker max_subs max_per =
     (if \<not> (1 \<le> max_subs \<and> max_subs \<le> 4096) then Inl InvalidHint
      else if \<not> (1 \<le> max_per \<and> max_per \<le> 64) then Inl InvalidHint
      else Inr \<lparr>max_subscriptions = max_subs, max_per_recipient = max_per, subs = [], registry = [],
                sub_count = 0, broker_closed = False\<rparr>)"

text \<open>\<open>self._subscriptions.get(mailbox, set())\<close>.\<close>

definition registered :: "('m, 's) broker \<Rightarrow> 'm \<Rightarrow> nat list" where
  "registered b m = (case map_of (registry b) m of None \<Rightarrow> [] | Some ids \<Rightarrow> ids)"

definition subscribe_slot :: "('m \<Rightarrow> 's) \<Rightarrow> ('m, 's) broker \<Rightarrow> 'm \<Rightarrow> hint_error + ('m, 's) broker \<times> nat" where
  "subscribe_slot fresh b m =
     (if broker_closed b then Inl MailHintClosed
      else let current = registered b m
      in if max_subscriptions b \<le> sub_count b \<or> max_per_recipient b \<le> int (length current)
         then Inl MailHintCapacity
         else let i = length (subs b)
              in Inr (b\<lparr>subs := subs b @ [fresh m],
                       registry := AList.update m (current @ [i]) (registry b),
                       sub_count := sub_count b + 1\<rparr>, i))"

definition close_locked ::
  "('s \<Rightarrow> bool) \<Rightarrow> ('s \<Rightarrow> 'm) \<Rightarrow> ('s \<Rightarrow> 's) \<Rightarrow> ('m, 's) broker \<Rightarrow> nat \<Rightarrow> ('m, 's) broker" where
  "close_locked is_closed mbox kill b i =
     (if is_closed (subs b ! i) then b
      else b\<lparr>subs := (subs b)[i := kill (subs b ! i)],
             registry :=
               (case map_of (registry b) (mbox (subs b ! i)) of
                  None \<Rightarrow> registry b
                | Some ids \<Rightarrow>
                    if removeAll i ids = [] then AList.delete (mbox (subs b ! i)) (registry b)
                    else AList.update (mbox (subs b ! i)) (removeAll i ids) (registry b)),
             sub_count := sub_count b - 1\<rparr>)"

definition close_each ::
  "('s \<Rightarrow> bool) \<Rightarrow> ('s \<Rightarrow> 'm) \<Rightarrow> ('s \<Rightarrow> 's) \<Rightarrow> ('m, 's) broker \<Rightarrow> nat list \<Rightarrow> ('m, 's) broker" where
  "close_each is_closed mbox kill b ids = foldl (close_locked is_closed mbox kill) b ids"

definition close_broker ::
  "('s \<Rightarrow> bool) \<Rightarrow> ('s \<Rightarrow> 'm) \<Rightarrow> ('s \<Rightarrow> 's) \<Rightarrow> ('m, 's) broker \<Rightarrow> ('m, 's) broker" where
  "close_broker is_closed mbox kill b =
     close_each is_closed mbox kill (b\<lparr>broker_closed := True\<rparr>) (concat (map snd (registry b)))"

text \<open>The subscriptions of the mailboxes that satisfy \<open>P\<close>, from a snapshot of the dictionary.\<close>

definition matching :: "('m, 's) broker \<Rightarrow> ('m \<Rightarrow> bool) \<Rightarrow> nat list" where
  "matching b P = concat (map snd (filter (\<lambda>e. P (fst e)) (registry b)))"

section \<open>The registry invariant\<close>

definition open_ids :: "('s \<Rightarrow> bool) \<Rightarrow> ('m, 's) broker \<Rightarrow> nat set" where
  "open_ids is_closed b = {i. i < length (subs b) \<and> \<not> is_closed (subs b ! i)}"

text \<open>Registered subscriptions are exactly the open ones, each under its own mailbox; the count is
  their number; both capacity limits hold.\<close>

definition registry_inv :: "('s \<Rightarrow> bool) \<Rightarrow> ('s \<Rightarrow> 'm) \<Rightarrow> ('m, 's) broker \<Rightarrow> bool" where
  "registry_inv is_closed mbox b \<longleftrightarrow>
     distinct (map fst (registry b))
   \<and> (\<forall>m. distinct (registered b m) \<and> int (length (registered b m)) \<le> max_per_recipient b
        \<and> set (registered b m) = {i \<in> open_ids is_closed b. mbox (subs b ! i) = m})
   \<and> (\<forall>m \<in> set (map fst (registry b)). registered b m \<noteq> [])
   \<and> sub_count b = int (card (open_ids is_closed b))
   \<and> sub_count b \<le> max_subscriptions b"

lemma finite_open_ids [simp]: "finite (open_ids c b)"
  by (simp add: open_ids_def)

lemma registered_update:
  "registered (b\<lparr>registry := AList.update m ids (registry b)\<rparr>) m' = (if m' = m then ids else registered b m')"
  by (simp add: registered_def update_conv')

lemma registered_delete:
  "registered (b\<lparr>registry := AList.delete m (registry b)\<rparr>) m' = (if m' = m then [] else registered b m')"
  by (simp add: registered_def delete_conv')

lemma registered_frame [simp]:
  "registered (b\<lparr>subs := x\<rparr>) m = registered b m" "registered (b\<lparr>sub_count := n\<rparr>) m = registered b m"
  "registered (b\<lparr>broker_closed := c\<rparr>) m = registered b m"
  by (simp_all add: registered_def)

lemma registered_memE:
  assumes "i \<in> set (registered b m)"
  obtains ids where "map_of (registry b) m = Some ids" "registered b m = ids" "i \<in> set ids"
  using assms by (cases "map_of (registry b) m") (auto simp: registered_def)

locale subscriber =
  fixes fresh :: "'m \<Rightarrow> 's"
    and is_closed :: "'s \<Rightarrow> bool"
    and mbox :: "'s \<Rightarrow> 'm"
    and kill :: "'s \<Rightarrow> 's"
  assumes fresh_open: "\<not> is_closed (fresh m)"
    and fresh_mbox: "mbox (fresh m) = m"
    and kill_closed: "is_closed (kill s)"
    and kill_mbox: "mbox (kill s) = mbox s"
begin

abbreviation (input) reg_inv :: "('m, 's) broker \<Rightarrow> bool" where
  "reg_inv \<equiv> registry_inv is_closed mbox"

lemma new_broker_inv: "new_broker n k = Inr b \<Longrightarrow> reg_inv b"
  by (auto simp: new_broker_def registry_inv_def registered_def open_ids_def split: if_splits)

lemma subscribe_slot_inv:
  assumes "reg_inv b" and "subscribe_slot fresh b m = Inr (b', i)"
  shows "reg_inv b'" "i = length (subs b)" "subs b' = subs b @ [fresh m]"
    "registered b' m = registered b m @ [i]"
proof -
  let ?n = "length (subs b)"
  have b': "b' = b\<lparr>subs := subs b @ [fresh m],
        registry := AList.update m (registered b m @ [?n]) (registry b), sub_count := sub_count b + 1\<rparr>"
    and i: "i = ?n"
    and lim: "sub_count b < max_subscriptions b" "int (length (registered b m)) < max_per_recipient b"
    using assms(2) by (auto simp: subscribe_slot_def Let_def split: if_splits)
  show "i = length (subs b)" and subs': "subs b' = subs b @ [fresh m]" by (simp_all add: i b')
  have reg: "registered b' m' = (if m' = m then registered b m @ [?n] else registered b m')" for m'
    by (simp add: b' registered_def update_conv')
  then show "registered b' m = registered b m @ [i]" by (simp add: i)
  have op: "open_ids is_closed b' = insert ?n (open_ids is_closed b)"
    using fresh_open by (auto simp: open_ids_def b' nth_append less_Suc_eq)
  have new: "?n \<notin> open_ids is_closed b" by (simp add: open_ids_def)
  have keys: "set (map fst (registry b')) = insert m (set (map fst (registry b)))"
    by (simp add: b')
  have "set (registered b' m') = {j \<in> open_ids is_closed b'. mbox (subs b' ! j) = m'}" for m'
    using assms(1) fresh_mbox fresh_open
    by (auto simp: registry_inv_def reg op subs' nth_append open_ids_def)
  moreover have "distinct (registered b' m')" for m'
    using assms(1) by (auto simp: registry_inv_def reg open_ids_def)
  moreover have "distinct (map fst (registry b'))"
    using assms(1) by (simp add: registry_inv_def b' distinct_update)
  moreover have "sub_count b' = int (card (open_ids is_closed b'))"
    unfolding op using assms(1) new by (simp add: registry_inv_def b')
  moreover have "\<forall>m' \<in> set (map fst (registry b')). registered b' m' \<noteq> []"
    unfolding keys using assms(1) by (auto simp: registry_inv_def reg)
  moreover have "int (length (registered b' m')) \<le> max_per_recipient b" for m'
    using assms(1) lim by (auto simp: registry_inv_def reg)
  moreover have "max_per_recipient b' = max_per_recipient b" "sub_count b' \<le> max_subscriptions b'"
    using lim by (simp_all add: b')
  ultimately show "reg_inv b'"
    by (simp add: registry_inv_def)
qed

lemma close_locked_props:
  assumes "reg_inv b" and i: "i < length (subs b)"
  defines "b' \<equiv> close_locked is_closed mbox kill b i"
  shows "reg_inv b'" "length (subs b') = length (subs b)"
    "open_ids is_closed b' = open_ids is_closed b - {i}"
    "j \<noteq> i \<Longrightarrow> subs b' ! j = subs b ! j" "broker_closed b' = broker_closed b"
    "max_subscriptions b' = max_subscriptions b" "max_per_recipient b' = max_per_recipient b"
proof -
  show frame: "length (subs b') = length (subs b)" "broker_closed b' = broker_closed b"
    "max_subscriptions b' = max_subscriptions b" "max_per_recipient b' = max_per_recipient b"
    by (auto simp: b'_def close_locked_def)
  show other: "subs b' ! j = subs b ! j" if "j \<noteq> i" for j
    using that by (auto simp: b'_def close_locked_def)
  show op: "open_ids is_closed b' = open_ids is_closed b - {i}"
    using i kill_closed by (auto simp: b'_def close_locked_def open_ids_def nth_list_update)
  show "reg_inv b'"
  proof (cases "is_closed (subs b ! i)")
    case True
    then show ?thesis using assms(1) by (simp add: b'_def close_locked_def)
  next
    case False
    let ?m = "mbox (subs b ! i)"
    have mem: "i \<in> open_ids is_closed b" using False i by (simp add: open_ids_def)
    then have "i \<in> set (registered b ?m)" using assms(1) by (auto simp: registry_inv_def)
    then obtain ids where ids: "map_of (registry b) ?m = Some ids" "registered b ?m = ids"
      by (rule registered_memE)
    have reg: "registered b' m = (if m = ?m then removeAll i ids else registered b m)" for m
      using False ids
      by (auto simp: b'_def close_locked_def registered_def update_conv' delete_conv')
    have keys: "set (map fst (registry b')) = (if removeAll i ids = []
        then set (map fst (registry b)) - {?m} else insert ?m (set (map fst (registry b))))"
      using False ids by (simp add: b'_def close_locked_def)
    have "set (registered b' m) = {j \<in> open_ids is_closed b'. mbox (subs b' ! j) = m}" for m
    proof -
      have S: "set (registered b m) = {j \<in> open_ids is_closed b. mbox (subs b ! j) = m}"
        using assms(1) by (simp add: registry_inv_def)
      have "set (registered b' m) = set (registered b m) - {i}"
      proof (cases "m = ?m")
        case True
        then show ?thesis using ids(2) by (simp add: reg)
      next
        case False
        then have "i \<notin> set (registered b m)" by (simp add: S)
        with False show ?thesis by (simp add: reg)
      qed
      also have "\<dots> = {j \<in> open_ids is_closed b'. mbox (subs b' ! j) = m}"
        unfolding S op using other by auto
      finally show ?thesis .
    qed
    moreover have "distinct (registered b' m)" for m
      using assms(1) ids by (auto simp: registry_inv_def reg distinct_removeAll)
    moreover have "int (length (registered b' m)) \<le> max_per_recipient b'" for m
    proof -
      have bound: "int (length (registered b m)) \<le> max_per_recipient b"
        using assms(1) by (simp add: registry_inv_def)
      have "int (length (registered b' m)) \<le> int (length (registered b m))"
        using ids(2) by (cases "m = ?m") (simp_all add: reg removeAll_filter_not_eq)
      also note bound
      finally show ?thesis by (simp add: frame)
    qed
    moreover have "distinct (map fst (registry b'))"
      using assms(1) False ids by (simp add: registry_inv_def b'_def close_locked_def distinct_update distinct_delete)
    moreover have "\<forall>m \<in> set (map fst (registry b')). registered b' m \<noteq> []"
      using assms(1) keys by (auto simp: registry_inv_def reg split: if_splits)
    moreover have "sub_count b' = sub_count b - 1"
      using False by (simp add: b'_def close_locked_def)
    moreover have "card (open_ids is_closed b') = card (open_ids is_closed b) - 1"
      using mem by (simp add: op card_Diff_singleton)
    moreover have "0 < card (open_ids is_closed b)"
      using mem card_gt_0_iff finite_open_ids by blast
    ultimately show ?thesis
      using assms(1) frame by (simp add: registry_inv_def)
  qed
qed

lemma close_each_props:
  assumes "reg_inv b" and "\<And>i. i \<in> set ids \<Longrightarrow> i < length (subs b)"
  shows "reg_inv (close_each is_closed mbox kill b ids)
    \<and> length (subs (close_each is_closed mbox kill b ids)) = length (subs b)
    \<and> open_ids is_closed (close_each is_closed mbox kill b ids) = open_ids is_closed b - set ids
    \<and> broker_closed (close_each is_closed mbox kill b ids) = broker_closed b
    \<and> (\<forall>j. j \<notin> set ids \<longrightarrow> subs (close_each is_closed mbox kill b ids) ! j = subs b ! j)"
  using assms
proof (induction ids arbitrary: b)
  case (Cons i ids)
  have i: "i < length (subs b)" using Cons.prems(2) by simp
  note p = close_locked_props [OF Cons.prems(1) i]
  have "j < length (subs (close_locked is_closed mbox kill b i))" if "j \<in> set ids" for j
    using Cons.prems(2) [of j] that p(2) by simp
  note IH = Cons.IH [OF p(1) this]
  show ?case
    using IH p unfolding close_each_def by auto
qed (simp add: close_each_def)

lemma registered_lt: "reg_inv b \<Longrightarrow> i \<in> set (registered b m) \<Longrightarrow> i < length (subs b)"
  by (auto simp: registry_inv_def open_ids_def)

lemma registered_iff:
  "reg_inv b \<Longrightarrow> i \<in> set (registered b m)
     \<longleftrightarrow> i < length (subs b) \<and> \<not> is_closed (subs b ! i) \<and> mbox (subs b ! i) = m"
  by (auto simp: registry_inv_def open_ids_def)

lemma registered_distinct: "reg_inv b \<Longrightarrow> distinct (registered b m)"
  by (simp add: registry_inv_def)

lemma capacity:
  assumes inv: "reg_inv b"
  shows "int (card (open_ids is_closed b)) \<le> max_subscriptions b"
    and "int (card {i \<in> open_ids is_closed b. mbox (subs b ! i) = m}) \<le> max_per_recipient b"
proof -
  show "int (card (open_ids is_closed b)) \<le> max_subscriptions b"
    using inv by (simp add: registry_inv_def)
  have S: "set (registered b m) = {i \<in> open_ids is_closed b. mbox (subs b ! i) = m}"
    and le: "int (length (registered b m)) \<le> max_per_recipient b"
    using inv by (simp_all add: registry_inv_def)
  show "int (card {i \<in> open_ids is_closed b. mbox (subs b ! i) = m}) \<le> max_per_recipient b"
    using distinct_card [OF registered_distinct [OF inv, of m]] le unfolding S by simp
qed

lemma all_registered: "reg_inv b \<Longrightarrow> set (concat (map snd (registry b))) = open_ids is_closed b"
proof -
  assume inv: "reg_inv b"
  then have d: "distinct (map fst (registry b))" by (simp add: registry_inv_def)
  have "set (concat (map snd (registry b))) = (\<Union>m. set (registered b m))"
  proof (intro equalityI subsetI)
    fix i
    assume "i \<in> set (concat (map snd (registry b)))"
    then obtain m ids where "(m, ids) \<in> set (registry b)" "i \<in> set ids" by auto
    with d have "i \<in> set (registered b m)" by (simp add: registered_def)
    then show "i \<in> (\<Union>m. set (registered b m))" by blast
  next
    fix i
    assume "i \<in> (\<Union>m. set (registered b m))"
    then obtain m ids where "map_of (registry b) m = Some ids" "i \<in> set ids"
      by (auto elim: registered_memE)
    then show "i \<in> set (concat (map snd (registry b)))"
      by (force dest: map_of_SomeD)
  qed
  also have "\<dots> = open_ids is_closed b"
    using inv by (auto simp: registry_inv_def)
  finally show ?thesis .
qed

lemma registry_entry: "reg_inv b \<Longrightarrow> (m, ids) \<in> set (registry b) \<Longrightarrow> registered b m = ids"
  by (simp add: registered_def registry_inv_def)

lemma matching_iff:
  assumes "reg_inv b"
  shows "i \<in> set (matching b P) \<longleftrightarrow> i < length (subs b) \<and> \<not> is_closed (subs b ! i) \<and> P (mbox (subs b ! i))"
proof
  assume "i \<in> set (matching b P)"
  then obtain m ids where e: "(m, ids) \<in> set (registry b)" "P m" "i \<in> set ids"
    by (auto simp: matching_def)
  then have "i \<in> set (registered b m)" using registry_entry [OF assms] by simp
  then show "i < length (subs b) \<and> \<not> is_closed (subs b ! i) \<and> P (mbox (subs b ! i))"
    using e(2) by (simp add: registered_iff [OF assms])
next
  assume i: "i < length (subs b) \<and> \<not> is_closed (subs b ! i) \<and> P (mbox (subs b ! i))"
  then have "i \<in> set (registered b (mbox (subs b ! i)))" by (simp add: registered_iff [OF assms])
  then obtain ids where "map_of (registry b) (mbox (subs b ! i)) = Some ids" "i \<in> set ids"
    by (auto elim: registered_memE)
  then show "i \<in> set (matching b P)"
    using i by (force simp: matching_def dest: map_of_SomeD)
qed

lemma matching_distinct:
  assumes "reg_inv b"
  shows "distinct (matching b P)"
proof -
  have gen: "distinct (concat (map snd xs))"
    if "distinct (map fst xs)" "\<And>e. e \<in> set xs \<Longrightarrow> distinct (snd e) \<and> (\<forall>i \<in> set (snd e). h i = fst e)"
    for xs :: "('m \<times> nat list) list" and h
    using that
  proof (induction xs)
    case (Cons e xs)
    have "h i = fst e" if "i \<in> set (snd e)" for i
      using Cons.prems(2) [of e] that by simp
    moreover have "h i \<in> fst ` set xs" if "i \<in> set (concat (map snd xs))" for i
    proof -
      from that obtain e' where "e' \<in> set xs" "i \<in> set (snd e')" by auto
      then show ?thesis using Cons.prems(2) [of e'] by auto
    qed
    moreover have "fst e \<notin> fst ` set xs" using Cons.prems(1) by simp
    ultimately have "set (snd e) \<inter> set (concat (map snd xs)) = {}"
      unfolding disjoint_iff by metis
    with Cons show ?case by simp
  qed simp
  have keys: "distinct (map fst (filter (\<lambda>e. P (fst e)) (registry b)))"
    using assms by (simp add: registry_inv_def distinct_map_filter)
  have entries: "distinct (snd e) \<and> (\<forall>i \<in> set (snd e). mbox (subs b ! i) = fst e)" if "e \<in> set (registry b)" for e
  proof -
    obtain m ids where "e = (m, ids)" by fastforce
    with that have "registered b m = ids" "e = (m, registered b m)" using registry_entry [OF assms] by auto
    then show ?thesis using registered_iff [OF assms] registered_distinct [OF assms] by auto
  qed
  show ?thesis
    unfolding matching_def by (rule gen [OF keys, of "\<lambda>i. mbox (subs b ! i)"]) (use entries in auto)
qed

text \<open>Overwriting an open subscription before closing it makes no difference.\<close>

lemma close_locked_put:
  assumes "i < length (subs b)" "is_closed s = is_closed (subs b ! i)" "\<not> is_closed s"
    "mbox s = mbox (subs b ! i)" "kill s = kill (subs b ! i)"
  shows "close_locked is_closed mbox kill (b\<lparr>subs := (subs b)[i := s]\<rparr>) i = close_locked is_closed mbox kill b i"
  using assms by (simp add: close_locked_def split: option.split)

lemma closed_flag_inv: "reg_inv b \<Longrightarrow> reg_inv (b\<lparr>broker_closed := c\<rparr>)"
  by (simp add: registry_inv_def open_ids_def)

lemma close_broker_props:
  assumes "reg_inv b"
  shows "reg_inv (close_broker is_closed mbox kill b)"
    "open_ids is_closed (close_broker is_closed mbox kill b) = {}"
    "broker_closed (close_broker is_closed mbox kill b)"
    "sub_count (close_broker is_closed mbox kill b) = 0"
proof -
  let ?b = "b\<lparr>broker_closed := True\<rparr>"
  have inv: "reg_inv ?b" by (rule closed_flag_inv [OF assms])
  have ids: "set (concat (map snd (registry b))) = open_ids is_closed b" by (rule all_registered [OF assms])
  then have "i < length (subs ?b)" if "i \<in> set (concat (map snd (registry b)))" for i
    using that by (simp add: open_ids_def)
  note p = close_each_props [OF inv, of "concat (map snd (registry b))", OF this]
  have op: "open_ids is_closed ?b = open_ids is_closed b" by (simp add: open_ids_def)
  show "reg_inv (close_broker is_closed mbox kill b)" "broker_closed (close_broker is_closed mbox kill b)"
    using p unfolding close_broker_def by auto
  show "open_ids is_closed (close_broker is_closed mbox kill b) = {}"
    using p ids op unfolding close_broker_def by auto
  with \<open>reg_inv (close_broker is_closed mbox kill b)\<close>
  show "sub_count (close_broker is_closed mbox kill b) = 0"
    by (simp add: registry_inv_def)
qed

text \<open>Replacing an open subscription by an open one of the same mailbox keeps the invariant.\<close>

lemma update_open_inv:
  assumes "reg_inv b" "i < length (subs b)" "is_closed s = is_closed (subs b ! i)" "mbox s = mbox (subs b ! i)"
  shows "reg_inv (b\<lparr>subs := (subs b)[i := s]\<rparr>)"
proof -
  have "open_ids is_closed (b\<lparr>subs := (subs b)[i := s]\<rparr>) = open_ids is_closed b"
    using assms(2,3) by (auto simp: open_ids_def nth_list_update split: if_splits)
  moreover have "mbox ((subs b)[i := s] ! j) = mbox (subs b ! j)" if "j < length (subs b)" for j
    using assms(4) that by (cases "j = i") auto
  ultimately show ?thesis
    using assms(1) by (auto simp: registry_inv_def open_ids_def)
qed

end

section \<open>Operations as moves\<close>

text \<open>
  What every broker operation does: the registry stays consistent, the limits stay, fresh
  subscriptions are only added at the end, and each old subscription follows \<open>evo\<close>, the relation that
  says what may happen to one subscription.
\<close>

definition broker_moves ::
  "('m \<Rightarrow> 's) \<Rightarrow> ('s \<Rightarrow> bool) \<Rightarrow> ('s \<Rightarrow> 'm) \<Rightarrow> ('s \<Rightarrow> 's \<Rightarrow> bool) \<Rightarrow> ('m, 's) broker \<Rightarrow> ('m, 's) broker \<Rightarrow> bool" where
  "broker_moves fresh is_closed mbox evo b b' \<longleftrightarrow> registry_inv is_closed mbox b'
     \<and> length (subs b) \<le> length (subs b')
     \<and> max_subscriptions b' = max_subscriptions b \<and> max_per_recipient b' = max_per_recipient b
     \<and> (\<forall>i < length (subs b). evo\<^sup>*\<^sup>* (subs b ! i) (subs b' ! i))
     \<and> (\<forall>i. length (subs b) \<le> i \<longrightarrow> i < length (subs b') \<longrightarrow> subs b' ! i = fresh (mbox (subs b' ! i)))"

locale evolving_subscriber = subscriber fresh is_closed mbox kill
  for fresh :: "'m \<Rightarrow> 's" and is_closed :: "'s \<Rightarrow> bool" and mbox :: "'s \<Rightarrow> 'm" and kill :: "'s \<Rightarrow> 's" +
  fixes evo :: "'s \<Rightarrow> 's \<Rightarrow> bool"
    and ok :: "'s \<Rightarrow> bool"
  assumes evo_kill: "evo s (kill s)"
    and evo_mbox: "evo s s' \<Longrightarrow> mbox s' = mbox s"
    and evo_ok: "evo s s' \<Longrightarrow> ok s \<Longrightarrow> ok s'"
    and fresh_ok: "ok (fresh m)"
begin

abbreviation (input) moves :: "('m, 's) broker \<Rightarrow> ('m, 's) broker \<Rightarrow> bool" where
  "moves \<equiv> broker_moves fresh is_closed mbox evo"

lemma evo_star: "evo\<^sup>*\<^sup>* s s' \<Longrightarrow> (ok s \<longrightarrow> ok s') \<and> mbox s' = mbox s"
  by (induction rule: rtranclp_induct) (auto dest: evo_ok evo_mbox)

lemma moves_refl: "reg_inv b \<Longrightarrow> moves b b"
  by (simp add: broker_moves_def)

lemma moves_ok: "list_all ok (subs b) \<Longrightarrow> moves b b' \<Longrightarrow> list_all ok (subs b')"
  unfolding broker_moves_def list_all_length by (metis evo_star fresh_ok not_le)

lemma subscribe_moves:
  assumes "reg_inv b" "subscribe_slot fresh b m = Inr (b', i)"
  shows "moves b b'"
proof -
  note p = subscribe_slot_inv [OF assms]
  have "max_subscriptions b' = max_subscriptions b" "max_per_recipient b' = max_per_recipient b"
    using assms(2) by (auto simp: subscribe_slot_def Let_def split: if_splits)
  with p show ?thesis
    by (auto simp: broker_moves_def nth_append fresh_mbox less_Suc_eq)
qed

lemma close_each_moves:
  assumes "reg_inv b" "\<And>i. i \<in> set ids \<Longrightarrow> i < length (subs b)"
  shows "moves b (close_each is_closed mbox kill b ids)"
proof -
  have "evo\<^sup>*\<^sup>* (subs b ! j) (subs (close_each is_closed mbox kill b ids) ! j)" for b j
  proof (induction ids arbitrary: b)
    case (Cons i ids)
    have "subs (close_locked is_closed mbox kill b i) ! j = subs b ! j
        \<or> subs (close_locked is_closed mbox kill b i) ! j = kill (subs b ! j)"
      by (cases "i < length (subs b)"; cases "j = i") (auto simp: close_locked_def not_less list_update_beyond)
    then have "evo\<^sup>*\<^sup>* (subs b ! j) (subs (close_locked is_closed mbox kill b i) ! j)"
      by (auto intro: r_into_rtranclp [of evo, OF evo_kill])
    also have "evo\<^sup>*\<^sup>* \<dots> (subs (close_each is_closed mbox kill b (i # ids)) ! j)"
      using Cons.IH [of "close_locked is_closed mbox kill b i"] by (simp add: close_each_def)
    finally show ?case .
  qed (simp add: close_each_def)
  moreover have "max_subscriptions (close_each is_closed mbox kill b ids) = max_subscriptions b
      \<and> max_per_recipient (close_each is_closed mbox kill b ids) = max_per_recipient b" for b
    by (induction ids arbitrary: b) (simp_all add: close_each_def close_locked_def)
  ultimately show ?thesis
    using close_each_props [OF assms] by (simp add: broker_moves_def)
qed

lemma close_one_moves:
  "reg_inv b \<Longrightarrow> i < length (subs b) \<Longrightarrow> moves b (close_locked is_closed mbox kill b i)"
  using close_each_moves [of b "[i]"] by (simp add: close_each_def)

lemma close_broker_moves: "reg_inv b \<Longrightarrow> moves b (close_broker is_closed mbox kill b)"
proof -
  assume inv: "reg_inv b"
  then have r: "reg_inv (b\<lparr>broker_closed := True\<rparr>)" by (rule closed_flag_inv)
  have "i < length (subs (b\<lparr>broker_closed := True\<rparr>))" if "i \<in> set (concat (map snd (registry b)))" for i
    using that all_registered [OF inv] by (auto simp: open_ids_def)
  then have "moves (b\<lparr>broker_closed := True\<rparr>) (close_broker is_closed mbox kill b)"
    unfolding close_broker_def by (rule close_each_moves [OF r])
  then show ?thesis
    by (simp add: broker_moves_def)
qed

text \<open>An operation that changes one open subscription by \<open>g\<close>, and a loop of it over distinct ones.\<close>

definition delivers :: "(('m, 's) broker \<Rightarrow> nat \<Rightarrow> ('m, 's) broker) \<Rightarrow> ('s \<Rightarrow> 's) \<Rightarrow> ('s \<Rightarrow> bool) \<Rightarrow> bool" where
  "delivers f g P \<longleftrightarrow> (\<forall>b i. reg_inv b \<longrightarrow> i < length (subs b) \<longrightarrow> P (subs b ! i)
     \<longrightarrow> reg_inv (f b i) \<and> subs (f b i) = (subs b)[i := g (subs b ! i)]
       \<and> max_subscriptions (f b i) = max_subscriptions b \<and> max_per_recipient (f b i) = max_per_recipient b)"

lemma deliversI:
  assumes "\<And>b i. i < length (subs b) \<Longrightarrow> P (subs b ! i) \<Longrightarrow>
      f b i = b \<and> g (subs b ! i) = subs b ! i
    \<or> f b i = close_locked is_closed mbox kill b i \<and> g (subs b ! i) = kill (subs b ! i) \<and> \<not> is_closed (subs b ! i)
    \<or> f b i = b\<lparr>subs := (subs b)[i := g (subs b ! i)]\<rparr> \<and> is_closed (g (subs b ! i)) = is_closed (subs b ! i)
      \<and> mbox (g (subs b ! i)) = mbox (subs b ! i)"
  shows "delivers f g P"
  unfolding delivers_def
proof (intro allI impI)
  fix b i
  assume inv: "reg_inv b" and i: "i < length (subs b)" and P: "P (subs b ! i)"
  note cl = close_locked_props [OF inv i]
  from assms [OF i P] show "reg_inv (f b i) \<and> subs (f b i) = (subs b)[i := g (subs b ! i)]
       \<and> max_subscriptions (f b i) = max_subscriptions b \<and> max_per_recipient (f b i) = max_per_recipient b"
  proof (elim disjE conjE)
    assume "f b i = close_locked is_closed mbox kill b i" "g (subs b ! i) = kill (subs b ! i)" "\<not> is_closed (subs b ! i)"
    then show ?thesis using cl by (simp add: close_locked_def)
  qed (use inv i in \<open>auto intro: update_open_inv\<close>)
qed

lemma delivers_fold:
  assumes d: "delivers f g P" and "reg_inv b" "distinct ids"
    and "\<And>i. i \<in> set ids \<Longrightarrow> i < length (subs b) \<and> P (subs b ! i)"
  shows "reg_inv (foldl f b ids) \<and> length (subs (foldl f b ids)) = length (subs b)
    \<and> max_subscriptions (foldl f b ids) = max_subscriptions b
    \<and> max_per_recipient (foldl f b ids) = max_per_recipient b
    \<and> (\<forall>j. subs (foldl f b ids) ! j = (if j \<in> set ids then g (subs b ! j) else subs b ! j))"
  using assms(2-)
proof (induction ids arbitrary: b)
  case (Cons i ids)
  from Cons.prems(3) [of i] have i: "i < length (subs b)" "P (subs b ! i)" by auto
  have p: "reg_inv (f b i)" "subs (f b i) = (subs b)[i := g (subs b ! i)]"
    "max_subscriptions (f b i) = max_subscriptions b" "max_per_recipient (f b i) = max_per_recipient b"
    using d Cons.prems(1) i unfolding delivers_def by blast+
  have "j < length (subs (f b i)) \<and> P (subs (f b i) ! j)" if "j \<in> set ids" for j
  proof -
    have "i \<noteq> j" using that Cons.prems(2) by auto
    then show ?thesis using that Cons.prems(3) [of j] by (simp add: p(2))
  qed
  note IH = Cons.IH [OF p(1) _ this]
  have "distinct ids" "i \<notin> set ids" using Cons.prems(2) by auto
  with IH i(1) show ?case by (auto simp: p nth_list_update)
qed simp

lemma delivers_fold_moves:
  assumes "delivers f g P" "reg_inv b" "distinct ids"
    and "\<And>i. i \<in> set ids \<Longrightarrow> i < length (subs b) \<and> P (subs b ! i)"
    and "\<And>s. P s \<Longrightarrow> evo\<^sup>*\<^sup>* s (g s)"
  shows "moves b (foldl f b ids)"
  using delivers_fold [OF assms(1-4)] assms(4,5) by (simp add: broker_moves_def)

lemma delivers_moves:
  assumes "delivers f g P" "reg_inv b" "i < length (subs b)" "P (subs b ! i)" "evo\<^sup>*\<^sup>* (subs b ! i) (g (subs b ! i))"
  shows "moves b (f b i)"
  using delivers_fold [OF assms(1,2), of "[i]"] assms(3-5) by (simp add: broker_moves_def)

end

end
