(* ===== verification/Mail_Hints.thy ===== *)
theory Mail_Hints
  imports Hint_Registry
begin

text \<open>
  Recipient-only mail arrival hints: \<open>agentsdock_team_hub/mail_hints.py\<close> (validated arrival cursors,
  subscriptions with one replaceable pending cursor, the bounded broker) and
  \<open>agentsdock_team_hub/mail_hint_streams.py\<close> (stream leases over a subscription).

  Conditions and locks do not appear: each operation is the critical section that it guards, and a
  waiting \<open>take\<close> is the step it makes when it wakes up. Where a lease waits for its subscription
  or lets another thread run, what happens meanwhile is an explicit argument.
\<close>

section \<open>Arrival cursors\<close>

definition MAX_MAIL_SEQUENCE :: int where
  "MAX_MAIL_SEQUENCE = 9007199254740991"

definition valid_identity :: "pystr \<Rightarrow> bool" where
  "valid_identity s = (case s of
     [] \<Rightarrow> False
   | c # r \<Rightarrow> is_alnum c \<and> length r \<le> 127 \<and> list_all (\<lambda>x. is_alnum x \<or> x \<in> {46, 95, 58, 45}) r)"

definition mail_arrival_id :: "pystr \<Rightarrow> bool" where
  "mail_arrival_id s \<longleftrightarrow> prefixed_hex32 ''tmsg_'' s"

record mail_arrival =
  team_id :: pystr
  recipient_server_id :: pystr
  through_sequence :: int
  arrival_id :: "pystr option"

definition arrival_mailbox :: "mail_arrival \<Rightarrow> mailbox" where
  "arrival_mailbox a = (team_id a, recipient_server_id a)"

text \<open>The constructor with \<open>__post_init__\<close>, on values of any type.\<close>

definition mail_arrival_init :: "json \<Rightarrow> json \<Rightarrow> json \<Rightarrow> json \<Rightarrow> hint_error + mail_arrival" where
  "mail_arrival_init team recipient seq aid = (case (team, recipient) of
     (JStr t, JStr r) \<Rightarrow>
       if \<not> valid_identity t \<or> \<not> valid_identity r then Inl InvalidHint
       else (case seq of
         JInt n \<Rightarrow>
           if \<not> (0 \<le> n \<and> n \<le> MAX_MAIL_SEQUENCE) then Inl InvalidHint
           else if n = 0 then
             (case aid of
                JNull \<Rightarrow> Inr \<lparr>team_id = t, recipient_server_id = r, through_sequence = n, arrival_id = None\<rparr>
              | _ \<Rightarrow> Inl InvalidHint)
           else
             (case aid of
                JStr a \<Rightarrow>
                  if mail_arrival_id a
                  then Inr \<lparr>team_id = t, recipient_server_id = r, through_sequence = n, arrival_id = Some a\<rparr>
                  else Inl InvalidHint
              | _ \<Rightarrow> Inl InvalidHint)
       | _ \<Rightarrow> Inl InvalidHint)
   | _ \<Rightarrow> Inl InvalidHint)"

definition opt_str :: "pystr option \<Rightarrow> json" where
  "opt_str x = (case x of None \<Rightarrow> JNull | Some s \<Rightarrow> JStr s)"

definition mail_as_dict :: "mail_arrival \<Rightarrow> bool option \<Rightarrow> jdict" where
  "mail_as_dict a reset =
     [(lit ''version'', JInt 1), (lit ''team_id'', JStr (team_id a)),
      (lit ''recipient_server_id'', JStr (recipient_server_id a)),
      (lit ''through_sequence'', JInt (through_sequence a)),
      (lit ''arrival_id'', opt_str (arrival_id a))]
     @ (case reset of None \<Rightarrow> [] | Some r \<Rightarrow> [(lit ''reset'', JBool r)])"

definition mail_required :: "string list" where
  "mail_required = [''version'', ''team_id'', ''recipient_server_id'', ''through_sequence'', ''arrival_id'']"

definition keys_within :: "jdict \<Rightarrow> string list \<Rightarrow> bool" where
  "keys_within d ks \<longleftrightarrow> list_all (\<lambda>k. k \<in> set (map lit ks)) (map fst d)"

definition is_bool :: "json \<Rightarrow> bool" where
  "is_bool v = (case v of JBool _ \<Rightarrow> True | _ \<Rightarrow> False)"

definition mail_from_dict :: "json \<Rightarrow> hint_error + mail_arrival" where
  "mail_from_dict v = (case v of
     JObj d \<Rightarrow>
       if \<not> list_all (dhas d) mail_required
          \<or> \<not> keys_within d (mail_required @ [''reset''])
          \<or> dget d ''version'' \<noteq> JInt 1
          \<or> (dhas d ''reset'' \<and> \<not> is_bool (dget d ''reset''))
       then Inl InvalidHint
       else mail_arrival_init (dget d ''team_id'') (dget d ''recipient_server_id'')
              (dget d ''through_sequence'') (dget d ''arrival_id'')
   | _ \<Rightarrow> Inl InvalidHint)"

section \<open>Subscriptions and the broker\<close>

record mail_sub =
  sub_mailbox :: mailbox
  sub_pending :: "mail_arrival option"
  sub_latest :: "mail_arrival option"
  sub_closed :: bool

type_synonym mail_broker = "(mailbox, mail_sub) broker"

definition mail_sub_new :: "mailbox \<Rightarrow> mail_sub" where
  "mail_sub_new m = \<lparr>sub_mailbox = m, sub_pending = None, sub_latest = None, sub_closed = False\<rparr>"

definition mail_sub_kill :: "mail_sub \<Rightarrow> mail_sub" where
  "mail_sub_kill s = s\<lparr>sub_closed := True, sub_pending := None, sub_latest := None\<rparr>"

definition mail_close_locked :: "mail_broker \<Rightarrow> nat \<Rightarrow> mail_broker" where
  "mail_close_locked = close_locked sub_closed sub_mailbox mail_sub_kill"

definition mail_subscribe :: "mail_broker \<Rightarrow> pystr \<Rightarrow> pystr \<Rightarrow> hint_error + mail_broker \<times> nat" where
  "mail_subscribe b team recipient =
     ebind (mail_arrival_init (JStr team) (JStr recipient) (JInt 0) JNull)
       (\<lambda>a. subscribe_slot mail_sub_new b (arrival_mailbox a))"

definition mail_publish_one :: "mail_arrival \<Rightarrow> mail_broker \<Rightarrow> nat \<Rightarrow> mail_broker" where
  "mail_publish_one arrival b i =
     (let accept = b\<lparr>subs := (subs b)[i := (subs b ! i)\<lparr>sub_latest := Some arrival, sub_pending := Some arrival\<rparr>]\<rparr>
      in case sub_latest (subs b ! i) of
           None \<Rightarrow> accept
         | Some previous \<Rightarrow>
             if through_sequence arrival < through_sequence previous then b
             else if through_sequence arrival = through_sequence previous then
               (if arrival_id arrival \<noteq> arrival_id previous then mail_close_locked b i else b)
             else accept)"

definition mail_publish :: "mail_broker \<Rightarrow> mail_arrival \<Rightarrow> mail_broker" where
  "mail_publish b arrival =
     (if broker_closed b then b
      else foldl (mail_publish_one arrival) b (registered b (arrival_mailbox arrival)))"

text \<open>\<open>MailHintSubscription.take\<close> once its wait is over: closed, a pending cursor, or a timeout.\<close>

definition mail_take :: "mail_broker \<Rightarrow> nat \<Rightarrow> mail_broker \<times> (hint_error + mail_arrival option)" where
  "mail_take b i =
     (if sub_closed (subs b ! i) then (b, Inl MailHintClosed)
      else (b\<lparr>subs := (subs b)[i := (subs b ! i)\<lparr>sub_pending := None\<rparr>]\<rparr>, Inr (sub_pending (subs b ! i))))"

definition mail_invalidate :: "mail_broker \<Rightarrow> pystr \<Rightarrow> pystr \<Rightarrow> mail_broker" where
  "mail_invalidate b team recipient =
     close_each sub_closed sub_mailbox mail_sub_kill b (registered b (team, recipient))"

definition mail_broker_close :: "mail_broker \<Rightarrow> mail_broker" where
  "mail_broker_close = close_broker sub_closed sub_mailbox mail_sub_kill"

text \<open>Calls by any number of threads, one critical section at a time.\<close>

datatype mail_op =
    OpSubscribe pystr pystr
  | OpPublish mail_arrival
  | OpTake nat
  | OpClose nat
  | OpInvalidate pystr pystr
  | OpCloseBroker

text \<open>The state after a call, and the arrivals it handed out with the subscription that took them.\<close>

definition mail_step :: "mail_broker \<Rightarrow> mail_op \<Rightarrow> mail_broker \<times> (nat \<times> mail_arrival) list" where
  "mail_step b op = (case op of
     OpSubscribe t r \<Rightarrow> (case mail_subscribe b t r of Inl _ \<Rightarrow> (b, []) | Inr (b', _) \<Rightarrow> (b', []))
   | OpPublish a \<Rightarrow> (mail_publish b a, [])
   | OpTake i \<Rightarrow> if i < length (subs b) then
       (case mail_take b i of (b', Inr (Some a)) \<Rightarrow> (b', [(i, a)]) | (b', _) \<Rightarrow> (b', [])) else (b, [])
   | OpClose i \<Rightarrow> (if i < length (subs b) then mail_close_locked b i else b, [])
   | OpInvalidate t r \<Rightarrow> (mail_invalidate b t r, [])
   | OpCloseBroker \<Rightarrow> (mail_broker_close b, []))"

fun mail_run :: "mail_broker \<Rightarrow> mail_op list \<Rightarrow> mail_broker \<times> (nat \<times> mail_arrival) list" where
  "mail_run b [] = (b, [])"
| "mail_run b (op # ops) =
     (case mail_step b op of (b', out) \<Rightarrow> case mail_run b' ops of (b'', out') \<Rightarrow> (b'', out @ out'))"

section \<open>Stream leases\<close>

text \<open>
  \<open>MailHintLease\<close>: the callbacks appear as flags (is one installed) and counters (how often was it
  called). \<open>lease_sub_closed\<close> records that the lease has closed its subscription.
\<close>

record mail_lease =
  lease_snapshot :: jdict
  lease_hub_id :: pystr
  lease_recipient :: pystr
  lease_expires :: "rat option"
  lease_latest :: mail_arrival
  lease_closed :: bool
  lease_aborter :: bool
  lease_on_close :: bool
  aborter_calls :: nat
  on_close_calls :: nat
  lease_sub_closed :: bool

definition mail_lease_new ::
  "mailbox \<Rightarrow> jdict \<Rightarrow> pystr \<Rightarrow> rat option \<Rightarrow> bool \<Rightarrow> hint_error + mail_lease" where
  "mail_lease_new mbox snapshot hub_id expires on_close =
     ebind (mail_from_dict (JObj snapshot)) (\<lambda>arrival.
       if \<not> is_bool (dget snapshot ''reset'') \<or> arrival_mailbox arrival \<noteq> mbox then Inl InvalidHint
       else if hub_id = [] \<or> 240 < length hub_id then Inl InvalidHint
       else Inr \<lparr>lease_snapshot = snapshot, lease_hub_id = hub_id,
                 lease_recipient = recipient_server_id arrival, lease_expires = expires,
                 lease_latest = arrival, lease_closed = False, lease_aborter = False,
                 lease_on_close = on_close, aborter_calls = 0, on_close_calls = 0,
                 lease_sub_closed = False\<rparr>)"

definition lease_set_aborter :: "mail_lease \<Rightarrow> mail_lease" where
  "lease_set_aborter l =
     (let l' = l\<lparr>lease_aborter := True\<rparr>
      in if lease_closed l then l'\<lparr>aborter_calls := aborter_calls l + 1\<rparr> else l')"

definition lease_cancel :: "mail_lease \<Rightarrow> mail_lease" where
  "lease_cancel l =
     (if lease_closed l then l
      else l\<lparr>lease_closed := True, lease_aborter := False, lease_sub_closed := True,
             aborter_calls := aborter_calls l + (if lease_aborter l then 1 else 0)\<rparr>)"

definition lease_close :: "mail_lease \<Rightarrow> mail_lease" where
  "lease_close l =
     (let l' = lease_cancel l
      in if lease_on_close l' then l'\<lparr>lease_on_close := False, on_close_calls := on_close_calls l' + 1\<rparr>
         else l')"

datatype lease_error = LeaseClosed | LeaseUnauthorized | LeaseInvalid hint_error

text \<open>\<open>now\<close> is the clock, \<open>auth\<close> whether \<open>authorize()\<close> returns, and \<open>meanwhile\<close> whether another
  thread cancels the lease while \<open>authorize()\<close> runs.\<close>

definition lease_revalidate :: "mail_lease \<Rightarrow> rat \<Rightarrow> bool \<Rightarrow> bool \<Rightarrow> mail_lease \<times> (lease_error + unit)" where
  "lease_revalidate l now auth meanwhile =
     (if lease_closed l \<or> (case lease_expires l of None \<Rightarrow> False | Some t \<Rightarrow> t \<le> now) then (l, Inl LeaseClosed)
      else if \<not> auth then (l, Inl LeaseUnauthorized)
      else let l' = (if meanwhile then lease_cancel l else l)
           in if lease_closed l' then (l', Inl LeaseClosed) else (l', Inr ()))"

text \<open>A write hands exactly one copy of the cursor to the transport, or nothing.\<close>

definition lease_write ::
  "mail_lease \<Rightarrow> mailbox \<Rightarrow> rat \<Rightarrow> bool \<Rightarrow> bool \<Rightarrow> jdict \<Rightarrow> mail_lease \<times> (lease_error + jdict)" where
  "lease_write l mbox now auth meanwhile cursor = (case mail_from_dict (JObj cursor) of
     Inl e \<Rightarrow> (l, Inl (LeaseInvalid e))
   | Inr value \<Rightarrow>
       if arrival_mailbox value \<noteq> mbox \<or> \<not> is_bool (dget cursor ''reset'')
       then (l, Inl (LeaseInvalid InvalidHint))
       else (case lease_revalidate l now auth meanwhile of
               (l', Inl e) \<Rightarrow> (l', Inl e)
             | (l', Inr _) \<Rightarrow> (l', Inr cursor)))"

text \<open>What a wait on the subscription returns.\<close>

datatype sub_response = SubClosed | SubTimeout | SubArrival mail_arrival

text \<open>One turn of the loop of \<open>MailHintLease.take\<close>: the clock, whether the lease was cancelled
  before the loop test, the response of the subscription, and whether the lease was cancelled while
  it waited.\<close>

type_synonym lease_env = "rat \<times> bool \<times> sub_response \<times> bool"

definition lease_remaining :: "mail_lease \<Rightarrow> rat option \<Rightarrow> rat \<Rightarrow> rat option" where
  "lease_remaining l deadline now = (case (deadline, lease_expires l) of
     (None, None) \<Rightarrow> None
   | (Some d, None) \<Rightarrow> Some (max 0 (d - now))
   | (None, Some e) \<Rightarrow> Some (max 0 (e - now))
   | (Some d, Some e) \<Rightarrow> Some (max 0 (min d e - now)))"

text \<open>\<open>None\<close> when the given turns are used up and the caller still waits.\<close>

fun lease_take :: "mail_lease \<Rightarrow> rat option \<Rightarrow> lease_env list \<Rightarrow> (mail_lease \<times> mail_arrival option) option" where
  "lease_take l deadline [] = None"
| "lease_take l deadline ((now, before, response, during) # env) =
     (let l1 = (if before then lease_cancel l else l)
      in if lease_closed l1 then Some (l1, None)
         else if lease_remaining l1 deadline now = Some 0 then Some (lease_close l1, None)
         else (case response of
             SubClosed \<Rightarrow> Some (lease_close l1, None)
           | SubTimeout \<Rightarrow> Some (lease_close l1, None)
           | SubArrival arrival \<Rightarrow>
               let l2 = (if during then lease_cancel l1 else l1); previous = lease_latest l2
               in if lease_closed l2 then Some (l2, None)
                  else if arrival_mailbox arrival \<noteq> arrival_mailbox previous
                       \<or> (through_sequence arrival = through_sequence previous
                          \<and> arrival_id arrival \<noteq> arrival_id previous)
                  then Some (lease_close l2, None)
                  else if through_sequence arrival \<le> through_sequence previous
                  then lease_take l2 deadline env
                  else Some (l2\<lparr>lease_latest := arrival\<rparr>, Some arrival)))"

text \<open>\<open>owned_mail_snapshot\<close>: \<open>snapshot\<close> is \<open>store.team_mail_arrival_snapshot(claims, team_id, ...)\<close>,
  with or without a previous cursor.\<close>

datatype owned_error = CursorInvalid | CursorForeignTeam | OwnedKeyError | StoreError

definition owned_mail_snapshot ::
  "(jdict option \<Rightarrow> owned_error + jdict) \<Rightarrow> pystr \<Rightarrow> jdict option
    \<Rightarrow> owned_error + jdict \<times> jdict option" where
  "owned_mail_snapshot snapshot team previous_cursor =
     ebind (case previous_cursor of
              None \<Rightarrow> Inr None
            | Some c \<Rightarrow> (case mail_from_dict (JObj c) of Inl _ \<Rightarrow> Inl CursorInvalid | Inr p \<Rightarrow> Inr (Some p)))
       (\<lambda>previous.
          if (case previous of None \<Rightarrow> False | Some p \<Rightarrow> team_id p \<noteq> team) then Inl CursorForeignTeam
          else ebind (snapshot None) (\<lambda>owned.
            ebind (case previous of
                     None \<Rightarrow> Inr previous_cursor
                   | Some p \<Rightarrow>
                       if \<not> dhas owned ''recipient_server_id'' then Inl OwnedKeyError
                       else if JStr (recipient_server_id p) \<noteq> dget owned ''recipient_server_id'' then Inr None
                       else Inr previous_cursor)
              (\<lambda>retained. case retained of
                 None \<Rightarrow> Inr (owned, None)
               | Some c \<Rightarrow> ebind (snapshot (Some c)) (\<lambda>owned'. Inr (owned', Some c)))))"

section \<open>The registry of mail subscriptions\<close>

text \<open>What can happen to one subscription: it accepts a newer arrival of its own mailbox, its reader
  takes the pending cursor, or it is closed.\<close>

inductive sub_evolves :: "mail_sub \<Rightarrow> mail_sub \<Rightarrow> bool" where
  accept: "\<not> sub_closed s \<Longrightarrow> arrival_mailbox a = sub_mailbox s
    \<Longrightarrow> (\<And>l. sub_latest s = Some l \<Longrightarrow> through_sequence l < through_sequence a)
    \<Longrightarrow> sub_evolves s (s\<lparr>sub_latest := Some a, sub_pending := Some a\<rparr>)"
| taken: "\<not> sub_closed s \<Longrightarrow> sub_evolves s (s\<lparr>sub_pending := None\<rparr>)"
| closed: "sub_evolves s (mail_sub_kill s)"

inductive_cases sub_evolves_E: "sub_evolves s s'"

definition mail_sub_ok :: "mail_sub \<Rightarrow> bool" where
  "mail_sub_ok s \<longleftrightarrow> (sub_closed s \<longrightarrow> sub_pending s = None \<and> sub_latest s = None)
     \<and> (sub_pending s \<noteq> None \<longrightarrow> sub_pending s = sub_latest s)
     \<and> (\<forall>a. sub_latest s = Some a \<longrightarrow> arrival_mailbox a = sub_mailbox s)"

text \<open>Nothing at or below \<open>n\<close> will be handed to the reader any more.\<close>

definition sub_above :: "int \<Rightarrow> mail_sub \<Rightarrow> bool" where
  "sub_above n s \<longleftrightarrow> sub_closed s
     \<or> (\<exists>a. sub_latest s = Some a \<and> n \<le> through_sequence a)
       \<and> (\<forall>a. sub_pending s = Some a \<longrightarrow> n < through_sequence a)"

lemma mail_sub_new_ok: "mail_sub_ok (mail_sub_new m)"
  by (simp add: mail_sub_ok_def mail_sub_new_def)

lemma sub_evolves_ok: "sub_evolves s s' \<Longrightarrow> mail_sub_ok s \<Longrightarrow> mail_sub_ok s'"
  by (induction rule: sub_evolves.induct) (auto simp: mail_sub_ok_def mail_sub_kill_def)

lemma sub_evolves_above: "sub_evolves s s' \<Longrightarrow> sub_above n s \<Longrightarrow> sub_above n s'"
  by (induction rule: sub_evolves.induct) (fastforce simp: sub_above_def mail_sub_kill_def)+

lemma sub_evolves_mailbox: "sub_evolves s s' \<Longrightarrow> sub_mailbox s' = sub_mailbox s"
  by (induction rule: sub_evolves.induct) (auto simp: mail_sub_kill_def)

interpretation mail_subs: evolving_subscriber mail_sub_new sub_closed sub_mailbox mail_sub_kill sub_evolves mail_sub_ok
  by unfold_locales
     (simp_all add: mail_sub_new_ok sub_evolves_mailbox sub_evolves.closed sub_evolves_ok,
      simp_all add: mail_sub_new_def mail_sub_kill_def)

lemma sub_evolves_star:
  assumes "sub_evolves\<^sup>*\<^sup>* s s'"
  shows "sub_above n s \<Longrightarrow> sub_above n s'"
  using assms
  by (induction rule: rtranclp_induct) (auto intro: sub_evolves_above)

definition mail_inv :: "mail_broker \<Rightarrow> bool" where
  "mail_inv b \<longleftrightarrow> registry_inv sub_closed sub_mailbox b \<and> list_all mail_sub_ok (subs b)"

definition mail_deliver :: "mail_arrival \<Rightarrow> mail_sub \<Rightarrow> mail_sub" where
  "mail_deliver a s = (case sub_latest s of
     None \<Rightarrow> s\<lparr>sub_latest := Some a, sub_pending := Some a\<rparr>
   | Some l \<Rightarrow>
       if through_sequence a < through_sequence l \<or> a = l then s
       else if through_sequence a = through_sequence l then mail_sub_kill s
       else s\<lparr>sub_latest := Some a, sub_pending := Some a\<rparr>)"

lemma arrival_eq_iff:
  "(a :: mail_arrival) = l \<longleftrightarrow> arrival_mailbox a = arrival_mailbox l
     \<and> through_sequence a = through_sequence l \<and> arrival_id a = arrival_id l"
  by (cases a; cases l) (auto simp: arrival_mailbox_def)

lemma mail_deliver_evolves:
  assumes "\<not> sub_closed s" "arrival_mailbox a = sub_mailbox s"
  shows "sub_evolves\<^sup>*\<^sup>* s (mail_deliver a s)"
proof (cases "sub_latest s")
  case None
  then show ?thesis
    using assms by (auto simp: mail_deliver_def intro!: r_into_rtranclp sub_evolves.intros)
next
  case (Some l)
  then show ?thesis
    using assms by (auto simp: mail_deliver_def intro!: r_into_rtranclp sub_evolves.intros)
qed

definition mail_receives :: "mail_arrival \<Rightarrow> mail_sub \<Rightarrow> bool" where
  "mail_receives a s \<longleftrightarrow> mail_sub_ok s \<and> \<not> sub_closed s \<and> sub_mailbox s = arrival_mailbox a"

lemma mail_publish_one_delivers: "mail_subs.delivers (mail_publish_one a) (mail_deliver a) (mail_receives a)"
proof (rule mail_subs.deliversI, goal_cases)
  case (1 b i)
  have "a = l \<longleftrightarrow> through_sequence a = through_sequence l \<and> arrival_id a = arrival_id l"
    if "sub_latest (subs b ! i) = Some l" for l
    using that 1(2) by (auto simp: arrival_eq_iff mail_sub_ok_def mail_receives_def)
  with 1(2) show ?case
    by (auto simp: mail_publish_one_def mail_deliver_def mail_close_locked_def mail_receives_def Let_def
        split: option.splits)
qed

lemma mail_take_delivers:
  "mail_subs.delivers (\<lambda>b i. fst (mail_take b i)) (\<lambda>s. s\<lparr>sub_pending := None\<rparr>) (\<lambda>s. \<not> sub_closed s)"
  by (rule mail_subs.deliversI) (simp add: mail_take_def)

lemma mail_registered:
  assumes "mail_inv b"
  shows "i \<in> set (registered b m) \<longleftrightarrow> i < length (subs b) \<and> \<not> sub_closed (subs b ! i) \<and> sub_mailbox (subs b ! i) = m"
    and "distinct (registered b m)"
  using assms mail_subs.registered_iff mail_subs.registered_distinct by (simp_all add: mail_inv_def)

lemma mail_inv_sub_ok: "mail_inv b \<Longrightarrow> i < length (subs b) \<Longrightarrow> mail_sub_ok (subs b ! i)"
  by (auto simp: mail_inv_def list_all_length)

lemma mail_receivers:
  assumes "mail_inv b" "i \<in> set (registered b (arrival_mailbox a))"
  shows "i < length (subs b) \<and> mail_receives a (subs b ! i)"
  using assms mail_registered(1) [OF assms(1)] mail_inv_sub_ok [OF assms(1)]
  by (simp add: mail_receives_def)

lemma mail_publish_subs:
  assumes "mail_inv b" "\<not> broker_closed b"
  shows "subs (mail_publish b a) ! j
    = (if j \<in> set (registered b (arrival_mailbox a)) then mail_deliver a (subs b ! j) else subs b ! j)"
  using mail_subs.delivers_fold [OF mail_publish_one_delivers [of a] _ mail_registered(2) [OF assms(1)] mail_receivers [OF assms(1)]]
    assms by (simp add: mail_publish_def mail_inv_def)

abbreviation mail_moves :: "mail_broker \<Rightarrow> mail_broker \<Rightarrow> bool" where
  "mail_moves \<equiv> broker_moves mail_sub_new sub_closed sub_mailbox sub_evolves"

lemma mail_moves_inv: "mail_inv b \<Longrightarrow> mail_moves b b' \<Longrightarrow> mail_inv b'"
  using mail_subs.moves_ok [of b b'] by (simp add: mail_inv_def broker_moves_def)

lemma mail_publish_moves: "mail_inv b \<Longrightarrow> mail_moves b (mail_publish b a)"
proof (cases "broker_closed b")
  case True
  then show "mail_inv b \<Longrightarrow> ?thesis" by (simp add: mail_publish_def mail_inv_def mail_subs.moves_refl)
next
  case False
  assume inv: "mail_inv b"
  have "mail_moves b (foldl (mail_publish_one a) b (registered b (arrival_mailbox a)))"
    using inv mail_registered(2) [OF inv] mail_receivers [OF inv]
    by (intro mail_subs.delivers_fold_moves [OF mail_publish_one_delivers])
       (auto simp: mail_inv_def mail_receives_def intro: mail_deliver_evolves)
  then show ?thesis using False by (simp add: mail_publish_def)
qed

lemma mail_take_moves:
  assumes "mail_inv b" "i < length (subs b)"
  shows "mail_moves b (fst (mail_take b i))"
proof (cases "sub_closed (subs b ! i)")
  case True
  then show ?thesis using assms(1) by (simp add: mail_take_def mail_inv_def mail_subs.moves_refl)
next
  case False
  then show ?thesis
    using assms by (intro mail_subs.delivers_moves [OF mail_take_delivers])
      (auto simp: mail_inv_def intro!: r_into_rtranclp sub_evolves.taken)
qed

lemma mail_step_moves:
  assumes "mail_inv b"
  shows "mail_moves b (fst (mail_step b op))"
proof -
  have inv: "registry_inv sub_closed sub_mailbox b" using assms by (simp add: mail_inv_def)
  note moves = mail_subs.moves_refl [OF inv] mail_subs.close_one_moves [OF inv]
    mail_subs.close_each_moves [OF inv] mail_subs.close_broker_moves [OF inv]
  show ?thesis
  proof (cases op)
    case (OpSubscribe t r)
    have "mail_moves b b'" if "mail_subscribe b t r = Inr (b', i)" for b' i
    proof -
      from that obtain a where "subscribe_slot mail_sub_new b (arrival_mailbox a) = Inr (b', i)"
        unfolding mail_subscribe_def ebind_Inr_iff by blast
      then show ?thesis by (rule mail_subs.subscribe_moves [OF inv])
    qed
    then show ?thesis using OpSubscribe moves by (auto simp: mail_step_def split: sum.splits)
  next
    case (OpTake i)
    have "fst (mail_step b op) = (if i < length (subs b) then fst (mail_take b i) else b)"
      by (simp add: mail_step_def OpTake split: prod.splits sum.splits option.splits)
    then show ?thesis using assms moves mail_take_moves by simp
  next
    case (OpInvalidate t r)
    then show ?thesis
      using moves mail_subs.registered_lt [OF inv] by (simp add: mail_step_def mail_invalidate_def)
  qed (use assms moves mail_publish_moves in
        \<open>simp_all add: mail_step_def mail_close_locked_def mail_broker_close_def\<close>)
qed

text \<open>The step only hands out what was pending, and remembers it as the floor.\<close>

lemma mail_step_out:
  assumes "mail_inv b" "(i, a) \<in> set (snd (mail_step b op))"
  shows "i < length (subs b)" "\<not> sub_closed (subs b ! i)" "sub_pending (subs b ! i) = Some a"
    "snd (mail_step b op) = [(i, a)]" "sub_above (through_sequence a) (subs (fst (mail_step b op)) ! i)"
proof -
  obtain j where op: "op = OpTake j" "j < length (subs b)"
    using assms(2) by (auto simp: mail_step_def split: mail_op.splits sum.splits if_splits)
  have open_i: "\<not> sub_closed (subs b ! j) \<and> sub_pending (subs b ! j) = Some a \<and> j = i"
    using assms(2) op by (auto simp: mail_step_def mail_take_def split: if_splits option.splits)
  then show "i < length (subs b)" "\<not> sub_closed (subs b ! i)" "sub_pending (subs b ! i) = Some a"
    "snd (mail_step b op) = [(i, a)]"
    using op by (auto simp: mail_step_def mail_take_def)
  have "sub_latest (subs b ! i) = Some a"
    using mail_inv_sub_ok [OF assms(1) op(2)] open_i by (auto simp: mail_sub_ok_def)
  then show "sub_above (through_sequence a) (subs (fst (mail_step b op)) ! i)"
    using open_i op by (auto simp: mail_step_def mail_take_def sub_above_def)
qed

lemma mail_step_sub:
  assumes "mail_inv b" "i < length (subs b)"
  shows "sub_evolves\<^sup>*\<^sup>* (subs b ! i) (subs (fst (mail_step b op)) ! i)"
    "i < length (subs (fst (mail_step b op)))"
  using mail_step_moves [OF assms(1), of op] assms(2) by (auto simp: broker_moves_def)

lemma mail_step_inv: "mail_inv b \<Longrightarrow> mail_inv (fst (mail_step b op))"
  by (rule mail_moves_inv [OF _ mail_step_moves])

lemma mail_run_Cons:
  "fst (mail_run b (op # ops)) = fst (mail_run (fst (mail_step b op)) ops)"
  "snd (mail_run b (op # ops)) = snd (mail_step b op) @ snd (mail_run (fst (mail_step b op)) ops)"
  by (simp_all split: prod.split)

lemma mail_run_inv: "mail_inv b \<Longrightarrow> mail_inv (fst (mail_run b ops))"
proof (induction ops arbitrary: b)
  case (Cons op ops)
  show ?case unfolding mail_run_Cons by (rule Cons.IH [OF mail_step_inv [OF Cons.prems]])
qed simp

lemma mail_run_evolves:
  assumes "mail_inv b" "i < length (subs b)"
  shows "sub_evolves\<^sup>*\<^sup>* (subs b ! i) (subs (fst (mail_run b ops)) ! i)"
  using assms
proof (induction ops arbitrary: b)
  case (Cons op ops)
  note s = mail_step_sub [OF Cons.prems, of op]
  show ?case
    unfolding mail_run_Cons
    by (rule rtranclp_trans [OF s(1) Cons.IH [OF mail_step_inv [OF Cons.prems(1)] s(2)]])
qed simp

lemma mail_run_above:
  assumes "mail_inv b" "i < length (subs b)" "sub_above n (subs b ! i)" "(i, a) \<in> set (snd (mail_run b ops))"
  shows "n < through_sequence a"
  using assms
proof (induction ops arbitrary: b)
  case (Cons op ops)
  note s = mail_step_sub [OF Cons.prems(1,2), of op]
  from Cons.prems(4) consider "(i, a) \<in> set (snd (mail_step b op))"
    | "(i, a) \<in> set (snd (mail_run (fst (mail_step b op)) ops))"
    unfolding mail_run_Cons by auto
  then show ?case
  proof cases
    case 1
    note o = mail_step_out [OF Cons.prems(1) 1]
    then show ?thesis using Cons.prems(3) by (simp add: sub_above_def)
  next
    case 2
    show ?thesis
      by (rule Cons.IH [OF mail_step_inv [OF Cons.prems(1)] s(2) sub_evolves_star [OF s(1) Cons.prems(3)] 2])
  qed
qed simp

definition taken_by :: "nat \<Rightarrow> (nat \<times> mail_arrival) list \<Rightarrow> mail_arrival list" where
  "taken_by i out = map snd (filter (\<lambda>x. fst x = i) out)"

lemma in_taken_by: "a \<in> set (taken_by i out) \<longleftrightarrow> (i, a) \<in> set out"
  by (force simp: taken_by_def)

lemma mail_run_taken:
  assumes "mail_inv b"
  shows "sorted_wrt (\<lambda>x y. through_sequence x < through_sequence y) (taken_by i (snd (mail_run b ops)))"
  using assms
proof (induction ops arbitrary: b)
  case (Cons op ops)
  let ?b = "fst (mail_step b op)"
  have inv: "mail_inv ?b" by (rule mail_step_inv [OF Cons.prems])
  show ?case
  proof (cases "taken_by i (snd (mail_step b op))")
    case Nil
    then show ?thesis using Cons.IH [OF inv] by (simp add: mail_run_Cons(2) taken_by_def del: mail_run.simps)
  next
    case (Cons a as)
    then have "(i, a) \<in> set (snd (mail_step b op))" using in_taken_by by (metis list.set_intros(1))
    note o = mail_step_out [OF Cons.prems this]
    note s = mail_step_sub [OF Cons.prems o(1), of op]
    have "through_sequence a < through_sequence x" if "x \<in> set (taken_by i (snd (mail_run ?b ops)))" for x
      using mail_run_above [OF inv s(2) o(5)] that in_taken_by by blast
    with Cons.IH [OF inv] show ?thesis
      unfolding mail_run_Cons(2) o(4) by (simp add: taken_by_def)
  qed
qed (simp add: taken_by_def)

lemma new_broker_mail_inv: "new_broker n k = Inr b \<Longrightarrow> mail_inv b"
  using mail_subs.new_broker_inv by (auto simp: mail_inv_def new_broker_def split: if_splits)

lemma mail_run_limits:
  "mail_inv b \<Longrightarrow> max_subscriptions (fst (mail_run b ops)) = max_subscriptions b
   \<and> max_per_recipient (fst (mail_run b ops)) = max_per_recipient b"
proof (induction ops arbitrary: b)
  case (Cons op ops)
  show ?case
    unfolding mail_run_Cons using Cons.IH [OF mail_step_inv [OF Cons.prems]] mail_step_moves [OF Cons.prems, of op]
    by (simp add: broker_moves_def)
qed simp

section \<open>Properties of the broker\<close>

text \<open>Whatever subscribers, publishers and closers do, the broker never has more open
  subscriptions than its limits, in total and per mailbox, and its count is exactly their number.\<close>

lemma mail_broker_capacity:
  assumes "new_broker n k = Inr b"
  shows "sub_count (fst (mail_run b ops)) = int (card (open_ids sub_closed (fst (mail_run b ops))))
    \<and> sub_count (fst (mail_run b ops)) \<le> n
    \<and> int (card {i \<in> open_ids sub_closed (fst (mail_run b ops)).
        sub_mailbox (subs (fst (mail_run b ops)) ! i) = m}) \<le> k"
proof -
  have inv: "registry_inv sub_closed sub_mailbox (fst (mail_run b ops))"
    using mail_run_inv [OF new_broker_mail_inv [OF assms]] by (simp add: mail_inv_def)
  moreover have "max_subscriptions b = n" "max_per_recipient b = k"
    using assms by (auto simp: new_broker_def split: if_splits)
  ultimately show ?thesis
    using mail_subs.capacity(2) [OF inv, of m] mail_run_limits [OF new_broker_mail_inv [OF assms], of ops]
    by (simp add: registry_inv_def)
qed

text \<open>C11. One subscription's reader sees arrivals of its own mailbox only, with strictly increasing
  sequence numbers, under any interleaving with publications (in any order), other readers,
  invalidations and closing.\<close>

theorem mail_taken_increasing:
  assumes "new_broker n k = Inr b"
  shows "sorted_wrt (\<lambda>x y. through_sequence x < through_sequence y) (taken_by i (snd (mail_run b ops)))
    \<and> (\<forall>a \<in> set (taken_by i (snd (mail_run b ops))).
         arrival_mailbox a = sub_mailbox (subs (fst (mail_run b ops)) ! i))"
proof -
  have "arrival_mailbox a = sub_mailbox (subs (fst (mail_run b ops)) ! i)"
    if "mail_inv b" "(i, a) \<in> set (snd (mail_run b ops))" for a ops b
    using that
  proof (induction ops arbitrary: b)
    case (Cons op ops)
    have inv: "mail_inv (fst (mail_step b op))" by (rule mail_step_inv [OF Cons.prems(1)])
    show ?case
    proof (cases "(i, a) \<in> set (snd (mail_step b op))")
      case True
      note o = mail_step_out [OF Cons.prems(1) True]
      have "arrival_mailbox a = sub_mailbox (subs b ! i)"
        using mail_inv_sub_ok [OF Cons.prems(1) o(1)] o(3) by (simp add: mail_sub_ok_def)
      then show ?thesis
        using mail_subs.evo_star [OF mail_run_evolves [OF Cons.prems(1) o(1), of "op # ops"]] by simp
    next
      case False
      then have "(i, a) \<in> set (snd (mail_run (fst (mail_step b op)) ops))"
        using Cons.prems(2) unfolding mail_run_Cons by auto
      from Cons.IH [OF inv this] show ?thesis unfolding mail_run_Cons .
    qed
  qed simp
  with new_broker_mail_inv [OF assms] mail_run_taken show ?thesis
    by (simp add: in_taken_by)
qed

definition example_arrival :: "int \<Rightarrow> mail_arrival" where
  "example_arrival n = \<lparr>team_id = lit ''t'', recipient_server_id = lit ''r'', through_sequence = n,
     arrival_id = Some (lit ''tmsg_0123456789abcdef0123456789abcdef'')\<rparr>"

theorem mail_taken_increasing_witness:
  "\<exists>b. new_broker 2 2 = Inr b
     \<and> sorted_wrt (\<lambda>x y. through_sequence x < through_sequence y)
        (taken_by 0 (snd (mail_run b [OpSubscribe (lit ''t'') (lit ''r''), OpPublish (example_arrival 1),
           OpTake 0, OpPublish (example_arrival 1), OpTake 0, OpPublish (example_arrival 2), OpTake 0])))"
proof -
  have "\<exists>b :: mail_broker. new_broker 2 2 = Inr b" by (simp add: new_broker_def)
  then obtain b :: mail_broker where b: "new_broker 2 2 = Inr b" by blast
  from mail_taken_increasing [OF b] b show ?thesis by blast
qed

text \<open>A publication reaches exactly the open subscriptions of the arrival's mailbox: each of them
  takes a newer arrival as its pending cursor, ignores an older one or a repetition, and is closed
  when the same sequence number comes with a different arrival; every other subscription is
  untouched.\<close>

lemma mail_publish_exact:
  assumes "new_broker n k = Inr b0" and "b = fst (mail_run b0 ops)" and "\<not> broker_closed b"
    and "j < length (subs b)"
  shows "subs (mail_publish b a) ! j
    = (if \<not> sub_closed (subs b ! j) \<and> sub_mailbox (subs b ! j) = arrival_mailbox a
       then mail_deliver a (subs b ! j) else subs b ! j)"
proof -
  have inv: "mail_inv b"
    unfolding assms(2) by (rule mail_run_inv [OF new_broker_mail_inv [OF assms(1)]])
  show ?thesis
    using mail_publish_subs [OF inv assms(3)] mail_registered(1) [OF inv] assms(4) by simp
qed

definition example_broker :: mail_broker where
  "example_broker = \<lparr>max_subscriptions = 2, max_per_recipient = 2, subs = [], registry = [],
     sub_count = 0, broker_closed = False\<rparr>"

section \<open>Cursors as dictionaries\<close>

definition valid_arrival :: "mail_arrival \<Rightarrow> bool" where
  "valid_arrival a \<longleftrightarrow> valid_identity (team_id a) \<and> valid_identity (recipient_server_id a)
     \<and> 0 \<le> through_sequence a \<and> through_sequence a \<le> MAX_MAIL_SEQUENCE
     \<and> (case arrival_id a of None \<Rightarrow> through_sequence a = 0
        | Some i \<Rightarrow> through_sequence a \<noteq> 0 \<and> mail_arrival_id i)"

lemma mail_arrival_init_iff:
  "mail_arrival_init t r n i = Inr a \<longleftrightarrow> valid_arrival a \<and> t = JStr (team_id a)
     \<and> r = JStr (recipient_server_id a) \<and> n = JInt (through_sequence a) \<and> i = opt_str (arrival_id a)"
  by (cases a)
     (auto simp: mail_arrival_init_def valid_arrival_def opt_str_def split: json.splits option.splits if_splits)

lemma mail_from_dict_iff:
  "mail_from_dict v = Inr a \<longleftrightarrow> valid_arrival a \<and> (\<exists>d. v = JObj d
     \<and> list_all (dhas d) mail_required \<and> keys_within d (mail_required @ [''reset''])
     \<and> dget d ''version'' = JInt 1 \<and> (dhas d ''reset'' \<longrightarrow> is_bool (dget d ''reset''))
     \<and> dget d ''team_id'' = JStr (team_id a) \<and> dget d ''recipient_server_id'' = JStr (recipient_server_id a)
     \<and> dget d ''through_sequence'' = JInt (through_sequence a) \<and> dget d ''arrival_id'' = opt_str (arrival_id a))"
  by (auto simp: mail_from_dict_def mail_arrival_init_iff split: json.splits)

lemma dhas_map_of: "dhas d k \<Longrightarrow> map_of d (lit k) = Some (dget d k)"
  by (auto simp: dhas_def dget_def)

lemma keys_within_map_of: "keys_within d ks \<Longrightarrow> x \<notin> set (map lit ks) \<Longrightarrow> map_of d x = None"
  by (auto simp: keys_within_def list_all_iff map_of_eq_None_iff)

lemma keys_within_map_of_iff: "keys_within d ks \<longleftrightarrow> dom (map_of d) \<subseteq> set (map lit ks)"
  by (auto simp: keys_within_def list_all_iff dom_map_of_conv_image_fst)

lemma same_map_of:
  assumes "map_of d = map_of e"
  shows "dget d k = dget e k" "dhas d k = dhas e k" "keys_within d ks = keys_within e ks"
  using assms by (simp_all add: dget_def dhas_def keys_within_map_of_iff)

text \<open>Decoding accepts exactly the dictionaries that encode a valid cursor, with or without a
  reset flag and in any key order, and returns the encoded cursor.\<close>

lemma mail_cursor_codec:
  "mail_from_dict v = Inr a \<longleftrightarrow>
     valid_arrival a \<and> (\<exists>d reset. v = JObj d \<and> map_of d = map_of (mail_as_dict a reset))"
proof
  assume "mail_from_dict v = Inr a"
  then obtain d where d: "v = JObj d" "valid_arrival a" "list_all (dhas d) mail_required"
      "keys_within d (mail_required @ [''reset''])" "dhas d ''reset'' \<longrightarrow> is_bool (dget d ''reset'')"
    and vals: "dget d ''version'' = JInt 1" "dget d ''team_id'' = JStr (team_id a)"
      "dget d ''recipient_server_id'' = JStr (recipient_server_id a)"
      "dget d ''through_sequence'' = JInt (through_sequence a)" "dget d ''arrival_id'' = opt_str (arrival_id a)"
    by (auto simp: mail_from_dict_iff)
  obtain reset where reset: "map_of d (lit ''reset'') = map_option JBool reset"
  proof (cases "dhas d ''reset''")
    case True
    then obtain x where "dget d ''reset'' = JBool x"
      using d(5) by (auto simp: is_bool_def split: json.splits)
    then show thesis using that [of "Some x"] dhas_map_of [OF True] by simp
  next
    case False
    then show thesis using that [of None] by (simp add: dhas_def)
  qed
  have known: "map_of d (lit ''version'') = Some (JInt 1)" "map_of d (lit ''team_id'') = Some (JStr (team_id a))"
    "map_of d (lit ''recipient_server_id'') = Some (JStr (recipient_server_id a))"
    "map_of d (lit ''through_sequence'') = Some (JInt (through_sequence a))"
    "map_of d (lit ''arrival_id'') = Some (opt_str (arrival_id a))"
    using d(3) dhas_map_of [of d] vals by (simp_all add: mail_required_def)
  have "map_of d x = map_of (mail_as_dict a reset) x" for x
  proof (cases "x \<in> set (map lit (mail_required @ [''reset'']))")
    case False
    then have "map_of d x = None" by (rule keys_within_map_of [OF d(4)])
    moreover have "map_of (mail_as_dict a reset) x = None"
      using False by (auto simp: mail_as_dict_def mail_required_def split: option.splits)
    ultimately show ?thesis by simp
  next
    case True
    then consider "x = lit ''version''" | "x = lit ''team_id''" | "x = lit ''recipient_server_id''"
      | "x = lit ''through_sequence''" | "x = lit ''arrival_id''" | "x = lit ''reset''"
      by (auto simp: mail_required_def)
    then show ?thesis
      by cases (simp_all add: mail_as_dict_def known reset split: option.split)
  qed
  then have "map_of d = map_of (mail_as_dict a reset)" by (rule ext)
  with d(1,2) show "valid_arrival a \<and> (\<exists>d reset. v = JObj d \<and> map_of d = map_of (mail_as_dict a reset))"
    by blast
next
  assume "valid_arrival a \<and> (\<exists>d reset. v = JObj d \<and> map_of d = map_of (mail_as_dict a reset))"
  then obtain d reset where d: "valid_arrival a" "v = JObj d" "map_of d = map_of (mail_as_dict a reset)"
    by blast
  have "keys_within d (mail_required @ [''reset''])"
    unfolding same_map_of(3) [OF d(3)]
    by (auto simp: mail_as_dict_def mail_required_def keys_within_def split: option.splits)
  then show "mail_from_dict v = Inr a"
    unfolding mail_from_dict_iff using d(1,2)
    by (auto simp: same_map_of(1,2) [OF d(3)] mail_as_dict_def mail_required_def is_bool_def
        split: option.splits)
qed

section \<open>Leases\<close>

text \<open>Calls on one lease by its reader, its writer and its owners.\<close>

datatype lease_op =
    LeaseSetAborter
  | LeaseCancel
  | LeaseClose
  | LeaseWrite rat bool bool jdict
  | LeaseTake "rat option" "lease_env list"

datatype lease_event = Wrote jdict | Took mail_arrival

definition lease_step :: "mailbox \<Rightarrow> mail_lease \<Rightarrow> lease_op \<Rightarrow> mail_lease \<times> lease_event list" where
  "lease_step mbox l op = (case op of
     LeaseSetAborter \<Rightarrow> (lease_set_aborter l, [])
   | LeaseCancel \<Rightarrow> (lease_cancel l, [])
   | LeaseClose \<Rightarrow> (lease_close l, [])
   | LeaseWrite now auth meanwhile cursor \<Rightarrow>
       (case lease_write l mbox now auth meanwhile cursor of (l', r) \<Rightarrow>
          (l', case r of Inl _ \<Rightarrow> [] | Inr c \<Rightarrow> [Wrote c]))
   | LeaseTake deadline env \<Rightarrow>
       (case lease_take l deadline env of
          None \<Rightarrow> (l, [])
        | Some (l', r) \<Rightarrow> (l', case r of None \<Rightarrow> [] | Some a \<Rightarrow> [Took a])))"

fun lease_run :: "mailbox \<Rightarrow> mail_lease \<Rightarrow> lease_op list \<Rightarrow> mail_lease \<times> lease_event list" where
  "lease_run mbox l [] = (l, [])"
| "lease_run mbox l (op # ops) =
     (case lease_step mbox l op of (l', out) \<Rightarrow> case lease_run mbox l' ops of (l'', out') \<Rightarrow> (l'', out @ out'))"

lemma lease_cancel_props:
  "lease_closed (lease_cancel l)" "lease_latest (lease_cancel l) = lease_latest l"
  "lease_on_close (lease_cancel l) = lease_on_close l" "on_close_calls (lease_cancel l) = on_close_calls l"
  by (auto simp: lease_cancel_def)

lemma lease_close_props:
  "lease_closed (lease_close l)" "lease_latest (lease_close l) = lease_latest l"
  "\<not> lease_on_close (lease_close l)"
  "on_close_calls (lease_close l) = on_close_calls l + (if lease_on_close l then 1 else 0)"
  by (auto simp: lease_close_def Let_def lease_cancel_props)

lemma lease_take_Cons:
  "lease_take l deadline ((now, before, response, during) # env) =
     (if before \<or> lease_closed l then Some (lease_cancel l, None)
      else if lease_remaining l deadline now = Some 0 then Some (lease_close l, None)
      else (case response of
          SubArrival a \<Rightarrow>
            if during then Some (lease_cancel l, None)
            else if arrival_mailbox a \<noteq> arrival_mailbox (lease_latest l)
              \<or> (through_sequence a = through_sequence (lease_latest l) \<and> arrival_id a \<noteq> arrival_id (lease_latest l))
            then Some (lease_close l, None)
            else if through_sequence a \<le> through_sequence (lease_latest l) then lease_take l deadline env
            else Some (l\<lparr>lease_latest := a\<rparr>, Some a)
        | _ \<Rightarrow> Some (lease_close l, None)))"
  by (simp add: Let_def lease_cancel_props lease_cancel_def split: sub_response.split)

declare lease_take.simps(2) [simp del]

definition took_ok :: "mail_lease \<Rightarrow> mail_lease \<Rightarrow> mail_arrival option \<Rightarrow> bool" where
  "took_ok l l' r \<longleftrightarrow>
     (case r of
        None \<Rightarrow> lease_closed l' \<and> lease_latest l' = lease_latest l
      | Some a \<Rightarrow> \<not> lease_closed l \<and> \<not> lease_closed l' \<and> lease_latest l' = a
          \<and> through_sequence (lease_latest l) < through_sequence a
          \<and> arrival_mailbox a = arrival_mailbox (lease_latest l))
   \<and> on_close_calls l' + of_bool (lease_on_close l') = on_close_calls l + of_bool (lease_on_close l)
   \<and> (lease_on_close l' \<longrightarrow> lease_on_close l)"

lemma took_ok_none: "took_ok l (lease_cancel l) None" "took_ok l (lease_close l) None"
  by (simp_all add: took_ok_def lease_cancel_props lease_close_props)

lemma lease_take_ok: "lease_take l deadline env = Some (l', r) \<Longrightarrow> took_ok l l' r"
proof (induction env)
  case (Cons e env)
  obtain now before response during where e: "e = (now, before, response, during)" by (cases e)
  show ?case
    using Cons.prems Cons.IH unfolding e lease_take_Cons
    by (auto simp: took_ok_none split: if_splits sub_response.splits) (auto simp: took_ok_def)
qed simp

definition lease_moves :: "mailbox \<Rightarrow> mail_lease \<Rightarrow> mail_lease \<Rightarrow> lease_event list \<Rightarrow> bool" where
  "lease_moves mbox l l' out \<longleftrightarrow>
     on_close_calls l' + of_bool (lease_on_close l') = on_close_calls l + of_bool (lease_on_close l)
   \<and> (lease_on_close l' \<longrightarrow> lease_on_close l)
   \<and> (lease_closed l \<longrightarrow> lease_closed l' \<and> out = [])
   \<and> (lease_latest l' = lease_latest l \<and> (\<forall>a. Took a \<notin> set out)
      \<or> out = [Took (lease_latest l')] \<and> through_sequence (lease_latest l) < through_sequence (lease_latest l')
        \<and> arrival_mailbox (lease_latest l') = arrival_mailbox (lease_latest l))
   \<and> (\<forall>c. Wrote c \<in> set out \<longrightarrow> (\<exists>v. mail_from_dict (JObj c) = Inr v \<and> arrival_mailbox v = mbox))"

lemma lease_write_moves:
  "lease_write l mbox now auth meanwhile cursor = (l', r)
     \<Longrightarrow> lease_moves mbox l l' (case r of Inl _ \<Rightarrow> [] | Inr c \<Rightarrow> [Wrote c])"
  by (auto simp: lease_write_def lease_revalidate_def lease_moves_def Let_def lease_cancel_props
      split: sum.splits if_splits)

lemma lease_take_moves:
  "lease_take l deadline env = Some (l', r)
     \<Longrightarrow> lease_moves mbox l l' (case r of None \<Rightarrow> [] | Some a \<Rightarrow> [Took a])"
  using lease_take_ok [of l deadline env l' r]
  by (auto simp: took_ok_def lease_moves_def split: option.splits)

lemma lease_step_moves: "lease_moves mbox l (fst (lease_step mbox l op)) (snd (lease_step mbox l op))"
proof (cases op)
  case (LeaseWrite now auth meanwhile cursor)
  then show ?thesis
    using lease_write_moves [of l mbox now auth meanwhile cursor] by (simp add: lease_step_def split: prod.split)
next
  case (LeaseTake deadline env)
  show ?thesis
  proof (cases "lease_take l deadline env")
    case None
    then show ?thesis by (simp add: LeaseTake lease_step_def lease_moves_def)
  next
    case (Some lr)
    then show ?thesis
      using lease_take_moves [of l deadline env "fst lr" "snd lr" mbox]
      by (cases lr) (simp add: LeaseTake lease_step_def)
  qed
qed (auto simp: lease_step_def lease_moves_def lease_cancel_props lease_close_props lease_set_aborter_def Let_def)

lemma lease_run_Cons:
  "fst (lease_run mbox l (op # ops)) = fst (lease_run mbox (fst (lease_step mbox l op)) ops)"
  "snd (lease_run mbox l (op # ops)) =
     snd (lease_step mbox l op) @ snd (lease_run mbox (fst (lease_step mbox l op)) ops)"
  by (simp_all split: prod.split)

lemma lease_run_append:
  "fst (lease_run mbox l (ops @ ops')) = fst (lease_run mbox (fst (lease_run mbox l ops)) ops')"
  "snd (lease_run mbox l (ops @ ops')) =
     snd (lease_run mbox l ops) @ snd (lease_run mbox (fst (lease_run mbox l ops)) ops')"
  by (induction ops arbitrary: l) (simp_all add: lease_run_Cons del: lease_run.simps(2))

lemma lease_run_closed:
  "lease_closed l \<Longrightarrow> snd (lease_run mbox l ops) = [] \<and> lease_closed (fst (lease_run mbox l ops))"
proof (induction ops arbitrary: l)
  case (Cons op ops)
  from lease_step_moves [of mbox l op] Cons.prems
  have "lease_closed (fst (lease_step mbox l op))" "snd (lease_step mbox l op) = []"
    by (simp_all add: lease_moves_def)
  with Cons.IH show ?case unfolding lease_run_Cons by simp
qed simp

lemma lease_run_budget:
  "(lease_on_close (fst (lease_run mbox l ops)) \<longrightarrow> lease_on_close l)
   \<and> on_close_calls (fst (lease_run mbox l ops)) + of_bool (lease_on_close (fst (lease_run mbox l ops)))
     = on_close_calls l + of_bool (lease_on_close l)"
proof (induction ops arbitrary: l)
  case (Cons op ops)
  show ?case
    unfolding lease_run_Cons using Cons.IH [of "fst (lease_step mbox l op)"] lease_step_moves [of mbox l op]
    by (simp add: lease_moves_def)
qed simp

fun took_seqs :: "lease_event list \<Rightarrow> int list" where
  "took_seqs [] = []"
| "took_seqs (Took a # out) = through_sequence a # took_seqs out"
| "took_seqs (Wrote c # out) = took_seqs out"

lemma took_seqs_append: "took_seqs (xs @ ys) = took_seqs xs @ took_seqs ys"
  by (induction xs rule: took_seqs.induct) simp_all

lemma took_seqs_none: "\<forall>a. Took a \<notin> set out \<Longrightarrow> took_seqs out = []"
  by (induction out rule: took_seqs.induct) auto

lemma lease_run_stream:
  "sorted_wrt (<) (through_sequence (lease_latest l) # took_seqs (snd (lease_run mbox l ops)))"
proof (induction ops arbitrary: l)
  case (Cons op ops)
  note IH = Cons.IH [of "fst (lease_step mbox l op)"]
  from lease_step_moves [of mbox l op] consider
      "lease_latest (fst (lease_step mbox l op)) = lease_latest l" "took_seqs (snd (lease_step mbox l op)) = []"
    | "snd (lease_step mbox l op) = [Took (lease_latest (fst (lease_step mbox l op)))]"
      "through_sequence (lease_latest l) < through_sequence (lease_latest (fst (lease_step mbox l op)))"
    by (auto simp: lease_moves_def took_seqs_none)
  then show ?case
  proof cases
    case 1
    then show ?thesis using IH unfolding lease_run_Cons took_seqs_append by simp
  next
    case 2
    then show ?thesis using IH unfolding lease_run_Cons took_seqs_append by fastforce
  qed
qed simp

lemma lease_run_mailbox:
  assumes "arrival_mailbox (lease_latest l) = mbox"
  shows "(Took a \<in> set (snd (lease_run mbox l ops)) \<longrightarrow> arrival_mailbox a = mbox)
    \<and> (Wrote c \<in> set (snd (lease_run mbox l ops)) \<longrightarrow>
         (\<exists>v. mail_from_dict (JObj c) = Inr v \<and> arrival_mailbox v = mbox))"
  using assms
proof (induction ops arbitrary: l)
  case (Cons op ops)
  note m = lease_step_moves [of mbox l op]
  have "arrival_mailbox (lease_latest (fst (lease_step mbox l op))) = mbox"
    using m Cons.prems by (auto simp: lease_moves_def)
  from Cons.IH [OF this] show ?case
    unfolding lease_run_Cons using m Cons.prems by (auto simp: lease_moves_def)
qed simp

text \<open>A stream lease hands its reader only arrivals of its own mailbox, strictly newer than the
  snapshot it was opened with and than each other, and writes only cursors of that mailbox.\<close>

lemma lease_stream_increasing:
  assumes "mail_lease_new mbox snapshot hub_id expires on_close = Inr l"
    and "mail_from_dict (JObj snapshot) = Inr first"
  shows "sorted_wrt (<) (through_sequence first # took_seqs (snd (lease_run mbox l ops)))
    \<and> (\<forall>a. Took a \<in> set (snd (lease_run mbox l ops)) \<longrightarrow> arrival_mailbox a = mbox)
    \<and> (\<forall>c. Wrote c \<in> set (snd (lease_run mbox l ops)) \<longrightarrow>
         (\<exists>v. mail_from_dict (JObj c) = Inr v \<and> arrival_mailbox v = mbox))"
proof -
  have l: "lease_latest l = first" "arrival_mailbox first = mbox"
    using assms by (auto simp: mail_lease_new_def split: if_splits)
  then have mb: "arrival_mailbox (lease_latest l) = mbox" by simp
  show ?thesis
    using lease_run_stream [of l mbox ops] lease_run_mailbox [OF mb, of _ ops] unfolding l by blast
qed

text \<open>Once a lease is closed it is silent: nothing more is read from it or written through it,
  and the owner's close callback has run exactly once if there was one, whatever is called before
  and after.\<close>

lemma lease_close_silences:
  "snd (lease_run mbox l (ops @ LeaseClose # ops')) = snd (lease_run mbox l ops)
   \<and> lease_closed (fst (lease_run mbox l (ops @ LeaseClose # ops')))
   \<and> on_close_calls (fst (lease_run mbox l (ops @ LeaseClose # ops')))
       = on_close_calls l + of_bool (lease_on_close l)"
proof -
  let ?l = "fst (lease_run mbox l ops)"
  have step: "lease_step mbox ?l LeaseClose = (lease_close ?l, [])" by (simp add: lease_step_def)
  note c = lease_run_closed [OF lease_close_props(1) [of ?l], of mbox ops']
  have "on_close_calls (fst (lease_run mbox (lease_close ?l) ops')) = on_close_calls l + of_bool (lease_on_close l)"
    using lease_run_budget [of mbox "lease_close ?l" ops'] lease_run_budget [of mbox l ops]
    by (auto simp: lease_close_props of_bool_def split: if_splits)
  then show ?thesis
    using c unfolding lease_run_append lease_run_Cons step by (simp add: lease_close_props)
qed

text \<open>A cursor kept from a previous binding never reaches the store unless it belongs to the
  mailbox that the claims own: two stores that agree on the owned snapshot and on the cursors of that
  mailbox give the same result for every retained cursor, whatever they say about foreign ones.\<close>

lemma owned_mail_snapshot_isolated:
  assumes "s None = s' None"
    and "\<And>owned. s None = Inr owned \<Longrightarrow> dget owned ''recipient_server_id'' = JStr r"
    and "\<And>c p. mail_from_dict (JObj c) = Inr p \<Longrightarrow> arrival_mailbox p = (team, r) \<Longrightarrow> s (Some c) = s' (Some c)"
  shows "owned_mail_snapshot s team previous_cursor = owned_mail_snapshot s' team previous_cursor"
proof (cases previous_cursor)
  case None
  then show ?thesis using assms(1) by (simp add: owned_mail_snapshot_def)
next
  case (Some c)
  show ?thesis
  proof (cases "mail_from_dict (JObj c)")
    case (Inr p)
    show ?thesis
    proof (cases "team_id p = team \<and> recipient_server_id p = r")
      case True
      then have "s (Some c) = s' (Some c)" using assms(3) [OF Inr] by (simp add: arrival_mailbox_def)
      then show ?thesis using assms(1) by (cases "s' None") (auto simp: owned_mail_snapshot_def Some Inr)
    next
      case False
      then show ?thesis
        using assms(1,2) by (cases "s' None") (auto simp: owned_mail_snapshot_def Some Inr)
    qed
  qed (simp add: owned_mail_snapshot_def Some)
qed

end
