(* ===== verification/Notification_Hints.thy ===== *)
theory Notification_Hints
  imports Mail_Hints
begin

text \<open>
  The combined Mail and Bulletin hints of \<open>agentsdock_team_hub/notification_hints.py\<close>: bulletin change
  cursors, the pair cursor, subscriptions that are seeded with a durable snapshot and coalesce two
  heads, the broker over the registry of \<open>Hint_Registry\<close>, and the lease with two heads.
\<close>

section \<open>Cursors\<close>

definition bulletin_change_id :: "pystr \<Rightarrow> bool" where
  "bulletin_change_id s \<longleftrightarrow> prefixed_hex32 ''bchg_'' s"

text \<open>What identifies a change; absent for the empty cursor, where all four fields are \<open>None\<close>.\<close>

record bulletin_entry =
  change_id :: pystr
  message_id :: pystr
  change_kind :: pystr
  message_version :: int

record bulletin_change =
  bulletin_team :: pystr
  bulletin_seq :: int
  bulletin_entry :: "bulletin_entry option"

definition bulletin_init :: "json \<Rightarrow> json \<Rightarrow> json \<Rightarrow> json \<Rightarrow> json \<Rightarrow> json \<Rightarrow> hint_error + bulletin_change" where
  "bulletin_init team seq cid mid kind ver = (case team of
     JStr t \<Rightarrow>
       if \<not> valid_identity t then Inl InvalidHint
       else (case seq of
         JInt n \<Rightarrow>
           if \<not> (0 \<le> n \<and> n \<le> MAX_MAIL_SEQUENCE) then Inl InvalidHint
           else if n = 0 then
             (if cid \<noteq> JNull \<or> mid \<noteq> JNull \<or> kind \<noteq> JNull \<or> ver \<noteq> JNull then Inl InvalidHint
              else Inr \<lparr>bulletin_team = t, bulletin_seq = n, bulletin_entry = None\<rparr>)
           else (case (cid, mid, kind, ver) of
             (JStr c, JStr m, JStr k, JInt v) \<Rightarrow>
               if bulletin_change_id c \<and> mail_arrival_id m
                  \<and> k \<in> {lit ''created'', lit ''revised'', lit ''deleted''}
                  \<and> 1 \<le> v \<and> v \<le> MAX_MAIL_SEQUENCE
               then Inr \<lparr>bulletin_team = t, bulletin_seq = n,
                 bulletin_entry = Some \<lparr>change_id = c, message_id = m, change_kind = k, message_version = v\<rparr>\<rparr>
               else Inl InvalidHint
           | _ \<Rightarrow> Inl InvalidHint)
       | _ \<Rightarrow> Inl InvalidHint)
   | _ \<Rightarrow> Inl InvalidHint)"

definition entry_json :: "(bulletin_entry \<Rightarrow> json) \<Rightarrow> bulletin_change \<Rightarrow> json" where
  "entry_json f c = (case bulletin_entry c of None \<Rightarrow> JNull | Some e \<Rightarrow> f e)"

definition bulletin_as_dict :: "bulletin_change \<Rightarrow> bool option \<Rightarrow> jdict" where
  "bulletin_as_dict c reset =
     [(lit ''version'', JInt 1), (lit ''team_id'', JStr (bulletin_team c)),
      (lit ''through_sequence'', JInt (bulletin_seq c)),
      (lit ''change_id'', entry_json (\<lambda>e. JStr (change_id e)) c),
      (lit ''message_id'', entry_json (\<lambda>e. JStr (message_id e)) c),
      (lit ''change_kind'', entry_json (\<lambda>e. JStr (change_kind e)) c),
      (lit ''message_version'', entry_json (\<lambda>e. JInt (message_version e)) c)]
     @ (case reset of None \<Rightarrow> [] | Some r \<Rightarrow> [(lit ''reset'', JBool r)])"

definition bulletin_fields :: "string list" where
  "bulletin_fields = [''version'', ''team_id'', ''through_sequence'', ''change_id'', ''message_id'',
     ''change_kind'', ''message_version'']"

definition bulletin_from_dict :: "json \<Rightarrow> hint_error + bulletin_change" where
  "bulletin_from_dict v = (case v of
     JObj d \<Rightarrow>
       if \<not> list_all (dhas d) bulletin_fields
          \<or> \<not> keys_within d (bulletin_fields @ [''reset''])
          \<or> dget d ''version'' \<noteq> JInt 1
          \<or> (dhas d ''reset'' \<and> \<not> is_bool (dget d ''reset''))
       then Inl InvalidHint
       else bulletin_init (dget d ''team_id'') (dget d ''through_sequence'') (dget d ''change_id'')
              (dget d ''message_id'') (dget d ''change_kind'') (dget d ''message_version'')
   | _ \<Rightarrow> Inl InvalidHint)"

record notification_cursor =
  cursor_mail :: mail_arrival
  cursor_bulletin :: bulletin_change
  mail_reset :: bool
  bulletin_reset :: bool

definition notification_init ::
  "mail_arrival \<Rightarrow> bulletin_change \<Rightarrow> bool \<Rightarrow> bool \<Rightarrow> hint_error + notification_cursor" where
  "notification_init m c mr br =
     (if team_id m \<noteq> bulletin_team c then Inl InvalidHint
      else Inr \<lparr>cursor_mail = m, cursor_bulletin = c, mail_reset = mr, bulletin_reset = br\<rparr>)"

definition cursor_mailbox :: "notification_cursor \<Rightarrow> mailbox" where
  "cursor_mailbox c = arrival_mailbox (cursor_mail c)"

definition notification_as_dict :: "notification_cursor \<Rightarrow> bool option \<Rightarrow> jdict" where
  "notification_as_dict c reset =
     [(lit ''version'', JInt 2),
      (lit ''mail'', JObj (mail_as_dict (cursor_mail c)
         (Some (case reset of None \<Rightarrow> mail_reset c | Some r \<Rightarrow> r)))),
      (lit ''bulletin'', JObj (bulletin_as_dict (cursor_bulletin c)
         (Some (case reset of None \<Rightarrow> bulletin_reset c | Some r \<Rightarrow> r))))]"

definition reset_flag :: "json \<Rightarrow> bool option" where
  "reset_flag v = (case v of JObj d \<Rightarrow> (case dget d ''reset'' of JBool r \<Rightarrow> Some r | _ \<Rightarrow> None) | _ \<Rightarrow> None)"

definition notification_from_dict :: "json \<Rightarrow> hint_error + notification_cursor" where
  "notification_from_dict v = (case v of
     JObj d \<Rightarrow>
       if \<not> dkeys_eq d [''version'', ''mail'', ''bulletin''] \<or> dget d ''version'' \<noteq> JInt 2
       then Inl InvalidHint
       else ebind (mail_from_dict (dget d ''mail'')) (\<lambda>m.
              ebind (bulletin_from_dict (dget d ''bulletin'')) (\<lambda>c.
                case (reset_flag (dget d ''mail''), reset_flag (dget d ''bulletin'')) of
                  (Some mr, Some br) \<Rightarrow> notification_init m c mr br
                | _ \<Rightarrow> Inl InvalidHint))
   | _ \<Rightarrow> Inl InvalidHint)"

section \<open>Subscriptions and the broker\<close>

record note_sub =
  note_mailbox :: mailbox
  note_mail :: "mail_arrival option"
  note_bulletin :: "bulletin_change option"
  note_seeded :: bool
  note_pending :: bool
  note_closed :: bool

type_synonym note_broker = "(mailbox, note_sub) broker"

definition note_sub_new :: "mailbox \<Rightarrow> note_sub" where
  "note_sub_new m = \<lparr>note_mailbox = m, note_mail = None, note_bulletin = None, note_seeded = False,
     note_pending = False, note_closed = False\<rparr>"

definition note_sub_kill :: "note_sub \<Rightarrow> note_sub" where
  "note_sub_kill s = s\<lparr>note_closed := True, note_pending := False, note_mail := None, note_bulletin := None\<rparr>"

definition note_close_locked :: "note_broker \<Rightarrow> nat \<Rightarrow> note_broker" where
  "note_close_locked = close_locked note_closed note_mailbox note_sub_kill"

definition note_subscribe :: "note_broker \<Rightarrow> pystr \<Rightarrow> pystr \<Rightarrow> hint_error + note_broker \<times> nat" where
  "note_subscribe b team recipient =
     ebind (mail_arrival_init (JStr team) (JStr recipient) (JInt 0) JNull)
       (\<lambda>a. subscribe_slot note_sub_new b (arrival_mailbox a))"

text \<open>\<open>_publish("_mail", value)\<close> and \<open>_publish("_bulletin", value)\<close>.\<close>

definition note_put :: "note_broker \<Rightarrow> nat \<Rightarrow> note_sub \<Rightarrow> note_broker" where
  "note_put b i s = b\<lparr>subs := (subs b)[i := s]\<rparr>"

definition publish_mail_one :: "mail_arrival \<Rightarrow> note_broker \<Rightarrow> nat \<Rightarrow> note_broker" where
  "publish_mail_one v b i =
     (let accept = note_put b i ((subs b ! i)\<lparr>note_mail := Some v, note_pending := True\<rparr>)
      in case note_mail (subs b ! i) of
           None \<Rightarrow> accept
         | Some previous \<Rightarrow>
             if through_sequence v < through_sequence previous then b
             else if through_sequence v = through_sequence previous then
               (if v \<noteq> previous then note_close_locked b i else b)
             else accept)"

definition publish_bulletin_one :: "bulletin_change \<Rightarrow> note_broker \<Rightarrow> nat \<Rightarrow> note_broker" where
  "publish_bulletin_one v b i =
     (let accept = note_put b i ((subs b ! i)\<lparr>note_bulletin := Some v, note_pending := True\<rparr>)
      in case note_bulletin (subs b ! i) of
           None \<Rightarrow> accept
         | Some previous \<Rightarrow>
             if bulletin_seq v < bulletin_seq previous then b
             else if bulletin_seq v = bulletin_seq previous then
               (if v \<noteq> previous then note_close_locked b i else b)
             else accept)"

definition publish_mail :: "note_broker \<Rightarrow> mail_arrival \<Rightarrow> note_broker" where
  "publish_mail b arrival = foldl (publish_mail_one arrival) b (registered b (arrival_mailbox arrival))"

definition publish_bulletin :: "note_broker \<Rightarrow> bulletin_change \<Rightarrow> note_broker" where
  "publish_bulletin b change =
     foldl (publish_bulletin_one change) b (matching b (\<lambda>m. fst m = bulletin_team change))"

definition note_invalidate :: "note_broker \<Rightarrow> pystr \<Rightarrow> pystr option \<Rightarrow> note_broker" where
  "note_invalidate b team recipient =
     close_each note_closed note_mailbox note_sub_kill b
       (matching b (\<lambda>m. fst m = team \<and> (case recipient of None \<Rightarrow> True | Some r \<Rightarrow> snd m = r)))"

definition note_broker_close :: "note_broker \<Rightarrow> note_broker" where
  "note_broker_close = close_broker note_closed note_mailbox note_sub_kill"

text \<open>The second turn of the loop in \<open>seed\<close> and what follows it, for the subscription \<open>s\<close> after the
  first turn.\<close>

definition seed_bulletin ::
  "note_broker \<Rightarrow> nat \<Rightarrow> note_sub \<Rightarrow> bulletin_change \<Rightarrow> bool \<Rightarrow> note_broker \<times> (hint_error + unit)" where
  "seed_bulletin b i s c raced = (case note_bulletin s of
     Some p \<Rightarrow>
       if bulletin_seq p = bulletin_seq c \<and> p \<noteq> c
       then (note_close_locked (note_put b i s) i, Inl MailHintClosed)
       else if bulletin_seq c < bulletin_seq p
       then (note_put b i (s\<lparr>note_seeded := True, note_pending := True\<rparr>), Inr ())
       else (note_put b i (s\<lparr>note_bulletin := Some c, note_seeded := True, note_pending := raced\<rparr>), Inr ())
   | None \<Rightarrow>
       (note_put b i (s\<lparr>note_bulletin := Some c, note_seeded := True, note_pending := raced\<rparr>), Inr ()))"

text \<open>\<open>NotificationSubscription.seed\<close>: the first head can be stored before the second one finds a
  conflict, but then closing clears both.\<close>

definition note_seed :: "note_broker \<Rightarrow> nat \<Rightarrow> notification_cursor \<Rightarrow> note_broker \<times> (hint_error + unit)" where
  "note_seed b i cursor =
     (let s = subs b ! i; m = cursor_mail cursor; c = cursor_bulletin cursor
      in if cursor_mailbox cursor \<noteq> note_mailbox s then (b, Inl InvalidHint)
         else if note_closed s then (b, Inl MailHintClosed)
         else if note_seeded s then (b, Inr ())
         else (case note_mail s of
             Some p \<Rightarrow>
               if through_sequence p = through_sequence m \<and> p \<noteq> m then (note_close_locked b i, Inl MailHintClosed)
               else let raced = through_sequence m < through_sequence p;
                        s1 = (if raced then s else s\<lparr>note_mail := Some m\<rparr>)
                    in seed_bulletin b i s1 c raced
           | None \<Rightarrow> seed_bulletin b i (s\<lparr>note_mail := Some m\<rparr>) c False))"

text \<open>\<open>take\<close> once its wait is over; building the pair cursor can raise.\<close>

definition note_take :: "note_broker \<Rightarrow> nat \<Rightarrow> note_broker \<times> (hint_error + notification_cursor option)" where
  "note_take b i =
     (let s = subs b ! i
      in if note_closed s then (b, Inl MailHintClosed)
         else if \<not> note_seeded s \<or> \<not> note_pending s then (b, Inr None)
         else (note_put b i (s\<lparr>note_pending := False\<rparr>),
               case (note_mail s, note_bulletin s) of
                 (Some m, Some c) \<Rightarrow>
                   (case notification_init m c False False of Inl e \<Rightarrow> Inl e | Inr v \<Rightarrow> Inr (Some v))
               | _ \<Rightarrow> Inl InvalidHint))"

datatype note_op =
    NSubscribe pystr pystr
  | NPublishMail mail_arrival
  | NPublishBulletin bulletin_change
  | NSeed nat notification_cursor
  | NTake nat
  | NClose nat
  | NInvalidate pystr "pystr option"
  | NCloseBroker

text \<open>The state after a call and the results of \<open>take\<close>, errors included.\<close>

definition note_step ::
  "note_broker \<Rightarrow> note_op \<Rightarrow> note_broker \<times> (nat \<times> (hint_error + notification_cursor option)) list" where
  "note_step b op = (case op of
     NSubscribe t r \<Rightarrow> (case note_subscribe b t r of Inl _ \<Rightarrow> b | Inr x \<Rightarrow> fst x, [])
   | NPublishMail a \<Rightarrow> (publish_mail b a, [])
   | NPublishBulletin c \<Rightarrow> (publish_bulletin b c, [])
   | NSeed i c \<Rightarrow> (if i < length (subs b) then fst (note_seed b i c) else b, [])
   | NTake i \<Rightarrow> (if i < length (subs b) then (fst (note_take b i), [(i, snd (note_take b i))]) else (b, []))
   | NClose i \<Rightarrow> (if i < length (subs b) then note_close_locked b i else b, [])
   | NInvalidate t r \<Rightarrow> (note_invalidate b t r, [])
   | NCloseBroker \<Rightarrow> (note_broker_close b, []))"

fun note_run ::
  "note_broker \<Rightarrow> note_op list \<Rightarrow> note_broker \<times> (nat \<times> (hint_error + notification_cursor option)) list" where
  "note_run b [] = (b, [])"
| "note_run b (op # ops) =
     (let r = note_step b op; r' = note_run (fst r) ops in (fst r', snd r @ snd r'))"

section \<open>Leases with two heads\<close>

text \<open>\<open>NotificationLease\<close> inherits cancellation, closing and revalidation from \<open>MailHintLease\<close>
  (\<open>Mail_Hints\<close>); what it overrides is modelled here, on its latest pair cursor.\<close>

definition head_regressed :: "notification_cursor \<Rightarrow> notification_cursor \<Rightarrow> bool" where
  "head_regressed cur old \<longleftrightarrow>
     through_sequence (cursor_mail cur) < through_sequence (cursor_mail old)
   \<or> (through_sequence (cursor_mail cur) = through_sequence (cursor_mail old) \<and> cursor_mail cur \<noteq> cursor_mail old)
   \<or> bulletin_seq (cursor_bulletin cur) < bulletin_seq (cursor_bulletin old)
   \<or> (bulletin_seq (cursor_bulletin cur) = bulletin_seq (cursor_bulletin old)
      \<and> cursor_bulletin cur \<noteq> cursor_bulletin old)"

definition same_heads :: "notification_cursor \<Rightarrow> notification_cursor \<Rightarrow> bool" where
  "same_heads cur old \<longleftrightarrow> cursor_mail cur = cursor_mail old \<and> cursor_bulletin cur = cursor_bulletin old"

datatype note_response = NoteClosed | NoteTimeout | NoteCursor notification_cursor

definition note_remaining :: "rat option \<Rightarrow> rat option \<Rightarrow> rat \<Rightarrow> rat option" where
  "note_remaining deadline expires now = (case (deadline, expires) of
     (None, None) \<Rightarrow> None
   | (Some d, None) \<Rightarrow> Some (max 0 (d - now))
   | (None, Some e) \<Rightarrow> Some (max 0 (e - now))
   | (Some d, Some e) \<Rightarrow> Some (max 0 (min d e - now)))"

text \<open>\<open>NotificationLease.take\<close>: per turn, the clock, whether the lease is found closed by the loop test,
  and the response of the subscription. The result is the new latest cursor, what the caller gets,
  and whether the lease closed itself.\<close>

fun note_lease_take ::
  "notification_cursor \<Rightarrow> rat option \<Rightarrow> rat option \<Rightarrow> (rat \<times> bool \<times> note_response) list
    \<Rightarrow> (notification_cursor \<times> notification_cursor option \<times> bool) option" where
  "note_lease_take latest expires deadline [] = None"
| "note_lease_take latest expires deadline ((now, shut, response) # env) =
     (if shut then Some (latest, None, False)
      else if note_remaining deadline expires now = Some 0 then Some (latest, None, True)
      else (case response of
          NoteClosed \<Rightarrow> Some (latest, None, True)
        | NoteTimeout \<Rightarrow> Some (latest, None, True)
        | NoteCursor c \<Rightarrow>
            if cursor_mailbox c \<noteq> cursor_mailbox latest \<or> head_regressed c latest then Some (latest, None, True)
            else if same_heads c latest then note_lease_take latest expires deadline env
            else Some (c, Some c, False)))"

definition note_write :: "mailbox \<Rightarrow> bool \<Rightarrow> json \<Rightarrow> lease_error + jdict" where
  "note_write mbox revalidated cursor = (case notification_from_dict cursor of
     Inl e \<Rightarrow> Inl (LeaseInvalid e)
   | Inr v \<Rightarrow>
       if cursor_mailbox v \<noteq> mbox then Inl (LeaseInvalid InvalidHint)
       else if \<not> revalidated then Inl LeaseClosed
       else Inr (notification_as_dict v None))"

text \<open>\<open>NotificationLease.__init__\<close>, up to the callbacks: the snapshot it stores and the latest cursor,
  after seeding the subscription.\<close>

definition note_lease_new ::
  "note_broker \<Rightarrow> nat \<Rightarrow> json \<Rightarrow> pystr \<Rightarrow> note_broker \<times> (hint_error + jdict \<times> notification_cursor)" where
  "note_lease_new b i snapshot hub_id = (case notification_from_dict snapshot of
     Inl e \<Rightarrow> (b, Inl e)
   | Inr cursor \<Rightarrow>
       if cursor_mailbox cursor \<noteq> note_mailbox (subs b ! i) \<or> hub_id = [] \<or> 240 < length hub_id
       then (b, Inl InvalidHint)
       else (case note_seed b i cursor of
               (b', Inl e) \<Rightarrow> (b', Inl e)
             | (b', Inr _) \<Rightarrow> (b', Inr (notification_as_dict cursor None, cursor))))"

text \<open>\<open>owned_notification_snapshot\<close>, with the store's snapshot function as its argument.\<close>

definition owned_recipient :: "jdict \<Rightarrow> json option" where
  "owned_recipient owned = (if \<not> dhas owned ''mail'' then None
     else case dget owned ''mail'' of
       JObj m \<Rightarrow> if dhas m ''recipient_server_id'' then Some (dget m ''recipient_server_id'') else None
     | _ \<Rightarrow> None)"

definition owned_notification_snapshot ::
  "(json option \<Rightarrow> owned_error + jdict) \<Rightarrow> pystr \<Rightarrow> json option \<Rightarrow> owned_error + jdict \<times> json option" where
  "owned_notification_snapshot snapshot team previous_cursor =
     ebind (case previous_cursor of
              None \<Rightarrow> Inr None
            | Some c \<Rightarrow> (case notification_from_dict c of Inl _ \<Rightarrow> Inl CursorInvalid | Inr p \<Rightarrow> Inr (Some p)))
       (\<lambda>previous.
          if (case previous of None \<Rightarrow> False | Some p \<Rightarrow> team_id (cursor_mail p) \<noteq> team) then Inl CursorForeignTeam
          else ebind (snapshot None) (\<lambda>owned.
            ebind (case previous of
                     None \<Rightarrow> Inr previous_cursor
                   | Some p \<Rightarrow>
                       (case owned_recipient owned of
                          None \<Rightarrow> Inl OwnedKeyError
                        | Some r \<Rightarrow> Inr (if JStr (recipient_server_id (cursor_mail p)) \<noteq> r then None
                                         else previous_cursor)))
              (\<lambda>retained. case retained of
                 None \<Rightarrow> Inr (owned, None)
               | Some c \<Rightarrow> ebind (snapshot (Some c)) (\<lambda>owned'. Inr (owned', Some c)))))"

section \<open>The registry of notification subscriptions\<close>

inductive note_evolves :: "note_sub \<Rightarrow> note_sub \<Rightarrow> bool" where
  head_mail: "\<not> note_closed s \<Longrightarrow> arrival_mailbox a = note_mailbox s
    \<Longrightarrow> (\<And>p. note_mail s = Some p \<Longrightarrow> through_sequence p < through_sequence a)
    \<Longrightarrow> note_evolves s (s\<lparr>note_mail := Some a, note_pending := True\<rparr>)"
| head_bulletin: "\<not> note_closed s \<Longrightarrow> bulletin_team c = fst (note_mailbox s)
    \<Longrightarrow> (\<And>p. note_bulletin s = Some p \<Longrightarrow> bulletin_seq p < bulletin_seq c)
    \<Longrightarrow> note_evolves s (s\<lparr>note_bulletin := Some c, note_pending := True\<rparr>)"
| seeded: "\<not> note_closed s \<Longrightarrow> \<not> note_seeded s \<Longrightarrow> arrival_mailbox m = note_mailbox s
    \<Longrightarrow> bulletin_team c = fst (note_mailbox s)
    \<Longrightarrow> note_evolves s (s\<lparr>note_mail := Some m, note_bulletin := Some c, note_seeded := True, note_pending := r\<rparr>)"
| taken: "\<not> note_closed s \<Longrightarrow> note_evolves s (s\<lparr>note_pending := False\<rparr>)"
| closed: "note_evolves s (note_sub_kill s)"

definition note_sub_ok :: "note_sub \<Rightarrow> bool" where
  "note_sub_ok s \<longleftrightarrow>
     (\<forall>m. note_mail s = Some m \<longrightarrow> arrival_mailbox m = note_mailbox s)
   \<and> (\<forall>c. note_bulletin s = Some c \<longrightarrow> bulletin_team c = fst (note_mailbox s))
   \<and> (note_seeded s \<and> \<not> note_closed s \<longrightarrow> note_mail s \<noteq> None \<and> note_bulletin s \<noteq> None)"

text \<open>What the reader will still get is newer than \<open>v\<close>.\<close>

definition newer :: "notification_cursor \<Rightarrow> notification_cursor \<Rightarrow> bool" where
  "newer x y \<longleftrightarrow> through_sequence (cursor_mail x) \<le> through_sequence (cursor_mail y)
     \<and> bulletin_seq (cursor_bulletin x) \<le> bulletin_seq (cursor_bulletin y)
     \<and> (through_sequence (cursor_mail x) < through_sequence (cursor_mail y)
        \<or> bulletin_seq (cursor_bulletin x) < bulletin_seq (cursor_bulletin y))"


lemma note_evolves_ok: "note_evolves s s' \<Longrightarrow> note_sub_ok s \<Longrightarrow> note_sub_ok s'"
  by (induction rule: note_evolves.induct) (auto simp: note_sub_ok_def note_sub_kill_def)

lemma note_evolves_mailbox: "note_evolves s s' \<Longrightarrow> note_mailbox s' = note_mailbox s"
  by (induction rule: note_evolves.induct) (auto simp: note_sub_kill_def)



lemma note_sub_new_ok: "note_sub_ok (note_sub_new m)"
  by (simp add: note_sub_ok_def note_sub_new_def)

interpretation note_subs: evolving_subscriber note_sub_new note_closed note_mailbox note_sub_kill note_evolves note_sub_ok
  by unfold_locales
     (simp_all add: note_sub_new_ok note_evolves_mailbox note_evolves.closed note_evolves_ok,
      simp_all add: note_sub_new_def note_sub_kill_def)

definition note_inv :: "note_broker \<Rightarrow> bool" where
  "note_inv b \<longleftrightarrow> registry_inv note_closed note_mailbox b \<and> list_all note_sub_ok (subs b)"

abbreviation note_moves :: "note_broker \<Rightarrow> note_broker \<Rightarrow> bool" where
  "note_moves \<equiv> broker_moves note_sub_new note_closed note_mailbox note_evolves"

lemma note_moves_inv: "note_inv b \<Longrightarrow> note_moves b b' \<Longrightarrow> note_inv b'"
  using note_subs.moves_ok [of b b'] by (simp add: note_inv_def broker_moves_def)

text \<open>The effect of each operation on the one subscription it changes.\<close>

definition deliver_mail :: "mail_arrival \<Rightarrow> note_sub \<Rightarrow> note_sub" where
  "deliver_mail v s = (case note_mail s of
     None \<Rightarrow> s\<lparr>note_mail := Some v, note_pending := True\<rparr>
   | Some p \<Rightarrow> if through_sequence v < through_sequence p \<or> v = p then s
       else if through_sequence v = through_sequence p then note_sub_kill s
       else s\<lparr>note_mail := Some v, note_pending := True\<rparr>)"

definition deliver_bulletin :: "bulletin_change \<Rightarrow> note_sub \<Rightarrow> note_sub" where
  "deliver_bulletin v s = (case note_bulletin s of
     None \<Rightarrow> s\<lparr>note_bulletin := Some v, note_pending := True\<rparr>
   | Some p \<Rightarrow> if bulletin_seq v < bulletin_seq p \<or> v = p then s
       else if bulletin_seq v = bulletin_seq p then note_sub_kill s
       else s\<lparr>note_bulletin := Some v, note_pending := True\<rparr>)"

definition newest :: "('a \<Rightarrow> int) \<Rightarrow> 'a option \<Rightarrow> 'a \<Rightarrow> 'a" where
  "newest key p v = (case p of None \<Rightarrow> v | Some x \<Rightarrow> if key v < key x then x else v)"

definition conflicts :: "('a \<Rightarrow> int) \<Rightarrow> 'a option \<Rightarrow> 'a \<Rightarrow> bool" where
  "conflicts key p v \<longleftrightarrow> (case p of None \<Rightarrow> False | Some x \<Rightarrow> key x = key v \<and> x \<noteq> v)"

definition overtaken :: "('a \<Rightarrow> int) \<Rightarrow> 'a option \<Rightarrow> 'a \<Rightarrow> bool" where
  "overtaken key p v \<longleftrightarrow> (case p of None \<Rightarrow> False | Some x \<Rightarrow> key v < key x)"

definition seed_sub :: "notification_cursor \<Rightarrow> note_sub \<Rightarrow> note_sub" where
  "seed_sub v s =
     (if conflicts through_sequence (note_mail s) (cursor_mail v)
         \<or> conflicts bulletin_seq (note_bulletin s) (cursor_bulletin v)
      then note_sub_kill s
      else s\<lparr>note_mail := Some (newest through_sequence (note_mail s) (cursor_mail v)),
             note_bulletin := Some (newest bulletin_seq (note_bulletin s) (cursor_bulletin v)),
             note_seeded := True,
             note_pending := (overtaken through_sequence (note_mail s) (cursor_mail v)
               \<or> overtaken bulletin_seq (note_bulletin s) (cursor_bulletin v))\<rparr>)"

lemma publish_mail_delivers:
  "note_subs.delivers (publish_mail_one v) (deliver_mail v) (\<lambda>s. \<not> note_closed s \<and> note_mailbox s = arrival_mailbox v)"
  by (rule note_subs.deliversI)
     (auto simp: publish_mail_one_def deliver_mail_def note_close_locked_def note_put_def Let_def split: option.splits)

lemma publish_bulletin_delivers:
  "note_subs.delivers (publish_bulletin_one v) (deliver_bulletin v)
     (\<lambda>s. \<not> note_closed s \<and> fst (note_mailbox s) = bulletin_team v)"
  by (rule note_subs.deliversI)
     (auto simp: publish_bulletin_one_def deliver_bulletin_def note_close_locked_def note_put_def Let_def
       split: option.splits)

lemma note_close_put:
  assumes "i < length (subs b)" "\<not> note_closed (subs b ! i)"
  shows "note_close_locked (note_put b i ((subs b ! i)\<lparr>note_mail := m\<rparr>)) i = note_close_locked b i"
    and "note_close_locked (note_put b i (subs b ! i)) i = note_close_locked b i"
  unfolding note_close_locked_def note_put_def
  by (rule note_subs.close_locked_put; use assms in \<open>simp add: note_sub_kill_def\<close>)+

definition seeds :: "notification_cursor \<Rightarrow> note_sub \<Rightarrow> bool" where
  "seeds v s \<longleftrightarrow> note_mailbox s = cursor_mailbox v \<and> \<not> note_closed s \<and> \<not> note_seeded s"

lemma note_sub_same_heads:
  "note_bulletin s = Some c \<Longrightarrow> s\<lparr>note_mail := m, note_bulletin := Some c, note_seeded := a, note_pending := p\<rparr>
     = s\<lparr>note_mail := m, note_seeded := a, note_pending := p\<rparr>"
  "note_mail s = Some m' \<Longrightarrow> s\<lparr>note_mail := Some m', note_seeded := a, note_pending := p\<rparr>
     = s\<lparr>note_seeded := a, note_pending := p\<rparr>"
  "note_mail s = Some m' \<Longrightarrow> s\<lparr>note_mail := Some m', note_bulletin := c', note_seeded := a, note_pending := p\<rparr>
     = s\<lparr>note_bulletin := c', note_seeded := a, note_pending := p\<rparr>"
  "note_bulletin s = Some c \<Longrightarrow> s\<lparr>note_bulletin := Some c, note_seeded := a, note_pending := p\<rparr>
     = s\<lparr>note_seeded := a, note_pending := p\<rparr>"
  by (cases s; simp)+

lemma note_seed_fst:
  assumes "i < length (subs b)" "seeds v (subs b ! i)"
  shows "note_seed b i v =
    (if conflicts through_sequence (note_mail (subs b ! i)) (cursor_mail v)
        \<or> conflicts bulletin_seq (note_bulletin (subs b ! i)) (cursor_bulletin v)
     then (note_close_locked b i, Inl MailHintClosed)
     else (b\<lparr>subs := (subs b)[i := seed_sub v (subs b ! i)]\<rparr>, Inr ()))"
proof -
  let ?s = "subs b ! i"
  have s: "note_mailbox ?s = cursor_mailbox v" "\<not> note_closed ?s" "\<not> note_seeded ?s"
    using assms(2) by (simp_all add: seeds_def)
  note put = note_close_put [OF assms(1) s(2)]
  show ?thesis
  proof (cases "note_mail ?s")
    case None
    then show ?thesis
      using s put by (auto simp: note_seed_def seed_bulletin_def seed_sub_def conflicts_def newest_def overtaken_def
          note_put_def note_sub_same_heads Let_def split: option.split)
  next
    case (Some p)
    then show ?thesis
      using s put by (cases "through_sequence (cursor_mail v) < through_sequence p")
        (auto simp: note_seed_def seed_bulletin_def seed_sub_def conflicts_def newest_def overtaken_def
          note_put_def note_sub_same_heads Let_def split: option.split)
  qed
qed

lemma note_seed_delivers: "note_subs.delivers (\<lambda>b i. fst (note_seed b i v)) (seed_sub v) (seeds v)"
proof (rule note_subs.deliversI, goal_cases)
  case (1 b i)
  then have "\<not> note_closed (subs b ! i)" by (simp add: seeds_def)
  then show ?case
    by (auto simp: note_seed_fst [OF 1] note_close_locked_def seed_sub_def)
qed

lemma note_seed_other:
  "\<not> seeds v (subs b ! i) \<Longrightarrow> fst (note_seed b i v) = b"
  by (auto simp: note_seed_def seeds_def Let_def)

lemma note_take_delivers:
  "note_subs.delivers (\<lambda>b i. fst (note_take b i)) (\<lambda>s. s\<lparr>note_pending := False\<rparr>)
     (\<lambda>s. \<not> note_closed s \<and> note_seeded s \<and> note_pending s)"
  by (rule note_subs.deliversI) (simp add: note_take_def note_put_def Let_def)

lemma deliver_mail_evolves:
  "\<not> note_closed s \<Longrightarrow> note_mailbox s = arrival_mailbox v \<Longrightarrow> note_evolves\<^sup>*\<^sup>* s (deliver_mail v s)"
  by (cases "note_mail s") (auto simp: deliver_mail_def intro!: r_into_rtranclp note_evolves.intros)

lemma deliver_bulletin_evolves:
  "\<not> note_closed s \<Longrightarrow> fst (note_mailbox s) = bulletin_team v \<Longrightarrow> note_evolves\<^sup>*\<^sup>* s (deliver_bulletin v s)"
  by (cases "note_bulletin s") (auto simp: deliver_bulletin_def intro!: r_into_rtranclp note_evolves.intros)

definition cursor_ok :: "notification_cursor \<Rightarrow> bool" where
  "cursor_ok v \<longleftrightarrow> team_id (cursor_mail v) = bulletin_team (cursor_bulletin v)"

lemma seed_sub_evolves:
  assumes "cursor_ok v" "seeds v s" "note_sub_ok s"
  shows "note_evolves\<^sup>*\<^sup>* s (seed_sub v s)"
proof -
  have mb: "arrival_mailbox (cursor_mail v) = note_mailbox s"
    using assms(2) by (simp add: seeds_def cursor_mailbox_def)
  then have tm: "bulletin_team (cursor_bulletin v) = fst (note_mailbox s)"
    using assms(1) by (metis arrival_mailbox_def cursor_ok_def fst_conv)
  have "arrival_mailbox (newest through_sequence (note_mail s) (cursor_mail v)) = note_mailbox s"
    using mb assms(3) by (cases "note_mail s") (simp_all add: newest_def note_sub_ok_def)
  moreover have "bulletin_team (newest bulletin_seq (note_bulletin s) (cursor_bulletin v)) = fst (note_mailbox s)"
    using tm assms(3) by (cases "note_bulletin s") (simp_all add: newest_def note_sub_ok_def)
  moreover have "\<not> note_closed s" "\<not> note_seeded s" using assms(2) by (simp_all add: seeds_def)
  ultimately have "note_evolves s (seed_sub v s)"
    by (simp add: seed_sub_def note_evolves.closed note_evolves.seeded)
  then show ?thesis by (rule r_into_rtranclp)
qed

fun op_ok :: "note_op \<Rightarrow> bool" where
  "op_ok (NSeed i v) = cursor_ok v"
| "op_ok _ = True"

lemma note_inv_sub_ok: "note_inv b \<Longrightarrow> i < length (subs b) \<Longrightarrow> note_sub_ok (subs b ! i)"
  by (auto simp: note_inv_def list_all_length)

lemma note_seed_moves:
  assumes "note_inv b" "cursor_ok v" "i < length (subs b)"
  shows "note_moves b (fst (note_seed b i v))"
proof (cases "seeds v (subs b ! i)")
  case True
  then show ?thesis
    using assms by (intro note_subs.delivers_moves [OF note_seed_delivers] seed_sub_evolves)
      (auto simp: note_inv_def note_inv_sub_ok)
next
  case False
  then show ?thesis using assms(1) by (simp add: note_seed_other note_inv_def note_subs.moves_refl)
qed

lemma note_take_moves:
  assumes "note_inv b" "i < length (subs b)"
  shows "note_moves b (fst (note_take b i))"
proof (cases "\<not> note_closed (subs b ! i) \<and> note_seeded (subs b ! i) \<and> note_pending (subs b ! i)")
  case True
  then show ?thesis
    using assms by (intro note_subs.delivers_moves [OF note_take_delivers])
      (auto simp: note_inv_def intro!: r_into_rtranclp note_evolves.taken)
next
  case False
  then have "fst (note_take b i) = b" by (auto simp: note_take_def Let_def)
  then show ?thesis using assms(1) by (simp add: note_inv_def note_subs.moves_refl)
qed

lemma note_step_moves:
  assumes "note_inv b" "op_ok op"
  shows "note_moves b (fst (note_step b op))"
proof -
  have inv: "registry_inv note_closed note_mailbox b" using assms(1) by (simp add: note_inv_def)
  note moves = note_subs.moves_refl [OF inv] note_subs.close_one_moves [OF inv]
    note_subs.close_each_moves [OF inv] note_subs.close_broker_moves [OF inv]
  show ?thesis
  proof (cases op)
    case (NSubscribe t r)
    have "note_moves b (fst x)" if "note_subscribe b t r = Inr x" for x
    proof -
      from that obtain a where "subscribe_slot note_sub_new b (arrival_mailbox a) = Inr (fst x, snd x)"
        unfolding note_subscribe_def ebind_Inr_iff by auto
      then show ?thesis by (rule note_subs.subscribe_moves [OF inv])
    qed
    then show ?thesis using NSubscribe moves by (simp add: note_step_def split: sum.split)
  next
    case (NPublishMail a)
    have "note_moves b (publish_mail b a)"
      unfolding publish_mail_def
      by (rule note_subs.delivers_fold_moves [OF publish_mail_delivers inv note_subs.registered_distinct [OF inv]])
         (auto simp: note_subs.registered_iff [OF inv] intro: deliver_mail_evolves)
    then show ?thesis by (simp add: note_step_def NPublishMail)
  next
    case (NPublishBulletin c)
    have "note_moves b (publish_bulletin b c)"
      unfolding publish_bulletin_def
      by (rule note_subs.delivers_fold_moves [OF publish_bulletin_delivers inv note_subs.matching_distinct [OF inv]])
         (auto simp: note_subs.matching_iff [OF inv] intro: deliver_bulletin_evolves)
    then show ?thesis by (simp add: note_step_def NPublishBulletin)
  next
    case (NInvalidate t r)
    have "note_moves b (note_invalidate b t r)"
      unfolding note_invalidate_def by (rule moves(3)) (simp add: note_subs.matching_iff [OF inv])
    then show ?thesis by (simp add: note_step_def NInvalidate)
  qed (use assms moves note_seed_moves note_take_moves in
        \<open>simp_all add: note_step_def note_close_locked_def note_broker_close_def\<close>)
qed

lemma note_step_inv: "note_inv b \<Longrightarrow> op_ok op \<Longrightarrow> note_inv (fst (note_step b op))"
  by (rule note_moves_inv [OF _ note_step_moves])


lemma note_run_Cons:
  "fst (note_run b (op # ops)) = fst (note_run (fst (note_step b op)) ops)"
  "snd (note_run b (op # ops)) = snd (note_step b op) @ snd (note_run (fst (note_step b op)) ops)"
  by (simp_all add: Let_def)

lemma note_run_inv: "note_inv b \<Longrightarrow> list_all op_ok ops \<Longrightarrow> note_inv (fst (note_run b ops))"
proof (induction ops arbitrary: b)
  case (Cons op ops)
  then show ?case unfolding note_run_Cons by (simp add: note_step_inv)
qed simp








section \<open>Properties\<close>


definition example_bulletin :: "int \<Rightarrow> bulletin_change" where
  "example_bulletin n = \<lparr>bulletin_team = lit ''t'', bulletin_seq = n, bulletin_entry =
     Some \<lparr>change_id = lit ''bchg_0123456789abcdef0123456789abcdef'',
           message_id = lit ''tmsg_0123456789abcdef0123456789abcdef'', change_kind = lit ''created'', message_version = 1\<rparr>\<rparr>"

definition example_cursor :: "int \<Rightarrow> int \<Rightarrow> notification_cursor" where
  "example_cursor m c = \<lparr>cursor_mail = example_arrival m, cursor_bulletin = example_bulletin c,
     mail_reset = False, bulletin_reset = False\<rparr>"




text \<open>Seeding loses no race with publication: a subscription that is seeded for the first time ends
  up with the newer of the published and the snapshot head on each side, is pending exactly when a
  publication had overtaken the snapshot, and is closed when the two disagree about one sequence number.\<close>

lemma note_seed_race:
  assumes "i < length (subs b)" "note_mailbox (subs b ! i) = cursor_mailbox v"
    and "\<not> note_closed (subs b ! i)" "\<not> note_seeded (subs b ! i)"
  shows "subs (fst (note_seed b i v)) ! i = seed_sub v (subs b ! i)
    \<and> (snd (note_seed b i v) = Inr () \<longleftrightarrow> \<not> note_closed (subs (fst (note_seed b i v)) ! i))
    \<and> (\<forall>j. j \<noteq> i \<longrightarrow> subs (fst (note_seed b i v)) ! j = subs b ! j)"
proof -
  have s: "seeds v (subs b ! i)" using assms by (simp add: seeds_def)
  show ?thesis
    using assms(1,3) unfolding note_seed_fst [OF assms(1) s]
    by (auto simp: seed_sub_def note_close_locked_def close_locked_def note_sub_kill_def)
qed

lemma note_lease_take_Cons:
  "note_lease_take latest expires deadline (e # env) = Some (l', r, self) \<Longrightarrow>
     (r = None \<and> l' = latest)
   \<or> (r = Some l' \<and> \<not> self \<and> cursor_mailbox l' = cursor_mailbox latest \<and> \<not> head_regressed l' latest
      \<and> \<not> same_heads l' latest)
   \<or> note_lease_take latest expires deadline env = Some (l', r, self)"
  by (cases e) (auto split: if_splits note_response.splits)

lemma progress_newer: "\<not> head_regressed v w \<Longrightarrow> \<not> same_heads v w \<Longrightarrow> newer w v"
  by (auto simp: head_regressed_def same_heads_def newer_def)

text \<open>A notification lease hands out a cursor only when it is of the same mailbox and strictly newer
  than the last one, whatever the subscription delivers; when it returns nothing its position is
  unchanged.\<close>

lemma note_lease_take_newer:
  assumes "note_lease_take latest expires deadline env = Some (l', r, self)"
  shows "case r of None \<Rightarrow> l' = latest
    | Some v \<Rightarrow> l' = v \<and> newer latest v \<and> cursor_mailbox v = cursor_mailbox latest \<and> \<not> self"
  using assms
proof (induction env)
  case (Cons e env)
  from note_lease_take_Cons [OF Cons.prems] Cons.IH show ?case
    by (auto simp: progress_newer split: option.splits)
qed simp

section \<open>Cursor dictionaries\<close>

lemma bulletin_init_as_dict:
  assumes "bulletin_init t n cid mid kind ver = Inr c"
  shows "t = JStr (bulletin_team c)" "n = JInt (bulletin_seq c)" "cid = entry_json (\<lambda>e. JStr (change_id e)) c"
    "mid = entry_json (\<lambda>e. JStr (message_id e)) c" "kind = entry_json (\<lambda>e. JStr (change_kind e)) c"
    "ver = entry_json (\<lambda>e. JInt (message_version e)) c"
  using assms
  by (auto simp: bulletin_init_def entry_json_def split: json.splits if_splits)

lemma bulletin_from_as_dict:
  assumes "bulletin_from_dict v = Inr c"
  shows "bulletin_from_dict (JObj (bulletin_as_dict c reset)) = Inr c"
proof -
  obtain t n cid mid kind ver where i: "bulletin_init t n cid mid kind ver = Inr c"
    using assms by (auto simp: bulletin_from_dict_def split: json.splits if_splits)
  note f = bulletin_init_as_dict [OF i]
  show ?thesis
    using i unfolding f
    by (auto simp: bulletin_from_dict_def bulletin_as_dict_def bulletin_fields_def keys_within_def is_bool_def
        split: option.split)
qed

lemma mail_from_as_dict:
  "mail_from_dict v = Inr a \<Longrightarrow> mail_from_dict (JObj (mail_as_dict a reset)) = Inr a"
  by (auto simp: mail_from_dict_iff mail_as_dict_def mail_required_def keys_within_def is_bool_def split: option.split)

text \<open>Re-encoding a decoded notification cursor, with its own or an overriding reset flag, gives a
  dictionary that decodes to the same heads: what a lease stores as its snapshot and writes to the
  transport is accepted by the other side.\<close>

lemma notification_cursor_roundtrip:
  assumes "notification_from_dict v = Inr c"
  shows "notification_from_dict (JObj (notification_as_dict c reset)) =
    Inr (case reset of None \<Rightarrow> c | Some r \<Rightarrow> c\<lparr>mail_reset := r, bulletin_reset := r\<rparr>)"
proof -
  obtain d m' b' mr br where "mail_from_dict (dget d ''mail'') = Inr m'"
    and "bulletin_from_dict (dget d ''bulletin'') = Inr b'"
    and "notification_init m' b' mr br = Inr c"
    using assms unfolding notification_from_dict_def
    by (cases v) (auto simp: ebind_Inr_iff split: if_splits option.splits, force?)
  then have m: "mail_from_dict (dget d ''mail'') = Inr (cursor_mail c)"
    and b: "bulletin_from_dict (dget d ''bulletin'') = Inr (cursor_bulletin c)"
    and t: "team_id (cursor_mail c) = bulletin_team (cursor_bulletin c)"
    by (auto simp: notification_init_def split: if_splits)
  have "mail_from_dict (JObj (mail_as_dict (cursor_mail c) r)) = Inr (cursor_mail c)" for r
    by (rule mail_from_as_dict [OF m])
  moreover have "bulletin_from_dict (JObj (bulletin_as_dict (cursor_bulletin c) r)) = Inr (cursor_bulletin c)" for r
    by (rule bulletin_from_as_dict [OF b])
  moreover have "reset_flag (JObj (mail_as_dict a (Some r))) = Some r" "reset_flag (JObj (bulletin_as_dict x (Some r))) = Some r"
    for a x r by (simp_all add: reset_flag_def mail_as_dict_def bulletin_as_dict_def)
  ultimately show ?thesis
    using t by (simp add: notification_from_dict_def notification_as_dict_def dkeys_eq_def notification_init_def
        split: option.split)
qed

lemma notification_cursor_roundtrip_witness:
  "notification_from_dict (JObj (notification_as_dict (example_cursor 4 8) (Some True)))
     = Inr ((example_cursor 4 8)\<lparr>mail_reset := True, bulletin_reset := True\<rparr>)"
proof -
  have "notification_from_dict (JObj (notification_as_dict (example_cursor 4 8) None)) = Inr (example_cursor 4 8)"
    by code_simp
  from notification_cursor_roundtrip [OF this, of "Some True"] show ?thesis by simp
qed

end
