(* ===== verification/Chat_Mailbox.thy ===== *)
theory Chat_Mailbox
  imports Interfaces "HOL-Library.List_Lexorder"
begin

text \<open>
  The same-server chat mailbox of \<open>chat_mailbox.py\<close>: SQLite tables as lists of records, SQL statements
  as list functions, every function of the module as a definition. A mutating call returns the
  database as its statements leave it together with its result or exception; the callers roll their
  transaction back on an exception, which is \<open>atomically\<close>. Text is compared by code points (the
  \<open>BINARY\<close> collation). \<open>printable\<close> stands for \<open>str.isprintable\<close> on one character. Arguments have the
  types their annotations declare.

  The row ids of an \<open>AUTOINCREMENT\<close> table are larger than any that existed before; by how much is the
  argument \<open>gap\<close>. Random identifiers (\<open>uuid.uuid4().hex\<close>) and the clock are arguments as well.
\<close>

section \<open>Tables\<close>

definition MAX_PAGE_ITEMS :: int where
  "MAX_PAGE_ITEMS = 25"

definition MAX_PAGE_BYTES :: nat where
  "MAX_PAGE_BYTES = 112 * 1024"

record envelope =
  env_id :: pystr
  env_kind :: pystr
  env_source :: pystr
  env_source_run :: pystr
  env_target :: pystr
  env_body :: pystr
  source_user_instruction :: pystr
  source_user_delegation_action :: pystr
  authorization_kind :: pystr
  authorization_pair_id :: pystr
  env_status :: pystr
  delivery_mode :: pystr
  target_run_id :: "pystr option"
  reply_to_message_id :: "pystr option"
  target_body :: "pystr option"
  message_revision :: int
  lifecycle_status :: pystr
  env_created_at :: pystr
  env_updated_at :: pystr

record mail_row =
  mailbox_seq :: int
  message_id :: pystr
  row_source :: pystr
  row_target :: pystr
  row_pair :: pystr
  stored_at :: pystr
  in_reply_to :: "pystr option"
  row_read_id :: "pystr option"
  row_read_at :: "pystr option"
  excluded_at :: "pystr option"
  excluded_reason :: "pystr option"
  read_event_published :: bool

record read_batch =
  batch_id :: pystr
  batch_target :: pystr
  batch_source :: pystr
  batch_run :: pystr
  batch_request :: pystr
  snapshot_seq :: int
  page_limit :: int
  batch_created :: pystr

record read_page =
  page_read_id :: pystr
  page_after :: int
  page_end :: int
  page_more :: bool
  page_ids :: "pystr list"

datatype wake_state = Reserved | Admitted

record wake =
  last_attempt_seq :: int
  suppressed_seq :: int
  wake_claim :: "pystr option"
  wake_through :: int
  wake_status :: "wake_state option"
  wake_run :: "pystr option"
  wake_updated :: pystr

text \<open>\<open>last_seq\<close> is the largest row id that ever existed. \<open>wakes\<close> is keyed by the target session.\<close>

record mail_db =
  in_transaction :: bool
  envelopes :: "envelope list"
  messages :: "mail_row list"
  last_seq :: int
  reads :: "read_batch list"
  pages :: "read_page list"
  wakes :: "(pystr \<times> wake) list"

datatype mb_error = MailboxConflict | MailboxValueError | MailboxRuntimeError | MailboxUnicodeError
  | MailboxIntegrityError

definition initialize :: "envelope list \<Rightarrow> mail_db" where
  "initialize envs = \<lparr>in_transaction = True, envelopes = envs, messages = [], last_seq = 0, reads = [],
     pages = [], wakes = []\<rparr>"

section \<open>Argument checks\<close>

definition transaction_check :: "mail_db \<Rightarrow> mb_error + unit" where
  "transaction_check db = (if in_transaction db then Inr () else Inl MailboxRuntimeError)"

definition mb_identifier :: "(nat \<Rightarrow> bool) \<Rightarrow> pystr \<Rightarrow> mb_error + pystr" where
  "mb_identifier printable v =
     (if v = [] \<or> 240 < length v \<or> \<not> list_all printable v then Inl MailboxValueError else Inr v)"

definition limit_check :: "int \<Rightarrow> mb_error + int" where
  "limit_check v = (if 1 \<le> v \<and> v \<le> MAX_PAGE_ITEMS then Inr v else Inl MailboxValueError)"

definition cursor_check :: "int \<Rightarrow> mb_error + int" where
  "cursor_check v = (if 0 \<le> v \<and> v \<le> 2 ^ 63 - 1 then Inr v else Inl MailboxValueError)"

definition valid_pair :: "pystr \<Rightarrow> bool" where
  "valid_pair v \<longleftrightarrow> prefixed_hex32 ''pair_'' v"

definition pairs_check :: "pystr list \<Rightarrow> mb_error + pystr list" where
  "pairs_check vs = (if list_all valid_pair vs then Inr vs else Inl MailboxValueError)"

section \<open>Queries\<close>

definition find_envelope :: "mail_db \<Rightarrow> pystr \<Rightarrow> envelope option" where
  "find_envelope db i = find (\<lambda>e. env_id e = i) (envelopes db)"

type_synonym mail_entry = "mail_row \<times> envelope"

definition join_row :: "mail_db \<Rightarrow> mail_row \<Rightarrow> mail_entry list" where
  "join_row db m = (case find_envelope db (message_id m) of None \<Rightarrow> [] | Some e \<Rightarrow> [(m, e)])"

definition joined :: "mail_db \<Rightarrow> mail_entry list" where
  "joined db = concat (map (join_row db) (messages db))"

fun valid_entry :: "mail_entry \<Rightarrow> bool" where
  "valid_entry (m, e) \<longleftrightarrow> excluded_at m = None \<and> env_status e = lit ''stored'' \<and> delivery_mode e = lit ''mailbox''
     \<and> env_kind e = lit ''instruction'' \<and> authorization_kind e = lit ''configured_route''
     \<and> env_source e = row_source m \<and> env_target e = row_target m \<and> authorization_pair_id e = row_pair m"

definition edited :: "envelope \<Rightarrow> bool" where
  "edited e \<longleftrightarrow> 0 < message_revision e \<and> target_body e \<noteq> None"

definition opt_json :: "pystr option \<Rightarrow> json" where
  "opt_json x = (case x of None \<Rightarrow> JNull | Some s \<Rightarrow> JStr s)"

definition attested :: "envelope \<Rightarrow> bool" where
  "attested e \<longleftrightarrow> source_user_delegation_action e \<in> {lit ''route'', lit ''instruction'', lit ''request_reply''}
     \<and> strip (source_user_instruction e) \<noteq> [] \<and> message_revision e = 0"

definition message_dict :: "mail_entry \<Rightarrow> jdict" where
  "message_dict x = (case x of (m, e) \<Rightarrow>
     [(lit ''message_id'', JStr (message_id m)), (lit ''mailbox_seq'', JInt (mailbox_seq m)),
      (lit ''source_session_id'', JStr (row_source m)), (lit ''target_session_id'', JStr (row_target m)),
      (lit ''conversation_id'', JStr (row_pair m)),
      (lit ''body'', JStr (if edited e then the (target_body e) else env_body e)),
      (lit ''created_at'', JStr (env_created_at e)), (lit ''stored_at'', JStr (stored_at m)),
      (lit ''in_reply_to_message_id'', opt_json (in_reply_to m)),
      (lit ''read_id'', opt_json (row_read_id m)), (lit ''read_at'', opt_json (row_read_at m)),
      (lit ''message_revision'', JInt (if edited e then message_revision e else 0)),
      (lit ''message_edited_by_user'', JBool (edited e))]
     @ (if attested e
        then [(lit ''user_delegation'', JObj
                [(lit ''version'', JInt 1), (lit ''source_session_id'', JStr (row_source m)),
                 (lit ''source_run_id'', JStr (env_source_run e)),
                 (lit ''target_session_id'', JStr (row_target m)),
                 (lit ''reference_action'', JStr (source_user_delegation_action e)),
                 (lit ''source_user_instruction'', JStr (source_user_instruction e))])]
        else [(lit ''source_user_instruction'', JStr (source_user_instruction e))]))"

text \<open>\<open>len(json.dumps(message, ensure_ascii=False, separators=(",", ":")).encode("utf-8"))\<close>; no message
  has a float in it.\<close>

definition message_size :: "mail_entry \<Rightarrow> nat option" where
  "message_size x = utf8_size (dumps (compact_opts False (\<lambda>_. [])) (JObj (message_dict x)))"

text \<open>The dictionary updated with \<open>read_id\<close> and \<open>read_at\<close> is the dictionary of the updated row.\<close>

definition with_read :: "(pystr \<times> pystr) option \<Rightarrow> mail_entry \<Rightarrow> mail_entry" where
  "with_read meta x = (case meta of None \<Rightarrow> x
     | Some (r, t) \<Rightarrow> ((fst x)\<lparr>row_read_id := Some r, row_read_at := Some t\<rparr>, snd x))"

fun page_loop :: "(pystr \<times> pystr) option \<Rightarrow> nat \<Rightarrow> mail_entry list \<Rightarrow> nat \<Rightarrow> mail_entry list
    \<Rightarrow> mb_error + mail_entry list \<times> bool" where
  "page_loop meta limit acc used [] = Inr (acc, False)"
| "page_loop meta limit acc used (row # rows) =
     (let message = with_read meta row
      in case message_size message of
           None \<Rightarrow> Inl MailboxUnicodeError
         | Some sz \<Rightarrow>
             if length acc = limit \<or> MAX_PAGE_BYTES < used + sz then
               (if acc = [] then Inl MailboxConflict else Inr (acc, True))
             else page_loop meta limit (acc @ [message]) (used + sz) rows)"

definition selected :: "mail_db \<Rightarrow> (mail_entry \<Rightarrow> bool) \<Rightarrow> mail_entry list" where
  "selected db P = sort_key (\<lambda>x. mailbox_seq (fst x)) (filter P (joined db))"

definition page_query :: "mail_db \<Rightarrow> (mail_entry \<Rightarrow> bool) \<Rightarrow> int \<Rightarrow> (pystr \<times> pystr) option
    \<Rightarrow> mb_error + mail_entry list \<times> bool" where
  "page_query db P limit meta =
     page_loop meta (nat limit) [] 8192 (take (nat limit + 1) (selected db P))"

text \<open>\<open>_scope\<close>: the clause as a predicate.\<close>

definition scope :: "(nat \<Rightarrow> bool) \<Rightarrow> pystr \<Rightarrow> pystr option \<Rightarrow> pystr list \<Rightarrow> mb_error + (mail_entry \<Rightarrow> bool)" where
  "scope printable target source allowed =
     ebind (mb_identifier printable target) (\<lambda>t.
       ebind (pairs_check allowed) (\<lambda>ps.
         let base = (\<lambda>x. valid_entry x \<and> row_target (fst x) = t \<and> row_pair (fst x) \<in> set ps)
         in case source of
              None \<Rightarrow> Inr base
            | Some s \<Rightarrow>
                if s = [] then Inr base
                else ebind (mb_identifier printable s) (\<lambda>s. Inr (\<lambda>x. base x \<and> row_source (fst x) = s))))"

section \<open>Storing\<close>

definition alloc_seq :: "nat \<Rightarrow> mail_db \<Rightarrow> mail_db \<times> int" where
  "alloc_seq gap db = (let n = last_seq db + 1 + int gap in (db\<lparr>last_seq := n\<rparr>, n))"

definition insert_or_ignore :: "nat \<Rightarrow> mail_db \<Rightarrow> (int \<Rightarrow> mail_row) \<Rightarrow> mail_db" where
  "insert_or_ignore gap db mk =
     (if message_id (mk 0) \<in> message_id ` set (messages db) then db
      else case alloc_seq gap db of (db', n) \<Rightarrow> db'\<lparr>messages := messages db' @ [mk n]\<rparr>)"

definition storable :: "envelope \<Rightarrow> bool" where
  "storable r \<longleftrightarrow> env_status r = lit ''stored'' \<and> delivery_mode r = lit ''mailbox''
     \<and> env_kind r = lit ''instruction'' \<and> authorization_kind r = lit ''configured_route''
     \<and> valid_pair (authorization_pair_id r) \<and> env_source r \<noteq> env_target r
     \<and> (case target_run_id r of None \<Rightarrow> True | Some t \<Rightarrow> t = [])"

definition reply_available :: "mail_db \<Rightarrow> envelope \<Rightarrow> pystr \<Rightarrow> bool" where
  "reply_available db r parent = (case find_envelope db parent of
     None \<Rightarrow> False
   | Some prior \<Rightarrow> env_source prior = env_target r \<and> env_target prior = env_source r
       \<and> authorization_pair_id prior = authorization_pair_id r
       \<and> env_status prior \<notin> {lit ''failed'', lit ''cancelled''}
       \<and> (case find (\<lambda>m. message_id m = parent) (messages db) of
            None \<Rightarrow> True | Some m \<Rightarrow> excluded_at m = None))"

definition store_message ::
  "(nat \<Rightarrow> bool) \<Rightarrow> nat \<Rightarrow> mail_db \<Rightarrow> pystr \<Rightarrow> pystr \<Rightarrow> pystr option \<Rightarrow> mail_db \<times> (mb_error + mail_entry)" where
  "store_message printable gap db mid now reply_arg =
     (case ebind (transaction_check db) (\<lambda>_. ebind (mb_identifier printable mid) (\<lambda>mid.
        case find_envelope db mid of
          None \<Rightarrow> Inl MailboxConflict
        | Some r \<Rightarrow>
            if \<not> storable r then Inl MailboxConflict
            else if reply_arg \<noteq> None \<and> reply_arg \<noteq> reply_to_message_id r then Inl MailboxConflict
            else if (case reply_to_message_id r of None \<Rightarrow> False | Some p \<Rightarrow> p \<noteq> [] \<and> \<not> reply_available db r p)
            then Inl MailboxConflict
            else Inr r)) of
        Inl e \<Rightarrow> (db, Inl e)
      | Inr r \<Rightarrow>
          let db' = insert_or_ignore gap db (\<lambda>n. \<lparr>mailbox_seq = n, message_id = mid, row_source = env_source r,
                row_target = env_target r, row_pair = authorization_pair_id r, stored_at = now,
                in_reply_to = reply_to_message_id r, row_read_id = None, row_read_at = None,
                excluded_at = None, excluded_reason = None, read_event_published = False\<rparr>)
          in (db', case find (\<lambda>m. message_id m = mid) (messages db') of
                 None \<Rightarrow> Inl MailboxConflict
               | Some m \<Rightarrow>
                   if row_source m \<noteq> env_source r \<or> row_target m \<noteq> env_target r
                      \<or> row_pair m \<noteq> authorization_pair_id r \<or> in_reply_to m \<noteq> reply_to_message_id r
                   then Inl MailboxConflict
                   else (case message_size (with_read (Some (replicate 240 120, replicate 64 120)) (m, r)) of
                           None \<Rightarrow> Inl MailboxConflict
                         | Some sz \<Rightarrow> if MAX_PAGE_BYTES < sz + 8192 then Inl MailboxConflict else Inr (m, r))))"

section \<open>Listing\<close>

record sender_row =
  sender_id :: pystr
  message_count :: nat
  unread_count :: nat
  latest_seq :: int
  latest_created_at :: pystr

definition sender_group :: "mail_entry list \<Rightarrow> pystr \<Rightarrow> sender_row" where
  "sender_group xs s = (let g = filter (\<lambda>x. row_source (fst x) = s) xs
     in \<lparr>sender_id = s, message_count = length g,
         unread_count = length (filter (\<lambda>x. row_read_at (fst x) = None) g),
         latest_seq = Max (set (map (\<lambda>x. mailbox_seq (fst x)) g)),
         latest_created_at = Max (set (map (\<lambda>x. env_created_at (snd x)) g))\<rparr>)"

definition list_senders ::
  "(nat \<Rightarrow> bool) \<Rightarrow> mail_db \<Rightarrow> pystr \<Rightarrow> pystr list \<Rightarrow> pystr \<Rightarrow> int \<Rightarrow> bool
    \<Rightarrow> mb_error + sender_row list \<times> bool \<times> pystr option" where
  "list_senders printable db target allowed after_sender limit unread_only =
     ebind (scope printable target None allowed) (\<lambda>clause.
       ebind (if after_sender = [] then Inr [] else mb_identifier printable after_sender) (\<lambda>_.
         ebind (limit_check limit) (\<lambda>limit.
           let xs = filter (\<lambda>x. clause x \<and> (unread_only \<longrightarrow> row_read_at (fst x) = None)
                 \<and> after_sender < row_source (fst x)) (joined db);
               rows = take (nat limit + 1)
                 (map (sender_group xs) (sort (remdups (map (\<lambda>x. row_source (fst x)) xs))));
               has_more = nat limit < length rows;
               picked = take (nat limit) rows
           in Inr (picked, has_more, if has_more then Some (sender_id (last picked)) else None))))"

definition list_messages ::
  "(nat \<Rightarrow> bool) \<Rightarrow> mail_db \<Rightarrow> pystr \<Rightarrow> pystr option \<Rightarrow> pystr list \<Rightarrow> int \<Rightarrow> int \<Rightarrow> bool
    \<Rightarrow> mb_error + mail_entry list \<times> bool \<times> int option" where
  "list_messages printable db target source allowed after limit unread_only =
     ebind (scope printable target source allowed) (\<lambda>clause.
       ebind (cursor_check after) (\<lambda>after.
         ebind (limit_check limit) (\<lambda>limit.
           ebind (page_query db (\<lambda>x. clause x \<and> after < mailbox_seq (fst x)
                    \<and> (unread_only \<longrightarrow> row_read_at (fst x) = None)) limit None) (\<lambda>(ms, has_more).
             Inr (ms, has_more, if has_more then Some (mailbox_seq (fst (last ms))) else None)))))"

section \<open>Reading\<close>

record read_result =
  result_read_id :: pystr
  result_snapshot :: int
  result_messages :: "mail_entry list"
  result_next :: "int option"
  result_more :: bool
  unavailable_count :: int
  replayed :: bool

definition max_seq :: "mail_row list \<Rightarrow> int" where
  "max_seq ms = (case map mailbox_seq ms of [] \<Rightarrow> 0 | n # ns \<Rightarrow> foldl max n ns)"

definition find_batches :: "mail_db \<Rightarrow> pystr \<Rightarrow> pystr \<Rightarrow> read_batch list" where
  "find_batches db target request =
     take 2 (filter (\<lambda>b. batch_target b = target \<and> batch_request b = request) (reads db))"

text \<open>The batch of this request, created with the given random id when there is none.\<close>

definition open_batch ::
  "mail_db \<Rightarrow> pystr \<Rightarrow> pystr \<Rightarrow> pystr \<Rightarrow> pystr \<Rightarrow> pystr \<Rightarrow> int \<Rightarrow> int \<Rightarrow> pystr
    \<Rightarrow> mail_db \<times> (mb_error + read_batch)" where
  "open_batch db target source run request now after limit read_id =
     (case find_batches db target request of
        [] \<Rightarrow>
          if after \<noteq> 0 then (db, Inl MailboxConflict)
          else if read_id \<in> batch_id ` set (reads db) then (db, Inl MailboxIntegrityError)
          else let high_water = max_seq (filter (\<lambda>m. row_target m = target \<and> row_source m = source) (messages db));
                   batch = \<lparr>batch_id = read_id, batch_target = target, batch_source = source, batch_run = run,
                     batch_request = request, snapshot_seq = high_water, page_limit = limit, batch_created = now\<rparr>
               in (db\<lparr>reads := reads db @ [batch]\<rparr>, Inr batch)
      | [batch] \<Rightarrow> (db, Inr batch)
      | _ \<Rightarrow> (db, Inl MailboxConflict))"

definition find_page :: "mail_db \<Rightarrow> pystr \<Rightarrow> int \<Rightarrow> read_page option" where
  "find_page db rid after = find (\<lambda>p. page_read_id p = rid \<and> page_after p = after) (pages db)"

definition continues :: "mail_db \<Rightarrow> pystr \<Rightarrow> int \<Rightarrow> bool" where
  "continues db rid after \<longleftrightarrow>
     list_ex (\<lambda>p. page_read_id p = rid \<and> page_end p = after \<and> page_more p) (pages db)"

definition mark_read :: "pystr \<Rightarrow> pystr \<Rightarrow> pystr list \<Rightarrow> mail_row \<Rightarrow> mail_row" where
  "mark_read rid now ids m =
     (if message_id m \<in> set ids \<and> row_read_at m = None
      then m\<lparr>row_read_id := Some rid, row_read_at := Some now\<rparr> else m)"

text \<open>A page that was not read yet: select, record the page, mark its messages read.\<close>

definition new_page ::
  "mail_db \<Rightarrow> (mail_entry \<Rightarrow> bool) \<Rightarrow> read_batch \<Rightarrow> pystr \<Rightarrow> int \<Rightarrow> int \<Rightarrow> mail_db \<times> (mb_error + read_page)" where
  "new_page db clause batch now after limit =
     (if after \<noteq> 0 \<and> \<not> continues db (batch_id batch) after then (db, Inl MailboxConflict)
      else case page_query db (\<lambda>x. clause x \<and> row_read_at (fst x) = None \<and> after < mailbox_seq (fst x)
                \<and> mailbox_seq (fst x) \<le> snapshot_seq batch) limit (Some (batch_id batch, now)) of
             Inl e \<Rightarrow> (db, Inl e)
           | Inr (ms, has_more) \<Rightarrow>
               let ids = map (\<lambda>x. message_id (fst x)) ms;
                   page = \<lparr>page_read_id = batch_id batch, page_after = after,
                     page_end = (if ms = [] then after else mailbox_seq (fst (last ms))),
                     page_more = has_more, page_ids = ids\<rparr>
               in (db\<lparr>pages := pages db @ [page],
                      messages := map (mark_read (batch_id batch) now ids) (messages db)\<rparr>, Inr page))"

definition finish_read ::
  "mail_db \<Rightarrow> (mail_entry \<Rightarrow> bool) \<Rightarrow> read_batch \<Rightarrow> read_page \<Rightarrow> int \<Rightarrow> bool \<Rightarrow> mb_error + read_result" where
  "finish_read db clause batch page limit was_replayed =
     ebind (if page_ids page = [] then Inr ([], False)
            else page_query db (\<lambda>x. clause x \<and> message_id (fst x) \<in> set (page_ids page)) limit None)
       (\<lambda>(ms, overflow).
          if overflow then Inl MailboxConflict
          else Inr \<lparr>result_read_id = batch_id batch, result_snapshot = snapshot_seq batch, result_messages = ms,
                 result_next = (if page_more page then Some (page_end page) else None),
                 result_more = page_more page,
                 unavailable_count = int (length (page_ids page)) - int (length ms),
                 replayed = was_replayed\<rparr>)"

definition read_sender ::
  "(nat \<Rightarrow> bool) \<Rightarrow> pystr \<Rightarrow> mail_db \<Rightarrow> pystr \<Rightarrow> pystr \<Rightarrow> pystr \<Rightarrow> pystr \<Rightarrow> pystr list \<Rightarrow> pystr \<Rightarrow> int \<Rightarrow> int
    \<Rightarrow> mail_db \<times> (mb_error + read_result)" where
  "read_sender printable read_id db target source run request allowed now after limit =
     (case ebind (transaction_check db) (\<lambda>_. ebind (mb_identifier printable source) (\<lambda>_.
             ebind (mb_identifier printable run) (\<lambda>_. ebind (mb_identifier printable request) (\<lambda>_.
               ebind (cursor_check after) (\<lambda>_. ebind (limit_check limit) (\<lambda>_.
                 scope printable target (Some source) allowed)))))) of
        Inl e \<Rightarrow> (db, Inl e)
      | Inr clause \<Rightarrow>
          (case open_batch db target source run request now after limit read_id of
             (db1, Inl e) \<Rightarrow> (db1, Inl e)
           | (db1, Inr batch) \<Rightarrow>
               if batch_source batch \<noteq> source \<or> page_limit batch \<noteq> limit then (db1, Inl MailboxConflict)
               else (case find_page db1 (batch_id batch) after of
                       Some page \<Rightarrow> (db1, finish_read db1 clause batch page limit True)
                     | None \<Rightarrow>
                         (case new_page db1 clause batch now after limit of
                            (db2, Inl e) \<Rightarrow> (db2, Inl e)
                          | (db2, Inr page) \<Rightarrow> (db2, finish_read db2 clause batch page limit False)))))"

section \<open>Excluding and cancelling\<close>

text \<open>An \<open>UPDATE\<close> of the message rows that satisfy \<open>P\<close>, with its row count.\<close>

definition update_rows :: "(mail_row \<Rightarrow> bool) \<Rightarrow> (mail_row \<Rightarrow> mail_row) \<Rightarrow> mail_db \<Rightarrow> mail_db \<times> nat" where
  "update_rows P f db =
     (db\<lparr>messages := map (\<lambda>m. if P m then f m else m) (messages db)\<rparr>, length (filter P (messages db)))"

definition set_excluded :: "pystr \<Rightarrow> pystr \<Rightarrow> mail_row \<Rightarrow> mail_row" where
  "set_excluded now reason m = m\<lparr>excluded_at := Some now, excluded_reason := Some reason\<rparr>"

definition exclude_message ::
  "(nat \<Rightarrow> bool) \<Rightarrow> mail_db \<Rightarrow> pystr \<Rightarrow> pystr \<Rightarrow> pystr \<Rightarrow> pystr \<Rightarrow> mail_db \<times> (mb_error + bool)" where
  "exclude_message printable db mid target reason now =
     (case ebind (transaction_check db) (\<lambda>_.
             if reason \<notin> {lit ''cancelled'', lit ''deleted'', lit ''revoked''} then Inl MailboxValueError
             else ebind (mb_identifier printable mid) (\<lambda>_. mb_identifier printable target)) of
        Inl e \<Rightarrow> (db, Inl e)
      | Inr _ \<Rightarrow>
          (case update_rows (\<lambda>m. message_id m = mid \<and> row_target m = target \<and> excluded_at m = None)
                  (set_excluded now reason) db of (db', n) \<Rightarrow> (db', Inr (n = 1))))"

definition cancel_message ::
  "(nat \<Rightarrow> bool) \<Rightarrow> mail_db \<Rightarrow> pystr \<Rightarrow> pystr \<Rightarrow> mail_db \<times> (mb_error + bool)" where
  "cancel_message printable db mid now =
     (case ebind (transaction_check db) (\<lambda>_. mb_identifier printable mid) of
        Inl e \<Rightarrow> (db, Inl e)
      | Inr mid \<Rightarrow>
          (case find (\<lambda>x. message_id (fst x) = mid) (joined db) of
             None \<Rightarrow> (db, Inr False)
           | Some (m, e) \<Rightarrow>
               if env_status e = lit ''cancelled'' \<and> excluded_reason m = Some (lit ''cancelled'') then (db, Inr False)
               else if env_status e \<noteq> lit ''stored'' \<or> delivery_mode e \<noteq> lit ''mailbox''
                       \<or> excluded_at m \<noteq> None \<or> row_read_at m \<noteq> None
               then (db, Inl MailboxConflict)
               else ((fst (update_rows (\<lambda>m. message_id m = mid) (set_excluded now (lit ''cancelled'')) db))
                       \<lparr>envelopes := map (\<lambda>e. if env_id e = mid
                          then e\<lparr>env_status := lit ''cancelled'', lifecycle_status := [], env_updated_at := now\<rparr>
                          else e) (envelopes db)\<rparr>, Inr True)))"

definition exclude_pair :: "mail_db \<Rightarrow> pystr \<Rightarrow> pystr \<Rightarrow> mail_db \<times> (mb_error + nat)" where
  "exclude_pair db pair now =
     (case ebind (transaction_check db) (\<lambda>_. pairs_check [pair]) of
        Inl e \<Rightarrow> (db, Inl e)
      | Inr _ \<Rightarrow>
          (case update_rows (\<lambda>m. row_pair m = pair \<and> excluded_at m = None) (set_excluded now (lit ''revoked'')) db of
             (db', n) \<Rightarrow> (db', Inr n)))"

definition exclude_session :: "(nat \<Rightarrow> bool) \<Rightarrow> mail_db \<Rightarrow> pystr \<Rightarrow> pystr \<Rightarrow> mail_db \<times> (mb_error + nat)" where
  "exclude_session printable db session now =
     (case ebind (transaction_check db) (\<lambda>_. mb_identifier printable session) of
        Inl e \<Rightarrow> (db, Inl e)
      | Inr _ \<Rightarrow>
          (case update_rows (\<lambda>m. (row_source m = session \<or> row_target m = session) \<and> excluded_at m = None)
                  (set_excluded now (lit ''deleted'')) db of (db', n) \<Rightarrow> (db', Inr n)))"

section \<open>Read events\<close>

definition pending_read_events :: "mail_db \<Rightarrow> int \<Rightarrow> mb_error + mail_entry list" where
  "pending_read_events db limit =
     ebind (limit_check limit) (\<lambda>limit.
       ebind (page_query db (\<lambda>x. valid_entry x \<and> row_read_at (fst x) \<noteq> None \<and> \<not> read_event_published (fst x))
                limit None) (\<lambda>(ms, _). Inr ms))"

definition unread_targets :: "mail_db \<Rightarrow> pystr list" where
  "unread_targets db = sort (remdups (map (\<lambda>x. row_target (fst x))
     (filter (\<lambda>x. valid_entry x \<and> row_read_at (fst x) = None) (joined db))))"

definition mark_read_event_published :: "(nat \<Rightarrow> bool) \<Rightarrow> mail_db \<Rightarrow> pystr \<Rightarrow> mail_db \<times> (mb_error + bool)" where
  "mark_read_event_published printable db mid =
     (case ebind (transaction_check db) (\<lambda>_. mb_identifier printable mid) of
        Inl e \<Rightarrow> (db, Inl e)
      | Inr _ \<Rightarrow>
          (case update_rows (\<lambda>m. message_id m = mid \<and> row_read_at m \<noteq> None \<and> \<not> read_event_published m)
                  (\<lambda>m. m\<lparr>read_event_published := True\<rparr>) db of (db', n) \<Rightarrow> (db', Inr (n = 1))))"

section \<open>Wakes\<close>

definition get_wake :: "mail_db \<Rightarrow> pystr \<Rightarrow> wake option" where
  "get_wake db target = map_of (wakes db) target"

definition set_wake :: "mail_db \<Rightarrow> pystr \<Rightarrow> wake \<Rightarrow> mail_db" where
  "set_wake db target w = db\<lparr>wakes := AList.update target w (wakes db)\<rparr>"

definition fresh_wake :: "pystr \<Rightarrow> wake" where
  "fresh_wake now = \<lparr>last_attempt_seq = 0, suppressed_seq = 0, wake_claim = None, wake_through = 0,
     wake_status = None, wake_run = None, wake_updated = now\<rparr>"

definition clear_wake :: "wake \<Rightarrow> wake" where
  "clear_wake w = w\<lparr>wake_claim := None, wake_through := 0, wake_status := None, wake_run := None\<rparr>"

definition wake_cutoff :: "wake \<Rightarrow> int" where
  "wake_cutoff w = max (last_attempt_seq w) (suppressed_seq w)"

definition claim_wake ::
  "(nat \<Rightarrow> bool) \<Rightarrow> pystr \<Rightarrow> mail_db \<Rightarrow> pystr \<Rightarrow> pystr list \<Rightarrow> pystr \<Rightarrow> mail_db \<times> (mb_error + wake option)" where
  "claim_wake printable claim_id db target allowed now =
     (case ebind (transaction_check db) (\<lambda>_. scope printable target None allowed) of
        Inl e \<Rightarrow> (db, Inl e)
      | Inr clause \<Rightarrow>
          let prior = get_wake db target
          in if (case prior of None \<Rightarrow> False | Some w \<Rightarrow> wake_status w = Some Reserved) then (db, Inr None)
             else let cutoff = (case prior of None \<Rightarrow> 0 | Some w \<Rightarrow> wake_cutoff w);
                      through = max_seq (map fst (filter (\<lambda>x. clause x \<and> row_read_at (fst x) = None
                                  \<and> cutoff < mailbox_seq (fst x)) (joined db)))
                  in if through = 0 then (db, Inr None)
                     else if \<exists>w \<in> snd ` set (wakes db). wake_claim w = Some claim_id
                     then (db, Inl MailboxIntegrityError)
                     else let w = (case prior of None \<Rightarrow> fresh_wake now | Some w \<Rightarrow> w)
                            \<lparr>wake_claim := Some claim_id, wake_through := through,
                             wake_status := Some Reserved, wake_run := None, wake_updated := now\<rparr>
                          in (set_wake db target w, Inr (Some w)))"

definition admit_wake ::
  "(nat \<Rightarrow> bool) \<Rightarrow> mail_db \<Rightarrow> pystr \<Rightarrow> pystr \<Rightarrow> pystr \<Rightarrow> pystr list \<Rightarrow> pystr \<Rightarrow> mail_db \<times> (mb_error + bool)" where
  "admit_wake printable db target claim_id run allowed now =
     (case ebind (transaction_check db) (\<lambda>_. ebind (scope printable target None allowed) (\<lambda>clause.
             ebind (mb_identifier printable claim_id) (\<lambda>_. ebind (mb_identifier printable run) (\<lambda>_. Inr clause)))) of
        Inl e \<Rightarrow> (db, Inl e)
      | Inr clause \<Rightarrow>
          (case get_wake db target of
             None \<Rightarrow> (db, Inr False)
           | Some w \<Rightarrow>
               if wake_claim w \<noteq> Some claim_id \<or> wake_status w \<noteq> Some Reserved then (db, Inr False)
               else if \<not> list_ex (\<lambda>x. clause x \<and> row_read_at (fst x) = None \<and> wake_cutoff w < mailbox_seq (fst x)
                            \<and> mailbox_seq (fst x) \<le> wake_through w) (joined db)
               then (db, Inr False)
               else (set_wake db target (w\<lparr>wake_status := Some Admitted, wake_run := Some run,
                        last_attempt_seq := max (last_attempt_seq w) (wake_through w), wake_updated := now\<rparr>),
                     Inr True)))"

definition release_wake ::
  "(nat \<Rightarrow> bool) \<Rightarrow> mail_db \<Rightarrow> pystr \<Rightarrow> pystr \<Rightarrow> mail_db \<times> (mb_error + bool)" where
  "release_wake printable db target claim_id =
     (case ebind (transaction_check db) (\<lambda>_. ebind (mb_identifier printable target) (\<lambda>_.
             mb_identifier printable claim_id)) of
        Inl e \<Rightarrow> (db, Inl e)
      | Inr _ \<Rightarrow>
          (case get_wake db target of
             None \<Rightarrow> (db, Inr False)
           | Some w \<Rightarrow>
               if wake_claim w = Some claim_id \<and> wake_status w = Some Reserved
               then (set_wake db target (clear_wake w), Inr True) else (db, Inr False)))"

definition suppress_wake :: "(nat \<Rightarrow> bool) \<Rightarrow> mail_db \<Rightarrow> pystr \<Rightarrow> pystr \<Rightarrow> mail_db \<times> (mb_error + int)" where
  "suppress_wake printable db target now =
     (case ebind (transaction_check db) (\<lambda>_. mb_identifier printable target) of
        Inl e \<Rightarrow> (db, Inl e)
      | Inr _ \<Rightarrow>
          let through = max_seq (map fst (filter (\<lambda>x. valid_entry x \<and> row_target (fst x) = target
                          \<and> row_read_at (fst x) = None) (joined db)));
              w = (case get_wake db target of
                     None \<Rightarrow> (fresh_wake now)\<lparr>suppressed_seq := through\<rparr>
                   | Some w \<Rightarrow> w\<lparr>suppressed_seq := max (suppressed_seq w) through, wake_updated := now\<rparr>);
              w' = (if wake_status w = Some Reserved then clear_wake w else w)
          in (set_wake db target w', Inr (suppressed_seq w')))"

definition recover_wakes :: "mail_db \<Rightarrow> mail_db \<times> (mb_error + nat)" where
  "recover_wakes db =
     (case transaction_check db of
        Inl e \<Rightarrow> (db, Inl e)
      | Inr _ \<Rightarrow>
          (db\<lparr>wakes := map (\<lambda>(t, w). (t, if wake_status w = Some Reserved then clear_wake w else w)) (wakes db)\<rparr>,
           Inr (length (filter (\<lambda>(t, w). wake_status w = Some Reserved) (wakes db)))))"

interpretation mailbox_seqs: seq_allocator "alloc_seq gap" last_seq "\<lambda>_. True" for gap
  by unfold_locales (auto simp: alloc_seq_def Let_def)

end
