(* ===== verification/Mailbox_Safety.thy ===== *)
theory Mailbox_Safety
  imports Chat_Mailbox
begin

text \<open>
  Correctness of the chat mailbox of \<open>Chat_Mailbox\<close> over arbitrary sequences of committed calls: pages
  are maximal bounded prefixes, a message is newly read at most once, reading and cancelling exclude
  each other, retries replay their original page, and wakes are admitted for strictly increasing
  cutoffs.
\<close>

section \<open>Committed calls\<close>

definition atomically :: "mail_db \<Rightarrow> mail_db \<times> (mb_error + 'a) \<Rightarrow> mail_db" where
  "atomically db r = (case snd r of Inl _ \<Rightarrow> db | Inr _ \<Rightarrow> fst r)"

text \<open>\<open>MbEnvelopes\<close> is any change of the envelope ledger by other code; the foreign key deletes the
  mailbox rows of deleted envelopes.\<close>

datatype mb_op =
    MbEnvelopes "envelope list"
  | MbStore nat pystr pystr "pystr option"
  | MbRead pystr pystr pystr pystr pystr "pystr list" pystr int int
  | MbExclude pystr pystr pystr pystr
  | MbCancel pystr pystr
  | MbExcludePair pystr pystr
  | MbExcludeSession pystr pystr
  | MbPublished pystr
  | MbClaim pystr pystr "pystr list" pystr
  | MbAdmit pystr pystr pystr "pystr list" pystr
  | MbRelease pystr pystr
  | MbSuppress pystr pystr
  | MbRecover

definition cascade :: "mail_db \<Rightarrow> envelope list \<Rightarrow> mail_db" where
  "cascade db envs = db\<lparr>envelopes := envs, messages := filter (\<lambda>m. message_id m \<in> env_id ` set envs) (messages db)\<rparr>"

definition mb_next :: "(nat \<Rightarrow> bool) \<Rightarrow> mail_db \<Rightarrow> mb_op \<Rightarrow> mail_db" where
  "mb_next pr db op = (case op of
     MbEnvelopes envs \<Rightarrow> cascade db envs
   | MbStore gap mid now reply \<Rightarrow> atomically db (store_message pr gap db mid now reply)
   | MbRead rid target source run request allowed now after limit \<Rightarrow>
       atomically db (read_sender pr rid db target source run request allowed now after limit)
   | MbExclude mid target reason now \<Rightarrow> atomically db (exclude_message pr db mid target reason now)
   | MbCancel mid now \<Rightarrow> atomically db (cancel_message pr db mid now)
   | MbExcludePair pair now \<Rightarrow> atomically db (exclude_pair db pair now)
   | MbExcludeSession session now \<Rightarrow> atomically db (exclude_session pr db session now)
   | MbPublished mid \<Rightarrow> atomically db (mark_read_event_published pr db mid)
   | MbClaim cid target allowed now \<Rightarrow> atomically db (claim_wake pr cid db target allowed now)
   | MbAdmit target cid run allowed now \<Rightarrow> atomically db (admit_wake pr db target cid run allowed now)
   | MbRelease target cid \<Rightarrow> atomically db (release_wake pr db target cid)
   | MbSuppress target now \<Rightarrow> atomically db (suppress_wake pr db target now)
   | MbRecover \<Rightarrow> atomically db (recover_wakes db))"

text \<open>What a call hands out: newly read messages, a cancelled message, an admitted or suppressed wake
  cutoff.\<close>

datatype mb_event = EvRead "int list" | EvCancel int | EvAdmit pystr int | EvSuppress pystr int

definition mb_events :: "(nat \<Rightarrow> bool) \<Rightarrow> mail_db \<Rightarrow> mb_op \<Rightarrow> mb_event list" where
  "mb_events pr db op = (case op of
     MbRead rid target source run request allowed now after limit \<Rightarrow>
       (case snd (read_sender pr rid db target source run request allowed now after limit) of
          Inr r \<Rightarrow> if replayed r then [] else [EvRead (map (\<lambda>x. mailbox_seq (fst x)) (result_messages r))]
        | Inl _ \<Rightarrow> [])
   | MbCancel mid now \<Rightarrow>
       (case snd (cancel_message pr db mid now) of
          Inr True \<Rightarrow> map (\<lambda>m. EvCancel (mailbox_seq m)) (filter (\<lambda>m. message_id m = mid) (messages db))
        | _ \<Rightarrow> [])
   | MbAdmit target cid run allowed now \<Rightarrow>
       (case snd (admit_wake pr db target cid run allowed now) of
          Inr True \<Rightarrow> (case get_wake db target of None \<Rightarrow> [] | Some w \<Rightarrow> [EvAdmit target (wake_through w)])
        | _ \<Rightarrow> [])
   | MbSuppress target now \<Rightarrow>
       (case snd (suppress_wake pr db target now) of Inr n \<Rightarrow> [EvSuppress target n] | Inl _ \<Rightarrow> [])
   | _ \<Rightarrow> [])"

fun mb_run :: "(nat \<Rightarrow> bool) \<Rightarrow> mail_db \<Rightarrow> mb_op list \<Rightarrow> mail_db" where
  "mb_run pr db [] = db"
| "mb_run pr db (op # ops) = mb_run pr (mb_next pr db op) ops"

fun mb_trace :: "(nat \<Rightarrow> bool) \<Rightarrow> mail_db \<Rightarrow> mb_op list \<Rightarrow> mb_event list" where
  "mb_trace pr db [] = []"
| "mb_trace pr db (op # ops) = mb_events pr db op @ mb_trace pr (mb_next pr db op) ops"

section \<open>Pages\<close>

definition sizes_sum :: "mail_entry list \<Rightarrow> nat" where
  "sizes_sum xs = sum_list (map (\<lambda>x. the (message_size x)) xs)"

lemma sizes_sum_simps [simp]:
  "sizes_sum [] = 0" "sizes_sum (x # xs) = the (message_size x) + sizes_sum xs"
  "sizes_sum (xs @ ys) = sizes_sum xs + sizes_sum ys"
  by (simp_all add: sizes_sum_def)

definition page_spec ::
  "(pystr \<times> pystr) option \<Rightarrow> nat \<Rightarrow> mail_entry list \<Rightarrow> nat \<Rightarrow> mail_entry list \<Rightarrow> mail_entry list \<Rightarrow> bool \<Rightarrow> nat \<Rightarrow> bool" where
  "page_spec meta limit acc used rows out rest n \<longleftrightarrow> n \<le> length rows
    \<and> out = acc @ map (with_read meta) (take n rows) \<and> length out \<le> limit
    \<and> (rest \<longleftrightarrow> n < length rows)
    \<and> used + sizes_sum (map (with_read meta) (take n rows)) \<le> MAX_PAGE_BYTES
    \<and> list_all (\<lambda>x. message_size x \<noteq> None) (map (with_read meta) (take n rows))
    \<and> (rest \<longrightarrow> out \<noteq> [] \<and> (length out = limit
        \<or> MAX_PAGE_BYTES < used + sizes_sum (map (with_read meta) (take (Suc n) rows))))"

lemma page_loop_spec:
  assumes "page_loop meta limit acc used rows = Inr (out, rest)"
    and "length acc \<le> limit" "used \<le> MAX_PAGE_BYTES"
  shows "\<exists>n. page_spec meta limit acc used rows out rest n"
  using assms
proof (induction rows arbitrary: acc used)
  case Nil
  then show ?case by (simp add: page_spec_def)
next
  case (Cons row rows)
  obtain sz where sz: "message_size (with_read meta row) = Some sz"
    using Cons.prems(1) by (cases "message_size (with_read meta row)") (simp_all add: Let_def)
  show ?case
  proof (cases "length acc = limit \<or> MAX_PAGE_BYTES < used + sz")
    case True
    then have "out = acc" "rest" "acc \<noteq> []" using Cons.prems(1) sz by (auto simp: Let_def split: if_splits)
    then have "page_spec meta limit acc used (row # rows) out rest 0"
      using Cons.prems(2,3) True sz by (simp add: page_spec_def)
    then show ?thesis ..
  next
    case False
    then have eq: "page_loop meta limit (acc @ [with_read meta row]) (used + sz) rows = Inr (out, rest)"
      using Cons.prems(1) sz by (simp add: Let_def)
    have "length (acc @ [with_read meta row]) \<le> limit" "used + sz \<le> MAX_PAGE_BYTES"
      using False Cons.prems(2) by auto
    from Cons.IH [OF eq this]
    obtain n where "page_spec meta limit (acc @ [with_read meta row]) (used + sz) rows out rest n" ..
    then have "page_spec meta limit acc used (row # rows) out rest (Suc n)"
      unfolding page_spec_def using sz by (elim conjE) (simp add: algebra_simps)
    then show ?thesis ..
  qed
qed

lemma page_loop_complete:
  assumes "list_all (\<lambda>x. message_size x \<noteq> None) (map (with_read meta) rows)"
    and "used + sizes_sum (map (with_read meta) rows) \<le> MAX_PAGE_BYTES" "length acc + length rows \<le> limit"
  shows "page_loop meta limit acc used rows = Inr (acc @ map (with_read meta) rows, False)"
  using assms
proof (induction rows arbitrary: acc used)
  case (Cons row rows)
  then obtain sz where sz: "message_size (with_read meta row) = Some sz" by auto
  with Cons.prems Cons.IH [of "used + sz" "acc @ [with_read meta row]"] show ?case
    by (simp add: Let_def)
qed simp

lemma page_query_spec:
  assumes "page_query db P limit meta = Inr (out, rest)"
  shows "\<exists>n. page_spec meta (nat limit) [] 8192 (selected db P) out rest n"
proof -
  let ?sel = "selected db P"
  let ?rows = "take (nat limit + 1) ?sel"
  have "page_loop meta (nat limit) [] 8192 ?rows = Inr (out, rest)"
    using assms(1) by (simp add: page_query_def)
  from page_loop_spec [OF this] obtain n where n: "page_spec meta (nat limit) [] 8192 ?rows out rest n"
    by (auto simp: MAX_PAGE_BYTES_def)
  have le: "n \<le> length ?rows" using n unfolding page_spec_def by (elim conjE)
  moreover have "length out = n" using n le unfolding page_spec_def by (elim conjE) simp
  moreover have "length out \<le> nat limit" using n unfolding page_spec_def by (elim conjE)
  ultimately have nl: "n \<le> nat limit" by simp
  have "take n ?rows = take n ?sel" "take (Suc n) ?rows = take (Suc n) ?sel"
    using nl by (simp_all add: min_def)
  moreover have "n \<le> length ?sel" "n < length ?rows \<longleftrightarrow> n < length ?sel"
    using le nl by auto
  ultimately have spec: "n \<le> length ?sel \<and> take n ?rows = take n ?sel \<and> take (Suc n) ?rows = take (Suc n) ?sel
    \<and> (n < length ?rows \<longleftrightarrow> n < length ?sel)" by blast
  from n spec have "page_spec meta (nat limit) [] 8192 ?sel out rest n"
    unfolding page_spec_def by (elim conjE) (simp only: simp_thms)
  then show ?thesis ..
qed

text \<open>A page is the longest prefix, in mailbox order, of the messages the query selects that respects
  both bounds: at most \<open>limit\<close> messages and at most \<open>MAX_PAGE_BYTES\<close> bytes of JSON including the
  reserve. \<open>has_more\<close> is set exactly when selected messages are left out, and a page that reports
  more messages is never empty, so that paging always advances.\<close>

lemma page_query_maximal:
  assumes "page_query db P limit meta = Inr (out, rest)" and "0 < limit"
  shows "\<exists>n. out = map (with_read meta) (take n (selected db P))
    \<and> int (length out) \<le> limit \<and> 8192 + sizes_sum out \<le> MAX_PAGE_BYTES
    \<and> (rest \<longleftrightarrow> n < length (selected db P))
    \<and> (rest \<longrightarrow> out \<noteq> [] \<and> (int (length out) = limit
         \<or> MAX_PAGE_BYTES < 8192 + sizes_sum (map (with_read meta) (take (Suc n) (selected db P)))))"
proof -
  obtain n where n: "page_spec meta (nat limit) [] 8192 (selected db P) out rest n"
    using page_query_spec [OF assms(1)] ..
  have "int (length out) \<le> limit \<longleftrightarrow> length out \<le> nat limit" "int (length out) = limit \<longleftrightarrow> length out = nat limit"
    using assms(2) by linarith+
  with n show ?thesis
    unfolding page_spec_def by (intro exI [of _ n]) (simp only: append_Nil, blast)
qed

section \<open>How rows and tables evolve\<close>

definition row_evolves :: "mail_row \<Rightarrow> mail_row \<Rightarrow> bool" where
  "row_evolves m m' \<longleftrightarrow>
     mailbox_seq m' = mailbox_seq m \<and> message_id m' = message_id m \<and> row_source m' = row_source m
   \<and> row_target m' = row_target m \<and> row_pair m' = row_pair m
   \<and> (row_read_at m \<noteq> None \<longrightarrow> row_read_at m' = row_read_at m \<and> row_read_id m' = row_read_id m)
   \<and> (excluded_at m \<noteq> None \<longrightarrow> excluded_at m' = excluded_at m \<and> row_read_at m' = row_read_at m)
   \<and> (read_event_published m \<longrightarrow> read_event_published m')"

lemma row_evolves_refl [simp]: "row_evolves m m"
  by (simp add: row_evolves_def)

definition wake_level :: "mail_db \<Rightarrow> pystr \<Rightarrow> int" where
  "wake_level db t = (case get_wake db t of None \<Rightarrow> 0 | Some w \<Rightarrow> wake_cutoff w)"

definition rows_move :: "mail_db \<Rightarrow> mail_db \<Rightarrow> bool" where
  "rows_move db db' \<longleftrightarrow> last_seq db \<le> last_seq db'
     \<and> (\<forall>m' \<in> set (messages db'). (\<exists>m \<in> set (messages db). row_evolves m m')
           \<or> (last_seq db < mailbox_seq m' \<and> row_read_at m' = None))"

definition tables_move :: "mail_db \<Rightarrow> mail_db \<Rightarrow> bool" where
  "tables_move db db' \<longleftrightarrow> (\<exists>r. reads db' = reads db @ r) \<and> (\<exists>p. pages db' = pages db @ p)
     \<and> (\<forall>t. wake_level db t \<le> wake_level db' t)"

definition rows_ok :: "mail_db \<Rightarrow> bool" where
  "rows_ok db \<longleftrightarrow> sorted_wrt (<) (map mailbox_seq (messages db)) \<and> distinct (map message_id (messages db))
     \<and> (\<forall>m \<in> set (messages db). 0 < mailbox_seq m \<and> mailbox_seq m \<le> last_seq db) \<and> 0 \<le> last_seq db"

definition reads_ok :: "mail_db \<Rightarrow> bool" where
  "reads_ok db \<longleftrightarrow> distinct (map batch_id (reads db))
     \<and> distinct (map (\<lambda>b. (batch_target b, batch_request b)) (reads db))"

definition wakes_ok :: "mail_db \<Rightarrow> bool" where
  "wakes_ok db \<longleftrightarrow> (\<forall>t w. get_wake db t = Some w \<longrightarrow> 0 \<le> wake_cutoff w)"

definition mb_inv :: "mail_db \<Rightarrow> bool" where
  "mb_inv db \<longleftrightarrow> rows_ok db \<and> reads_ok db \<and> wakes_ok db"

lemma initialize_inv: "mb_inv (initialize envs)"
  by (simp add: mb_inv_def rows_ok_def reads_ok_def wakes_ok_def initialize_def get_wake_def)

lemma rows_move_refl [simp]: "rows_move db db"
  using row_evolves_refl by (fastforce simp: rows_move_def)

lemma same_rows: "messages db' = messages db \<Longrightarrow> last_seq db' = last_seq db \<Longrightarrow> rows_move db db'"
  using rows_move_refl [of db] by (simp only: rows_move_def order_refl simp_thms)

lemma tables_move_refl [simp]: "tables_move db db"
  by (simp add: tables_move_def)

text \<open>An update that maps the rows.\<close>

lemma map_rows:
  assumes "messages db' = map f (messages db)" "last_seq db' = last_seq db"
    and "\<And>m. m \<in> set (messages db) \<Longrightarrow> row_evolves m (f m)"
  shows "rows_move db db'" and "rows_ok db \<Longrightarrow> rows_ok db'"
proof -
  show "rows_move db db'" using assms by (auto simp: rows_move_def)
  have "map mailbox_seq (messages db') = map mailbox_seq (messages db)"
    "map message_id (messages db') = map message_id (messages db)"
    using assms by (auto simp: row_evolves_def)
  note eqs = this
  assume ok: "rows_ok db"
  then have "\<forall>m \<in> set (messages db'). 0 < mailbox_seq m \<and> mailbox_seq m \<le> last_seq db"
    using assms(1,3) by (auto simp: rows_ok_def row_evolves_def)
  with ok show "rows_ok db'"
    unfolding rows_ok_def eqs assms(2) by blast
qed

lemma update_rows_props:
  assumes "\<And>m. P m \<Longrightarrow> row_evolves m (f m)"
  shows "rows_move db (fst (update_rows P f db))" "rows_ok db \<Longrightarrow> rows_ok (fst (update_rows P f db))"
    "reads (fst (update_rows P f db)) = reads db" "pages (fst (update_rows P f db)) = pages db"
    "wakes (fst (update_rows P f db)) = wakes db"
proof -
  let ?f = "\<lambda>m. if P m then f m else m"
  have "row_evolves m (?f m)" for m using assms by simp
  note r = map_rows [of "fst (update_rows P f db)" ?f db, OF _ _ this]
  show "rows_move db (fst (update_rows P f db))" "rows_ok db \<Longrightarrow> rows_ok (fst (update_rows P f db))"
    by (rule r; simp add: update_rows_def)+
qed (simp_all add: update_rows_def)

lemma same_tables:
  assumes "reads db' = reads db" "pages db' = pages db" "wakes db' = wakes db"
  shows "tables_move db db'" "reads_ok db' = reads_ok db" "wakes_ok db' = wakes_ok db"
  using assms by (simp_all add: tables_move_def reads_ok_def wakes_ok_def wake_level_def get_wake_def)

definition step_ok :: "mail_db \<Rightarrow> mail_db \<Rightarrow> bool" where
  "step_ok db db' \<longleftrightarrow> rows_move db db' \<and> tables_move db db' \<and> (mb_inv db \<longrightarrow> mb_inv db')"

lemma step_ok_refl [simp]: "step_ok db db"
  by (simp add: step_ok_def)

lemma step_ok_update_rows:
  assumes "\<And>m. P m \<Longrightarrow> row_evolves m (f m)"
  shows "step_ok db (fst (update_rows P f db))"
  using update_rows_props [OF assms] same_tables [of "fst (update_rows P f db)" db]
  by (simp add: step_ok_def mb_inv_def)

lemma set_excluded_evolves: "excluded_at m = None \<Longrightarrow> row_evolves m (set_excluded now reason m)"
  by (simp add: row_evolves_def set_excluded_def)

lemma atomically_fst: "atomically db (db', r) = (case r of Inl _ \<Rightarrow> db | Inr _ \<Rightarrow> db')"
  by (simp add: atomically_def split: sum.split)

section \<open>Each call keeps the invariant\<close>

lemma exclude_message_ok: "step_ok db (atomically db (exclude_message pr db mid target reason now))"
  using step_ok_update_rows [of "\<lambda>m. message_id m = mid \<and> row_target m = target \<and> excluded_at m = None"
      "set_excluded now reason" db]
  by (auto simp: exclude_message_def atomically_def set_excluded_evolves split: sum.splits prod.splits)

lemma exclude_pair_ok: "step_ok db (atomically db (exclude_pair db pair now))"
  using step_ok_update_rows [of "\<lambda>m. row_pair m = pair \<and> excluded_at m = None" "set_excluded now (lit ''revoked'')" db]
  by (auto simp: exclude_pair_def atomically_def set_excluded_evolves split: sum.splits prod.splits)

lemma exclude_session_ok: "step_ok db (atomically db (exclude_session pr db session now))"
  using step_ok_update_rows [of "\<lambda>m. (row_source m = session \<or> row_target m = session) \<and> excluded_at m = None"
      "set_excluded now (lit ''deleted'')" db]
  by (auto simp: exclude_session_def atomically_def set_excluded_evolves split: sum.splits prod.splits)

lemma mark_published_ok: "step_ok db (atomically db (mark_read_event_published pr db mid))"
proof -
  have "step_ok db (fst (update_rows (\<lambda>m. message_id m = mid \<and> row_read_at m \<noteq> None \<and> \<not> read_event_published m)
      (\<lambda>m. m\<lparr>read_event_published := True\<rparr>) db))"
    by (rule step_ok_update_rows) (simp add: row_evolves_def)
  then show ?thesis
    by (auto simp: mark_read_event_published_def atomically_def split: sum.splits prod.splits)
qed

lemma cascade_ok: "step_ok db (cascade db envs)"
proof -
  have "tables_move db (cascade db envs)" "reads_ok (cascade db envs) = reads_ok db"
    "wakes_ok (cascade db envs) = wakes_ok db"
    by (rule same_tables; simp add: cascade_def)+
  moreover have "rows_move db (cascade db envs)"
    using row_evolves_refl by (fastforce simp: rows_move_def cascade_def)
  moreover have "rows_ok db \<Longrightarrow> rows_ok (cascade db envs)"
    by (auto simp: rows_ok_def cascade_def distinct_map_filter sorted_wrt_map intro: sorted_wrt_filter)
  ultimately show ?thesis by (simp add: step_ok_def mb_inv_def)
qed

lemma joined_iff: "(m, e) \<in> set (joined db) \<longleftrightarrow> m \<in> set (messages db) \<and> find_envelope db (message_id m) = Some e"
  by (auto simp: joined_def join_row_def split: option.splits)

lemma joined_fst: "x \<in> set (joined db) \<Longrightarrow> fst x \<in> set (messages db)"
  by (cases x) (simp add: joined_iff)

lemma unique_row:
  "rows_ok db \<Longrightarrow> m \<in> set (messages db) \<Longrightarrow> m' \<in> set (messages db) \<Longrightarrow> message_id m = message_id m' \<Longrightarrow> m = m'"
  by (auto simp: rows_ok_def distinct_map inj_on_def)

lemma cancel_message_cases:
  assumes "cancel_message pr db mid now = (db', Inr True)"
  obtains m e where "m \<in> set (messages db)" "message_id m = mid" "find_envelope db mid = Some e"
    "excluded_at m = None" "row_read_at m = None"
    "messages db' = messages (fst (update_rows (\<lambda>m. message_id m = mid) (set_excluded now (lit ''cancelled'')) db))"
    "last_seq db' = last_seq db" "reads db' = reads db" "pages db' = pages db" "wakes db' = wakes db"
proof -
  obtain mid' where mid': "ebind (transaction_check db) (\<lambda>_. mb_identifier pr mid) = Inr mid'"
    using assms by (cases "ebind (transaction_check db) (\<lambda>_. mb_identifier pr mid)") (auto simp: cancel_message_def)
  then have "mid' = mid" by (auto simp: ebind_Inr_iff mb_identifier_def split: if_splits)
  obtain x where x: "find (\<lambda>x. message_id (fst x) = mid) (joined db) = Some x"
    using assms mid' \<open>mid' = mid\<close>
    by (cases "find (\<lambda>x. message_id (fst x) = mid) (joined db)") (auto simp: cancel_message_def)
  obtain m e where me: "x = (m, e)" by fastforce
  have "(m, e) \<in> set (joined db)" "message_id m = mid"
    using find_SomeD [OF x] me by auto
  moreover have "excluded_at m = None" "row_read_at m = None"
    "db' = (fst (update_rows (\<lambda>m. message_id m = mid) (set_excluded now (lit ''cancelled'')) db))
       \<lparr>envelopes := map (\<lambda>e. if env_id e = mid
          then e\<lparr>env_status := lit ''cancelled'', lifecycle_status := [], env_updated_at := now\<rparr> else e) (envelopes db)\<rparr>"
    using assms mid' x me \<open>mid' = mid\<close> by (auto simp: cancel_message_def split: if_splits)
  ultimately show thesis
    by (intro that [of m e]) (auto simp: joined_iff update_rows_def)
qed

lemma cancel_message_ok: "mb_inv db \<Longrightarrow> step_ok db (atomically db (cancel_message pr db mid now))"
proof -
  assume inv: "mb_inv db"
  obtain db' r where c: "cancel_message pr db mid now = (db', r)" by fastforce
  show ?thesis
  proof (cases "r = Inr True")
    case True
    with c have "cancel_message pr db mid now = (db', Inr True)" by simp
    then obtain m e where m: "m \<in> set (messages db)" "message_id m = mid" "excluded_at m = None"
      and db': "messages db' = messages (fst (update_rows (\<lambda>m. message_id m = mid) (set_excluded now (lit ''cancelled'')) db))"
        "last_seq db' = last_seq db" "reads db' = reads db" "pages db' = pages db" "wakes db' = wakes db"
      by (rule cancel_message_cases) blast
    have "row_evolves k (if message_id k = mid then set_excluded now (lit ''cancelled'') k else k)"
      if "k \<in> set (messages db)" for k
    proof (cases "message_id k = mid")
      case True
      then have "k = m" using unique_row inv that m by (metis mb_inv_def)
      with m(3) True show ?thesis by (simp add: set_excluded_evolves)
    qed simp
    note r = map_rows [of db' "\<lambda>k. if message_id k = mid then set_excluded now (lit ''cancelled'') k else k" db, OF _ db'(2) this]
    then have "rows_move db db'" "rows_ok db'" using inv db'(1) by (auto simp: update_rows_def mb_inv_def)
    then show ?thesis
      using same_tables [OF db'(3-5)] inv True c by (simp add: atomically_def step_ok_def mb_inv_def)
  next
    case False
    then have "db' = db \<or> (\<exists>e. r = Inl e)"
      using c by (auto simp: cancel_message_def split: sum.splits option.splits if_splits)
    then show ?thesis using c by (auto simp: atomically_def split: sum.splits)
  qed
qed

lemma insert_or_ignore_ok:
  assumes "\<And>n. mailbox_seq (mk n) = n" "\<And>n. row_read_at (mk n) = None" "\<And>n. message_id (mk n) = message_id (mk 0)"
  shows "step_ok db (insert_or_ignore gap db mk)"
proof (cases "message_id (mk 0) \<in> message_id ` set (messages db)")
  case True
  then show ?thesis by (simp add: insert_or_ignore_def)
next
  case False
  let ?n = "last_seq db + 1 + int gap"
  let ?db = "insert_or_ignore gap db mk"
  have db': "?db = db\<lparr>last_seq := ?n, messages := messages db @ [mk ?n]\<rparr>"
    using False by (simp add: insert_or_ignore_def alloc_seq_def Let_def)
  have new: "message_id (mk ?n) \<notin> message_id ` set (messages db)" using False assms(3) [of ?n] by simp
  have "rows_ok ?db" if "rows_ok db"
    using that new assms(1) unfolding db' rows_ok_def
    by (auto simp: sorted_wrt_append order.strict_trans1 intro: order_trans)
  moreover have "rows_move db ?db"
    using assms row_evolves_refl unfolding db' rows_move_def by fastforce
  moreover have "tables_move db ?db" "reads_ok ?db = reads_ok db" "wakes_ok ?db = wakes_ok db"
    by (rule same_tables; simp add: db')+
  ultimately show ?thesis by (simp add: step_ok_def mb_inv_def)
qed

lemma store_message_ok: "step_ok db (atomically db (store_message pr gap db mid now reply))"
proof -
  have "fst (store_message pr gap db mid now reply) = db
    \<or> (\<exists>mk. fst (store_message pr gap db mid now reply) = insert_or_ignore gap db mk
         \<and> (\<forall>n. mailbox_seq (mk n) = n) \<and> (\<forall>n. row_read_at (mk n) = None) \<and> (\<forall>n. message_id (mk n) = message_id (mk 0)))"
    unfolding store_message_def
    by (split sum.split, intro conjI allI impI, simp, rule disjI2,
        rule exI [of _ "\<lambda>n. \<lparr>mailbox_seq = n, message_id = mid, row_source = env_source r,
                row_target = env_target r, row_pair = authorization_pair_id r, stored_at = now,
                in_reply_to = reply_to_message_id r, row_read_id = None, row_read_at = None,
                excluded_at = None, excluded_reason = None, read_event_published = False\<rparr>" for r])
       (simp add: Let_def)
  then show ?thesis
    using insert_or_ignore_ok by (auto simp: atomically_def split: sum.splits)
qed

section \<open>Wakes\<close>

lemma wake_update_ok:
  assumes "wake_level db t \<le> wake_cutoff w" "mb_inv db \<Longrightarrow> 0 \<le> wake_cutoff w"
  shows "step_ok db (set_wake db t w)"
proof -
  have get: "get_wake (set_wake db t w) t' = (if t' = t then Some w else get_wake db t')" for t'
    by (simp add: get_wake_def set_wake_def update_conv')
  have "tables_move db (set_wake db t w)"
    using assms(1) by (auto simp: tables_move_def wake_level_def get) (simp_all add: set_wake_def)
  moreover have "rows_move db (set_wake db t w)"
    by (rule same_rows) (simp_all add: set_wake_def)
  moreover have "mb_inv (set_wake db t w)" if "mb_inv db"
    using that assms(2) [OF that]
    by (auto simp: mb_inv_def wakes_ok_def get) (simp_all add: rows_ok_def reads_ok_def set_wake_def)
  ultimately show ?thesis by (simp add: step_ok_def)
qed

lemma claim_wake_ok: "step_ok db (atomically db (claim_wake pr cid db target allowed now))"
proof -
  have "step_ok db (set_wake db target (w\<lparr>wake_claim := a, wake_through := b, wake_status := c, wake_run := d, wake_updated := e\<rparr>))"
    if "w = (case get_wake db target of None \<Rightarrow> fresh_wake now | Some w \<Rightarrow> w)" for w a b c d e
    using that by (intro wake_update_ok)
      (auto simp: wake_level_def wake_cutoff_def fresh_wake_def mb_inv_def wakes_ok_def split: option.splits)
  then show ?thesis
    by (auto simp: claim_wake_def atomically_def Let_def split: sum.splits if_splits)
qed

lemma admit_wake_cases:
  assumes "admit_wake pr db target cid run allowed now = (db', Inr True)"
  obtains w where "get_wake db target = Some w" "wake_claim w = Some cid" "wake_status w = Some Reserved"
    "wake_cutoff w < wake_through w"
    "db' = set_wake db target (w\<lparr>wake_status := Some Admitted, wake_run := Some run,
       last_attempt_seq := max (last_attempt_seq w) (wake_through w), wake_updated := now\<rparr>)"
  using assms
  by (force simp: admit_wake_def list_ex_iff split: sum.splits option.splits if_splits)

lemma admit_wake_ok: "step_ok db (atomically db (admit_wake pr db target cid run allowed now))"
proof -
  obtain db' r where a: "admit_wake pr db target cid run allowed now = (db', r)" by fastforce
  show ?thesis
  proof (cases "r = Inr True")
    case True
    with a obtain w where w: "get_wake db target = Some w"
      "db' = set_wake db target (w\<lparr>wake_status := Some Admitted, wake_run := Some run,
         last_attempt_seq := max (last_attempt_seq w) (wake_through w), wake_updated := now\<rparr>)"
      by (auto elim: admit_wake_cases)
    have "mb_inv db \<Longrightarrow> 0 \<le> wake_cutoff w" using w(1) by (auto simp: mb_inv_def wakes_ok_def)
    then have "step_ok db db'" unfolding w(2)
      by (intro wake_update_ok) (auto simp: wake_level_def w(1) wake_cutoff_def le_max_iff_disj)
    then show ?thesis using a True by (simp add: atomically_def)
  next
    case False
    then have "db' = db" using a by (auto simp: admit_wake_def split: sum.splits option.splits if_splits)
    then show ?thesis using a by (auto simp: atomically_def split: sum.splits)
  qed
qed

lemma clear_wake_cutoff [simp]: "wake_cutoff (clear_wake w) = wake_cutoff w"
  by (simp add: wake_cutoff_def clear_wake_def)

lemma release_wake_ok: "step_ok db (atomically db (release_wake pr db target cid))"
proof -
  have "step_ok db (set_wake db target (clear_wake w))" if "get_wake db target = Some w" for w
    using that by (intro wake_update_ok) (auto simp: wake_level_def mb_inv_def wakes_ok_def)
  then show ?thesis
    by (auto simp: release_wake_def atomically_def split: sum.splits option.splits)
qed

lemma suppress_wake_cases:
  assumes "suppress_wake pr db target now = (db', Inr n)"
  obtains w where "db' = set_wake db target w" "n = suppressed_seq w" "wake_level db target \<le> wake_cutoff w"
    "mb_inv db \<longrightarrow> 0 \<le> wake_cutoff w"
proof -
  let ?through = "max_seq (map fst (filter (\<lambda>x. valid_entry x \<and> row_target (fst x) = target
                          \<and> row_read_at (fst x) = None) (joined db)))"
  let ?w = "case get_wake db target of
                     None \<Rightarrow> (fresh_wake now)\<lparr>suppressed_seq := ?through\<rparr>
                   | Some w \<Rightarrow> w\<lparr>suppressed_seq := max (suppressed_seq w) ?through, wake_updated := now\<rparr>"
  let ?w' = "if wake_status ?w = Some Reserved then clear_wake ?w else ?w"
  have eq: "db' = set_wake db target ?w'" "n = suppressed_seq ?w'"
    using assms by (auto simp: suppress_wake_def Let_def split: sum.splits)
  have "wake_cutoff ?w' = wake_cutoff ?w" by simp
  moreover have "wake_level db target \<le> wake_cutoff ?w" "mb_inv db \<longrightarrow> 0 \<le> wake_cutoff ?w"
    by (auto simp: wake_level_def wake_cutoff_def fresh_wake_def mb_inv_def wakes_ok_def le_max_iff_disj split: option.splits)
  ultimately have "wake_level db target \<le> wake_cutoff ?w'" "mb_inv db \<longrightarrow> 0 \<le> wake_cutoff ?w'" by metis+
  with eq show thesis by (rule that)
qed

lemma suppress_wake_ok: "step_ok db (atomically db (suppress_wake pr db target now))"
proof (cases "snd (suppress_wake pr db target now)")
  case (Inl e)
  then show ?thesis by (simp add: atomically_def)
next
  case (Inr n)
  then obtain db' where e: "suppress_wake pr db target now = (db', Inr n)" by (metis prod.collapse)
  then obtain w where "db' = set_wake db target w" "n = suppressed_seq w" "wake_level db target \<le> wake_cutoff w" "mb_inv db \<longrightarrow> 0 \<le> wake_cutoff w"
    by (rule suppress_wake_cases)
  then have "step_ok db db'" by (simp add: wake_update_ok)
  then show ?thesis by (simp add: atomically_def e)
qed

lemma recover_wakes_ok: "step_ok db (atomically db (recover_wakes db))"
proof -
  let ?f = "\<lambda>w. if wake_status w = Some Reserved then clear_wake w else w"
  let ?db = "db\<lparr>wakes := map (\<lambda>(t, w). (t, ?f w)) (wakes db)\<rparr>"
  have get: "get_wake ?db t = map_option ?f (get_wake db t)" for t
    by (simp add: get_wake_def map_of_map)
  have cut: "wake_cutoff (?f w) = wake_cutoff w" for w by simp
  have "wake_level ?db t = wake_level db t" for t
    unfolding wake_level_def get by (cases "get_wake db t") (simp_all add: cut)
  then have "tables_move db ?db" by (simp add: tables_move_def)
  moreover have "rows_move db ?db" by (rule same_rows) simp_all
  moreover have "mb_inv ?db" if "mb_inv db"
    using that unfolding mb_inv_def wakes_ok_def get
    by (auto simp: cut) (simp_all add: rows_ok_def reads_ok_def)
  ultimately have "step_ok db ?db" by (simp add: step_ok_def)
  then show ?thesis by (auto simp: recover_wakes_def atomically_def split: sum.splits)
qed

section \<open>Reading\<close>

lemma with_read_frame:
  "mailbox_seq (fst (with_read meta x)) = mailbox_seq (fst x)" "message_id (fst (with_read meta x)) = message_id (fst x)"
  "row_source (fst (with_read meta x)) = row_source (fst x)" "row_target (fst (with_read meta x)) = row_target (fst x)"
  "row_pair (fst (with_read meta x)) = row_pair (fst x)" "snd (with_read meta x) = snd x"
  "valid_entry (with_read meta x) = valid_entry x"
  by (cases x; simp add: with_read_def split: option.split)+

lemma scope_Inr:
  assumes "scope pr t src al = Inr clause"
  shows "clause = (\<lambda>x. valid_entry x \<and> row_target (fst x) = t \<and> row_pair (fst x) \<in> set al
    \<and> (case src of None \<Rightarrow> True | Some s \<Rightarrow> s = [] \<or> row_source (fst x) = s))"
proof -
  have "mb_identifier pr t = Inr t" "pairs_check al = Inr al"
    using assms by (auto simp: scope_def ebind_Inr_iff mb_identifier_def pairs_check_def split: if_splits)
  moreover have "mb_identifier pr s = Inr s" if "src = Some s" "s \<noteq> []" for s
    using assms that calculation by (auto simp: scope_def ebind_Inr_iff mb_identifier_def Let_def split: if_splits)
  ultimately have "scope pr t src al = Inr (\<lambda>x. valid_entry x \<and> row_target (fst x) = t \<and> row_pair (fst x) \<in> set al
    \<and> (case src of None \<Rightarrow> True | Some s \<Rightarrow> s = [] \<or> row_source (fst x) = s))"
    by (cases src) (simp_all add: scope_def Let_def conj_assoc)
  with assms show ?thesis by simp
qed

lemma scope_props:
  assumes "scope pr t src al = Inr clause"
  shows "clause x \<Longrightarrow> valid_entry x" "clause x \<Longrightarrow> row_target (fst x) = t" "clause x \<Longrightarrow> row_pair (fst x) \<in> set al"
    "src = Some s \<Longrightarrow> s \<noteq> [] \<Longrightarrow> clause x \<Longrightarrow> row_source (fst x) = s" "clause (with_read meta x) = clause x"
  unfolding scope_Inr [OF assms] by (auto simp: with_read_frame split: option.splits)

lemma map_fst_joined: "map fst (joined db) = filter (\<lambda>m. find_envelope db (message_id m) \<noteq> None) (messages db)"
proof -
  have "map fst (concat (map (join_row db) ms)) = filter (\<lambda>m. find_envelope db (message_id m) \<noteq> None) ms" for ms
    by (induction ms) (auto simp: join_row_def split: option.splits)
  then show ?thesis by (simp add: joined_def)
qed

lemma joined_sorted: "rows_ok db \<Longrightarrow> sorted_wrt (<) (map (\<lambda>x. mailbox_seq (fst x)) (joined db))"
proof -
  assume "rows_ok db"
  then have "sorted_wrt (\<lambda>a b. mailbox_seq a < mailbox_seq b) (messages db)"
    by (simp add: rows_ok_def sorted_wrt_map)
  then have "sorted_wrt (\<lambda>a b. mailbox_seq a < mailbox_seq b) (map fst (joined db))"
    unfolding map_fst_joined by (rule sorted_wrt_filter)
  then show ?thesis by (simp add: sorted_wrt_map)
qed

lemma joined_distinct_ids: "rows_ok db \<Longrightarrow> distinct (map (\<lambda>x. message_id (fst x)) (joined db))"
proof -
  assume "rows_ok db"
  then have "distinct (map message_id (map fst (joined db)))"
    unfolding map_fst_joined by (simp add: rows_ok_def distinct_map_filter)
  then show ?thesis by (simp add: comp_def)
qed

lemma selected_filter: "rows_ok db \<Longrightarrow> selected db P = filter P (joined db)"
proof -
  assume ok: "rows_ok db"
  have "sorted_wrt (\<lambda>a b. mailbox_seq (fst a) < mailbox_seq (fst b)) (filter P (joined db))"
    using joined_sorted [OF ok] by (simp add: sorted_wrt_map sorted_wrt_filter)
  then have "sorted (map (\<lambda>x. mailbox_seq (fst x)) (filter P (joined db)))"
    by (auto simp: sorted_wrt_map elim: sorted_wrt_mono_rel [rotated])
  then show ?thesis by (simp add: selected_def sort_key_id_if_sorted)
qed

text \<open>Selecting the first \<open>n\<close> hits again by their keys.\<close>

lemma filter_take_keys:
  assumes "distinct (map key xs)" "\<And>x. P x \<Longrightarrow> Q x"
  shows "filter (\<lambda>x. Q x \<and> key x \<in> key ` set (take n (filter P xs))) xs = take n (filter P xs)"
  using assms(1)
proof (induction xs arbitrary: n)
  case (Cons x xs)
  have out: "key x \<notin> key ` set (take k (filter P xs))" for k
    using Cons.prems by (auto dest: in_set_takeD)
  show ?case
  proof (cases "P x \<and> 0 < n")
    case True
    then obtain k where k: "n = Suc k" by (cases n) auto
    have "key x \<notin> key ` set xs" using Cons.prems by simp
    then have "key y \<noteq> key x" if "y \<in> set xs" for y using that by (metis imageI)
    then have "filter (\<lambda>y. Q y \<and> key y \<in> key ` set (take n (filter P (x # xs)))) xs
        = filter (\<lambda>y. Q y \<and> key y \<in> key ` set (take k (filter P xs))) xs"
      using True k by (intro filter_cong) auto
    then show ?thesis using True k Cons.IH [of k] Cons.prems assms(2) by simp
  next
    case False
    then have "take n (filter P (x # xs)) = take n (filter P xs)" by auto
    then show ?thesis using out [of n] Cons.IH [of n] Cons.prems by simp
  qed
qed simp

lemma mark_read_joined:
  assumes "messages db' = map (mark_read rid now ids) (messages db)" "envelopes db' = envelopes db"
  shows "joined db' = map (\<lambda>x. (mark_read rid now ids (fst x), snd x)) (joined db)"
proof -
  have "message_id (mark_read rid now ids m) = message_id m" for m by (simp add: mark_read_def)
  then have "join_row db' (mark_read rid now ids m) = map (\<lambda>x. (mark_read rid now ids (fst x), snd x)) (join_row db m)" for m
    using assms(2) by (simp add: join_row_def find_envelope_def split: option.split)
  then show ?thesis by (simp add: joined_def assms(1) map_concat comp_def)
qed

definition unread_in :: "(mail_entry \<Rightarrow> bool) \<Rightarrow> int \<Rightarrow> int \<Rightarrow> mail_entry \<Rightarrow> bool" where
  "unread_in clause after snap x \<longleftrightarrow> clause x \<and> row_read_at (fst x) = None \<and> after < mailbox_seq (fst x)
     \<and> mailbox_seq (fst x) \<le> snap"

lemma new_page_cases:
  assumes "new_page db clause batch now after limit = (db', Inr page)"
  obtains out rest n where
    "page_query db (unread_in clause after (snapshot_seq batch)) limit (Some (batch_id batch, now)) = Inr (out, rest)"
    "page_spec (Some (batch_id batch, now)) (nat limit) [] 8192 (selected db (unread_in clause after (snapshot_seq batch))) out rest n"
    "page = \<lparr>page_read_id = batch_id batch, page_after = after,
       page_end = (if out = [] then after else mailbox_seq (fst (last out))), page_more = rest,
       page_ids = map (\<lambda>x. message_id (fst x)) out\<rparr>"
    "db' = db\<lparr>pages := pages db @ [page],
       messages := map (mark_read (batch_id batch) now (page_ids page)) (messages db)\<rparr>"
proof -
  let ?P = "unread_in clause after (snapshot_seq batch)"
  have P: "(\<lambda>x. clause x \<and> row_read_at (fst x) = None \<and> after < mailbox_seq (fst x)
                \<and> mailbox_seq (fst x) \<le> snapshot_seq batch) = ?P"
    by (simp add: unread_in_def fun_eq_iff)
  obtain out rest where q: "page_query db ?P limit (Some (batch_id batch, now)) = Inr (out, rest)"
    using assms unfolding new_page_def P by (auto split: if_splits sum.splits)
  obtain n where n: "page_spec (Some (batch_id batch, now)) (nat limit) [] 8192 (selected db ?P) out rest n"
    using page_query_spec [OF q] ..
  have page: "page = \<lparr>page_read_id = batch_id batch, page_after = after,
       page_end = (if out = [] then after else mailbox_seq (fst (last out))), page_more = rest,
       page_ids = map (\<lambda>x. message_id (fst x)) out\<rparr>"
    and db': "db' = db\<lparr>pages := pages db @ [page],
       messages := map (mark_read (batch_id batch) now (page_ids page)) (messages db)\<rparr>"
    using assms q unfolding new_page_def P by (auto simp: Let_def split: if_splits)
  show thesis by (rule that [OF q n page db'])
qed

lemma with_read_None [simp]: "with_read None x = x" "map (with_read None) xs = xs"
  by (simp_all add: with_read_def map_idI)

lemma mark_as_with_read:
  "(mark_read rid now ids (fst x), snd x) =
     (if message_id (fst x) \<in> set ids \<and> row_read_at (fst x) = None then with_read (Some (rid, now)) x else x)"
  by (simp add: mark_read_def with_read_def)

lemma mark_read_evolves:
  assumes "rows_ok db" "\<And>i. i \<in> set ids \<Longrightarrow> \<exists>x \<in> set (joined db). valid_entry x \<and> message_id (fst x) = i"
    and "m \<in> set (messages db)"
  shows "row_evolves m (mark_read rid now ids m)"
proof (cases "message_id m \<in> set ids")
  case True
  then obtain x where x: "x \<in> set (joined db)" "valid_entry x" "message_id (fst x) = message_id m"
    using assms(2) by metis
  then have "fst x = m" using unique_row [OF assms(1) joined_fst assms(3)] by metis
  then have "excluded_at m = None" using x(2) by (cases x) simp
  then show ?thesis by (simp add: mark_read_def row_evolves_def)
qed (simp add: mark_read_def)

lemma mark_rows:
  assumes "rows_ok db" "\<And>i. i \<in> set ids \<Longrightarrow> \<exists>x \<in> set (joined db). valid_entry x \<and> message_id (fst x) = i"
    and "messages db' = map (mark_read rid now ids) (messages db)" "last_seq db' = last_seq db"
  shows "rows_move db db'" "rows_ok db'"
  using map_rows [of db' "mark_read rid now ids" db] mark_read_evolves [OF assms(1,2)] assms(1,3,4) by auto

text \<open>A page read for the first time returns exactly the messages it has just marked.\<close>

lemma new_page_result:
  assumes ok: "rows_ok db" and clause: "scope pr t src al = Inr clause"
    and page: "new_page db clause batch now after limit = (db', Inr page)"
  obtains n where
    "finish_read db' clause batch page limit False = Inr \<lparr>result_read_id = batch_id batch,
       result_snapshot = snapshot_seq batch,
       result_messages = map (with_read (Some (batch_id batch, now)))
         (take n (filter (unread_in clause after (snapshot_seq batch)) (joined db))),
       result_next = (if page_more page then Some (page_end page) else None), result_more = page_more page,
       unavailable_count = 0, replayed = False\<rparr>"
    "page_ids page = map (\<lambda>x. message_id (fst x)) (take n (filter (unread_in clause after (snapshot_seq batch)) (joined db)))"
    "page_more page \<longleftrightarrow> n < length (filter (unread_in clause after (snapshot_seq batch)) (joined db))"
proof -
  let ?meta = "Some (batch_id batch, now)"
  let ?P = "unread_in clause after (snapshot_seq batch)"
  let ?sel = "filter ?P (joined db)"
  from page obtain out rest n where sp: "page_spec ?meta (nat limit) [] 8192 (selected db ?P) out rest n"
    and pg: "page = \<lparr>page_read_id = batch_id batch, page_after = after,
       page_end = (if out = [] then after else mailbox_seq (fst (last out))), page_more = rest,
       page_ids = map (\<lambda>x. message_id (fst x)) out\<rparr>"
    and db': "db' = db\<lparr>pages := pages db @ [page],
       messages := map (mark_read (batch_id batch) now (page_ids page)) (messages db)\<rparr>"
    by (rule new_page_cases)
  have sel: "selected db ?P = ?sel" by (rule selected_filter [OF ok])
  have out: "out = map (with_read ?meta) (take n ?sel)" and lim: "length out \<le> nat limit"
    and size: "8192 + sizes_sum out \<le> MAX_PAGE_BYTES" "list_all (\<lambda>x. message_size x \<noteq> None) out"
    and rest: "rest \<longleftrightarrow> n < length ?sel"
    using sp unfolding page_spec_def sel append_Nil by (elim conjE, simp only:)+
  let ?ids = "map (\<lambda>x. message_id (fst x)) (take n ?sel)"
  have ids: "page_ids page = ?ids" by (simp add: pg out with_read_frame comp_def)
  let ?Q = "\<lambda>x. clause x \<and> message_id (fst x) \<in> set ?ids"
  let ?mark = "\<lambda>x. (mark_read (batch_id batch) now ?ids (fst x), snd x)"
  have J: "joined db' = map ?mark (joined db)"
    by (rule mark_read_joined) (simp_all add: db' ids)
  have valid: "\<exists>x \<in> set (joined db). valid_entry x \<and> message_id (fst x) = i" if "i \<in> set ?ids" for i
  proof -
    from that obtain x where x: "x \<in> set (take n ?sel)" "message_id (fst x) = i" by auto
    then have "x \<in> set ?sel" by (blast dest: in_set_takeD)
    then have "x \<in> set (joined db)" "valid_entry x"
      using scope_props(1) [OF clause] by (simp_all add: unread_in_def)
    with x(2) show ?thesis by blast
  qed
  have ok': "rows_ok db'"
    by (rule mark_rows(2) [OF ok valid, of ?ids _ "batch_id batch" now]) (simp_all add: db' ids)
  have keep: "clause (?mark x) = clause x" "message_id (fst (?mark x)) = message_id (fst x)" for x
    unfolding mark_as_with_read by (simp_all add: scope_props(5) [OF clause] with_read_frame)
  have "set ?ids = (\<lambda>x. message_id (fst x)) ` set (take n ?sel)" by simp
  then have again: "filter ?Q (joined db) = take n ?sel"
    using filter_take_keys [OF joined_distinct_ids [OF ok], of ?P clause n] by (simp add: unread_in_def)
  have "filter ?Q (joined db') = map ?mark (filter ?Q (joined db))"
    unfolding J filter_map comp_def keep ..
  also have "\<dots> = map (with_read ?meta) (take n ?sel)"
    unfolding again
  proof (rule map_cong [OF refl])
    fix x
    assume x: "x \<in> set (take n ?sel)"
    then have "row_read_at (fst x) = None" by (auto simp: unread_in_def dest: in_set_takeD)
    then show "?mark x = with_read ?meta x" unfolding mark_as_with_read using x by simp
  qed
  finally have sel': "selected db' ?Q = out"
    unfolding selected_filter [OF ok'] out .
  have "page_query db' ?Q limit None = Inr (out, False)"
    unfolding page_query_def sel' using lim size page_loop_complete [of None out 8192 "[]" "nat limit"] by simp
  then have "finish_read db' clause batch page limit False = Inr \<lparr>result_read_id = batch_id batch,
       result_snapshot = snapshot_seq batch, result_messages = map (with_read ?meta) (take n ?sel),
       result_next = (if page_more page then Some (page_end page) else None), result_more = page_more page,
       unavailable_count = 0, replayed = False\<rparr>"
    unfolding finish_read_def ids by (auto simp: out)
  then show thesis using ids rest by (intro that [of n]) (simp_all add: pg)
qed

lemma new_page_ok:
  assumes inv: "mb_inv db" and clause: "scope pr t src al = Inr clause"
    and page: "new_page db clause batch now after limit = (db', Inr page)"
  shows "step_ok db db'"
proof -
  have ok: "rows_ok db" using inv by (simp add: mb_inv_def)
  from page obtain out rest n where sp: "page_spec (Some (batch_id batch, now)) (nat limit) [] 8192
        (selected db (unread_in clause after (snapshot_seq batch))) out rest n"
    and pg: "page = \<lparr>page_read_id = batch_id batch, page_after = after,
       page_end = (if out = [] then after else mailbox_seq (fst (last out))), page_more = rest,
       page_ids = map (\<lambda>x. message_id (fst x)) out\<rparr>"
    and db': "db' = db\<lparr>pages := pages db @ [page],
       messages := map (mark_read (batch_id batch) now (page_ids page)) (messages db)\<rparr>"
    by (rule new_page_cases)
  have out: "out = map (with_read (Some (batch_id batch, now))) (take n (filter (unread_in clause after (snapshot_seq batch)) (joined db)))"
    using sp unfolding page_spec_def selected_filter [OF ok] append_Nil by (elim conjE)
  have valid: "\<exists>x \<in> set (joined db). valid_entry x \<and> message_id (fst x) = i" if "i \<in> set (page_ids page)" for i
  proof -
    from that obtain x where x: "x \<in> set (take n (filter (unread_in clause after (snapshot_seq batch)) (joined db)))"
      "message_id (fst x) = i" by (auto simp: pg out with_read_frame)
    then have "x \<in> set (filter (unread_in clause after (snapshot_seq batch)) (joined db))" by (blast dest: in_set_takeD)
    then have "x \<in> set (joined db)" "valid_entry x"
      using scope_props(1) [OF clause] by (simp_all add: unread_in_def)
    with x(2) show ?thesis by blast
  qed
  have "rows_move db db'" "rows_ok db'"
    by (rule mark_rows [OF ok valid, of "page_ids page" _ "batch_id batch" now]; simp add: db')+
  moreover have "tables_move db db'" by (simp add: tables_move_def db' wake_level_def get_wake_def)
  moreover have "reads_ok db' = reads_ok db" "wakes_ok db' = wakes_ok db"
    by (simp_all add: db' reads_ok_def wakes_ok_def get_wake_def)
  ultimately show ?thesis using inv by (simp add: step_ok_def mb_inv_def)
qed

lemma open_batch_cases:
  assumes "open_batch db target source run request now after limit rid = (db1, Inr batch)"
  obtains (created) "find_batches db target request = []" "after = 0" "batch_id batch = rid"
      "batch_target batch = target" "batch_request batch = request" "batch_source batch = source" "page_limit batch = limit"
      "snapshot_seq batch = max_seq (filter (\<lambda>m. row_target m = target \<and> row_source m = source) (messages db))"
      "rid \<notin> batch_id ` set (reads db)" "db1 = db\<lparr>reads := reads db @ [batch]\<rparr>"
    | (found) "find_batches db target request = [batch]" "db1 = db"
  using assms
  by (auto simp: open_batch_def Let_def split: list.splits if_splits)

lemma find_batches_found:
  "find_batches db target request = [batch] \<Longrightarrow> batch \<in> set (reads db) \<and> batch_target batch = target \<and> batch_request batch = request"
  unfolding find_batches_def
  by (metis (mono_tags, lifting) in_set_takeD list.set_intros(1) mem_Collect_eq set_filter)

lemma find_batches_unique:
  assumes "reads_ok db" "batch \<in> set (reads db)" "batch_target batch = target" "batch_request batch = request"
  shows "find_batches db target request = [batch]"
proof -
  have "distinct (map (\<lambda>b. (batch_target b, batch_request b)) (reads db))" using assms(1) by (simp add: reads_ok_def)
  from filter_distinct [OF this assms(2)] assms(3,4)
  have "filter (\<lambda>b. batch_target b = target \<and> batch_request b = request) (reads db) = [batch]" by simp
  then show ?thesis by (simp add: find_batches_def)
qed

lemma open_batch_ok:
  assumes inv: "mb_inv db" and "open_batch db target source run request now after limit rid = (db1, Inr batch)"
  shows "step_ok db db1 \<and> messages db1 = messages db \<and> envelopes db1 = envelopes db \<and> pages db1 = pages db
    \<and> batch \<in> set (reads db1) \<and> batch_target batch = target \<and> batch_request batch = request"
  using assms(2)
proof (cases rule: open_batch_cases)
  case created
  have "rows_move db db1" by (rule same_rows) (simp_all add: created)
  moreover have "tables_move db db1" by (simp add: created tables_move_def wake_level_def get_wake_def)
  moreover have "mb_inv db1"
    using inv created
    by (auto simp: mb_inv_def rows_ok_def reads_ok_def wakes_ok_def get_wake_def find_batches_def filter_empty_conv)
  ultimately show ?thesis
    using created by (simp add: step_ok_def)
next
  case found
  then show ?thesis using find_batches_found by simp
qed

lemma step_ok_trans:
  assumes "step_ok db db1" "step_ok db1 db2" "last_seq db1 = last_seq db" "messages db1 = messages db"
  shows "step_ok db db2"
proof -
  have "rows_move db db2" using assms unfolding step_ok_def rows_move_def by metis
  moreover have "tables_move db db2"
    using assms(1,2) unfolding step_ok_def tables_move_def by (metis append.assoc order_trans)
  ultimately show ?thesis using assms(1,2) by (simp add: step_ok_def)
qed

text \<open>The two ways a read succeeds.\<close>

lemma read_sender_cases:
  assumes "read_sender pr rid db target source run request allowed now after limit = (db', Inr res)"
  obtains clause db1 batch page where
    "scope pr target (Some source) allowed = Inr clause" "0 < limit" "source \<noteq> []"
    "open_batch db target source run request now after limit rid = (db1, Inr batch)"
    "batch_source batch = source" "page_limit batch = limit"
    "(find_page db1 (batch_id batch) after = Some page \<and> db' = db1
        \<and> finish_read db1 clause batch page limit True = Inr res)
     \<or> (find_page db1 (batch_id batch) after = None \<and> new_page db1 clause batch now after limit = (db', Inr page)
        \<and> finish_read db' clause batch page limit False = Inr res)"
proof -
  define chk where "chk = ebind (transaction_check db) (\<lambda>_. ebind (mb_identifier pr source) (\<lambda>_.
             ebind (mb_identifier pr run) (\<lambda>_. ebind (mb_identifier pr request) (\<lambda>_.
               ebind (cursor_check after) (\<lambda>_. ebind (limit_check limit) (\<lambda>_.
                 scope pr target (Some source) allowed))))))"
  from assms obtain clause where c: "chk = Inr clause"
    unfolding read_sender_def chk_def [symmetric] by (cases chk) auto
  then have sc: "scope pr target (Some source) allowed = Inr clause" "0 < limit" "source \<noteq> []"
    by (auto simp: chk_def ebind_Inr_iff limit_check_def mb_identifier_def split: if_splits)
  obtain db1 rb where ob: "open_batch db target source run request now after limit rid = (db1, rb)" by fastforce
  then obtain batch where rb: "rb = Inr batch"
    using assms c unfolding read_sender_def chk_def [symmetric] by (cases rb) auto
  have m: "batch_source batch = source" "page_limit batch = limit"
    using assms c ob rb unfolding read_sender_def chk_def [symmetric] by (auto split: if_splits)
  show thesis
  proof (cases "find_page db1 (batch_id batch) after")
    case (Some page)
    then have "db' = db1 \<and> finish_read db1 clause batch page limit True = Inr res"
      using assms c ob rb m unfolding read_sender_def chk_def [symmetric] by auto
    with Some show thesis using that [OF sc ob [unfolded rb] m, of page] by blast
  next
    case None
    obtain db2 rp where np: "new_page db1 clause batch now after limit = (db2, rp)" by fastforce
    then obtain page where "rp = Inr page" "db' = db2" "finish_read db' clause batch page limit False = Inr res"
      using assms c ob rb m None unfolding read_sender_def chk_def [symmetric] by (cases rp) auto
    with None np show thesis using that [OF sc ob [unfolded rb] m, of page] by blast
  qed
qed

lemma read_sender_ok:
  assumes inv: "mb_inv db"
  shows "step_ok db (atomically db (read_sender pr rid db target source run request allowed now after limit))"
proof (cases "snd (read_sender pr rid db target source run request allowed now after limit)")
  case (Inl e)
  then show ?thesis by (simp add: atomically_def)
next
  case (Inr res)
  then obtain db' where r: "read_sender pr rid db target source run request allowed now after limit = (db', Inr res)"
    by (metis prod.collapse)
  then obtain clause db1 batch page where sc: "scope pr target (Some source) allowed = Inr clause"
    and ob: "open_batch db target source run request now after limit rid = (db1, Inr batch)"
    and cases: "db' = db1 \<or> new_page db1 clause batch now after limit = (db', Inr page)"
    by (rule read_sender_cases) blast
  note o = open_batch_ok [OF inv ob]
  have ls: "last_seq db1 = last_seq db" using ob by (auto elim: open_batch_cases)
  have "step_ok db db'" using cases
  proof
    assume "new_page db1 clause batch now after limit = (db', Inr page)"
    moreover have "mb_inv db1" using o inv by (simp add: step_ok_def)
    ultimately have "step_ok db1 db'" by (intro new_page_ok [OF _ sc])
    then show ?thesis using o ls by (blast intro: step_ok_trans)
  qed (use o in simp)
  then show ?thesis by (simp add: atomically_def r)
qed

lemma mb_next_ok: "mb_inv db \<Longrightarrow> step_ok db (mb_next pr db op)"
  by (cases op) (simp_all add: mb_next_def cascade_ok store_message_ok read_sender_ok exclude_message_ok
      cancel_message_ok exclude_pair_ok exclude_session_ok mark_published_ok claim_wake_ok admit_wake_ok
      release_wake_ok suppress_wake_ok recover_wakes_ok)

lemma mb_next_inv: "mb_inv db \<Longrightarrow> mb_inv (mb_next pr db op)"
  using mb_next_ok by (auto simp: step_ok_def)

lemma mb_run_inv: "mb_inv db \<Longrightarrow> mb_inv (mb_run pr db ops)"
  by (induction ops arbitrary: db) (auto simp: mb_next_inv)

text \<open>What a first read marks and returns.\<close>

definition fresh_read ::
  "(nat \<Rightarrow> bool) \<Rightarrow> mail_db \<Rightarrow> pystr \<Rightarrow> pystr \<Rightarrow> pystr \<Rightarrow> pystr list \<Rightarrow> pystr \<Rightarrow> int \<Rightarrow> int \<Rightarrow> mail_db \<Rightarrow> read_result
    \<Rightarrow> (mail_entry \<Rightarrow> bool) \<Rightarrow> read_batch \<Rightarrow> nat \<Rightarrow> read_page \<Rightarrow> bool" where
  "fresh_read pr db target source request allowed now after limit db' res clause batch n page \<longleftrightarrow>
     scope pr target (Some source) allowed = Inr clause \<and> source \<noteq> []
   \<and> result_messages res = map (with_read (Some (batch_id batch, now)))
       (take n (filter (unread_in clause after (result_snapshot res)) (joined db)))
   \<and> (result_more res \<longleftrightarrow> n < length (filter (unread_in clause after (result_snapshot res)) (joined db)))
   \<and> unavailable_count res = 0 \<and> result_read_id res = batch_id batch
   \<and> messages db' = map (mark_read (batch_id batch) now (map (\<lambda>x. message_id (fst x)) (result_messages res))) (messages db)
   \<and> page_ids page = map (\<lambda>x. message_id (fst x)) (result_messages res) \<and> page_more page = result_more res
   \<and> result_next res = (if page_more page then Some (page_end page) else None)
   \<and> find_page db' (batch_id batch) after = Some page
   \<and> batch \<in> set (reads db') \<and> batch_target batch = target \<and> batch_request batch = request
   \<and> batch_source batch = source \<and> page_limit batch = limit \<and> snapshot_seq batch = result_snapshot res"

lemma fresh_read_cases:
  assumes inv: "mb_inv db"
    and r: "read_sender pr rid db target source run request allowed now after limit = (db', Inr res)" and "\<not> replayed res"
  shows "\<exists>clause batch n page. fresh_read pr db target source request allowed now after limit db' res clause batch n page"
proof -
  from r obtain clause db1 batch page where sc: "scope pr target (Some source) allowed = Inr clause" "source \<noteq> []"
    and ob: "open_batch db target source run request now after limit rid = (db1, Inr batch)"
    and m: "batch_source batch = source" "page_limit batch = limit"
    and cases: "(find_page db1 (batch_id batch) after = Some page \<and> db' = db1
        \<and> finish_read db1 clause batch page limit True = Inr res)
     \<or> (find_page db1 (batch_id batch) after = None \<and> new_page db1 clause batch now after limit = (db', Inr page)
        \<and> finish_read db' clause batch page limit False = Inr res)"
    by (rule read_sender_cases) blast
  have "finish_read db1 clause batch page limit True \<noteq> Inr res"
    using assms(3) by (auto simp: finish_read_def ebind_Inr_iff split: if_splits)
  with cases have fp: "find_page db1 (batch_id batch) after = None" and np: "new_page db1 clause batch now after limit = (db', Inr page)"
    and fin: "finish_read db' clause batch page limit False = Inr res" by blast+
  note o = open_batch_ok [OF inv ob]
  then have ok1: "rows_ok db1" using inv by (simp add: step_ok_def mb_inv_def)
  have J: "joined db1 = joined db" using o by (simp add: joined_def join_row_def [abs_def] find_envelope_def)
  from new_page_result [OF ok1 sc(1) np] obtain n where n:
    "finish_read db' clause batch page limit False = Inr \<lparr>result_read_id = batch_id batch,
       result_snapshot = snapshot_seq batch,
       result_messages = map (with_read (Some (batch_id batch, now)))
         (take n (filter (unread_in clause after (snapshot_seq batch)) (joined db1))),
       result_next = (if page_more page then Some (page_end page) else None), result_more = page_more page,
       unavailable_count = 0, replayed = False\<rparr>"
    "page_ids page = map (\<lambda>x. message_id (fst x)) (take n (filter (unread_in clause after (snapshot_seq batch)) (joined db1)))"
    "page_more page \<longleftrightarrow> n < length (filter (unread_in clause after (snapshot_seq batch)) (joined db1))" by blast
  then have res: "res = \<lparr>result_read_id = batch_id batch, result_snapshot = snapshot_seq batch,
       result_messages = map (with_read (Some (batch_id batch, now)))
         (take n (filter (unread_in clause after (snapshot_seq batch)) (joined db))),
       result_next = (if page_more page then Some (page_end page) else None), result_more = page_more page,
       unavailable_count = 0, replayed = False\<rparr>"
    using fin J by simp
  have ids: "map (\<lambda>x. message_id (fst x)) (result_messages res) = page_ids page"
    unfolding n(2) J by (simp add: res with_read_frame comp_def)
  from np obtain out rest where pg: "page_read_id page = batch_id batch" "page_after page = after"
    and db': "db' = db1\<lparr>pages := pages db1 @ [page],
       messages := map (mark_read (batch_id batch) now (page_ids page)) (messages db1)\<rparr>"
    by (rule new_page_cases) auto
  have "find_page db' (batch_id batch) after = Some page"
    using fp pg by (simp add: find_page_def db' find_append)
  then have "fresh_read pr db target source request allowed now after limit db' res clause batch n page"
    using sc m n(3) pg db' o ids unfolding J fresh_read_def by (simp add: res)
  then show ?thesis by blast
qed

section \<open>Each message is read or cancelled at most once\<close>

definition settled :: "int \<Rightarrow> mail_db \<Rightarrow> bool" where
  "settled n db \<longleftrightarrow> n \<le> last_seq db
     \<and> (\<forall>m \<in> set (messages db). mailbox_seq m = n \<longrightarrow> row_read_at m \<noteq> None \<or> excluded_at m \<noteq> None)"

lemma settled_rows_move: "rows_move db db' \<Longrightarrow> settled n db \<Longrightarrow> settled n db'"
  unfolding rows_move_def settled_def row_evolves_def by fastforce

fun read_seqs :: "mb_event list \<Rightarrow> int list" where
  "read_seqs [] = []"
| "read_seqs (EvRead ns # es) = ns @ read_seqs es"
| "read_seqs (_ # es) = read_seqs es"

fun cancel_seqs :: "mb_event list \<Rightarrow> int list" where
  "cancel_seqs [] = []"
| "cancel_seqs (EvCancel n # es) = n # cancel_seqs es"
| "cancel_seqs (_ # es) = cancel_seqs es"

lemma seqs_append:
  "read_seqs (xs @ ys) = read_seqs xs @ read_seqs ys" "cancel_seqs (xs @ ys) = cancel_seqs xs @ cancel_seqs ys"
  by (induction xs rule: read_seqs.induct) simp_all

lemma read_event:
  assumes inv: "mb_inv db" and e: "mb_events pr db (MbRead rid target source run request allowed now after limit) \<noteq> []"
  obtains ns where "mb_events pr db (MbRead rid target source run request allowed now after limit) = [EvRead ns]"
    "distinct ns"
    "\<And>n. n \<in> set ns \<Longrightarrow> \<not> settled n db"
    "\<And>n. n \<in> set ns \<Longrightarrow> settled n (mb_next pr db (MbRead rid target source run request allowed now after limit))"
proof -
  let ?op = "MbRead rid target source run request allowed now after limit"
  obtain db' rr where rr: "read_sender pr rid db target source run request allowed now after limit = (db', rr)" by fastforce
  with e obtain res where res: "rr = Inr res" "\<not> replayed res"
    by (auto simp: mb_events_def split: sum.splits if_splits)
  let ?ns = "map (\<lambda>x. mailbox_seq (fst x)) (result_messages res)"
  have next_db: "mb_next pr db ?op = db'" by (simp add: mb_next_def rr res atomically_def)
  from fresh_read_cases [OF inv rr [unfolded res(1)] res(2)] obtain clause batch n page
    where fr: "fresh_read pr db target source request allowed now after limit db' res clause batch n page" by blast
  have sc: "scope pr target (Some source) allowed = Inr clause"
    using fr unfolding fresh_read_def by (elim conjE)
  have msgs: "result_messages res = map (with_read (Some (batch_id batch, now)))
       (take n (filter (unread_in clause after (result_snapshot res)) (joined db)))"
    using fr unfolding fresh_read_def by (elim conjE)
  have rows': "messages db' = map (mark_read (batch_id batch) now (map (\<lambda>x. message_id (fst x)) (result_messages res))) (messages db)"
    using fr unfolding fresh_read_def by (elim conjE)
  let ?xs = "take n (filter (unread_in clause after (result_snapshot res)) (joined db))"
  have ok: "rows_ok db" using inv by (simp add: mb_inv_def)
  have ns: "?ns = map (\<lambda>x. mailbox_seq (fst x)) ?xs" by (simp add: msgs with_read_frame comp_def)
  have mem: "x \<in> set (joined db) \<and> valid_entry x \<and> row_read_at (fst x) = None" if "x \<in> set ?xs" for x
  proof -
    from that have "x \<in> set (filter (unread_in clause after (result_snapshot res)) (joined db))" by (rule in_set_takeD)
    then show ?thesis using scope_props(1) [OF sc] by (simp add: unread_in_def)
  qed
  have "sorted_wrt (<) (map (\<lambda>x. mailbox_seq (fst x)) ?xs)"
    using joined_sorted [OF ok] by (simp add: sorted_wrt_map sorted_wrt_filter sorted_wrt_take)
  then have "distinct ?ns" unfolding ns by (simp add: strict_sorted_iff)
  moreover have "\<not> settled k db" if "k \<in> set ?ns" for k
  proof -
    from that obtain x where x: "x \<in> set ?xs" "k = mailbox_seq (fst x)" unfolding ns by auto
    with mem [OF x(1)] have "excluded_at (fst x) = None" by (cases x) simp
    moreover have "fst x \<in> set (messages db)" using mem [OF x(1)] joined_fst by blast
    ultimately show ?thesis using mem [OF x(1)] x(2) by (auto simp: settled_def)
  qed
  moreover have "settled k db'" if "k \<in> set ?ns" for k
  proof -
    from that obtain x where x: "x \<in> set ?xs" "k = mailbox_seq (fst x)" unfolding ns by auto
    then have row: "fst x \<in> set (messages db)" using mem joined_fst by blast
    have id: "message_id (fst x) \<in> set (map (\<lambda>x. message_id (fst x)) (result_messages res))"
      using x(1) by (auto simp: msgs with_read_frame)
    have "row_read_at m' \<noteq> None" if m': "m' \<in> set (messages db')" "mailbox_seq m' = k" for m'
    proof -
      obtain m where m: "m \<in> set (messages db)" "m' = mark_read (batch_id batch) now (map (\<lambda>x. message_id (fst x)) (result_messages res)) m"
        using m'(1) rows' by auto
      then have "mailbox_seq m = mailbox_seq (fst x)" using m'(2) x(2) by (simp add: mark_read_def split: if_splits)
      then have "m = fst x" using ok m(1) row by (auto simp: rows_ok_def strict_sorted_iff distinct_map inj_on_def)
      then show ?thesis using m(2) id by (simp add: mark_read_def)
    qed
    moreover have "k \<le> last_seq db" using row x(2) ok by (simp add: rows_ok_def)
    moreover have "last_seq db \<le> last_seq db'"
      using mb_next_ok [OF inv, of pr ?op] by (simp add: next_db step_ok_def rows_move_def)
    ultimately show ?thesis by (force simp: settled_def)
  qed
  moreover have "mb_events pr db ?op = [EvRead ?ns]" by (simp add: mb_events_def rr res)
  ultimately show thesis using that next_db by metis
qed

lemma cancel_event:
  assumes inv: "mb_inv db" and e: "mb_events pr db (MbCancel mid now) \<noteq> []"
  obtains n where "mb_events pr db (MbCancel mid now) = [EvCancel n]" "\<not> settled n db"
    "settled n (mb_next pr db (MbCancel mid now))"
proof -
  obtain db' rr where rr: "cancel_message pr db mid now = (db', rr)" by fastforce
  with e have res: "rr = Inr True"
    by (auto simp: mb_events_def split: sum.splits if_splits bool.splits)
  from rr [unfolded res] obtain m e where m: "m \<in> set (messages db)" "message_id m = mid" "excluded_at m = None" "row_read_at m = None"
    and db': "messages db' = messages (fst (update_rows (\<lambda>m. message_id m = mid) (set_excluded now (lit ''cancelled'')) db))"
      "last_seq db' = last_seq db"
    by (rule cancel_message_cases) blast
  have ok: "rows_ok db" using inv by (simp add: mb_inv_def)
  have "filter (\<lambda>k. message_id k = mid) (messages db) = [m]"
    using filter_distinct [of message_id "messages db" m] ok m by (simp add: rows_ok_def)
  then have "mb_events pr db (MbCancel mid now) = [EvCancel (mailbox_seq m)]"
    by (simp add: mb_events_def rr res)
  moreover have "\<not> settled (mailbox_seq m) db" using m by (auto simp: settled_def)
  moreover have "settled (mailbox_seq m) db'"
  proof -
    have "excluded_at k' \<noteq> None" if k': "k' \<in> set (messages db')" "mailbox_seq k' = mailbox_seq m" for k'
    proof -
      obtain k where k: "k \<in> set (messages db)" "k' = (if message_id k = mid then set_excluded now (lit ''cancelled'') k else k)"
        using k'(1) by (auto simp: db' update_rows_def)
      then have "mailbox_seq k = mailbox_seq m" using k'(2) by (simp add: set_excluded_def split: if_splits)
      then have "k = m" using ok k(1) m(1) by (auto simp: rows_ok_def strict_sorted_iff distinct_map inj_on_def)
      then show ?thesis using k(2) m(2) by (simp add: set_excluded_def)
    qed
    then show ?thesis using ok m(1) by (auto simp: settled_def db'(2) rows_ok_def)
  qed
  moreover have "mb_next pr db (MbCancel mid now) = db'" by (simp add: mb_next_def rr res atomically_def)
  ultimately show thesis using that by metis
qed

lemma step_settles:
  assumes inv: "mb_inv db"
  shows "distinct (read_seqs (mb_events pr db op) @ cancel_seqs (mb_events pr db op))
    \<and> (\<forall>n \<in> set (read_seqs (mb_events pr db op) @ cancel_seqs (mb_events pr db op)).
         \<not> settled n db \<and> settled n (mb_next pr db op))"
proof (cases "mb_events pr db op = []")
  case False
  show ?thesis
  proof (cases op)
    case (MbRead rid target source run request allowed now after limit)
    with False read_event [OF inv] show ?thesis by (metis append_Nil2 cancel_seqs.simps(1,3) read_seqs.simps(1,2))
  next
    case (MbCancel mid now)
    with False obtain n where "mb_events pr db op = [EvCancel n]" "\<not> settled n db" "settled n (mb_next pr db op)"
      using cancel_event [OF inv] by metis
    then show ?thesis by simp
  qed (auto simp: mb_events_def split: sum.splits option.splits bool.splits)
qed simp

lemma settled_trace:
  "mb_inv db \<Longrightarrow> settled n db \<Longrightarrow> n \<notin> set (read_seqs (mb_trace pr db ops)) \<and> n \<notin> set (cancel_seqs (mb_trace pr db ops))"
proof (induction ops arbitrary: db)
  case (Cons op ops)
  have "settled n (mb_next pr db op)"
    using mb_next_ok [OF Cons.prems(1), of pr op] settled_rows_move [OF _ Cons.prems(2)] by (simp add: step_ok_def)
  from Cons.IH [OF mb_next_inv [OF Cons.prems(1)] this] step_settles [OF Cons.prems(1), of pr op] Cons.prems(2)
  show ?case by (auto simp: seqs_append)
qed simp

lemma trace_once: "mb_inv db \<Longrightarrow> distinct (read_seqs (mb_trace pr db ops) @ cancel_seqs (mb_trace pr db ops))"
proof (induction ops arbitrary: db)
  case (Cons op ops)
  have inv: "mb_inv (mb_next pr db op)" by (rule mb_next_inv [OF Cons.prems])
  have "n \<notin> set (read_seqs (mb_trace pr (mb_next pr db op) ops)) \<and> n \<notin> set (cancel_seqs (mb_trace pr (mb_next pr db op) ops))"
    if "n \<in> set (read_seqs (mb_events pr db op) @ cancel_seqs (mb_events pr db op))" for n
    using settled_trace [OF inv] step_settles [OF Cons.prems, of pr op] that by blast
  with Cons.IH [OF inv] step_settles [OF Cons.prems, of pr op] show ?case
    by (auto simp: seqs_append)
qed simp

text \<open>C8. Over any sequence of committed mailbox calls and any changes of the envelope ledger, every
  message is newly read at most once, cancelled at most once, and never both: a completed read wins
  against a later cancellation, a cancellation against every later read.\<close>

theorem mailbox_read_or_cancelled_once:
  "distinct (read_seqs (mb_trace pr (initialize envs) ops) @ cancel_seqs (mb_trace pr (initialize envs) ops))"
  by (rule trace_once [OF initialize_inv])

section \<open>Snapshots and retries\<close>

lemma in_take_filter: "x \<in> set (take n (filter P xs)) \<Longrightarrow> x \<in> set xs \<and> P x"
  by (auto dest: in_set_takeD)

text \<open>C10. A read that is not a retry returns, in mailbox order, a prefix of the messages that are unread,
  still valid, from this sender to this chat, over a currently allowed pair, after the cursor and
  within the snapshot; it marks exactly those as read and leaves every other row alone. \<open>has_more\<close> says
  whether some of them are left, and nothing it reads is unavailable.\<close>

theorem read_sender_first_page:
  assumes "db = mb_run pr (initialize envs) ops"
    and "read_sender pr rid db target source run request allowed now after limit = (db', Inr res)"
    and "\<not> replayed res"
  shows "\<exists>n rows.
      rows = filter (\<lambda>x. valid_entry x \<and> row_target (fst x) = target \<and> row_source (fst x) = source
          \<and> row_pair (fst x) \<in> set allowed \<and> row_read_at (fst x) = None
          \<and> after < mailbox_seq (fst x) \<and> mailbox_seq (fst x) \<le> result_snapshot res) (joined db)
    \<and> result_messages res = map (with_read (Some (result_read_id res, now))) (take n rows)
    \<and> (result_more res \<longleftrightarrow> n < length rows) \<and> unavailable_count res = 0
    \<and> messages db' = map (mark_read (result_read_id res) now (map (\<lambda>x. message_id (fst x)) (take n rows))) (messages db)"
proof -
  have inv: "mb_inv db" unfolding assms(1) by (rule mb_run_inv [OF initialize_inv])
  from fresh_read_cases [OF inv assms(2,3)] obtain clause batch n page
    where fr: "fresh_read pr db target source request allowed now after limit db' res clause batch n page" by blast
  have sc: "scope pr target (Some source) allowed = Inr clause" and ne: "source \<noteq> []" and rid: "result_read_id res = batch_id batch"
    using fr unfolding fresh_read_def by auto
  have msgs: "result_messages res = map (with_read (Some (result_read_id res, now)))
       (take n (filter (unread_in clause after (result_snapshot res)) (joined db)))"
    using fr unfolding fresh_read_def rid by (elim conjE)
  have rows': "messages db' = map (mark_read (result_read_id res) now (map (\<lambda>x. message_id (fst x)) (result_messages res))) (messages db)"
    using fr unfolding fresh_read_def rid by (elim conjE)
  have rest: "result_more res \<longleftrightarrow> n < length (filter (unread_in clause after (result_snapshot res)) (joined db))"
    "unavailable_count res = 0"
    using fr unfolding fresh_read_def by - (elim conjE, assumption)+
  let ?rows = "filter (\<lambda>x. valid_entry x \<and> row_target (fst x) = target \<and> row_source (fst x) = source
          \<and> row_pair (fst x) \<in> set allowed \<and> row_read_at (fst x) = None
          \<and> after < mailbox_seq (fst x) \<and> mailbox_seq (fst x) \<le> result_snapshot res) (joined db)"
  have "unread_in clause after (result_snapshot res) = (\<lambda>x. valid_entry x \<and> row_target (fst x) = target \<and> row_source (fst x) = source
          \<and> row_pair (fst x) \<in> set allowed \<and> row_read_at (fst x) = None
          \<and> after < mailbox_seq (fst x) \<and> mailbox_seq (fst x) \<le> result_snapshot res)"
    unfolding scope_Inr [OF sc] using ne by (auto simp: unread_in_def fun_eq_iff)
  then have F: "filter (unread_in clause after (result_snapshot res)) (joined db) = ?rows" by simp
  have ids: "map (\<lambda>x. message_id (fst x)) (result_messages res) = map (\<lambda>x. message_id (fst x)) (take n ?rows)"
    unfolding msgs F by (simp add: with_read_frame comp_def)
  show ?thesis
    by (rule exI [of _ n], rule exI [of _ ?rows], intro conjI)
       (rule refl, rule msgs [unfolded F], rule rest(1) [unfolded F], rule rest(2), rule rows' [unfolded ids])
qed

lemma find_page_stable: "tables_move db db' \<Longrightarrow> find_page db rid after = Some page \<Longrightarrow> find_page db' rid after = Some page"
  by (auto simp: tables_move_def find_page_def find_append)

lemma mb_run_tables:
  "mb_inv db \<Longrightarrow> tables_move db (mb_run pr db ops)"
proof (induction ops arbitrary: db)
  case (Cons op ops)
  have "tables_move db (mb_next pr db op)" using mb_next_ok [OF Cons.prems] by (simp add: step_ok_def)
  moreover have "tables_move (mb_next pr db op) (mb_run pr (mb_next pr db op) ops)"
    by (rule Cons.IH [OF mb_next_inv [OF Cons.prems]])
  ultimately show ?case unfolding tables_move_def by (metis append.assoc mb_run.simps(2) order_trans)
qed simp

text \<open>Retrying a read request, after any other calls, from any run and at any later time, changes
  nothing and replays its original page: the same read id, snapshot, cursor and \<open>has_more\<close>, and only
  messages of the original response (fewer when some became unavailable, which is counted).\<close>

lemma read_sender_replay:
  assumes "db = mb_run pr (initialize envs) ops"
    and "read_sender pr rid db target source run request allowed now after limit = (db1, Inr res)" "\<not> replayed res"
    and "db2 = mb_run pr db1 ops'"
    and "read_sender pr rid' db2 target source run' request allowed' now' after limit = (db3, Inr res')"
  shows "db3 = db2 \<and> replayed res' \<and> result_read_id res' = result_read_id res
    \<and> result_snapshot res' = result_snapshot res \<and> result_next res' = result_next res
    \<and> result_more res' = result_more res
    \<and> (\<lambda>x. message_id (fst x)) ` set (result_messages res') \<subseteq> (\<lambda>x. message_id (fst x)) ` set (result_messages res)
    \<and> unavailable_count res' = int (length (result_messages res)) - int (length (result_messages res'))"
proof -
  have inv: "mb_inv db" unfolding assms(1) by (rule mb_run_inv [OF initialize_inv])
  have "step_ok db (atomically db (read_sender pr rid db target source run request allowed now after limit))"
    by (rule read_sender_ok [OF inv])
  then have inv1: "mb_inv db1" using inv by (simp add: assms(2) atomically_def step_ok_def)
  have inv2: "mb_inv db2" unfolding assms(4) by (rule mb_run_inv [OF inv1])
  from fresh_read_cases [OF inv assms(2,3)] obtain clause batch n page
    where fr: "fresh_read pr db target source request allowed now after limit db1 res clause batch n page" by blast
  have b: "batch \<in> set (reads db1)" "batch_target batch = target" "batch_request batch = request"
    "result_read_id res = batch_id batch" "snapshot_seq batch = result_snapshot res"
    and p: "find_page db1 (batch_id batch) after = Some page" "page_more page = result_more res"
    "result_next res = (if page_more page then Some (page_end page) else None)"
    and ids: "page_ids page = map (\<lambda>x. message_id (fst x)) (result_messages res)"
    using fr unfolding fresh_read_def by - (elim conjE, assumption)+
  have tm: "tables_move db1 db2" unfolding assms(4) by (rule mb_run_tables [OF inv1])
  have "batch \<in> set (reads db2)" using tm b(1) by (auto simp: tables_move_def)
  then have fb: "find_batches db2 target request = [batch]"
    using inv2 b(2,3) by (intro find_batches_unique) (simp_all add: mb_inv_def)
  have fp: "find_page db2 (batch_id batch) after = Some page" by (rule find_page_stable [OF tm p(1)])
  obtain clause' where fin: "db3 = db2" "finish_read db2 clause' batch page limit True = Inr res'"
    and sc': "scope pr target (Some source) allowed' = Inr clause'"
  proof (rule read_sender_cases [OF assms(5)])
    fix clause' db1' batch' page'
    assume "scope pr target (Some source) allowed' = Inr clause'"
      and ob: "open_batch db2 target source run' request now' after limit rid' = (db1', Inr batch')"
      and c: "(find_page db1' (batch_id batch') after = Some page' \<and> db3 = db1' \<and> finish_read db1' clause' batch' page' limit True = Inr res')
         \<or> (find_page db1' (batch_id batch') after = None \<and> new_page db1' clause' batch' now' after limit = (db3, Inr page')
            \<and> finish_read db3 clause' batch' page' limit False = Inr res')"
    moreover from ob have "batch' = batch" "db1' = db2" using fb by (auto simp: open_batch_def)
    ultimately show thesis using that [of clause'] fp by auto
  qed
  have res': "replayed res'" "result_read_id res' = batch_id batch" "result_snapshot res' = snapshot_seq batch"
    "result_next res' = (if page_more page then Some (page_end page) else None)" "result_more res' = page_more page"
    "unavailable_count res' = int (length (page_ids page)) - int (length (result_messages res'))"
    using fin(2) by (auto simp: finish_read_def ebind_Inr_iff split: if_splits)
  have "(\<lambda>x. message_id (fst x)) ` set (result_messages res') \<subseteq> set (page_ids page)"
  proof (cases "page_ids page = []")
    case True
    then show ?thesis using fin(2) by (auto simp: finish_read_def)
  next
    case False
    then obtain out rest where q: "page_query db2 (\<lambda>x. clause' x \<and> message_id (fst x) \<in> set (page_ids page)) limit None = Inr (out, rest)"
      "result_messages res' = out"
      using fin(2) by (auto simp: finish_read_def ebind_Inr_iff split: if_splits)
    from page_query_spec [OF q(1)] obtain k where
      "page_spec None (nat limit) [] 8192 (selected db2 (\<lambda>x. clause' x \<and> message_id (fst x) \<in> set (page_ids page))) out rest k" ..
    then have "out = take k (selected db2 (\<lambda>x. clause' x \<and> message_id (fst x) \<in> set (page_ids page)))"
      unfolding page_spec_def append_Nil with_read_None by (elim conjE)
    then have "set out \<subseteq> set (selected db2 (\<lambda>x. clause' x \<and> message_id (fst x) \<in> set (page_ids page)))"
      by (simp add: set_take_subset)
    then show ?thesis using q(2) by (auto simp: selected_def)
  qed
  then show ?thesis
    using fin(1) res' b(4,5) p(2,3) by (simp add: ids)
qed

section \<open>Wakes\<close>

fun cutoffs :: "pystr \<Rightarrow> mb_event list \<Rightarrow> (bool \<times> int) list" where
  "cutoffs t [] = []"
| "cutoffs t (EvAdmit t' n # es) = (if t' = t then (True, n) # cutoffs t es else cutoffs t es)"
| "cutoffs t (EvSuppress t' n # es) = (if t' = t then (False, n) # cutoffs t es else cutoffs t es)"
| "cutoffs t (_ # es) = cutoffs t es"

text \<open>An admitted cutoff lies above the earlier one.\<close>

definition above_if_admitted :: "bool \<times> int \<Rightarrow> bool \<times> int \<Rightarrow> bool" where
  "above_if_admitted x y = (if fst y then snd x < snd y else True)"

lemma cutoffs_append: "cutoffs t (xs @ ys) = cutoffs t xs @ cutoffs t ys"
  by (induction xs rule: cutoffs.induct) simp_all

lemma cutoffs_cancel [simp]: "cutoffs t (map (\<lambda>m. EvCancel (f m)) ms) = []"
  by (induction ms) simp_all

lemma get_set_wake: "get_wake (set_wake db t w) t' = (if t' = t then Some w else get_wake db t')"
  by (simp add: get_wake_def set_wake_def update_conv')

lemma step_cutoffs:
  assumes "mb_inv db"
  shows "cutoffs t (mb_events pr db op) = []
    \<or> (\<exists>n. cutoffs t (mb_events pr db op) = [(True, n)] \<and> wake_level db t < n \<and> n \<le> wake_level (mb_next pr db op) t)
    \<or> (\<exists>n. cutoffs t (mb_events pr db op) = [(False, n)] \<and> n \<le> wake_level (mb_next pr db op) t)"
proof (cases op)
  case (MbAdmit target cid run allowed now)
  obtain db' rr where a: "admit_wake pr db target cid run allowed now = (db', rr)" by fastforce
  show ?thesis
  proof (cases "rr = Inr True")
    case True
    with a have "admit_wake pr db target cid run allowed now = (db', Inr True)" by simp
    then show ?thesis
      by (rule admit_wake_cases)
         (auto simp: MbAdmit mb_events_def mb_next_def a True atomically_def wake_level_def get_set_wake wake_cutoff_def)
  next
    case False
    then show ?thesis by (auto simp: MbAdmit mb_events_def a split: sum.splits bool.splits)
  qed
next
  case (MbSuppress target now)
  obtain db' rr where a: "suppress_wake pr db target now = (db', rr)" by fastforce
  show ?thesis
  proof (cases rr)
    case (Inr n)
    with a have "suppress_wake pr db target now = (db', Inr n)" by simp
    then show ?thesis
      by (rule suppress_wake_cases)
         (auto simp: MbSuppress mb_events_def mb_next_def a Inr atomically_def wake_level_def get_set_wake wake_cutoff_def)
  qed (simp add: MbSuppress mb_events_def a)
qed (auto simp: mb_events_def split: sum.splits bool.splits)

lemma trace_cutoffs:
  assumes "mb_inv db"
  shows "(\<forall>(admitted, n) \<in> set (cutoffs t (mb_trace pr db ops)). admitted \<longrightarrow> wake_level db t < n)
    \<and> sorted_wrt above_if_admitted (cutoffs t (mb_trace pr db ops))"
  using assms
proof (induction ops arbitrary: db)
  case (Cons op ops)
  let ?db = "mb_next pr db op"
  note IH = Cons.IH [OF mb_next_inv [OF Cons.prems]]
  have "wake_level db t \<le> wake_level ?db t"
    using mb_next_ok [OF Cons.prems, of pr op] by (simp add: step_ok_def tables_move_def)
  then show ?case
    using IH [of pr op] step_cutoffs [OF Cons.prems, of t pr op]
    by (fastforce simp: cutoffs_append above_if_admitted_def)
qed simp

text \<open>C9. For one chat, every admitted wake covers a strictly higher mailbox cutoff than every wake
  admitted before it and than everything suppressed before it: repeated admissions, recoveries,
  releases and re-claims never launch twice for the same mail.\<close>

theorem wake_admissions_increase:
  "sorted_wrt above_if_admitted (cutoffs t (mb_trace pr (initialize envs) ops))"
  using trace_cutoffs [OF initialize_inv] by blast

section \<open>Stored messages fit\<close>

text \<open>Characters that \<open>json.dumps\<close> writes as themselves, one byte each.\<close>

definition plain :: "pystr \<Rightarrow> bool" where
  "plain s \<longleftrightarrow> list_all (\<lambda>c. 32 \<le> c \<and> c < 127 \<and> c \<noteq> 34 \<and> c \<noteq> 92) s"

lemma plain_dumps: "plain s \<Longrightarrow> dumps_str False s = 34 # s @ [34]"
proof -
  have "plain s \<Longrightarrow> concat (map (escape_char False) s) = s"
    by (induction s) (auto simp: plain_def escape_char_def)
  then show "plain s \<Longrightarrow> ?thesis" by (simp add: dumps_str_def)
qed

lemma plain_size: "plain s \<Longrightarrow> \<not> list_ex is_surrogate s \<and> sum_list (map utf8_width s) = length s"
  by (induction s) (auto simp: plain_def is_surrogate_def utf8_width_def)

lemma plain_replicate: "plain (replicate n 120)"
  by (simp add: plain_def list_all_iff)

text \<open>Where the two read fields stand in the encoded message.\<close>

lemma message_dict_split:
  "\<exists>d1 d2. d1 \<noteq> [] \<and> d2 \<noteq> [] \<and> (\<forall>rid t. message_dict (with_read (Some (rid, t)) x)
     = d1 @ [(lit ''read_id'', JStr rid), (lit ''read_at'', JStr t)] @ d2)"
proof -
  obtain m e where x: "x = (m, e)" by fastforce
  define d1 where "d1 = [(lit ''message_id'', JStr (message_id m)), (lit ''mailbox_seq'', JInt (mailbox_seq m)),
      (lit ''source_session_id'', JStr (row_source m)), (lit ''target_session_id'', JStr (row_target m)),
      (lit ''conversation_id'', JStr (row_pair m)),
      (lit ''body'', JStr (if edited e then the (target_body e) else env_body e)),
      (lit ''created_at'', JStr (env_created_at e)), (lit ''stored_at'', JStr (stored_at m)),
      (lit ''in_reply_to_message_id'', opt_json (in_reply_to m))]"
  have "message_dict (with_read (Some (rid, t)) x)
      = d1 @ [(lit ''read_id'', JStr rid), (lit ''read_at'', JStr t)] @ drop 11 (message_dict x)" for rid t
    by (simp add: x message_dict_def with_read_def d1_def opt_json_def)
  moreover have "d1 \<noteq> []" "drop 11 (message_dict x) \<noteq> []" by (simp_all add: d1_def x message_dict_def)
  ultimately show ?thesis by blast
qed

lemma message_json_split:
  "\<exists>pre mid post. \<forall>rid t. dumps (compact_opts False (\<lambda>_. [])) (JObj (message_dict (with_read (Some (rid, t)) x)))
     = pre @ dumps_str False rid @ mid @ dumps_str False t @ post"
proof -
  obtain d1 d2 where d: "d1 \<noteq> []" "d2 \<noteq> []" "\<And>rid t. message_dict (with_read (Some (rid, t)) x)
     = d1 @ [(lit ''read_id'', JStr rid), (lit ''read_at'', JStr t)] @ d2"
    using message_dict_split [of x] by blast
  let ?o = "compact_opts False (\<lambda>_. [])"
  let ?f = "\<lambda>kv. dumps_str False (fst kv) @ [58] @ dumps ?o (snd kv)"
  have "dumps ?o (JObj (message_dict (with_read (Some (rid, t)) x)))
      = ([123] @ join [44] (map ?f d1) @ [44] @ dumps_str False (lit ''read_id'') @ [58]) @ dumps_str False rid
        @ ([44] @ dumps_str False (lit ''read_at'') @ [58]) @ dumps_str False t
        @ ([44] @ join [44] (map ?f d2) @ [125])" for rid t
    using d(1,2) join_append [of "map ?f d1" "map ?f [(lit ''read_id'', JStr rid), (lit ''read_at'', JStr t)] @ map ?f d2" "[44]"]
      join_append [of "map ?f [(lit ''read_id'', JStr rid), (lit ''read_at'', JStr t)]" "map ?f d2" "[44]"]
    by (simp add: d(3) compact_opts_def)
  then show ?thesis by blast
qed

lemma message_size_mono:
  assumes "message_size (with_read (Some (replicate a 120, replicate b 120)) x) = Some big"
    and "plain rid" "length rid \<le> a" "plain t" "length t \<le> b"
  shows "\<exists>sz. message_size (with_read (Some (rid, t)) x) = Some sz \<and> sz \<le> big"
proof -
  obtain pre mid post where j: "\<And>rid t. dumps (compact_opts False (\<lambda>_. [])) (JObj (message_dict (with_read (Some (rid, t)) x)))
     = pre @ dumps_str False rid @ mid @ dumps_str False t @ post"
    using message_json_split [of x] by blast
  have quote: "\<not> is_surrogate 34" "utf8_width 34 = 1" by (simp_all add: is_surrogate_def utf8_width_def)
  note sizes = plain_dumps [OF assms(2)] plain_dumps [OF assms(4)] plain_dumps [OF plain_replicate]
    plain_size [OF assms(2)] plain_size [OF assms(4)] plain_size [OF plain_replicate, simplified] quote
  show ?thesis
    using assms(1,3,5) unfolding message_size_def j by (auto simp: utf8_size_def sizes split: if_splits)
qed

text \<open>A message that \<open>store_message\<close> accepts fits every later bounded read as long as its envelope
  is unchanged: with any read id of at most 240 and any timestamp of at most 64 plain characters its
  JSON is valid UTF-8 and, with the reserve, within \<open>MAX_PAGE_BYTES\<close>.\<close>

lemma store_message_fits:
  assumes "store_message pr gap db mid now reply = (db', Inr x)"
    and "plain rid" "length rid \<le> 240" "plain t" "length t \<le> 64"
  shows "\<exists>sz. message_size (with_read (Some (rid, t)) x) = Some sz \<and> 8192 + sz \<le> MAX_PAGE_BYTES"
proof -
  obtain big where big: "message_size (with_read (Some (replicate 240 120, replicate 64 120)) x) = Some big"
    "\<not> MAX_PAGE_BYTES < big + 8192"
    using assms(1) unfolding store_message_def Let_def
    by (simp split: sum.splits) (auto split: option.splits if_splits)
  from message_size_mono [OF big(1) assms(2-5)] big(2) show ?thesis by auto
qed

section \<open>Concrete runs\<close>

definition example_pair :: pystr where
  "example_pair = lit ''pair_0123456789abcdef0123456789abcdef''"

definition example_envelope :: envelope where
  "example_envelope = \<lparr>env_id = lit ''m1'', env_kind = lit ''instruction'', env_source = lit ''a'', env_source_run = lit ''run'',
     env_target = lit ''b'', env_body = lit ''hi'', source_user_instruction = [], source_user_delegation_action = [],
     authorization_kind = lit ''configured_route'', authorization_pair_id = example_pair, env_status = lit ''stored'',
     delivery_mode = lit ''mailbox'', target_run_id = None, reply_to_message_id = None, target_body = None,
     message_revision = 0, lifecycle_status = [], env_created_at = lit ''t0'', env_updated_at = lit ''t0''\<rparr>"

definition example_row :: mail_row where
  "example_row = \<lparr>mailbox_seq = 1, message_id = lit ''m1'', row_source = lit ''a'', row_target = lit ''b'',
     row_pair = example_pair, stored_at = lit ''t1'', in_reply_to = None, row_read_id = None, row_read_at = None,
     excluded_at = None, excluded_reason = None, read_event_published = False\<rparr>"

definition example_db :: mail_db where
  "example_db = (initialize [example_envelope])\<lparr>messages := [example_row], last_seq := 1\<rparr>"

definition example_read :: "mail_db \<Rightarrow> mail_db \<times> (mb_error + read_result)" where
  "example_read db = read_sender (\<lambda>_. True) (lit ''r1'') db (lit ''b'') (lit ''a'') (lit ''run2'') (lit ''q'') [example_pair] (lit ''t3'') 0 1"

lemmas size_eval = message_size_def message_dict_def compact_opts_def opt_json_def edited_def attested_def
  utf8_size_def is_surrogate_def utf8_width_def dumps_str_def escape_char_def lit_def dec_int_def dec_nat.simps
  strip_def lstrip_def rstrip_def with_read_def

lemma example_sizes:
  "message_size (example_row, example_envelope) = Some 329"
  "message_size (example_row\<lparr>row_read_id := Some (lit ''r1''), row_read_at := Some (lit ''t3'')\<rparr>, example_envelope) = Some 329"
  by (simp_all add: size_eval example_row_def example_envelope_def example_pair_def)

lemma replicate_json: "concat (map (escape_char False) (replicate n 120)) = replicate n 120"
  by (induction n) (simp_all add: escape_char_def)

lemma list_ex_replicate: "list_ex P (replicate n x) \<longleftrightarrow> n \<noteq> 0 \<and> P x"
  by (induction n) auto

lemma example_projected_size:
  "message_size (example_row\<lparr>row_read_id := Some (replicate 240 120), row_read_at := Some (replicate 64 120)\<rparr>, example_envelope) = Some 629"
proof -
  have "dumps_str False (replicate n 120) = 34 # replicate n 120 @ [34]" for n
    unfolding dumps_str_def replicate_json by simp
  then show ?thesis
    by (simp add: message_size_def message_dict_def compact_opts_def opt_json_def edited_def attested_def strip_def lstrip_def
        rstrip_def example_row_def example_envelope_def)
      (simp add: size_eval example_pair_def list_ex_replicate sum_list_replicate)
qed

lemma example_pair_valid: "valid_pair example_pair"
  by (simp add: valid_pair_def prefixed_hex32_def example_pair_def lit_def is_hexlow_def is_digit_def)

lemma example_store:
  "store_message (\<lambda>_. True) 0 (initialize [example_envelope]) (lit ''m1'') (lit ''t1'') None
      = (example_db, Inr (example_row, example_envelope))"
  using example_projected_size example_pair_valid
  by (simp add: store_message_def initialize_def transaction_check_def mb_identifier_def find_envelope_def example_envelope_def
      storable_def insert_or_ignore_def alloc_seq_def Let_def example_db_def example_row_def with_read_def MAX_PAGE_BYTES_def
      list_all_iff)

lemma example_db_reachable:
  "example_db = mb_run (\<lambda>_. True) (initialize [example_envelope]) [MbStore 0 (lit ''m1'') (lit ''t1'') None]"
  using example_store by (simp add: mb_next_def atomically_def)

definition example_read_row :: mail_row where
  "example_read_row = example_row\<lparr>row_read_id := Some (lit ''r1''), row_read_at := Some (lit ''t3'')\<rparr>"

definition example_result :: "bool \<Rightarrow> read_result" where
  "example_result again = \<lparr>result_read_id = lit ''r1'', result_snapshot = 1, result_messages = [(example_read_row, example_envelope)],
     result_next = None, result_more = False, unavailable_count = 0, replayed = again\<rparr>"

lemma example_read_eval:
  "\<exists>db'. example_read example_db = (db', Inr (example_result False))
     \<and> snd (example_read db') = Inr (example_result True)"
proof -
  let ?batch = "\<lparr>batch_id = lit ''r1'', batch_target = lit ''b'', batch_source = lit ''a'', batch_run = lit ''run2'',
     batch_request = lit ''q'', snapshot_seq = 1, page_limit = 1, batch_created = lit ''t3''\<rparr>"
  let ?page = "\<lparr>page_read_id = lit ''r1'', page_after = 0, page_end = 1, page_more = False, page_ids = [lit ''m1'']\<rparr>"
  let ?db = "example_db\<lparr>reads := [?batch], pages := [?page], messages := [example_read_row]\<rparr>"
  have ok: "valid_entry (example_row, example_envelope)" "valid_entry (example_read_row, example_envelope)"
    by (simp_all add: example_read_row_def example_row_def example_envelope_def)
  have J: "joined (example_db\<lparr>reads := r\<rparr>) = [(example_row, example_envelope)]"
    "joined ?db = [(example_read_row, example_envelope)]" for r
    by (simp_all add: joined_def join_row_def find_envelope_def example_db_def example_read_row_def example_row_def
        example_envelope_def initialize_def)
  have f: "message_id example_row = lit ''m1''" "row_target example_row = lit ''b''" "row_source example_row = lit ''a''"
    "row_pair example_row = example_pair" "mailbox_seq example_row = 1" "row_read_at example_row = None"
    "message_id example_read_row = lit ''m1''" "row_target example_read_row = lit ''b''" "row_source example_read_row = lit ''a''"
    "row_pair example_read_row = example_pair" "mailbox_seq example_read_row = 1"
    by (simp_all add: example_read_row_def example_row_def)
  have sizes: "message_size (example_read_row, example_envelope) = Some 329"
    using example_sizes by (simp add: example_read_row_def)
  have d: "in_transaction example_db" "messages example_db = [example_row]" "reads example_db = []" "pages example_db = []"
    by (simp_all add: example_db_def initialize_def)
  note ev = example_read_def read_sender_def transaction_check_def mb_identifier_def list_all_iff cursor_check_def limit_check_def
    MAX_PAGE_ITEMS_def scope_def pairs_check_def example_pair_valid Let_def open_batch_def find_batches_def max_seq_def d f ok
    find_page_def new_page_def finish_read_def page_query_def selected_def J sizes MAX_PAGE_BYTES_def with_read_def
  have 1: "example_read example_db = (?db, Inr (example_result False))"
    by (simp add: ev example_read_row_def [symmetric] mark_read_def del: valid_entry.simps)
       (simp add: example_result_def)
  have 2: "snd (example_read ?db) = Inr (example_result True)"
    by (simp add: ev del: valid_entry.simps) (simp add: example_result_def)
  from 1 2 show ?thesis by blast
qed

theorem read_sender_first_page_witness:
  "\<exists>db' n. example_read example_db = (db', Inr (example_result False))
     \<and> messages db' = map (mark_read (lit ''r1'') (lit ''t3'') (map (\<lambda>x. message_id (fst x))
         (take n (filter (\<lambda>x. valid_entry x \<and> row_target (fst x) = lit ''b'' \<and> row_source (fst x) = lit ''a''
            \<and> row_pair (fst x) \<in> set [example_pair] \<and> row_read_at (fst x) = None
            \<and> 0 < mailbox_seq (fst x) \<and> mailbox_seq (fst x) \<le> 1) (joined example_db))))) (messages example_db)"
proof -
  obtain db' where e: "example_read example_db = (db', Inr (example_result False))" using example_read_eval by blast
  have "\<not> replayed (example_result False)" by (simp add: example_result_def)
  from read_sender_first_page [OF example_db_reachable e [unfolded example_read_def] this] e
  show ?thesis by (auto simp: example_result_def)
qed

lemma read_sender_replay_witness:
  "\<exists>db' db3. example_read example_db = (db', Inr (example_result False))
     \<and> example_read db' = (db3, Inr (example_result True)) \<and> db3 = db'"
proof -
  obtain db' where e: "example_read example_db = (db', Inr (example_result False))"
    and e2: "snd (example_read db') = Inr (example_result True)" using example_read_eval by blast
  obtain db3 where e3: "example_read db' = (db3, Inr (example_result True))" using e2 by (metis prod.collapse)
  have "\<not> replayed (example_result False)" by (simp add: example_result_def)
  from read_sender_replay [OF example_db_reachable e [unfolded example_read_def] this _ e3 [unfolded example_read_def], of "[]"]
  have "db3 = db'" by simp
  with e e3 show ?thesis by blast
qed

end
