(* ===== verification/Mail_Grants.thy ===== *)
theory Mail_Grants
  imports Interfaces
begin

text \<open>
  Durable chat-to-server mail grants: \<open>team_mail_grants.py\<close>. Parsing is total and fails closed to the
  empty list; a grant that is being admitted is staged next to the routes and settled once. Where
  Python can raise (an unhashable \<open>event_type\<close> in a set test, a missing or non-iterable mutation
  field) the result is a sum.
\<close>

section \<open>Parsing\<close>

definition MAX_ROUTES :: nat where
  "MAX_ROUTES = 16"

definition grant_text :: "json \<Rightarrow> nat \<Rightarrow> pystr" where
  "grant_text v limit = (case v of
     JStr s \<Rightarrow> if 0 < length s \<and> length s \<le> limit \<and> \<not> list_ex (\<lambda>c. c < 32) s then s else []
   | _ \<Rightarrow> [])"

definition route_re :: "pystr \<Rightarrow> bool" where
  "route_re s \<longleftrightarrow> prefixed_hex32 ''mailgrant_'' s"

definition revision_re :: "pystr \<Rightarrow> bool" where
  "revision_re s \<longleftrightarrow> prefixed_hex32 ''rev_'' s"

definition admission_re :: "pystr \<Rightarrow> bool" where
  "admission_re s \<longleftrightarrow> prefixed_hex32 ''grant_admission_'' s"

definition binding_keys :: "string list" where
  "binding_keys = [''version'', ''team_id'', ''hub_id'', ''target_id'', ''server_identity'', ''lifecycle_id'']"

definition binding_ok :: "json \<Rightarrow> pystr \<Rightarrow> pystr \<Rightarrow> bool" where
  "binding_ok v team target = (case v of
     JObj b \<Rightarrow> dkeys_eq b binding_keys \<and> dget b ''version'' = JInt 1
       \<and> list_all (\<lambda>k. grant_text (dget b k) 512 \<noteq> [])
           [''team_id'', ''hub_id'', ''target_id'', ''server_identity'', ''lifecycle_id'']
       \<and> dget b ''team_id'' = JStr team \<and> dget b ''target_id'' = JStr target
   | _ \<Rightarrow> False)"

definition route_entry :: "jdict \<Rightarrow> jdict" where
  "route_entry raw =
     [(lit ''route_id'', JStr (grant_text (dget raw ''route_id'') 256)),
      (lit ''revision'', JStr (grant_text (dget raw ''revision'') 256)),
      (lit ''team_id'', JStr (grant_text (dget raw ''team_id'') 256)),
      (lit ''target_id'', JStr (grant_text (dget raw ''target_id'') 256)),
      (lit ''recipient_kind'', js ''server''), (lit ''display_name'', dget raw ''display_name''),
      (lit ''durable_server_binding'', dget raw ''durable_server_binding''),
      (lit ''created_at'', JStr (grant_text (dget raw ''created_at'') 40)),
      (lit ''updated_at'', JStr (grant_text (dget raw ''updated_at'') 40))]"

fun normalize_loop :: "(pystr \<times> pystr) list \<Rightarrow> pystr list \<Rightarrow> jdict list \<Rightarrow> json list \<Rightarrow> jdict list" where
  "normalize_loop seen ids result [] = result"
| "normalize_loop seen ids result (v # vs) = (case v of
     JObj raw \<Rightarrow>
       let route = grant_text (dget raw ''route_id'') 256; revision = grant_text (dget raw ''revision'') 256;
           team = grant_text (dget raw ''team_id'') 256; target = grant_text (dget raw ''target_id'') 256
       in if \<not> route_re route \<or> \<not> revision_re revision \<or> team = [] \<or> target = []
             \<or> (team, target) \<in> set seen \<or> route \<in> set ids
             \<or> dget raw ''recipient_kind'' \<noteq> js ''server''
             \<or> \<not> binding_ok (dget raw ''durable_server_binding'') team target
             \<or> grant_text (dget raw ''display_name'') 256 = []
          then []
          else normalize_loop (seen @ [(team, target)]) (ids @ [route]) (result @ [route_entry raw]) vs
   | _ \<Rightarrow> [])"

definition normalize_routes :: "json \<Rightarrow> jdict list" where
  "normalize_routes v = (case v of
     JArr xs \<Rightarrow> if MAX_ROUTES < length xs then [] else normalize_loop [] [] [] xs
   | _ \<Rightarrow> [])"

definition legacy_key :: "pystr \<Rightarrow> pystr \<Rightarrow> pystr" where
  "legacy_key team target = lit ''legacy:'' @ team @ [0] @ target"

fun snapshot_loop :: "pystr list \<Rightarrow> jdict list \<Rightarrow> json list \<Rightarrow> jdict list" where
  "snapshot_loop seen result [] = result"
| "snapshot_loop seen result (v # vs) = (case v of
     JObj raw \<Rightarrow>
       if dget raw ''kind'' = js ''legacy_reference'' then
         (if \<not> dkeys_eq raw [''kind'', ''team_id'', ''target_id'', ''display_name'']
             \<or> \<not> list_all (\<lambda>k. grant_text (dget raw k) 256 \<noteq> []) [''team_id'', ''target_id'', ''display_name'']
          then []
          else let key = legacy_key (grant_text (dget raw ''team_id'') 256) (grant_text (dget raw ''target_id'') 256)
               in if key \<in> set seen then [] else snapshot_loop (seen @ [key]) (result @ [raw]) vs)
       else let route = grant_text (dget raw ''route_id'') 256; revision = grant_text (dget raw ''revision'') 256
            in if \<not> route_re route \<or> \<not> revision_re revision \<or> route \<in> set seen then []
               else snapshot_loop (seen @ [route])
                      (result @ [[(lit ''route_id'', JStr route), (lit ''revision'', JStr revision)]]) vs
   | _ \<Rightarrow> [])"

definition grant_snapshot :: "json \<Rightarrow> jdict list" where
  "grant_snapshot v = (case v of
     JArr xs \<Rightarrow> if MAX_ROUTES * 2 < length xs then [] else snapshot_loop [] [] xs
   | _ \<Rightarrow> [])"

section \<open>Staged grants\<close>

definition routes_json :: "jdict list \<Rightarrow> json" where
  "routes_json rs = JArr (map JObj rs)"

record staged_grant =
  admission_id :: pystr
  event_type :: pystr
  before_routes :: "jdict list"
  after_routes :: "jdict list"

definition pending_grant :: "json \<Rightarrow> py_exn + staged_grant option" where
  "pending_grant v = (case v of
     JObj d \<Rightarrow>
       let admission = grant_text (dget d ''admission_id'') 256; event = dget d ''event_type''
       in if \<not> admission_re admission then Inr None
          else if \<not> hashable event then Inl TypeError
          else if event \<notin> {js ''turn_started'', js ''turn_queued''} then Inr None
          else let before = normalize_routes (dget d ''before''); after = normalize_routes (dget d ''after'')
               in if \<not> py_eq (routes_json before) (dget d ''before'') \<or> \<not> py_eq (routes_json after) (dget d ''after'')
                     \<or> py_eq (routes_json before) (routes_json after)
                  then Inr None
                  else Inr (Some \<lparr>admission_id = admission,
                         event_type = (case event of JStr e \<Rightarrow> e | _ \<Rightarrow> []),
                         before_routes = before, after_routes = after\<rparr>)
   | _ \<Rightarrow> Inr None)"

abbreviation (input) routes_key :: string where
  "routes_key \<equiv> ''provider_team_mail_routes''"

abbreviation (input) pending_key :: string where
  "pending_key \<equiv> ''_pending_provider_team_mail_grant''"

text \<open>A missing session is the empty dictionary.\<close>

definition session_routes :: "jdict \<Rightarrow> json" where
  "session_routes session = (if dhas session routes_key then dget session routes_key else JArr [])"

definition live_routes :: "jdict \<Rightarrow> py_exn + jdict list" where
  "live_routes session =
     (if truthy (dget session ''archived'') then Inr []
      else let routes = normalize_routes (session_routes session)
      in if dget session pending_key = JNull then Inr routes
         else ebind (pending_grant (dget session pending_key)) (\<lambda>staged. case staged of
                None \<Rightarrow> Inr []
              | Some g \<Rightarrow> Inr (if py_eq (routes_json routes) (routes_json (after_routes g)) then before_routes g else [])))"

definition grant_intersect :: "jdict \<Rightarrow> json \<Rightarrow> py_exn + jdict list" where
  "grant_intersect session bound =
     (let allowed = map (\<lambda>item. (dget item ''route_id'', dget item ''revision''))
            (filter (\<lambda>item. dhas item ''route_id'') (grant_snapshot bound))
      in ebind (live_routes session) (\<lambda>routes.
           Inr (filter (\<lambda>r. (dget r ''route_id'', dget r ''revision'') \<in> set allowed) routes)))"

text \<open>\<open>*value\<close> inside a list display.\<close>

fun unpack :: "json \<Rightarrow> py_exn + json list" where
  "unpack (JArr xs) = Inr xs"
| "unpack (JObj d) = Inr (map (\<lambda>kv. JStr (fst kv)) d)"
| "unpack (JStr s) = Inr (map (\<lambda>c. JStr [c]) s)"
| "unpack _ = Inl TypeError"

definition admission_snapshot :: "jdict \<Rightarrow> jdict \<Rightarrow> py_exn + jdict list" where
  "admission_snapshot mutation session =
     ebind (if mutation = [] then ebind (live_routes session) (\<lambda>rs. Inr (routes_json rs))
            else if dhas mutation ''after'' then Inr (dget mutation ''after'') else Inl KeyError) (\<lambda>routes.
       ebind (unpack (py_or (dget mutation ''legacy_references'') (JArr []))) (\<lambda>legacy.
         Inr (grant_snapshot (JArr (map JObj (grant_snapshot routes) @ legacy)))))"

definition settle :: "jdict \<Rightarrow> pystr \<Rightarrow> bool \<Rightarrow> py_exn + jdict \<times> bool" where
  "settle session admission accepted =
     ebind (pending_grant (dget session pending_key)) (\<lambda>staged. case staged of
       None \<Rightarrow> Inr (session, False)
     | Some g \<Rightarrow>
         if admission_id g \<noteq> admission then Inr (session, False)
         else let session' =
                (if \<not> py_eq (routes_json (normalize_routes (dget session routes_key))) (routes_json (after_routes g))
                 then dset session routes_key (JArr [])
                 else if \<not> accepted then dset session routes_key (routes_json (before_routes g))
                 else session)
              in Inr (dpop session' pending_key, True))"

section \<open>Normal forms\<close>

text \<open>The values a route list may contain: distinct routes and recipients, each bound to its own server.\<close>

definition route_ok :: "jdict \<Rightarrow> bool" where
  "route_ok r \<longleftrightarrow>
     route_re (grant_text (dget r ''route_id'') 256) \<and> revision_re (grant_text (dget r ''revision'') 256)
   \<and> grant_text (dget r ''team_id'') 256 \<noteq> [] \<and> grant_text (dget r ''target_id'') 256 \<noteq> []
   \<and> dget r ''recipient_kind'' = js ''server''
   \<and> binding_ok (dget r ''durable_server_binding'') (grant_text (dget r ''team_id'') 256) (grant_text (dget r ''target_id'') 256)
   \<and> grant_text (dget r ''display_name'') 256 \<noteq> []"

definition route_key :: "jdict \<Rightarrow> pystr \<times> pystr" where
  "route_key r = (grant_text (dget r ''team_id'') 256, grant_text (dget r ''target_id'') 256)"

definition route_of :: "jdict \<Rightarrow> pystr" where
  "route_of r = grant_text (dget r ''route_id'') 256"

lemma grant_text_idem: "grant_text (JStr (grant_text v n)) n = grant_text v n"
  by (auto simp: grant_text_def split: json.splits)

lemma route_entry_get:
  "grant_text (dget (route_entry r) ''route_id'') 256 = grant_text (dget r ''route_id'') 256"
  "grant_text (dget (route_entry r) ''revision'') 256 = grant_text (dget r ''revision'') 256"
  "grant_text (dget (route_entry r) ''team_id'') 256 = grant_text (dget r ''team_id'') 256"
  "grant_text (dget (route_entry r) ''target_id'') 256 = grant_text (dget r ''target_id'') 256"
  "dget (route_entry r) ''recipient_kind'' = js ''server''"
  "dget (route_entry r) ''durable_server_binding'' = dget r ''durable_server_binding''"
  "dget (route_entry r) ''display_name'' = dget r ''display_name''"
  by (simp_all add: route_entry_def grant_text_idem)

lemma route_entry_idem: "route_entry (route_entry r) = route_entry r"
  by (simp add: route_entry_def grant_text_idem)

text \<open>The loop either fails closed or extends the result by the entries of the remaining objects.\<close>

definition accepts :: "(pystr \<times> pystr) list \<Rightarrow> pystr list \<Rightarrow> jdict list \<Rightarrow> bool" where
  "accepts seen ids rs \<longleftrightarrow> list_all route_ok rs \<and> distinct (seen @ map route_key rs) \<and> distinct (ids @ map route_of rs)"

lemma normalize_loop_accepts:
  "accepts seen ids rs \<Longrightarrow> normalize_loop seen ids result (map JObj rs) = result @ map route_entry rs"
proof (induction rs arbitrary: seen ids result)
  case (Cons r rs)
  have "accepts (seen @ [route_key r]) (ids @ [route_of r]) rs"
    using Cons.prems by (simp add: accepts_def)
  note IH = Cons.IH [OF this, of "result @ [route_entry r]"]
  show ?case
    using Cons.prems IH by (simp add: accepts_def route_ok_def Let_def route_key_def route_of_def)
qed simp

lemma normalize_loop_cases:
  assumes "distinct seen" "distinct ids"
  shows "normalize_loop seen ids result vs = []
    \<or> (\<exists>rs. vs = map JObj rs \<and> accepts seen ids rs)"
  using assms
proof (induction vs arbitrary: seen ids result)
  case Nil
  then show ?case by (simp add: accepts_def)
next
  case (Cons v vs)
  show ?case
  proof (cases v)
    case (JObj raw)
    show ?thesis
    proof (cases "route_ok raw \<and> route_key raw \<notin> set seen \<and> route_of raw \<notin> set ids")
      case True
      then have step: "normalize_loop seen ids result (v # vs)
          = normalize_loop (seen @ [route_key raw]) (ids @ [route_of raw]) (result @ [route_entry raw]) vs"
        by (simp add: JObj route_ok_def Let_def route_key_def route_of_def)
      have "distinct (seen @ [route_key raw])" "distinct (ids @ [route_of raw])" using True Cons.prems by simp_all
      from Cons.IH [OF this, of "result @ [route_entry raw]"] show ?thesis
      proof
        assume "\<exists>rs. vs = map JObj rs \<and> accepts (seen @ [route_key raw]) (ids @ [route_of raw]) rs"
        then obtain rs where "vs = map JObj rs" "accepts (seen @ [route_key raw]) (ids @ [route_of raw]) rs" by blast
        then have "v # vs = map JObj (raw # rs) \<and> accepts seen ids (raw # rs)"
          using True JObj by (simp add: accepts_def)
        then show ?thesis by (intro disjI2 exI)
      qed (rule disjI1, simp only: step)
    next
      case False
      then have "normalize_loop seen ids result (v # vs) = []"
        by (auto simp: JObj route_ok_def Let_def route_key_def route_of_def)
      then show ?thesis by blast
    qed
  qed simp_all
qed

lemma normalize_routes_cases:
  obtains "normalize_routes v = []"
    | rs where "v = JArr (map JObj rs)" "length rs \<le> MAX_ROUTES" "accepts [] [] rs" "normalize_routes v = map route_entry rs"
proof (cases v)
  case (JArr xs)
  show thesis
  proof (cases "MAX_ROUTES < length xs")
    case True
    then show thesis using that(1) by (simp add: JArr normalize_routes_def)
  next
    case False
    have "normalize_loop [] [] [] xs = [] \<or> (\<exists>rs. xs = map JObj rs \<and> accepts [] [] rs)"
      by (rule normalize_loop_cases) simp_all
    then show thesis
    proof
      assume "normalize_loop [] [] [] xs = []"
      then show thesis using that(1) False by (simp add: JArr normalize_routes_def)
    next
      assume "\<exists>rs. xs = map JObj rs \<and> accepts [] [] rs"
      then obtain rs where "xs = map JObj rs" "accepts [] [] rs" by blast
      then show thesis
        using that(2) [of rs] False normalize_loop_accepts [of "[]" "[]" rs "[]"] by (simp add: JArr normalize_routes_def)
    qed
  qed
qed (use that(1) in \<open>simp_all add: normalize_routes_def\<close>)

lemma accepts_entries: "accepts [] [] rs \<Longrightarrow> accepts [] [] (map route_entry rs)"
proof -
  have "route_ok r \<Longrightarrow> route_ok (route_entry r)" for r by (simp add: route_ok_def route_entry_get)
  moreover have "route_key \<circ> route_entry = route_key" "route_of \<circ> route_entry = route_of"
    by (simp_all add: route_key_def route_of_def route_entry_get fun_eq_iff)
  ultimately show "accepts [] [] rs \<Longrightarrow> ?thesis" by (simp add: accepts_def list_all_iff)
qed

lemma normalize_routes_idem: "normalize_routes (routes_json (normalize_routes v)) = normalize_routes v"
proof (cases v rule: normalize_routes_cases)
  case 1
  then show ?thesis by (simp add: routes_json_def normalize_routes_def)
next
  case (2 rs)
  have "normalize_loop [] [] [] (map JObj (map route_entry rs)) = [] @ map route_entry (map route_entry rs)"
    by (rule normalize_loop_accepts [OF accepts_entries [OF 2(3)]])
  then show ?thesis
    unfolding 2(4) routes_json_def using 2(2) by (simp add: normalize_routes_def comp_def route_entry_idem)
qed

interpretation grant_routes: normal_form normalize_routes routes_json
  by unfold_locales (rule normalize_routes_idem)

lemma pending_grant_Some:
  assumes "pending_grant v = Inr (Some g)"
  shows "before_routes g \<in> range normalize_routes" "after_routes g \<in> range normalize_routes"
  using assms by (auto simp: pending_grant_def Let_def split: json.splits if_splits)

section \<open>Properties\<close>

text \<open>Parsing routes fails closed and is canonical: the result is at most 16 routes, with pairwise
  distinct route ids and recipients and each with a well-formed binding to its own recipient, and
  parsing it again changes nothing.\<close>

lemma normalize_routes_canonical:
  "length (normalize_routes v) \<le> MAX_ROUTES \<and> list_all route_ok (normalize_routes v)
   \<and> distinct (map route_of (normalize_routes v)) \<and> distinct (map route_key (normalize_routes v))
   \<and> normalize_routes (routes_json (normalize_routes v)) = normalize_routes v"
proof (cases v rule: normalize_routes_cases)
  case 1
  then show ?thesis by (simp add: routes_json_def normalize_routes_def)
next
  case (2 rs)
  from accepts_entries [OF 2(3)] have "accepts [] [] (normalize_routes v)" by (simp add: 2(4))
  moreover have "length (normalize_routes v) \<le> MAX_ROUTES" using 2(2) by (simp add: 2(4))
  ultimately show ?thesis using normalize_routes_idem by (simp add: accepts_def)
qed

text \<open>While an admission is staged, the new routes grant nothing: the live routes are exactly the
  routes from before, or none when the staged record does not match the stored routes.\<close>

lemma staged_grant_not_live:
  assumes "dget session pending_key = JObj d" and "live_routes session = Inr routes"
  shows "routes = [] \<or> (\<exists>g. pending_grant (JObj d) = Inr (Some g) \<and> routes = before_routes g
    \<and> py_eq (routes_json (normalize_routes (session_routes session))) (routes_json (after_routes g)))"
  using assms
  by (auto simp: live_routes_def Let_def ebind_Inr_iff split: if_splits option.splits)

text \<open>Settling the staged admission decides it: when the stored routes are still the staged ones they
  stay on acceptance and go back to the routes from before on rejection; when they were changed
  meanwhile nothing remains granted. The marker is gone, and a second settlement of the same
  admission has no effect.\<close>

lemma settle_decides:
  assumes "pending_grant (dget session pending_key) = Inr (Some g)"
    and "settle session (admission_id g) accepted = Inr (session', done)"
    and "\<not> truthy (dget session ''archived'')"
  shows "done \<and> dget session' pending_key = JNull
    \<and> live_routes session' = Inr
        (if \<not> py_eq (routes_json (normalize_routes (dget session routes_key))) (routes_json (after_routes g)) then []
         else if accepted then normalize_routes (dget session routes_key) else before_routes g)
    \<and> settle session' (admission_id g) again = Inr (session', False)"
proof -
  have b: "normalize_routes (routes_json (before_routes g)) = before_routes g"
    using pending_grant_Some(1) [OF assms(1)] grant_routes.canonical_iff by blast
  have has: "dhas (dpop s k') k \<longleftrightarrow> k \<noteq> k' \<and> dhas s k" for s k k'
    by (simp add: dhas_def dpop_def delete_conv')
  have null: "\<not> dhas session routes_key \<Longrightarrow> dget session routes_key = JNull"
    by (simp add: dhas_def dget_def)
  have "session' = dpop (if \<not> py_eq (routes_json (normalize_routes (dget session routes_key))) (routes_json (after_routes g))
                 then dset session routes_key (JArr [])
                 else if \<not> accepted then dset session routes_key (routes_json (before_routes g))
                 else session) pending_key" and "done"
    using assms(1,2) by (auto simp: settle_def Let_def)
  then show ?thesis
    using assms(3) b null
    by (auto simp: live_routes_def session_routes_def has settle_def pending_grant_def normalize_routes_def routes_json_def)
qed

section \<open>A concrete admission\<close>

definition example_binding :: jdict where
  "example_binding = [(lit ''version'', JInt 1), (lit ''team_id'', js ''team''), (lit ''hub_id'', js ''hub''),
     (lit ''target_id'', js ''srv''), (lit ''server_identity'', js ''key''), (lit ''lifecycle_id'', js ''life'')]"

definition example_route :: jdict where
  "example_route = [(lit ''route_id'', js ''mailgrant_0123456789abcdef0123456789abcdef''),
     (lit ''revision'', js ''rev_0123456789abcdef0123456789abcdef''), (lit ''team_id'', js ''team''),
     (lit ''target_id'', js ''srv''), (lit ''recipient_kind'', js ''server''), (lit ''display_name'', js ''Server''),
     (lit ''durable_server_binding'', JObj example_binding), (lit ''created_at'', js ''t0''), (lit ''updated_at'', js ''t0'')]"

definition example_session :: jdict where
  "example_session = [(lit routes_key, JArr [JObj example_route]),
     (lit pending_key, JObj [(lit ''admission_id'', js ''grant_admission_0123456789abcdef0123456789abcdef''),
        (lit ''event_type'', js ''turn_started''), (lit ''before'', JArr []), (lit ''after'', JArr [JObj example_route])])]"

definition example_staged :: staged_grant where
  "example_staged = \<lparr>admission_id = lit ''grant_admission_0123456789abcdef0123456789abcdef'', event_type = lit ''turn_started'',
     before_routes = [], after_routes = [example_route]\<rparr>"

lemma example_texts:
  "grant_text (js ''mailgrant_0123456789abcdef0123456789abcdef'') 256 = lit ''mailgrant_0123456789abcdef0123456789abcdef''"
  "grant_text (js ''rev_0123456789abcdef0123456789abcdef'') 256 = lit ''rev_0123456789abcdef0123456789abcdef''"
  "grant_text (js ''grant_admission_0123456789abcdef0123456789abcdef'') 256 = lit ''grant_admission_0123456789abcdef0123456789abcdef''"
  "grant_text (js ''team'') 256 = lit ''team''" "grant_text (js ''srv'') 256 = lit ''srv''" "grant_text (js ''Server'') 256 = lit ''Server''"
  "grant_text (js ''t0'') 40 = lit ''t0''" "grant_text (js ''team'') 512 = lit ''team''" "grant_text (js ''hub'') 512 = lit ''hub''"
  "grant_text (js ''srv'') 512 = lit ''srv''" "grant_text (js ''key'') 512 = lit ''key''" "grant_text (js ''life'') 512 = lit ''life''"
  "route_re (lit ''mailgrant_0123456789abcdef0123456789abcdef'')" "revision_re (lit ''rev_0123456789abcdef0123456789abcdef'')"
  "admission_re (lit ''grant_admission_0123456789abcdef0123456789abcdef'')"
  by (simp_all add: grant_text_def lit_def route_re_def revision_re_def admission_re_def prefixed_hex32_def is_hexlow_def is_digit_def)

lemma example_routes: "normalize_routes (JArr [JObj example_route]) = [example_route]" "normalize_routes (JArr []) = []"
  by (simp_all add: normalize_routes_def MAX_ROUTES_def example_route_def example_binding_def example_texts Let_def binding_ok_def
      dkeys_eq_def binding_keys_def route_entry_def)

lemma example_wf: "wf_json (JArr [JObj example_route])"
  by (simp add: example_route_def example_binding_def)

lemma example_empty: "py_eq (JArr []) (JArr [])" "\<not> py_eq (JArr []) (JArr [JObj example_route])"
  by simp_all

lemma example_pending: "pending_grant (dget example_session pending_key) = Inr (Some example_staged)"
  using example_routes py_eq_refl [OF example_wf] example_empty
  by (simp add: example_session_def pending_grant_def example_texts example_staged_def routes_json_def Let_def del: py_eq.simps(3,4))

lemma staged_grant_not_live_witness:
  "live_routes example_session = Inr [] \<and> before_routes example_staged = []"
proof -
  have p: "dget example_session pending_key = JObj [(lit ''admission_id'', js ''grant_admission_0123456789abcdef0123456789abcdef''),
        (lit ''event_type'', js ''turn_started''), (lit ''before'', JArr []), (lit ''after'', JArr [JObj example_route])]"
    by (simp add: example_session_def)
  have "\<exists>rs. live_routes example_session = Inr rs"
    using example_pending by (simp add: live_routes_def Let_def)
  then obtain rs where rs: "live_routes example_session = Inr rs" ..
  from staged_grant_not_live [OF p rs] example_pending [unfolded p] have "rs = []"
    by (auto simp: example_staged_def)
  with rs show ?thesis by (simp add: example_staged_def)
qed

lemma settle_decides_witness:
  "\<exists>s. settle example_session (admission_id example_staged) True = Inr (s, True) \<and> live_routes s = Inr [example_route]"
proof -
  have na: "\<not> truthy (dget example_session ''archived'')" by (simp add: example_session_def)
  have r: "dget example_session routes_key = JArr [JObj example_route]" by (simp add: example_session_def)
  have eq: "py_eq (routes_json [example_route]) (routes_json [example_route])"
    using py_eq_refl [OF example_wf] by (simp only: routes_json_def list.map)
  obtain s d where s: "settle example_session (admission_id example_staged) True = Inr (s, d)"
    using example_pending by (simp add: settle_def Let_def)
  from settle_decides [OF example_pending s na] example_routes(1) eq s
  show ?thesis unfolding r by (auto simp: example_staged_def)
qed

end
