(* ===== verification/Background_Tasks.thy ===== *)
theory Background_Tasks
  imports Interfaces
begin

text \<open>
  Claude background task receipts: \<open>claude_background_reconciliation.py\<close>. Receipts are normalised to
  an allow-listed form, merged so that the latest state of a task wins, and cut to a bounded
  checkpoint whose discarded entries are counted.
\<close>

definition MAX_TASKS :: nat where
  "MAX_TASKS = 64"

definition MAX_TASK_BYTES :: nat where
  "MAX_TASK_BYTES = 6144"

definition task_identifier :: "json \<Rightarrow> nat \<Rightarrow> pystr option" where
  "task_identifier v limit = (case v of
     JStr s \<Rightarrow> if 0 < length s \<and> length s \<le> limit \<and> list_all (\<lambda>c. 32 \<le> c \<and> c \<noteq> 127) s then Some s else None
   | _ \<Rightarrow> None)"

definition task_statuses :: "pystr list" where
  "task_statuses = map lit [''running'', ''completed'', ''failed'', ''stopped'', ''killed'', ''tracking_lost'']"

text \<open>One receipt; \<open>None\<close> where the loop continues without it.\<close>

definition task_receipt :: "pystr \<Rightarrow> pystr \<Rightarrow> bool \<Rightarrow> json \<Rightarrow> (pystr \<times> jdict) option" where
  "task_receipt run session lost receipt = (case receipt of
     JObj r \<Rightarrow>
       (case (task_identifier (dget r ''task_id'') 256, dget r ''status'', task_identifier (dget r ''task_type'') 64) of
          (Some task, JStr status, Some kind) \<Rightarrow>
            if status \<notin> set task_statuses then None
            else if dget r ''owner_run_id'' \<noteq> JStr run
                 \<or> dget r ''provider_session_id'' \<notin> {JNull, JStr [], JStr session} then None
            else Some (task,
              [(lit ''task_id'', JStr task), (lit ''task_type'', JStr kind),
               (lit ''status'', JStr (if lost \<and> status = lit ''running'' then lit ''tracking_lost'' else status)),
               (lit ''owner_run_id'', JStr run), (lit ''provider_session_id'', JStr session)]
              @ (case task_identifier (dget r ''tool_use_id'') 256 of
                   None \<Rightarrow> [] | Some t \<Rightarrow> [(lit ''tool_use_id'', JStr t)]))
        | _ \<Rightarrow> None)
   | _ \<Rightarrow> None)"

fun receipts_loop :: "pystr \<Rightarrow> pystr \<Rightarrow> bool \<Rightarrow> (pystr \<times> jdict) list \<Rightarrow> json list \<Rightarrow> (pystr \<times> jdict) list" where
  "receipts_loop run session lost result [] = result"
| "receipts_loop run session lost result (r # rs) =
     receipts_loop run session lost
       (case task_receipt run session lost r of None \<Rightarrow> result | Some (k, t) \<Rightarrow> AList.update k t result) rs"

definition normalize_task_receipts :: "json \<Rightarrow> json \<Rightarrow> json \<Rightarrow> bool \<Rightarrow> jdict list" where
  "normalize_task_receipts receipts run session lost =
     (case (task_identifier run 256, task_identifier session 256, receipts) of
        (Some r, Some s, JArr xs) \<Rightarrow> map snd (receipts_loop r s lost [] (take MAX_TASKS xs))
      | _ \<Rightarrow> [])"

section \<open>Envelopes\<close>

record task_batch =
  batch_tasks :: "jdict list"
  batch_overflow :: int

type_synonym task_key = "json \<times> json \<times> json"

definition task_key :: "jdict \<Rightarrow> task_key" where
  "task_key t = (dget t ''provider_session_id'', dget t ''owner_run_id'', dget t ''task_id'')"

text \<open>\<open>tasks[key] = dict(task); tasks.move_to_end(key)\<close>.\<close>

definition put_task :: "(task_key \<times> jdict) list \<Rightarrow> jdict \<Rightarrow> (task_key \<times> jdict) list" where
  "put_task tasks t = AList.delete (task_key t) tasks @ [(task_key t, t)]"

definition clamp_overflow :: "int \<Rightarrow> int" where
  "clamp_overflow n = max 0 (min n 1000000)"

definition last_two :: "'a list \<Rightarrow> 'a list" where
  "last_two xs = drop (length xs - 2) xs"

text \<open>The encoding is ASCII, so its bytes are its characters; receipts contain no floats.\<close>

definition tasks_size :: "jdict list \<Rightarrow> nat" where
  "tasks_size ts = length (dumps (compact_opts True (\<lambda>_. [])) (JArr (map JObj ts)))"

fun shrink :: "jdict list \<Rightarrow> int \<Rightarrow> jdict list \<times> int" where
  "shrink [] overflow = ([], overflow)"
| "shrink (t # ts) overflow =
     (if MAX_TASKS < length (t # ts) \<or> MAX_TASK_BYTES < tasks_size (t # ts)
      then shrink ts (overflow + 1) else (t # ts, overflow))"

definition reconciliation_envelope :: "task_batch list \<Rightarrow> task_batch" where
  "reconciliation_envelope batches =
     (let recent = last_two batches;
          overflow = sum_list (map (\<lambda>b. clamp_overflow (batch_overflow b)) recent);
          tasks = foldl put_task [] (concat (map batch_tasks recent))
      in case shrink (map snd tasks) overflow of
           (selected, n) \<Rightarrow> \<lparr>batch_tasks = selected, batch_overflow = min n 1000000\<rparr>)"

definition pending_task_reconciliations :: "json \<Rightarrow> json \<Rightarrow> (pystr \<times> task_batch) list" where
  "pending_task_reconciliations v session = (case v of
     JObj d \<Rightarrow>
       if \<not> py_eq (dget d ''version'') (JInt 1) \<or> \<not> py_eq (dget d ''provider_session_id'') session then []
       else (case (task_identifier (dget d ''reconciliation_id'') 256,
                   if dhas d ''overflow_count'' then dget d ''overflow_count'' else JInt 0, dget d ''tasks'') of
               (Some i, JInt overflow, JArr source) \<Rightarrow>
                 if overflow < 0 then []
                 else let tasks = concat (map (\<lambda>r. case r of
                            JObj x \<Rightarrow> normalize_task_receipts (JArr [r]) (dget x ''owner_run_id'') session False
                          | _ \<Rightarrow> []) (take MAX_TASKS source))
                      in [(i, reconciliation_envelope [\<lparr>batch_tasks = tasks,
                            batch_overflow = overflow + max 0 (int (length source) - int MAX_TASKS)\<rparr>])]
             | _ \<Rightarrow> [])
   | _ \<Rightarrow> [])"

definition pending_reconciliation_state :: "json \<Rightarrow> pystr \<Rightarrow> task_batch \<Rightarrow> json \<Rightarrow> pystr \<times> task_batch" where
  "pending_reconciliation_state previous rid batch session =
     (rid, reconciliation_envelope (map snd (pending_task_reconciliations previous session) @ [batch]))"

section \<open>Receipts\<close>

definition receipt_ok :: "pystr \<Rightarrow> pystr \<Rightarrow> bool \<Rightarrow> jdict \<Rightarrow> bool" where
  "receipt_ok run session lost t \<longleftrightarrow>
     dget t ''owner_run_id'' = JStr run \<and> dget t ''provider_session_id'' = JStr session
   \<and> (\<exists>s. dget t ''status'' = JStr s \<and> s \<in> set task_statuses \<and> (lost \<longrightarrow> s \<noteq> lit ''running''))
   \<and> set (map fst t) \<subseteq> set (map lit [''task_id'', ''task_type'', ''status'', ''owner_run_id'', ''provider_session_id'', ''tool_use_id''])"

lemma task_receipt_SomeE:
  assumes "task_receipt run session lost r = Some (k, t)"
  obtains status kind extra where "status \<in> set task_statuses"
    "t = [(lit ''task_id'', JStr k), (lit ''task_type'', JStr kind),
      (lit ''status'', JStr (if lost \<and> status = lit ''running'' then lit ''tracking_lost'' else status)),
      (lit ''owner_run_id'', JStr run), (lit ''provider_session_id'', JStr session)] @ extra"
    "extra = [] \<or> (\<exists>v. extra = [(lit ''tool_use_id'', JStr v)])"
proof -
  obtain d where d: "r = JObj d" using assms by (cases r) (simp_all add: task_receipt_def)
  obtain task where 1: "task_identifier (dget d ''task_id'') 256 = Some task"
    using assms by (cases "task_identifier (dget d ''task_id'') 256") (simp_all add: task_receipt_def d)
  obtain status where 2: "dget d ''status'' = JStr status"
    using assms by (cases "dget d ''status''") (simp_all add: task_receipt_def d 1)
  obtain kind where 3: "task_identifier (dget d ''task_type'') 64 = Some kind"
    using assms by (cases "task_identifier (dget d ''task_type'') 64") (simp_all add: task_receipt_def d 1 2)
  note body = assms [unfolded task_receipt_def d json.case 1 2 3 prod.case option.case]
  have s: "status \<in> set task_statuses" using body by (meson option.distinct(1))
  show ?thesis
    using body s that [OF s, of kind "case task_identifier (dget d ''tool_use_id'') 256 of
                   None \<Rightarrow> [] | Some t \<Rightarrow> [(lit ''tool_use_id'', JStr t)]"]
    by (auto split: if_split_asm option.split_asm)
qed

lemma task_receipt_ok:
  assumes "task_receipt run session lost r = Some (k, t)"
  shows "receipt_ok run session lost t" "dget t ''task_id'' = JStr k"
proof -
  obtain status kind extra where *: "status \<in> set task_statuses"
    "t = [(lit ''task_id'', JStr k), (lit ''task_type'', JStr kind),
      (lit ''status'', JStr (if lost \<and> status = lit ''running'' then lit ''tracking_lost'' else status)),
      (lit ''owner_run_id'', JStr run), (lit ''provider_session_id'', JStr session)] @ extra"
    "extra = [] \<or> (\<exists>v. extra = [(lit ''tool_use_id'', JStr v)])"
    using assms by (rule task_receipt_SomeE)
  have "lit ''tracking_lost'' \<in> set task_statuses" by (simp add: task_statuses_def)
  then show "receipt_ok run session lost t"
    using *(1,3) unfolding *(2) receipt_ok_def by auto
  show "dget t ''task_id'' = JStr k" by (simp add: *(2))
qed

lemma receipts_loop_inv:
  assumes "distinct (map fst acc)" "\<forall>(k, t) \<in> set acc. receipt_ok run session lost t \<and> dget t ''task_id'' = JStr k"
  shows "distinct (map fst (receipts_loop run session lost acc rs))
    \<and> (\<forall>(k, t) \<in> set (receipts_loop run session lost acc rs). receipt_ok run session lost t \<and> dget t ''task_id'' = JStr k)
    \<and> length (receipts_loop run session lost acc rs) \<le> length acc + length rs"
  using assms
proof (induction rs arbitrary: acc)
  case (Cons r rs)
  show ?case
  proof (cases "task_receipt run session lost r")
    case None
    then show ?thesis using Cons.IH [OF Cons.prems] by auto
  next
    case (Some kt)
    obtain k t where kt: "kt = (k, t)" by fastforce
    note ok = task_receipt_ok [OF Some [unfolded kt]]
    let ?acc = "AList.update k t acc"
    have "distinct (map fst ?acc)" using Cons.prems(1) by (simp add: distinct_update)
    moreover have "set ?acc \<subseteq> insert (k, t) (set acc)"
      by (induction acc) auto
    then have "\<forall>(k, t) \<in> set ?acc. receipt_ok run session lost t \<and> dget t ''task_id'' = JStr k"
      using Cons.prems(2) ok by auto
    moreover have "length ?acc \<le> length acc + 1" by (induction acc) auto
    ultimately show ?thesis using Cons.IH [of ?acc] Some kt by auto
  qed
qed simp

text \<open>Normalised receipts name only the given run and provider session, carry an allow-listed status
  and allow-listed fields (never commands or summaries), have distinct task ids, are at most 64, and
  none is reported as running once tracking was lost.\<close>

lemma normalize_task_receipts_owned:
  "length (normalize_task_receipts receipts run session lost) \<le> MAX_TASKS
   \<and> distinct (map (\<lambda>t. dget t ''task_id'') (normalize_task_receipts receipts run session lost))
   \<and> list_all (\<lambda>t. \<exists>r s. run = JStr r \<and> session = JStr s \<and> receipt_ok r s lost t)
        (normalize_task_receipts receipts run session lost)"
proof (cases "\<exists>r s xs. task_identifier run 256 = Some r \<and> task_identifier session 256 = Some s \<and> receipts = JArr xs")
  case True
  then obtain r s xs where *: "task_identifier run 256 = Some r" "task_identifier session 256 = Some s" "receipts = JArr xs"
    by blast
  let ?l = "receipts_loop r s lost [] (take MAX_TASKS xs)"
  have n: "normalize_task_receipts receipts run session lost = map snd ?l"
    by (simp add: normalize_task_receipts_def *)
  have rs: "run = JStr r" "session = JStr s" using *(1,2) by (auto simp: task_identifier_def split: json.splits if_splits)
  have inv: "distinct (map fst ?l)" "\<forall>(k, t) \<in> set ?l. receipt_ok r s lost t \<and> dget t ''task_id'' = JStr k"
    "length ?l \<le> length (take MAX_TASKS xs)"
    using receipts_loop_inv [of "[]" r s lost "take MAX_TASKS xs"] by auto
  have "map (\<lambda>t. dget t ''task_id'') (map snd ?l) = map JStr (map fst ?l)"
    using inv(2) by (auto simp: comp_def)
  then have "distinct (map (\<lambda>t. dget t ''task_id'') (map snd ?l))"
    using inv(1) by (simp only: distinct_map) (auto intro: inj_onI)
  moreover have "length ?l \<le> MAX_TASKS" using inv(3) by simp
  ultimately show ?thesis unfolding n list_all_iff using inv(2) rs by auto
next
  case False
  then have "normalize_task_receipts receipts run session lost = []"
    by (auto simp: normalize_task_receipts_def split: option.splits json.splits)
  then show ?thesis by simp
qed

section \<open>The bounded checkpoint\<close>

text \<open>What the merge promises: the last state reported for each task, in the order of those last reports.\<close>

fun latest_states :: "jdict list \<Rightarrow> jdict list" where
  "latest_states [] = []"
| "latest_states (t # ts) =
     (if task_key t \<in> task_key ` set ts then latest_states ts else t # latest_states ts)"

lemma set_latest_states: "set (latest_states ts) \<subseteq> set ts"
  by (induction ts) auto

lemma latest_states_distinct: "distinct (map task_key (latest_states ts))"
  using set_latest_states by (induction ts) fastforce+

lemma latest_states_snoc:
  "latest_states (ts @ [t]) = filter (\<lambda>u. task_key u \<noteq> task_key t) (latest_states ts) @ [t]"
  by (induction ts) auto

lemma latest_states_find:
  "u \<in> set (latest_states ts) \<Longrightarrow> find (\<lambda>v. task_key v = task_key u) (rev ts) = Some u"
proof (induction ts rule: rev_induct)
  case (snoc t ts)
  then show ?case by (auto simp: latest_states_snoc)
qed simp

lemma merge_latest: "foldl put_task [] ts = map (\<lambda>t. (task_key t, t)) (latest_states ts)"
proof (induction ts rule: rev_induct)
  case (snoc t ts)
  have "AList.delete k (map (\<lambda>t. (task_key t, t)) us)
      = map (\<lambda>t. (task_key t, t)) (filter (\<lambda>u. task_key u \<noteq> k) us)" for k us
    by (induction us) auto
  then have "put_task (map (\<lambda>t. (task_key t, t)) (latest_states ts)) t
      = map (\<lambda>t. (task_key t, t)) (latest_states (ts @ [t]))"
    by (simp add: put_task_def latest_states_snoc)
  then show ?case by (simp add: snoc)
qed simp

definition oversized :: "jdict list \<Rightarrow> bool" where
  "oversized ts \<longleftrightarrow> MAX_TASKS < length ts \<or> MAX_TASK_BYTES < tasks_size ts"

lemma oversized_Nil: "\<not> oversized []"
  by (simp add: oversized_def tasks_size_def compact_opts_def MAX_TASK_BYTES_def)

lemma shrink_spec:
  "\<exists>dropped. ts = dropped @ fst (shrink ts n) \<and> snd (shrink ts n) = n + int (length dropped)
     \<and> \<not> oversized (fst (shrink ts n)) \<and> (dropped \<noteq> [] \<longrightarrow> oversized (last dropped # fst (shrink ts n)))"
proof (induction ts arbitrary: n)
  case Nil
  show ?case using oversized_Nil by simp
next
  case (Cons t ts)
  show ?case
  proof (cases "oversized (t # ts)")
    case True
    then have s: "shrink (t # ts) n = shrink ts (n + 1)" unfolding oversized_def by simp
    obtain dropped where d: "ts = dropped @ fst (shrink ts (n + 1))"
      "snd (shrink ts (n + 1)) = n + 1 + int (length dropped)" "\<not> oversized (fst (shrink ts (n + 1)))"
      "dropped \<noteq> [] \<longrightarrow> oversized (last dropped # fst (shrink ts (n + 1)))"
      using Cons.IH by blast
    have "oversized (last (t # dropped) # fst (shrink ts (n + 1)))"
      using True d(1,4) by (cases "dropped = []") auto
    then show ?thesis unfolding s using d(1-3) by (intro exI [of _ "t # dropped"]) simp
  next
    case False
    then have "shrink (t # ts) n = (t # ts, n)" unfolding oversized_def by simp
    then show ?thesis using False by simp
  qed
qed

text \<open>The envelope of some batches: the last \<open>sel\<close> of the latest states are kept, the number of the
  others is counted, and no further state would fit.\<close>

definition bounded_latest :: "jdict list \<Rightarrow> int \<Rightarrow> task_batch \<Rightarrow> bool" where
  "bounded_latest reported before e \<longleftrightarrow>
     length (batch_tasks e) \<le> MAX_TASKS \<and> tasks_size (batch_tasks e) \<le> MAX_TASK_BYTES
   \<and> distinct (map task_key (batch_tasks e))
   \<and> (\<forall>t \<in> set (batch_tasks e). find (\<lambda>u. task_key u = task_key t) (rev reported) = Some t)
   \<and> (\<exists>dropped. latest_states reported = dropped @ batch_tasks e
        \<and> batch_overflow e = min (before + int (length dropped)) 1000000
        \<and> (dropped \<noteq> [] \<longrightarrow> oversized (last dropped # batch_tasks e)))"

lemma shrink_bounded:
  assumes "shrink (latest_states reported) n = (sel, m)" "0 \<le> n"
  shows "bounded_latest reported n \<lparr>batch_tasks = sel, batch_overflow = min m 1000000\<rparr>" "0 \<le> m"
proof -
  obtain dropped where d: "latest_states reported = dropped @ sel" "m = n + int (length dropped)"
    "\<not> oversized sel" "dropped \<noteq> [] \<longrightarrow> oversized (last dropped # sel)"
    using shrink_spec [of "latest_states reported" n] assms(1) by auto
  have "distinct (map task_key sel)" using latest_states_distinct [of reported] d(1) by simp
  moreover have "find (\<lambda>u. task_key u = task_key t) (rev reported) = Some t" if "t \<in> set sel" for t
    by (rule latest_states_find) (simp add: that d(1))
  moreover have "length sel \<le> MAX_TASKS" "tasks_size sel \<le> MAX_TASK_BYTES"
    using d(3) by (simp_all add: oversized_def)
  ultimately show "bounded_latest reported n \<lparr>batch_tasks = sel, batch_overflow = min m 1000000\<rparr>"
    unfolding bounded_latest_def using d(1,2,4) by simp
  show "0 \<le> m" using assms(2) d(2) by simp
qed

text \<open>C13. The checkpoint of two batches holds the latest reported state of each kept task, one per task, in
  at most 64 entries and 6144 bytes; it drops only the oldest ones, as few as the bounds force, and
  counts every dropped one on top of the (clamped) counts of the batches, up to a million.\<close>

theorem reconciliation_envelope_latest:
  "bounded_latest (concat (map batch_tasks (last_two batches)))
     (sum_list (map (\<lambda>b. clamp_overflow (batch_overflow b)) (last_two batches))) (reconciliation_envelope batches)
   \<and> 0 \<le> batch_overflow (reconciliation_envelope batches)"
proof -
  let ?all = "concat (map batch_tasks (last_two batches))"
  let ?n = "sum_list (map (\<lambda>b. clamp_overflow (batch_overflow b)) (last_two batches))"
  obtain sel m where sh: "shrink (latest_states ?all) ?n = (sel, m)" by fastforce
  have e: "reconciliation_envelope batches = \<lparr>batch_tasks = sel, batch_overflow = min m 1000000\<rparr>"
    by (simp add: reconciliation_envelope_def merge_latest comp_def Let_def sh)
  have "0 \<le> ?n" by (rule sum_list_nonneg) (auto simp: clamp_overflow_def)
  from shrink_bounded [OF sh this] show ?thesis unfolding e by simp
qed

end
