(* ===== verification/Chat_Controls.thy ===== *)
theory Chat_Controls
  imports Interfaces
begin

text \<open>
  The controls of a shared chat: \<open>interactive_chat_controls.py\<close>. A guest names one of the fixed actions;
  the dispatcher checks the payload, builds the native request models and calls the injected callback
  with the chat identity that the server supplied. The native models and the set of installed
  callbacks are injected by the owner, so they are parameters here.
\<close>

section \<open>Definitions\<close>

datatype control_error = Forbidden | InvalidRequest

definition SETTINGS_FIELDS :: "string list" where
  "SETTINGS_FIELDS = [''title'', ''backend'', ''model'', ''effort'', ''system_prompt'',
     ''claude_permission_mode'', ''codex_approval_policy'', ''codex_sandbox_mode'',
     ''codex_permission_profile'', ''codex_approvals_reviewer'', ''cursor_permission_mode'',
     ''provider_jobs_access'']"

definition GOAL_FIELDS :: "string list" where
  "GOAL_FIELDS = [''objective'', ''status'', ''token_budget'', ''time_budget_seconds'']"

definition JOB_FIELDS :: "string list" where
  "JOB_FIELDS = [''title'', ''prompt'', ''schedule_kind'', ''interval_seconds'', ''cron_expression'',
     ''rrule'', ''timezone'', ''loop'', ''max_runs'', ''enabled'', ''backend'']"

definition ACTIONS :: "string list" where
  "ACTIONS = [''state'', ''turn.stop'', ''turn.steer'', ''queue.run_now'', ''queue.edit'', ''queue.delete'',
     ''queue.move'', ''settings.update'', ''goal.set'', ''goal.resume'', ''goal.pause'', ''goal.delete'',
     ''job.create'', ''job.update'', ''job.delete'', ''job.toggle'', ''job.run'', ''approval.respond'']"

text \<open>\<open>[A-Za-z0-9_.-]{1,128}\<close>, \<open>interactive_[a-f0-9]{32}\<close> and \<open>[A-Za-z0-9_-]{16,128}\<close>.\<close>

definition control_identity :: "json \<Rightarrow> control_error + pystr" where
  "control_identity v = (case v of
     JStr s \<Rightarrow> if 1 \<le> length s \<and> length s \<le> 128 \<and> list_all (\<lambda>c. is_alnum c \<or> c = 95 \<or> c = 46 \<or> c = 45) s
              then Inr s else Inl InvalidRequest
   | _ \<Rightarrow> Inl InvalidRequest)"

definition share_id_re :: "pystr \<Rightarrow> bool" where
  "share_id_re s \<longleftrightarrow> prefixed_hex32 ''interactive_'' s"

definition request_id_re :: "pystr \<Rightarrow> bool" where
  "request_id_re s \<longleftrightarrow> 16 \<le> length s \<and> length s \<le> 128 \<and> list_all (\<lambda>c. is_alnum c \<or> c = 95 \<or> c = 45) s"

text \<open>\<open>_fields(payload, allowed, required, nonempty=...)\<close>.\<close>

definition fields_check :: "jdict \<Rightarrow> string list \<Rightarrow> string list \<Rightarrow> bool \<Rightarrow> control_error + unit" where
  "fields_check payload allowed required nonempty =
     (if \<not> list_all (\<lambda>k. k \<in> set (map lit allowed)) (map fst payload)
         \<or> \<not> list_all (dhas payload) required \<or> (nonempty \<and> payload = []) then Inl InvalidRequest
      else Inr ())"

text \<open>
  An argument of a native callback. A callback that is invoked gets the chat identity first; the
  keyword arguments occur for \<open>turn.steer\<close> only.
\<close>

datatype 'm control_arg = ArgStr pystr | ArgModel 'm

record 'm invocation =
  inv_key :: pystr
  inv_session :: pystr
  inv_args :: "'m control_arg list"
  inv_kwargs :: "(pystr \<times> pystr) option"

text \<open>
  What the owner injects: \<open>models name\<close> is the native model class, a validator of field
  dictionaries, and \<open>callbacks\<close> are the keys with a callable.
\<close>

record 'm chat_controls =
  callbacks :: "pystr list"
  models :: "string \<Rightarrow> (jdict \<Rightarrow> 'm option) option"

definition control_model :: "'m chat_controls \<Rightarrow> string \<Rightarrow> jdict \<Rightarrow> control_error + 'm control_arg" where
  "control_model ctl name fs = (case models ctl name of
     None \<Rightarrow> Inl Forbidden
   | Some validate \<Rightarrow> (case validate fs of None \<Rightarrow> Inl InvalidRequest | Some m \<Rightarrow> Inr (ArgModel m)))"

text \<open>The default separators of \<open>json.dumps\<close>.\<close>

definition plain_opts :: "(rat \<Rightarrow> pystr) \<Rightarrow> dumps_opts" where
  "plain_opts fr = \<lparr>ascii = False, item_sep = [44, 32], key_sep = [58, 32], float_repr = fr\<rparr>"

text \<open>
  The payload is re-encoded before use: text that is not encodable and more than 64 KiB are refused.
  Decoding the encoding again gives the same value.
\<close>

definition owned_payload :: "(rat \<Rightarrow> pystr) \<Rightarrow> json \<Rightarrow> control_error + jdict" where
  "owned_payload fr payload = (case payload of
     JObj d \<Rightarrow> (case utf8_size (dumps (plain_opts fr) payload) of
        None \<Rightarrow> Inl InvalidRequest
      | Some n \<Rightarrow> if 64 * 1024 < n then Inl InvalidRequest else Inr d)
   | _ \<Rightarrow> Inl InvalidRequest)"

definition id_arg :: "jdict \<Rightarrow> control_error + 'm control_arg" where
  "id_arg payload = ebind (control_identity (dget payload ''id'')) (\<lambda>s. Inr (ArgStr s))"

text \<open>The branches of \<open>dispatch\<close>, in the order of the source: arguments after the chat identity.\<close>

definition plain_args :: "'m chat_controls \<Rightarrow> string \<Rightarrow> jdict \<Rightarrow> control_error + 'm control_arg list" where
  "plain_args ctl action payload = ebind (fields_check payload [] [] False) (\<lambda>_.
     if action \<in> set [''goal.resume'', ''goal.pause''] then
       ebind (control_model ctl ''CodexGoalRequest''
                [(lit ''status'', js (if action = ''goal.resume'' then ''active'' else ''paused''))]) (\<lambda>m. Inr [m])
     else Inr [])"

definition steer_args ::
  "jdict \<Rightarrow> json \<Rightarrow> json \<Rightarrow> control_error + ('m control_arg list \<times> (pystr \<times> pystr) option)" where
  "steer_args payload share request = ebind (fields_check payload [''prompt''] [''prompt''] False) (\<lambda>_.
     case dget payload ''prompt'' of
       JStr prompt \<Rightarrow>
         if strip prompt = [] then Inl InvalidRequest
         else (case share of
           JStr sid \<Rightarrow>
             if \<not> share_id_re sid then Inl Forbidden
             else (case request of
               JStr rid \<Rightarrow> if request_id_re rid then Inr ([ArgStr prompt], Some (sid, rid)) else Inl InvalidRequest
             | _ \<Rightarrow> Inl InvalidRequest)
         | _ \<Rightarrow> Inl Forbidden)
     | _ \<Rightarrow> Inl InvalidRequest)"

definition target_args :: "'m chat_controls \<Rightarrow> string \<Rightarrow> jdict \<Rightarrow> control_error + 'm control_arg list" where
  "target_args ctl action payload = ebind (fields_check payload [''id''] [''id''] False) (\<lambda>_.
     ebind (id_arg payload) (\<lambda>i.
       if action = ''queue.run_now'' then
         ebind (control_model ctl ''RunQueuedTurnNowRequest'' [(lit ''accept_deferred_queue_response'', JBool True)])
           (\<lambda>m. Inr [i, m])
       else Inr [i]))"

definition edit_args :: "'m chat_controls \<Rightarrow> jdict \<Rightarrow> control_error + 'm control_arg list" where
  "edit_args ctl payload =
     ebind (fields_check payload [''id'', ''prompt'', ''expected_message_revision''] [''id'', ''prompt''] False) (\<lambda>_.
     ebind (id_arg payload) (\<lambda>i.
       if \<not> is_str (dget payload ''prompt'') then Inl InvalidRequest
       else ebind (control_model ctl ''UpdateQueuedTurnRequest'' (dpop payload ''id'')) (\<lambda>m. Inr [i, m])))"

definition move_args :: "'m chat_controls \<Rightarrow> jdict \<Rightarrow> control_error + 'm control_arg list" where
  "move_args ctl payload =
     ebind (fields_check payload [''id'', ''direction'', ''expected_adjacent_queued_id''] [''id'', ''direction''] False) (\<lambda>_.
     ebind (id_arg payload) (\<lambda>i.
       if dget payload ''direction'' \<notin> {js ''up'', js ''down''} then Inl InvalidRequest
       else ebind (if dhas payload ''expected_adjacent_queued_id''
                   then ebind (control_identity (dget payload ''expected_adjacent_queued_id'')) (\<lambda>_. Inr ())
                   else Inr ()) (\<lambda>_.
         ebind (control_model ctl ''MoveQueuedTurnRequest'' (dpop payload ''id'')) (\<lambda>m. Inr [i, m]))))"

definition job_args :: "'m chat_controls \<Rightarrow> string \<Rightarrow> jdict \<Rightarrow> control_error + 'm control_arg list" where
  "job_args ctl action payload =
     ebind (fields_check payload
              (if action = ''job.toggle'' then [''id'', ''enabled''] else JOB_FIELDS @ [''id'', ''next_run_at''])
              (if action = ''job.toggle'' then [''id'', ''enabled''] else [''id'']) False) (\<lambda>_.
     ebind (id_arg payload) (\<lambda>i.
       if dpop payload ''id'' = [] \<or> (action = ''job.toggle'' \<and> dget payload ''enabled'' \<notin> {JBool True, JBool False})
       then Inl InvalidRequest
       else ebind (control_model ctl ''UpdateJobRequest'' (dpop payload ''id'')) (\<lambda>m. Inr [i, m])))"

definition approval_args :: "'m chat_controls \<Rightarrow> jdict \<Rightarrow> control_error + (string \<times> 'm control_arg list)" where
  "approval_args ctl payload =
     ebind (fields_check payload [''id'', ''backend'', ''response''] [''id'', ''backend'', ''response''] False) (\<lambda>_.
     if dget payload ''backend'' \<notin> {js ''codex'', js ''claude''} then Inl InvalidRequest
     else (case dget payload ''response'' of
       JObj r \<Rightarrow> ebind (id_arg payload) (\<lambda>i.
         let codex = (dget payload ''backend'' = js ''codex'') in
         ebind (control_model ctl (if codex then ''CodexInteractionResponseRequest'' else ''ClaudeInteractionResponseRequest'')
                  [(lit ''response'', JObj r)])
           (\<lambda>m. Inr (if codex then ''approval.codex'' else ''approval.claude'', [i, m])))
     | _ \<Rightarrow> Inl InvalidRequest))"

text \<open>The callback key, the further arguments and the keyword arguments of one action.\<close>

definition action_call :: "'m chat_controls \<Rightarrow> string \<Rightarrow> jdict \<Rightarrow> json \<Rightarrow> json
    \<Rightarrow> control_error + (string \<times> 'm control_arg list \<times> (pystr \<times> pystr) option)" where
  "action_call ctl action payload share request =
     (let keep = (\<lambda>r. ebind r (\<lambda>args. Inr (action, args, None))) in
      if action \<in> set [''state'', ''turn.stop'', ''goal.delete'', ''goal.resume'', ''goal.pause''] then
        keep (plain_args ctl action payload)
      else if action = ''turn.steer'' then
        ebind (steer_args payload share request) (\<lambda>(args, kw). Inr (action, args, kw))
      else if action \<in> set [''queue.delete'', ''queue.run_now'', ''job.delete'', ''job.run''] then
        keep (target_args ctl action payload)
      else if action = ''queue.edit'' then keep (edit_args ctl payload)
      else if action = ''queue.move'' then keep (move_args ctl payload)
      else if action = ''settings.update'' then
        keep (ebind (fields_check payload SETTINGS_FIELDS [] True) (\<lambda>_.
          ebind (control_model ctl ''UpdateSessionRequest'' payload) (\<lambda>m. Inr [m])))
      else if action = ''goal.set'' then
        keep (ebind (fields_check payload GOAL_FIELDS [] True) (\<lambda>_.
          ebind (control_model ctl ''CodexGoalRequest'' payload) (\<lambda>m. Inr [m])))
      else if action = ''job.create'' then
        keep (ebind (fields_check payload (JOB_FIELDS @ [''first_run_at'']) [''title'', ''prompt''] False) (\<lambda>_.
          ebind (control_model ctl ''CreateScopedJobRequest'' (dset payload ''context_mode'' (js ''chat''))) (\<lambda>m. Inr [m])))
      else if action \<in> set [''job.update'', ''job.toggle''] then keep (job_args ctl action payload)
      else if action = ''approval.respond'' then
        ebind (approval_args ctl payload) (\<lambda>(key, args). Inr (key, args, None))
      else Inr (action, [], None))"

definition action_of :: "json \<Rightarrow> string option" where
  "action_of v = find (\<lambda>a. v = js a) ACTIONS"

definition dispatch :: "(rat \<Rightarrow> pystr) \<Rightarrow> 'm chat_controls \<Rightarrow> json \<Rightarrow> json \<Rightarrow> json \<Rightarrow> json \<Rightarrow> json
    \<Rightarrow> control_error + 'm invocation" where
  "dispatch fr ctl session action payload share request =
     ebind (control_identity session) (\<lambda>sid.
     case action_of action of
       None \<Rightarrow> Inl Forbidden
     | Some a \<Rightarrow> ebind (owned_payload fr payload) (\<lambda>p.
         ebind (action_call ctl a p share request) (\<lambda>(key, args, kw).
           if lit key \<notin> set (callbacks ctl) then Inl Forbidden
           else Inr \<lparr>inv_key = lit key, inv_session = sid, inv_args = args, inv_kwargs = kw\<rparr>)))"

section \<open>Confinement\<close>

text \<open>The native models a guest can reach, with the fields that may be set through each.\<close>

definition native_fields :: "(string \<times> string list) list" where
  "native_fields =
    [(''CodexGoalRequest'', GOAL_FIELDS),
     (''RunQueuedTurnNowRequest'', [''accept_deferred_queue_response'']),
     (''UpdateQueuedTurnRequest'', [''prompt'', ''expected_message_revision'']),
     (''MoveQueuedTurnRequest'', [''direction'', ''expected_adjacent_queued_id'']),
     (''UpdateSessionRequest'', SETTINGS_FIELDS),
     (''CreateScopedJobRequest'', JOB_FIELDS @ [''first_run_at'', ''context_mode'']),
     (''UpdateJobRequest'', JOB_FIELDS @ [''next_run_at'']),
     (''CodexInteractionResponseRequest'', [''response'']),
     (''ClaudeInteractionResponseRequest'', [''response''])]"

definition confined_model :: "'m chat_controls \<Rightarrow> 'm \<Rightarrow> bool" where
  "confined_model ctl m \<longleftrightarrow> (\<exists>name allowed validate fs.
     map_of native_fields name = Some allowed \<and> models ctl name = Some validate \<and> validate fs = Some m
   \<and> fst ` set fs \<subseteq> lit ` set allowed
   \<and> (if name = ''CreateScopedJobRequest'' then dget fs ''context_mode'' = js ''chat'' else True))"

text \<open>A text argument is the \<open>id\<close> or the \<open>prompt\<close> of the payload, and an \<open>id\<close> is a valid identity.\<close>

fun confined_arg :: "'m chat_controls \<Rightarrow> string \<Rightarrow> jdict \<Rightarrow> 'm control_arg \<Rightarrow> bool" where
  "confined_arg ctl a payload (ArgModel m) = confined_model ctl m"
| "confined_arg ctl a payload (ArgStr s) =
     (if a = ''turn.steer'' then dget payload ''prompt'' = JStr s
      else dget payload ''id'' = JStr s \<and> control_identity (JStr s) = Inr s)"

lemma control_model_confined:
  assumes "control_model ctl name fs = Inr arg" "map_of native_fields name = Some allowed"
    "fst ` set fs \<subseteq> lit ` set allowed" "name = ''CreateScopedJobRequest'' \<Longrightarrow> dget fs ''context_mode'' = js ''chat''"
  shows "confined_arg ctl a p arg"
proof -
  obtain validate where v: "models ctl name = Some validate" using assms(1) by (cases "models ctl name") (simp_all add: control_model_def)
  obtain m where m: "validate fs = Some m" using assms(1) by (cases "validate fs") (simp_all add: control_model_def v)
  have "arg = ArgModel m" using assms(1) by (simp add: control_model_def v m)
  then show ?thesis using assms(2-4) v m by (auto simp: confined_model_def)
qed

lemma fields_check_Inr:
  "fields_check p allowed required ne = Inr u \<longleftrightarrow>
     fst ` set p \<subseteq> lit ` set allowed \<and> list_all (dhas p) required \<and> (ne \<longrightarrow> p \<noteq> [])"
  by (auto simp: fields_check_def list_all_iff)

lemma control_identity_Inr: "control_identity v = Inr s \<longleftrightarrow> v = JStr s \<and> control_identity (JStr s) = Inr s"
  by (cases v) (auto simp: control_identity_def)

lemma id_arg_Inr:
  "id_arg p = Inr arg \<longleftrightarrow> (\<exists>s. arg = ArgStr s \<and> dget p ''id'' = JStr s \<and> control_identity (JStr s) = Inr s)"
  unfolding id_arg_def ebind_Inr_iff by (subst control_identity_Inr) auto

lemma id_arg_confined: "id_arg p = Inr arg \<Longrightarrow> a \<noteq> ''turn.steer'' \<Longrightarrow> confined_arg ctl a p arg"
  by (auto simp: id_arg_Inr)

lemma native_fields_simps:
  "map_of native_fields ''CodexGoalRequest'' = Some GOAL_FIELDS"
  "map_of native_fields ''RunQueuedTurnNowRequest'' = Some [''accept_deferred_queue_response'']"
  "map_of native_fields ''UpdateQueuedTurnRequest'' = Some [''prompt'', ''expected_message_revision'']"
  "map_of native_fields ''MoveQueuedTurnRequest'' = Some [''direction'', ''expected_adjacent_queued_id'']"
  "map_of native_fields ''UpdateSessionRequest'' = Some SETTINGS_FIELDS"
  "map_of native_fields ''CreateScopedJobRequest'' = Some (JOB_FIELDS @ [''first_run_at'', ''context_mode''])"
  "map_of native_fields ''UpdateJobRequest'' = Some (JOB_FIELDS @ [''next_run_at''])"
  "map_of native_fields ''CodexInteractionResponseRequest'' = Some [''response'']"
  "map_of native_fields ''ClaudeInteractionResponseRequest'' = Some [''response'']"
  by (simp_all add: native_fields_def)

lemmas model_confined = native_fields_simps [THEN control_model_confined [rotated], rotated, simplified]

lemma popped_confined:
  assumes "map_of native_fields name = Some allowed" "name \<noteq> ''CreateScopedJobRequest''"
    "control_model ctl name (dpop p ''id'') = Inr arg" "fst ` set p \<subseteq> insert (lit ''id'') (lit ` set allowed)"
  shows "confined_arg ctl a p arg"
  by (rule control_model_confined [OF assms(3,1)]) (use assms(2,4) in force)+

lemmas pop_confined = native_fields_simps(3,4,7) [THEN popped_confined, simplified]

lemmas args_confined = model_confined id_arg_confined

lemmas call_simps = ebind_Inr_iff fields_check_Inr

lemma plain_args_confined:
  "plain_args ctl action p = Inr args \<Longrightarrow> list_all (confined_arg ctl a p) args"
  unfolding plain_args_def
  by (auto simp: call_simps GOAL_FIELDS_def split: if_splits elim!: args_confined)

lemma target_args_confined:
  "target_args ctl action p = Inr args \<Longrightarrow> a \<noteq> ''turn.steer'' \<Longrightarrow> list_all (confined_arg ctl a p) args"
  unfolding target_args_def
  by (auto simp: call_simps split: if_splits elim!: args_confined)

lemma edit_args_confined:
  "edit_args ctl p = Inr args \<Longrightarrow> a \<noteq> ''turn.steer'' \<Longrightarrow> list_all (confined_arg ctl a p) args"
  unfolding edit_args_def
  by (auto simp: call_simps split: if_splits elim!: pop_confined id_arg_confined)

lemma move_args_confined:
  "move_args ctl p = Inr args \<Longrightarrow> a \<noteq> ''turn.steer'' \<Longrightarrow> list_all (confined_arg ctl a p) args"
  unfolding move_args_def
  by (auto simp: call_simps split: if_splits elim!: pop_confined id_arg_confined)

lemma job_args_confined:
  assumes "job_args ctl action p = Inr args" "a \<noteq> ''turn.steer''"
  shows "list_all (confined_arg ctl a p) args"
proof -
  have "fst ` set p \<subseteq> insert (lit ''id'') (insert (lit ''next_run_at'') (lit ` set JOB_FIELDS))"
  proof (cases "action = ''job.toggle''")
    case True
    then have "fst ` set p \<subseteq> {lit ''id'', lit ''enabled''}"
      using assms(1) by (simp add: job_args_def call_simps)
    then show ?thesis by (rule subset_trans) (simp add: JOB_FIELDS_def)
  next
    case False
    then show ?thesis using assms(1) by (auto simp: job_args_def call_simps)
  qed
  moreover obtain i m where "args = [i, m]" "id_arg p = Inr i" "control_model ctl ''UpdateJobRequest'' (dpop p ''id'') = Inr m"
    using assms(1) by (auto simp: job_args_def ebind_Inr_iff split: if_splits)
  ultimately show ?thesis using assms(2) by (auto elim!: id_arg_confined pop_confined)
qed

lemma approval_args_confined:
  assumes "approval_args ctl p = Inr (key, args)" "a \<noteq> ''turn.steer''"
  shows "list_all (confined_arg ctl a p) args" "key = ''approval.codex'' \<or> key = ''approval.claude''"
proof -
  obtain r where r: "dget p ''response'' = JObj r" using assms(1)
    by (cases "dget p ''response''") (auto simp: approval_args_def ebind_Inr_iff split: if_splits)
  show "list_all (confined_arg ctl a p) args"
    using assms by (auto simp: approval_args_def r call_simps Let_def split: if_splits elim!: args_confined)
  show "key = ''approval.codex'' \<or> key = ''approval.claude''"
    using assms(1) by (auto simp: approval_args_def r ebind_Inr_iff Let_def split: if_splits)
qed

lemma steer_args_Inr:
  assumes "steer_args p share request = Inr (args, kw)"
  obtains prompt sid rid where "args = [ArgStr prompt]" "kw = Some (sid, rid)" "dget p ''prompt'' = JStr prompt"
    "share = JStr sid" "share_id_re sid" "request = JStr rid" "request_id_re rid"
proof -
  have fc: "fields_check p [''prompt''] [''prompt''] False = Inr ()"
    using assms by (cases "fields_check p [''prompt''] [''prompt''] False") (simp_all add: steer_args_def)
  obtain prompt where 1: "dget p ''prompt'' = JStr prompt"
    using assms by (cases "dget p ''prompt''") (simp_all add: steer_args_def fc)
  have ne: "strip prompt \<noteq> []" using assms by (auto simp: steer_args_def fc 1)
  obtain sid where 2: "share = JStr sid" using assms by (cases share) (simp_all add: steer_args_def fc 1 ne)
  have s: "share_id_re sid" using assms by (auto simp: steer_args_def fc 1 2 ne split: if_splits)
  obtain rid where 3: "request = JStr rid" using assms by (cases request) (simp_all add: steer_args_def fc 1 2 s ne)
  show thesis using assms that [of prompt sid rid] by (auto simp: steer_args_def fc 1 2 3 s ne split: if_splits)
qed

text \<open>The callback keys an action may reach.\<close>

definition callback_keys :: "string \<Rightarrow> string list" where
  "callback_keys a = (if a = ''approval.respond'' then [''approval.codex'', ''approval.claude''] else [a])"

definition confined_call :: "'m chat_controls \<Rightarrow> string \<Rightarrow> jdict \<Rightarrow> json \<Rightarrow> json
    \<Rightarrow> string \<Rightarrow> 'm control_arg list \<Rightarrow> (pystr \<times> pystr) option \<Rightarrow> bool" where
  "confined_call ctl a payload share request key args kw \<longleftrightarrow>
     key \<in> set (callback_keys a) \<and> list_all (confined_arg ctl a payload) args
   \<and> (case kw of
        None \<Rightarrow> a \<noteq> ''turn.steer''
      | Some (sid, rid) \<Rightarrow> a = ''turn.steer'' \<and> share = JStr sid \<and> share_id_re sid \<and> request = JStr rid \<and> request_id_re rid)"

lemma dset_keys: "fst ` set (dset p k v) = insert (lit k) (fst ` set p)"
  by (simp add: dset_def)

lemma settings_confined:
  "fields_check p SETTINGS_FIELDS [] True = Inr u \<Longrightarrow> control_model ctl ''UpdateSessionRequest'' p = Inr m
    \<Longrightarrow> confined_arg ctl a p m"
  by (auto simp: fields_check_Inr elim!: args_confined)

lemma goal_confined:
  "fields_check p GOAL_FIELDS [] True = Inr u \<Longrightarrow> control_model ctl ''CodexGoalRequest'' p = Inr m
    \<Longrightarrow> confined_arg ctl a p m"
  by (auto simp: fields_check_Inr elim!: args_confined)

lemma job_create_confined:
  "fields_check p (JOB_FIELDS @ [''first_run_at'']) rs False = Inr u
    \<Longrightarrow> control_model ctl ''CreateScopedJobRequest'' (dset p ''context_mode'' (js ''chat'')) = Inr m
    \<Longrightarrow> confined_arg ctl a p m"
  by (erule control_model_confined [OF _ native_fields_simps(6)]) (auto simp: fields_check_Inr dset_keys)

lemma confined_callI:
  "list_all (confined_arg ctl a p) args \<Longrightarrow> a \<noteq> ''turn.steer'' \<Longrightarrow> a \<noteq> ''approval.respond''
    \<Longrightarrow> confined_call ctl a p share request a args None"
  by (simp add: confined_call_def callback_keys_def)

lemma action_call_confined:
  assumes "action_call ctl a p share request = Inr (key, args, kw)" "a \<in> set ACTIONS"
  shows "confined_call ctl a p share request key args kw"
proof -
  have "list_all (\<lambda>a. a \<in> set [''state'', ''turn.stop'', ''goal.delete'', ''goal.resume'', ''goal.pause''] \<or> a = ''turn.steer''
      \<or> a \<in> set [''queue.delete'', ''queue.run_now'', ''job.delete'', ''job.run''] \<or> a = ''queue.edit'' \<or> a = ''queue.move''
      \<or> a = ''settings.update'' \<or> a = ''goal.set'' \<or> a = ''job.create'' \<or> a \<in> set [''job.update'', ''job.toggle'']
      \<or> a = ''approval.respond'') ACTIONS"
    by (simp add: ACTIONS_def)
  note this [unfolded list_all_iff, THEN bspec, OF assms(2)]
  then consider "a \<in> set [''state'', ''turn.stop'', ''goal.delete'', ''goal.resume'', ''goal.pause'']" | "a = ''turn.steer''"
    | "a \<in> set [''queue.delete'', ''queue.run_now'', ''job.delete'', ''job.run'']"
    | "a = ''queue.edit''" | "a = ''queue.move''" | "a = ''settings.update''" | "a = ''goal.set''" | "a = ''job.create''"
    | "a \<in> set [''job.update'', ''job.toggle'']" | "a = ''approval.respond''"
    by (elim disjE) assumption+
  then show ?thesis
  proof cases
    case 1
    then have "plain_args ctl a p = Inr args" and r: "key = a" "kw = None"
      using assms(1) by (auto simp: action_call_def Let_def ebind_Inr_iff)
    from plain_args_confined [OF this(1)] show ?thesis unfolding r by (rule confined_callI) (use 1 in auto)
  next
    case 2
    then have "steer_args p share request = Inr (args, kw)" "key = a"
      using assms(1) by (auto simp: action_call_def Let_def ebind_Inr_iff)
    then show ?thesis using 2 by (elim steer_args_Inr) (simp add: confined_call_def callback_keys_def)
  next
    case 3
    then have "target_args ctl a p = Inr args" and r: "key = a" "kw = None"
      using assms(1) by (auto simp: action_call_def Let_def ebind_Inr_iff)
    from target_args_confined [OF this(1)] show ?thesis unfolding r by (intro confined_callI) (use 3 in auto)
  next
    case 4
    then have "edit_args ctl p = Inr args" and r: "key = a" "kw = None"
      using assms(1) by (auto simp: action_call_def Let_def ebind_Inr_iff)
    from edit_args_confined [OF this(1)] show ?thesis unfolding r by (intro confined_callI) (use 4 in auto)
  next
    case 5
    then have "move_args ctl p = Inr args" and r: "key = a" "kw = None"
      using assms(1) by (auto simp: action_call_def Let_def ebind_Inr_iff)
    from move_args_confined [OF this(1)] show ?thesis unfolding r by (intro confined_callI) (use 5 in auto)
  next
    case 6
    then obtain m where "args = [m]" "fields_check p SETTINGS_FIELDS [] True = Inr ()"
      "control_model ctl ''UpdateSessionRequest'' p = Inr m" and r: "key = a" "kw = None"
      using assms(1) by (simp add: action_call_def Let_def ebind_Inr_iff) blast
    then show ?thesis unfolding r using settings_confined by (intro confined_callI) (use 6 in auto)
  next
    case 7
    then obtain m where "args = [m]" "fields_check p GOAL_FIELDS [] True = Inr ()"
      "control_model ctl ''CodexGoalRequest'' p = Inr m" and r: "key = a" "kw = None"
      using assms(1) by (simp add: action_call_def Let_def ebind_Inr_iff) blast
    then show ?thesis unfolding r using goal_confined by (intro confined_callI) (use 7 in auto)
  next
    case 8
    then obtain m where "args = [m]" "fields_check p (JOB_FIELDS @ [''first_run_at'']) [''title'', ''prompt''] False = Inr ()"
      "control_model ctl ''CreateScopedJobRequest'' (dset p ''context_mode'' (js ''chat'')) = Inr m" and r: "key = a" "kw = None"
      using assms(1) by (simp add: action_call_def Let_def ebind_Inr_iff) blast
    then show ?thesis unfolding r using job_create_confined by (intro confined_callI) (use 8 in auto)
  next
    case 9
    then have "job_args ctl a p = Inr args" and r: "key = a" "kw = None"
      using assms(1) by (auto simp: action_call_def Let_def ebind_Inr_iff)
    from job_args_confined [OF this(1)] show ?thesis unfolding r by (intro confined_callI) (use 9 in auto)
  next
    case 10
    then have "approval_args ctl p = Inr (key, args)" "kw = None"
      using assms(1) by (auto simp: action_call_def Let_def ebind_Inr_iff)
    then show ?thesis using 10 approval_args_confined [of ctl p key args a]
      by (simp add: confined_call_def callback_keys_def)
  qed
qed

text \<open>C14. Whatever a guest sends, a native callback is invoked only for an installed key of one of the
  fixed actions, with the chat identity the server supplied; every request model it gets was validated
  from allow-listed fields of that model, jobs are created in chat context only, every text argument is
  the prompt or a well-formed id, and share and request ids are passed for steering only.\<close>

theorem dispatch_confined:
  assumes "dispatch fr ctl session action (JObj p) share request = Inr call"
  shows "session = JStr (inv_session call) \<and> control_identity session = Inr (inv_session call)
    \<and> inv_key call \<in> set (callbacks ctl)
    \<and> (\<exists>n. utf8_size (dumps (plain_opts fr) (JObj p)) = Some n \<and> n \<le> 65536)
    \<and> (\<exists>a \<in> set ACTIONS. action = js a
        \<and> (\<exists>key. inv_key call = lit key \<and> confined_call ctl a p share request key (inv_args call) (inv_kwargs call)))"
proof -
  obtain sid where sid: "control_identity session = Inr sid"
    using assms by (cases "control_identity session") (simp_all add: dispatch_def)
  obtain a where a: "action_of action = Some a"
    using assms by (cases "action_of action") (simp_all add: dispatch_def sid)
  obtain n where n: "utf8_size (dumps (plain_opts fr) (JObj p)) = Some n" "n \<le> 65536"
    using assms by (cases "utf8_size (dumps (plain_opts fr) (JObj p))")
      (auto simp del: dumps.simps simp: dispatch_def sid a owned_payload_def split: if_splits)
  then have "owned_payload fr (JObj p) = Inr p" by (simp del: dumps.simps add: owned_payload_def)
  then obtain key where k: "action_call ctl a p share request = Inr (key, inv_args call, inv_kwargs call)"
    "lit key \<in> set (callbacks ctl)" "inv_key call = lit key" "inv_session call = sid"
    using assms by (auto simp: dispatch_def sid a ebind_Inr_iff split: if_splits)
  have "a \<in> set ACTIONS" "action = js a" using a find_SomeD [of "\<lambda>a. action = js a" ACTIONS a] by (simp_all add: action_of_def)
  then show ?thesis
    using action_call_confined [OF k(1)] k sid n control_identity_Inr [of session sid] by auto
qed

lemma example_payload_size:
  "utf8_size (dumps (plain_opts (\<lambda>_. [])) (JObj [(lit ''id'', js ''j1'')])) = Some 12"
  by (simp add: plain_opts_def dumps_str_def escape_char_def lit_def utf8_size_def is_surrogate_def utf8_width_def)

lemma example_identity: "control_identity (js ''c1'') = Inr (lit ''c1'')" "control_identity (js ''j1'') = Inr (lit ''j1'')"
  by (simp_all add: control_identity_def lit_def is_alnum_def is_digit_def is_lower_def is_upper_def)

theorem dispatch_confined_witness:
  "\<exists>call. dispatch (\<lambda>_. []) \<lparr>callbacks = [lit ''job.delete''], models = \<lambda>_. None :: (jdict \<Rightarrow> unit option) option\<rparr>
     (js ''c1'') (js ''job.delete'') (JObj [(lit ''id'', js ''j1'')]) JNull JNull = Inr call
   \<and> inv_session call = lit ''c1'' \<and> inv_key call = lit ''job.delete'' \<and> inv_args call = [ArgStr (lit ''j1'')]"
proof -
  let ?ctl = "\<lparr>callbacks = [lit ''job.delete''], models = \<lambda>_. None :: (jdict \<Rightarrow> unit option) option\<rparr>"
  let ?p = "[(lit ''id'', js ''j1'')]"
  let ?call = "\<lparr>inv_key = lit ''job.delete'', inv_session = lit ''c1'', inv_args = [ArgStr (lit ''j1'')], inv_kwargs = None\<rparr> :: unit invocation"
  have *: "dispatch (\<lambda>_. []) ?ctl (js ''c1'') (js ''job.delete'') (JObj ?p) JNull JNull = Inr ?call"
    by (simp del: dumps.simps add: dispatch_def example_identity action_of_def ACTIONS_def owned_payload_def
        example_payload_size action_call_def Let_def target_args_def fields_check_def id_arg_def)
  have "js ''c1'' = JStr (inv_session ?call)" using dispatch_confined [OF *] by (rule conjunct1)
  then show ?thesis using * by (intro exI [of _ ?call]) simp
qed

end
