(* ===== verification/Public_Transcript.thy ===== *)
theory Public_Transcript
  imports Interfaces
begin

text \<open>
  The text projection of a chat for public snapshots: \<open>public_chat_transcript.py\<close> with the video
  descriptors of \<open>shared_chat_videos.py\<close>. An event projector hides internal runs and imported delivery
  segments; the reader turns a prefix of the event log into the messages of a snapshot and a digest
  that binds the source bytes and the messages.
\<close>

section \<open>Limits and errors\<close>

definition MAX_LINE_BYTES :: nat where
  "MAX_LINE_BYTES = 1024 * 1024"

definition MAX_RECORDS :: nat where
  "MAX_RECORDS = 100000"

definition MAX_MESSAGES :: nat where
  "MAX_MESSAGES = 1000"

definition MAX_SNAPSHOT_BOUNDARY :: nat where
  "MAX_SNAPSHOT_BOUNDARY = 2 ^ 53 - 1"

definition MAX_TEXT_BYTES :: nat where
  "MAX_TEXT_BYTES = 2 * 1024 * 1024"

definition MAX_MESSAGE_BYTES :: nat where
  "MAX_MESSAGE_BYTES = 256 * 1024"

definition MAX_UNIX_TIMESTAMP :: int where
  "MAX_UNIX_TIMESTAMP = 253402300799"

text \<open>The messages of \<open>PublicTranscriptError\<close>.\<close>

datatype transcript_error =
    Inconsistent_ownership | Invalid_run | Oversized_run | Metadata_limit | Invalid_boundary | Unavailable_history
  | Boundary_limit | Changed_preview | Timed_out | Record_too_large | Unreadable_record | Invalid_record
  | Invalid_event_type | Invalid_projection | Invalid_videos | Invalid_unicode | Message_too_large
  | Preview_too_large | No_text | Log_too_large | Too_many_records | Changed_history | Chat_too_large

section \<open>Video descriptors\<close>

definition video_types :: "string list" where
  "video_types = [''video/mp4'', ''video/webm'', ''video/quicktime'', ''video/ogg'']"

text \<open>\<open>video_[A-Za-z0-9_-]+\.[a-f0-9]{64}\<close>: the dot ends the run of the first class.\<close>

definition video_id_re :: "pystr \<Rightarrow> bool" where
  "video_id_re s \<longleftrightarrow> take 6 s = lit ''video_''
     \<and> (let body = takeWhile (\<lambda>c. is_alnum c \<or> c = 95 \<or> c = 45) (drop 6 s);
            rest = dropWhile (\<lambda>c. is_alnum c \<or> c = 95 \<or> c = 45) (drop 6 s)
        in body \<noteq> [] \<and> length rest = 65 \<and> take 1 rest = lit ''.'' \<and> list_all is_hexlow (drop 1 rest))"

definition simple_filename :: "pystr \<Rightarrow> bool" where
  "simple_filename name \<longleftrightarrow> 1 \<le> length name \<and> length name \<le> 255 \<and> name \<noteq> lit ''.'' \<and> name \<noteq> lit ''..''
     \<and> list_all (\<lambda>c. 32 \<le> c \<and> c \<noteq> 127 \<and> c \<noteq> 47 \<and> c \<noteq> 92) name
     \<and> (case utf8_size name of None \<Rightarrow> False | Some n \<Rightarrow> n \<le> 1024)"

definition video_ok :: "pystr list \<Rightarrow> jdict \<Rightarrow> pystr option" where
  "video_ok seen item =
     (case (dget item ''id'', dget item ''filename'', dget item ''content_type'', dget item ''size'') of
        (JStr i, JStr name, JStr kind, JInt n) \<Rightarrow>
          if dkeys_eq item [''id'', ''filename'', ''content_type'', ''size''] \<and> length i \<le> 1024 \<and> video_id_re i
             \<and> i \<notin> set seen \<and> simple_filename name \<and> kind \<in> set (map lit video_types) \<and> 0 < n \<and> n \<le> 2 ^ 53 - 1
          then Some i else None
      | _ \<Rightarrow> None)"

fun videos_loop :: "pystr list \<Rightarrow> jdict list \<Rightarrow> json list \<Rightarrow> jdict list option" where
  "videos_loop seen output [] = Some output"
| "videos_loop seen output (JObj item # rest) = (case video_ok seen item of
     None \<Rightarrow> None | Some i \<Rightarrow> videos_loop (i # seen) (output @ [item]) rest)"
| "videos_loop seen output (_ # rest) = None"

text \<open>\<open>None\<close> is the \<open>ValueError\<close> (a name with a lone surrogate raises one too).\<close>

definition normalize_shared_chat_videos :: "json \<Rightarrow> jdict list option" where
  "normalize_shared_chat_videos v = (case v of
     JArr xs \<Rightarrow> if 32 < length xs then None else videos_loop [] [] xs
   | _ \<Rightarrow> None)"

section \<open>Event predicates\<close>

definition is_goal_followup :: "jdict \<Rightarrow> bool" where
  "is_goal_followup e \<longleftrightarrow> dget e ''type'' = js ''turn_steered'' \<and> dget e ''native_goal_steer'' = JBool True
     \<and> dget e ''native_steer'' = JBool True \<and> dget e ''provider_user_authored'' = JBool True
     \<and> dget e ''backend'' = js ''codex'' \<and> dget e ''purpose'' = js ''codex_goal_resume''
     \<and> (case dget e ''run_id'' of JStr r \<Rightarrow> strip r \<noteq> [] | _ \<Rightarrow> False)"

text \<open>
  \<open>iso_time\<close> is \<open>datetime.fromisoformat(...).timestamp()\<close>, \<open>None\<close> for a malformed or naive time; its argument
  has a final \<open>Z\<close> replaced by \<open>+00:00\<close>. A longer string is not a number either.
\<close>

definition public_timestamp :: "(pystr \<Rightarrow> rat option) \<Rightarrow> json \<Rightarrow> json option" where
  "public_timestamp iso_time value =
     (let parsed = (case value of
            JStr s \<Rightarrow> if length s \<le> 64
                     then map_option JFloat (iso_time (if s \<noteq> [] \<and> last s = 90 then butlast s @ lit ''+00:00'' else s))
                     else Some value
          | _ \<Rightarrow> Some value)
      in case parsed of
           Some (JInt i) \<Rightarrow> if 0 \<le> i \<and> i \<le> MAX_UNIX_TIMESTAMP then Some (JInt i) else None
         | Some (JFloat r) \<Rightarrow> if 0 \<le> r \<and> r \<le> of_int MAX_UNIX_TIMESTAMP then Some (JFloat r) else None
         | _ \<Rightarrow> None)"

section \<open>Imported delivery envelopes\<close>

text \<open>\<open>text.replace("\r\n", "\n")\<close> and the last place of a substring.\<close>

fun crlf_to_lf :: "pystr \<Rightarrow> pystr" where
  "crlf_to_lf (a # b # s) = (if a = 13 \<and> b = 10 then 10 # crlf_to_lf s else a # crlf_to_lf (b # s))"
| "crlf_to_lf s = s"

text \<open>The pieces of the header pattern, each returning the rest of the text.\<close>

fun match_any :: "string list \<Rightarrow> pystr \<Rightarrow> (string \<times> pystr) option" where
  "match_any [] s = None"
| "match_any (w # ws) s = (if starts_with (lit w) s then Some (w, drop (length w) s) else match_any ws s)"

definition match_lit :: "string \<Rightarrow> pystr \<Rightarrow> pystr option" where
  "match_lit w s = (if starts_with (lit w) s then Some (drop (length w) s) else None)"

definition digits_val :: "pystr \<Rightarrow> nat" where
  "digits_val ds = foldl (\<lambda>n d. n * 10 + (d - 48)) 0 ds"

text \<open>\<open>[1-9][0-9]{0,5}\<close> in front of a character that is no digit, or \<open>0\<close> where it is allowed.\<close>

definition match_leg :: "bool \<Rightarrow> pystr \<Rightarrow> (nat \<times> pystr) option" where
  "match_leg zero s = (let ds = takeWhile is_digit s in
     if zero \<and> starts_with (lit ''0'') s then Some (0, drop 1 s)
     else if ds = [] \<or> hd ds = 48 \<or> 6 < length ds then None else Some (digits_val ds, drop (length ds) s))"

text \<open>\<open>(?: from=[^\[\]\r\n]{1,240})?\<close> in front of the closing bracket.\<close>

definition match_from :: "pystr \<Rightarrow> pystr option" where
  "match_from s = (case match_lit '' from='' s of
     None \<Rightarrow> Some s
   | Some r \<Rightarrow> let name = takeWhile (\<lambda>c. c \<noteq> 91 \<and> c \<noteq> 93 \<and> c \<noteq> 13 \<and> c \<noteq> 10) r in
       if 1 \<le> length name \<and> length name \<le> 240 then Some (drop (length name) r) else None)"

definition delivery_kinds :: "string list" where
  "delivery_kinds = [''instruction'', ''final_result'', ''request'', ''reply'', ''status'', ''message'']"

record delivery_header =
  header_kind :: string
  header_leg :: nat
  header_total :: nat

definition match_header :: "pystr \<Rightarrow> (delivery_header \<times> pystr) option" where
  "match_header text =
     Option.bind (match_lit ''[AgentsDock delivery kind='' text) (\<lambda>s.
     Option.bind (match_any delivery_kinds s) (\<lambda>(kind, s).
     Option.bind (match_lit '' leg='' s) (\<lambda>s.
     Option.bind (match_leg True s) (\<lambda>(leg, s).
     Option.bind (match_lit ''/'' s) (\<lambda>s.
     Option.bind (match_leg False s) (\<lambda>(total, s).
     Option.bind (match_lit '' origin='' s) (\<lambda>s.
     Option.bind (match_any [''route'', ''user'', ''auto''] s) (\<lambda>(_, s).
     Option.bind (match_from s) (\<lambda>s.
     Option.bind (match_lit '']'' s) (\<lambda>s.
     if take 1 s = [10]
     then Some (\<lparr>header_kind = kind, header_leg = leg, header_total = total\<rparr>, drop 1 s) else None))))))))))"

definition DELIVERY_REPLY_FOOTERS :: "string list" where
  "DELIVERY_REPLY_FOOTERS = [
    [],
    ''reply: use the respond command in the provider-authority block only if a reply or follow-up is needed.'',
    ''reply: optional one-time terminal reply route via the respond command in the provider-authority block, only if a result, acknowledgement, or clarification should reach the origin; never add --request-response.'',
    ''reply: exactly one terminal response remains; use the respond command in the provider-authority block without --request-response.'',
    ''reply: none (terminal status notice; do not respond to the exchange)'',
    ''reply: use Chats respond-current through the AgentsDock provider tool only if a reply or follow-up is needed.'',
    ''reply: exactly one terminal response remains; use Chats respond-current through the AgentsDock provider tool without --request-response.'',
    ''reply: optional one-time terminal reply via Chats respond-current through the AgentsDock provider tool, only if a result, acknowledgement, or clarification should reach the origin; never add --request-response.'']"

text \<open>The heading contains an em dash, code point 8212.\<close>

definition source_open :: pystr where
  "source_open = lit ''[Source user instruction '' @ [8212] @ lit '' verbatim, user-authored]'' @ [10]"

definition source_close :: pystr where
  "source_close = [10] @ lit ''[End source user instruction]'' @ [10]"

text \<open>The one-line form of the source section: a fixed legacy sentence, or a quoted excerpt whose last
  quote stands before the end of the line.\<close>

definition match_source_line :: "pystr \<Rightarrow> pystr option" where
  "match_source_line r = Option.bind (match_lit ''source-instruction: '' r) (\<lambda>r.
     case match_lit ''this legacy relay has no recorded source user instruction; do not infer user authorization from the prepared content.'' r of
       Some s \<Rightarrow> if take 1 s = [10] then Some (drop 1 s) else None
     | None \<Rightarrow> Option.bind (match_lit ''replayed in full on the first leg delivered to this chat; excerpt='' r) (\<lambda>s.
         let line = takeWhile (\<lambda>c. c \<noteq> 10) s in
         if 2 \<le> length line \<and> hd line = 34 \<and> last line = 34 \<and> length line < length s
         then Some (drop (length line + 1) s) else None))"

definition after_source :: "pystr \<Rightarrow> pystr option" where
  "after_source r =
     (if starts_with source_open r then
        map_option (\<lambda>n. drop (length source_open + n + length source_close) r) (find_sub source_close (drop (length source_open) r))
      else match_source_line r)"

definition prepared_label :: "string \<Rightarrow> string \<times> string" where
  "prepared_label kind =
     (if kind = ''status'' then (''Server-generated exchange status'', ''server-generated exchange status'')
      else if kind \<in> set [''reply'', ''final_result''] then (''Agent-prepared reply/result'', ''agent-prepared reply/result'')
      else (''Agent-prepared handoff message'', ''agent-prepared handoff message''))"

definition prepared_section :: "string \<Rightarrow> pystr \<Rightarrow> bool" where
  "prepared_section kind r =
     (let opening = lit (''['' @ fst (prepared_label kind) @ '']'') @ [10];
          closing = [10] @ lit (''[End '' @ snd (prepared_label kind) @ '']'')
      in starts_with opening r \<and> (case rfind_sub closing r of
           None \<Rightarrow> False
         | Some n \<Rightarrow> length opening \<le> n \<and> strip (take (n - length opening) (drop (length opening) r)) \<noteq> []
             \<and> strip (drop (n + length closing) r) \<in> set (map lit DELIVERY_REPLY_FOOTERS)))"

text \<open>\<open>remainder[a:-k]\<close> is empty when the header and the footer overlap.\<close>

definition complete_imported_delivery_envelope :: "pystr \<Rightarrow> bool" where
  "complete_imported_delivery_envelope prompt =
     (let text = strip (crlf_to_lf prompt);
          footer = [10] @ lit ''[End delivery]''
      in case match_header text of
           None \<Rightarrow> False
         | Some (h, r) \<Rightarrow>
             if header_total h < header_leg h \<or> (header_leg h = 0 \<and> header_kind h \<noteq> ''status'')
                \<or> \<not> starts_with (rev footer) (rev text) then False
             else (case after_source (take (length r - length footer) r) of
                     None \<Rightarrow> False
                   | Some rest \<Rightarrow> prepared_section (header_kind h) rest))"

section \<open>The event projector\<close>

text \<open>
  The callbacks the server injects: the visibility and ownership rules, the projection of provider
  events, and the removal of context blocks from a prompt (with the provider-history flag).
\<close>

record projector_env =
  env_session :: pystr
  event_is_visible :: "jdict \<Rightarrow> bool"
  event_files_belong :: "jdict \<Rightarrow> bool"
  project_provider_event :: "jdict \<Rightarrow> jdict"
  strip_user_context :: "pystr \<Rightarrow> bool \<Rightarrow> pystr"
  fork_internal_purposes :: "pystr list"

record projector_state =
  private_runs :: "pystr set"
  private_segments :: "pystr set"

definition new_projector :: projector_state where
  "new_projector = \<lparr>private_runs = {}, private_segments = {}\<rparr>"

definition internal_event :: "projector_env \<Rightarrow> jdict \<Rightarrow> bool" where
  "internal_event env e \<longleftrightarrow> dget e ''purpose'' \<in> {js ''handoff_digest'', js ''handoff_digest_delivery''}
     \<or> dget e ''cross_chat_exchange_status'' = JBool True \<or> dget e ''exchange_leg_kind'' = js ''status''
     \<or> (dget e ''forked'' = JBool True
        \<and> (case dget e ''purpose'' of JStr p \<Rightarrow> p \<in> set (fork_internal_purposes env) | _ \<Rightarrow> False))"

definition over_limit :: "projector_state \<Rightarrow> bool" where
  "over_limit st \<longleftrightarrow> MAX_RECORDS < card (private_runs st) + card (private_segments st)"

definition user_boundary :: "jdict \<Rightarrow> bool" where
  "user_boundary e \<longleftrightarrow> dget e ''type'' = js ''turn_started'' \<or> is_goal_followup e"

text \<open>\<open>owner is not None and owner not in {"", session_id}\<close> on strings.\<close>

definition owner_ok :: "projector_env \<Rightarrow> jdict \<Rightarrow> bool" where
  "owner_ok env e \<longleftrightarrow> dget e ''session_id'' \<in> {JNull, JStr [], JStr (env_session env)}"

definition mark_private :: "projector_env \<Rightarrow> jdict \<Rightarrow> pystr \<Rightarrow> projector_state \<Rightarrow> projector_state" where
  "mark_private env e run st =
     (let st = (if user_boundary e then st\<lparr>private_segments := private_segments st - {run}\<rparr> else st)
      in if \<not> internal_event env e then st
         else if run \<noteq> [] then st\<lparr>private_runs := insert run (private_runs st)\<rparr>
         else st\<lparr>private_segments := insert run (private_segments st)\<rparr>)"

definition imported_delivery :: "jdict \<Rightarrow> pystr \<Rightarrow> pystr \<Rightarrow> bool" where
  "imported_delivery e run prompt \<longleftrightarrow> dget e ''imported'' = JBool True \<and> starts_with (lit ''import_'') run
     \<and> dget e ''backend'' \<in> {js ''claude'', js ''codex''} \<and> complete_imported_delivery_envelope prompt"

definition project_prompt :: "projector_env \<Rightarrow> jdict \<Rightarrow> pystr \<Rightarrow> projector_state
    \<Rightarrow> projector_state \<times> (transcript_error + jdict option)" where
  "project_prompt env e run st =
     (let projected = project_provider_event env e in
      if \<not> user_boundary e then (st, Inr (Some projected))
      else case dget projected ''prompt'' of
        JStr p \<Rightarrow>
          let prompt = strip_user_context env p (dget e ''imported'' = JBool True) in
          if imported_delivery e run prompt then
            let st = st\<lparr>private_segments := insert run (private_segments st)\<rparr> in
            if over_limit st then (st, Inl Metadata_limit) else (st, Inr (Some (dset projected ''prompt'' (JStr []))))
          else (st, Inr (Some (dset projected ''prompt'' (JStr prompt))))
      | _ \<Rightarrow> (st, Inr (Some projected)))"

definition project :: "projector_env \<Rightarrow> projector_state \<Rightarrow> jdict
    \<Rightarrow> projector_state \<times> (transcript_error + jdict option)" where
  "project env st e =
     (if \<not> owner_ok env e then (st, Inl Inconsistent_ownership)
      else if \<not> event_files_belong env e then (st, Inr None)
      else case py_or (dget e ''run_id'') (JStr []) of
        JStr run \<Rightarrow>
          if 1024 < length run then (st, Inl Oversized_run)
          else let st = mark_private env e run st in
            if internal_event env e \<and> over_limit st then (st, Inl Metadata_limit)
            else if run \<in> private_runs st \<or> run \<in> private_segments st \<or> \<not> event_is_visible env e then (st, Inr None)
            else project_prompt env e run st
      | _ \<Rightarrow> (st, Inl Invalid_run))"

section \<open>Reading a transcript\<close>

text \<open>
  What the reader uses from outside: \<open>json.loads\<close> on a line (\<open>None\<close> for any of the caught errors), the
  projector with its state, \<open>hashlib.sha256\<close>, the parser of ISO times, \<open>repr\<close> for values that are no
  strings, and the float printer.
\<close>

record 's transcript_env =
  loads :: "bytes \<Rightarrow> json option"
  projector :: "'s \<Rightarrow> jdict \<Rightarrow> 's \<times> (transcript_error + json)"
  sha256 :: "bytes \<Rightarrow> bytes"
  iso_timestamp :: "pystr \<Rightarrow> rat option"
  py_repr :: "json \<Rightarrow> pystr"
  fl_repr :: "rat \<Rightarrow> pystr"

text \<open>\<open>stream.readline(n)\<close>: up to and including the next newline, at most \<open>n\<close> bytes.\<close>

fun readline :: "nat \<Rightarrow> bytes \<Rightarrow> bytes" where
  "readline 0 _ = []"
| "readline (Suc n) [] = []"
| "readline (Suc n) (b # bs) = (if b = NL then [b] else b # readline n bs)"

text \<open>Keys in ascending order, as with \<open>sort_keys=True\<close>.\<close>

fun key_less :: "pystr \<Rightarrow> pystr \<Rightarrow> bool" where
  "key_less [] ys = True"
| "key_less (x # xs) [] = False"
| "key_less (x # xs) (y # ys) = (x < y \<or> (x = y \<and> key_less xs ys))"

fun insert_key :: "pystr \<times> json \<Rightarrow> jdict \<Rightarrow> jdict" where
  "insert_key kv [] = [kv]"
| "insert_key kv (x # xs) = (if key_less (fst kv) (fst x) then kv # x # xs else x # insert_key kv xs)"

fun sort_keys :: "json \<Rightarrow> json" where
  "sort_keys (JArr xs) = JArr (map sort_keys xs)"
| "sort_keys (JObj d) = JObj (foldr insert_key (map (\<lambda>kv. (fst kv, sort_keys (snd kv))) d) [])"
| "sort_keys v = v"

text \<open>\<open>str(event.get("run_id") or "")\<close>.\<close>

definition run_name :: "(json \<Rightarrow> pystr) \<Rightarrow> jdict \<Rightarrow> pystr" where
  "run_name repr e = (case py_or (dget e ''run_id'') (JStr []) of JStr s \<Rightarrow> s | v \<Rightarrow> repr v)"

text \<open>The state of the loop. A hash object is the bytes fed to it; the entry of a run holds the digests of
  its texts, the joined text and the number of texts.\<close>

type_synonym run_output = "bytes list \<times> bytes \<times> nat"

record 's scan_state =
  scan_projector :: 's
  scan_outputs :: "(pystr \<times> run_output) list"
  scan_messages :: "json list"
  scan_digest :: bytes
  scan_serialized :: nat

definition new_scan :: "'s \<Rightarrow> 's scan_state" where
  "new_scan ps = \<lparr>scan_projector = ps, scan_outputs = [], scan_messages = [],
     scan_digest = [91], scan_serialized = 2\<rparr>"

definition readable_kinds :: "string list" where
  "readable_kinds = [''turn_started'', ''assistant_text'', ''turn_finished'', ''reasoning_summary'', ''artifact_created'']"

definition readable_event :: "jdict \<Rightarrow> bool" where
  "readable_event raw \<longleftrightarrow> (dget raw ''type'' \<in> js ` set readable_kinds \<or> is_goal_followup raw)
     \<and> (dget raw ''type'' = js ''reasoning_summary'' \<longrightarrow> dget raw ''phase'' = js ''commentary'')"

text \<open>The videos, role and text of a projected event; \<open>None\<close> as text where the event has none.\<close>

definition event_videos :: "json \<Rightarrow> jdict \<Rightarrow> transcript_error + jdict list" where
  "event_videos kind e =
     (if kind \<in> {js ''turn_started'', js ''artifact_created''} \<or> is_goal_followup e then
        (case normalize_shared_chat_videos (if dhas e ''shared_videos'' then dget e ''shared_videos'' else JArr []) of
           None \<Rightarrow> Inl Invalid_videos | Some vs \<Rightarrow> Inr vs)
      else Inr [])"

definition event_text :: "json \<Rightarrow> jdict \<Rightarrow> string \<times> json" where
  "event_text kind e =
     (if kind = js ''turn_started'' \<or> is_goal_followup e then (''user'', dget e ''prompt'')
      else if kind = js ''artifact_created'' then (''assistant'', JStr [])
      else (''assistant'', dget e (if kind = js ''turn_finished'' then ''result_text'' else ''text'')))"

definition enc :: "pystr \<Rightarrow> bytes" where
  "enc s = (case utf8_encode s of Some b \<Rightarrow> b | None \<Rightarrow> [])"

text \<open>Whether a final text repeats what the run already said.\<close>

definition repeats :: "(bytes \<Rightarrow> bytes) \<Rightarrow> run_output option \<Rightarrow> bytes \<Rightarrow> bool" where
  "repeats sha previous text = (case previous of
     None \<Rightarrow> False
   | Some (ds, joined, n) \<Rightarrow> sha text \<in> set ds \<or> sha text = sha joined)"

definition add_output :: "(bytes \<Rightarrow> bytes) \<Rightarrow> run_output option \<Rightarrow> bytes \<Rightarrow> run_output" where
  "add_output sha previous text = (case previous of
     None \<Rightarrow> ([sha text], text, 1)
   | Some (ds, joined, n) \<Rightarrow> (sha text # ds, joined @ (if n \<noteq> 0 then [32] else []) @ text, n + 1))"

definition transcript_message :: "string \<Rightarrow> pystr \<Rightarrow> jdict list \<Rightarrow> json option \<Rightarrow> json" where
  "transcript_message role text videos stamp =
     JObj ([(lit ''role'', js role), (lit ''text'', JStr text)]
       @ (if videos = [] then [] else [(lit ''videos'', JArr (map JObj videos))])
       @ (case stamp of None \<Rightarrow> [] | Some t \<Rightarrow> [(lit ''timestamp'', t)]))"

text \<open>Appending a message; \<open>streamed\<close> says that a sink receives the messages, which lifts the bound on
  the preview. The sink is taken to accept every message.\<close>

definition emit_message :: "'s transcript_env \<Rightarrow> bool \<Rightarrow> json \<Rightarrow> 's scan_state \<Rightarrow> transcript_error + 's scan_state" where
  "emit_message env streamed m st =
     (let encoded = enc (dumps (compact_opts False (fl_repr env)) (sort_keys m));
          more = scan_messages st \<noteq> [];
          size' = scan_serialized st + length encoded + (if more then 1 else 0)
      in if \<not> streamed \<and> MAX_TEXT_BYTES < size' then Inl Preview_too_large
         else Inr (st\<lparr>scan_messages := scan_messages st @ [m],
                scan_digest := scan_digest st @ (if more then [44] else []) @ encoded,
                scan_serialized := size'\<rparr>))"

text \<open>A projected event with its run, after the videos are checked: the next state and the message to
  append, if any.\<close>

definition text_step :: "'s transcript_env \<Rightarrow> json \<Rightarrow> jdict \<Rightarrow> pystr \<Rightarrow> jdict list \<Rightarrow> 's scan_state
    \<Rightarrow> transcript_error + 's scan_state \<times> json option" where
  "text_step env kind e run videos st =
     (let st = (if kind = js ''turn_started'' \<or> is_goal_followup e
                then st\<lparr>scan_outputs := AList.delete run (scan_outputs st)\<rparr> else st);
          text = (case snd (event_text kind e) of JStr t \<Rightarrow> Some t | _ \<Rightarrow> if videos = [] then None else Some [])
      in case text of
           None \<Rightarrow> Inr (st, None)
         | Some t \<Rightarrow>
             if strip t = [] \<and> videos = [] then Inr (st, None)
             else (case utf8_size t of
                 None \<Rightarrow> Inl Invalid_unicode
               | Some n \<Rightarrow>
                   if MAX_MESSAGE_BYTES < n then Inl Message_too_large
                   else let norm = enc (normalize_ws t);
                            previous = map_of (scan_outputs st) run;
                            once = ([sha256 env norm], norm, 1);
                            message = transcript_message (fst (event_text kind e)) t videos
                              (public_timestamp (iso_timestamp env) (dget e ''ts''))
                     in if kind = js ''turn_finished'' then
                          Inr (st\<lparr>scan_outputs := AList.update run once (scan_outputs st)\<rparr>,
                               if repeats (sha256 env) previous norm then None else Some message)
                        else if kind = js ''assistant_text'' then
                          Inr (st\<lparr>scan_outputs := AList.update run (add_output (sha256 env) previous norm) (scan_outputs st)\<rparr>,
                               Some message)
                        else Inr (st, Some message)))"

definition scan_text :: "'s transcript_env \<Rightarrow> bool \<Rightarrow> json \<Rightarrow> jdict \<Rightarrow> pystr \<Rightarrow> jdict list \<Rightarrow> 's scan_state
    \<Rightarrow> transcript_error + 's scan_state" where
  "scan_text env streamed kind e run videos st = ebind (text_step env kind e run videos st)
     (\<lambda>(st, message). case message of None \<Rightarrow> Inr st | Some m \<Rightarrow> emit_message env streamed m st)"

definition scan_event :: "'s transcript_env \<Rightarrow> bool \<Rightarrow> jdict \<Rightarrow> 's scan_state \<Rightarrow> transcript_error + 's scan_state" where
  "scan_event env streamed raw st =
     (let kind = dget raw ''type'' in
      if \<not> is_str kind then Inl Invalid_event_type
      else if \<not> readable_event raw then Inr st
      else case projector env (scan_projector st) raw of
        (ps, Inl err) \<Rightarrow> Inl err
      | (ps, Inr v) \<Rightarrow>
          let st = st\<lparr>scan_projector := ps\<rparr> in
          if \<not> truthy v then Inr st
          else (case v of
            JObj e \<Rightarrow>
              let run = run_name (py_repr env) e in
              if 1024 < length run then Inl Oversized_run
              else ebind (event_videos kind e) (\<lambda>videos. scan_text env streamed kind e run videos st)
          | _ \<Rightarrow> Inl Invalid_projection))"

definition scan_line :: "'s transcript_env \<Rightarrow> bool \<Rightarrow> bytes \<Rightarrow> 's scan_state \<Rightarrow> transcript_error + 's scan_state" where
  "scan_line env streamed line st = (case loads env line of
     None \<Rightarrow> Inl Unreadable_record
   | Some (JObj raw) \<Rightarrow> scan_event env streamed raw st
   | Some _ \<Rightarrow> Inl Invalid_record)"

text \<open>
  The loop over the lines: \<open>left\<close> is \<open>boundary - consumed\<close>, \<open>rest\<close> what the stream still holds, and
  \<open>late i\<close> tells whether the deadline has passed before line \<open>i\<close>.
\<close>

function scan_lines :: "'s transcript_env \<Rightarrow> bool \<Rightarrow> bool \<Rightarrow> (nat \<Rightarrow> bool) \<Rightarrow> nat \<Rightarrow> bytes \<Rightarrow> nat \<Rightarrow> nat \<Rightarrow> 's scan_state
    \<Rightarrow> transcript_error + (nat \<times> nat \<times> 's scan_state)" where
  "scan_lines env streamed through late i rest left consumed st =
     (if left = 0 then Inr (i, consumed, st)
      else if late i then Inl Timed_out
      else let line = readline (min (MAX_LINE_BYTES + 1) left) rest in
        if MAX_LINE_BYTES < length line then Inl Record_too_large
        else if line = [] \<or> last line \<noteq> NL then (if through then Inl Changed_preview else Inr (i, consumed, st))
        else (case scan_line env streamed line st of
            Inl err \<Rightarrow> Inl err
          | Inr st' \<Rightarrow> scan_lines env streamed through late (Suc i) (drop (length line) rest)
                        (left - length line) (consumed + length line) st'))"
  by pat_completeness auto
termination
  by (relation "measure (\<lambda>(env, streamed, through, late, i, rest, left, consumed, st). left)") auto

declare scan_lines.simps [simp del]

text \<open>What the reader observes of the file: its type, size and modification time when it is opened, the
  bytes that can be read, and size and modification time at the end.\<close>

record log_view =
  regular :: bool
  content :: bytes
  initial_size :: nat
  initial_mtime :: int
  final_size :: nat
  final_mtime :: int

record transcript =
  out_messages :: "json list"
  through_bytes :: nat
  digest :: bytes
  message_count :: "nat option"

text \<open>\<open>"agentsdock-public-chat-preview-v2"\<close> and a zero byte, in front of both digests.\<close>

definition confirmation :: "(bytes \<Rightarrow> bytes) \<Rightarrow> bytes \<Rightarrow> bytes \<Rightarrow> bytes" where
  "confirmation sha source projected =
     sha (enc (lit ''agentsdock-public-chat-preview-v2'') @ [0] @ sha source @ [0] @ sha (projected @ [93]))"

definition read_public_transcript :: "'s transcript_env \<Rightarrow> 's \<Rightarrow> (nat \<Rightarrow> bool) \<Rightarrow> log_view option \<Rightarrow> int option \<Rightarrow> bool
    \<Rightarrow> transcript_error + (transcript \<times> json list)" where
  "read_public_transcript env ps late file through streamed =
     (if (case through of None \<Rightarrow> False | Some t \<Rightarrow> t \<le> 0 \<or> int MAX_SNAPSHOT_BOUNDARY < t) then Inl Invalid_boundary
      else case file of
        None \<Rightarrow> Inl Unavailable_history
      | Some v \<Rightarrow>
          if \<not> regular v then Inl Unavailable_history
          else let boundary = (case through of None \<Rightarrow> initial_size v | Some t \<Rightarrow> nat t) in
            if MAX_SNAPSHOT_BOUNDARY < boundary then Inl Boundary_limit
            else if initial_size v < boundary then Inl Changed_preview
            else ebind (scan_lines env streamed (through \<noteq> None) late 0 (content v) boundary 0 (new_scan ps))
              (\<lambda>(i, consumed, st).
                if late (Suc i) then Inl Timed_out
                else if final_size v < initial_size v
                     \<or> (final_size v = initial_size v \<and> final_mtime v \<noteq> initial_mtime v) then Inl Changed_preview
                else if scan_messages st = [] then Inl No_text
                else Inr (\<lparr>out_messages = (if streamed then [] else scan_messages st), through_bytes = consumed,
                       digest = confirmation (sha256 env) (take consumed (content v)) (scan_digest st),
                       message_count = (if streamed then Some (length (scan_messages st)) else None)\<rparr>,
                     if streamed then scan_messages st else [])))"

section \<open>Private runs stay private\<close>

text \<open>The event's run, when it is a string.\<close>

definition event_run :: "jdict \<Rightarrow> pystr option" where
  "event_run e = (case py_or (dget e ''run_id'') (JStr []) of JStr run \<Rightarrow> Some run | _ \<Rightarrow> None)"

text \<open>The states and results of a projector over a log.\<close>

fun project_all :: "projector_env \<Rightarrow> projector_state \<Rightarrow> jdict list
    \<Rightarrow> projector_state \<times> (transcript_error + jdict option) list" where
  "project_all env st [] = (st, [])"
| "project_all env st (e # es) =
     (case project env st e of (st', r) \<Rightarrow> case project_all env st' es of (st'', rs) \<Rightarrow> (st'', r # rs))"

lemma mark_private_runs: "private_runs st \<subseteq> private_runs (mark_private env e run st)"
  by (auto simp: mark_private_def Let_def)

lemma project_prompt_runs: "private_runs (fst (project_prompt env e run st)) = private_runs st"
  by (simp add: project_prompt_def Let_def split: json.split)

lemma project_cases:
  obtains "fst (project env st e) = st" "\<And>d. snd (project env st e) \<noteq> Inr (Some d)"
  | run where "event_run e = Some run" "owner_ok env e" "event_files_belong env e" "length run \<le> 1024"
      "project env st e = (let st = mark_private env e run st in
         if internal_event env e \<and> over_limit st then (st, Inl Metadata_limit)
         else if run \<in> private_runs st \<or> run \<in> private_segments st \<or> \<not> event_is_visible env e then (st, Inr None)
         else project_prompt env e run st)"
proof -
  show thesis
  proof (cases "owner_ok env e \<and> event_files_belong env e")
    case False
    then show thesis by (intro that(1)) (auto simp: project_def)
  next
    case True
    show thesis
    proof (cases "py_or (dget e ''run_id'') (JStr [])")
      case (JStr run)
      show thesis
      proof (cases "length run \<le> 1024")
        case le: True
        then show thesis using True by (intro that(2) [of run]) (simp_all add: project_def event_run_def JStr)
      next
        case False
        then show thesis by (intro that(1)) (simp_all add: project_def True JStr)
      qed
    qed (use True in \<open>auto intro!: that(1) simp: project_def\<close>)
  qed
qed

text \<open>A run is concealed when it is private, or its segment is private and the event opens no new one.\<close>

lemma project_conceals:
  assumes "r \<in> private_runs st \<or> r \<in> private_segments st \<and> \<not> user_boundary e" "event_run e = Some r"
  shows "snd (project env st e) \<noteq> Inr (Some d)"
proof (cases rule: project_cases [of env st e])
  case (2 run)
  have "r \<in> private_runs (mark_private env e r st) \<or> r \<in> private_segments (mark_private env e r st)"
    using assms(1) by (auto simp: mark_private_def Let_def)
  then show ?thesis using 2 assms(2) by (auto simp: Let_def)
qed simp

lemma project_keeps_runs: "private_runs st \<subseteq> private_runs (fst (project env st e))"
proof (cases rule: project_cases [of env st e])
  case (2 run)
  then show ?thesis using mark_private_runs [of st env e run] by (auto simp: Let_def project_prompt_runs)
qed simp

lemma project_prompt_segments:
  "private_segments st \<subseteq> private_segments (fst (project_prompt env e run st))"
  by (auto simp: project_prompt_def Let_def split: json.split)

lemma project_keeps_segment:
  assumes "r \<in> private_segments st" "event_run e = Some r \<Longrightarrow> \<not> user_boundary e"
  shows "r \<in> private_segments (fst (project env st e))"
proof (cases rule: project_cases [of env st e])
  case (2 run)
  have "r \<in> private_segments (mark_private env e run st)"
    using assms 2(1) by (auto simp: mark_private_def Let_def)
  then show ?thesis using 2(5) project_prompt_segments by (fastforce simp: Let_def)
qed (use assms in simp)

definition conceals :: "pystr \<Rightarrow> jdict \<Rightarrow> transcript_error + jdict option \<Rightarrow> bool" where
  "conceals r e res \<longleftrightarrow> event_run e \<noteq> Some r \<or> (case res of Inr (Some _) \<Rightarrow> False | _ \<Rightarrow> True)"

lemma concealsI: "(\<And>d. event_run e = Some r \<Longrightarrow> res \<noteq> Inr (Some d)) \<Longrightarrow> conceals r e res"
  by (auto simp: conceals_def split: sum.split option.split)

lemma project_all_conceals:
  assumes "r \<in> private_runs st \<or> r \<in> private_segments st \<and> list_all (\<lambda>e. event_run e = Some r \<longrightarrow> \<not> user_boundary e) es"
  shows "list_all2 (conceals r) es (snd (project_all env st es))"
  using assms
proof (induction es arbitrary: st)
  case (Cons e es)
  obtain st' res where p: "project env st e = (st', res)" by fastforce
  have "conceals r e res"
    using project_conceals [of r st e env] Cons.prems p by (intro concealsI) auto
  moreover have "r \<in> private_runs st' \<or> r \<in> private_segments st' \<and> list_all (\<lambda>e. event_run e = Some r \<longrightarrow> \<not> user_boundary e) es"
    using Cons.prems project_keeps_runs [of st env e] project_keeps_segment [of r st e env] p by auto
  then have "list_all2 (conceals r) es (snd (project_all env st' es))" by (rule Cons.IH)
  ultimately show ?case by (simp add: p case_prod_beta)
qed simp

definition admitted :: "projector_env \<Rightarrow> jdict \<Rightarrow> bool" where
  "admitted env e \<longleftrightarrow> owner_ok env e \<and> event_files_belong env e
     \<and> (case event_run e of None \<Rightarrow> False | Some run \<Rightarrow> length run \<le> 1024)"

lemma project_admitted:
  assumes "admitted env e" "event_run e = Some run"
  shows "project env st e = (let st = mark_private env e run st in
         if internal_event env e \<and> over_limit st then (st, Inl Metadata_limit)
         else if run \<in> private_runs st \<or> run \<in> private_segments st \<or> \<not> event_is_visible env e then (st, Inr None)
         else project_prompt env e run st)"
proof -
  have "py_or (dget e ''run_id'') (JStr []) = JStr run"
    using assms(2) by (cases "py_or (dget e ''run_id'') (JStr [])") (simp_all add: event_run_def)
  then show ?thesis using assms by (simp add: admitted_def project_def)
qed

text \<open>C22. From the first status or digest event of a named run on, no event of that run is projected, even
  one that carries no purpose of its own.\<close>

theorem internal_run_concealed:
  assumes "admitted env e" "event_run e = Some r" "r \<noteq> []" "internal_event env e"
  shows "list_all2 (conceals r) (e # es) (snd (project_all env st (e # es)))"
proof -
  obtain st' res where p: "project env st e = (st', res)" by fastforce
  have m: "r \<in> private_runs (mark_private env e r st)" using assms(3,4) by (simp add: mark_private_def Let_def)
  then have "conceals r e res"
    using project_admitted [OF assms(1,2), of st] p by (intro concealsI) (auto simp: Let_def split: if_splits)
  moreover have "r \<in> private_runs st'"
    using project_admitted [OF assms(1,2), of st] p m
    by (auto simp: Let_def split: if_splits)
  ultimately show ?thesis using project_all_conceals [of r st' es env] by (simp add: p case_prod_beta)
qed

text \<open>An imported prompt that is a complete delivery envelope is projected with an empty prompt, and until
  the next user boundary of its run no event of that run is projected.\<close>

lemma imported_delivery_concealed:
  assumes "admitted env e" "event_run e = Some r" "user_boundary e" "\<not> internal_event env e"
    and "dget (project_provider_event env e) ''prompt'' = JStr p"
    and "imported_delivery e r (strip_user_context env p True)"
    and "project env st e = (st', Inr (Some d))"
    and "list_all (\<lambda>e. event_run e = Some r \<longrightarrow> \<not> user_boundary e) es"
  shows "dget d ''prompt'' = JStr [] \<and> list_all2 (conceals r) es (snd (project_all env st' es))"
proof -
  have "dget e ''imported'' = JBool True" using assms(6) by (simp add: imported_delivery_def)
  then have "project_prompt env e r s = (let t = s\<lparr>private_segments := insert r (private_segments s)\<rparr> in
      if over_limit t then (t, Inl Metadata_limit)
      else (t, Inr (Some (dset (project_provider_event env e) ''prompt'' (JStr [])))))" for s
    using assms(3,5,6) by (simp add: project_prompt_def Let_def)
  then have "d = dset (project_provider_event env e) ''prompt'' (JStr [])" "r \<in> private_segments st'"
    using project_admitted [OF assms(1,2), of st] assms(7) by (auto simp: Let_def split: if_splits)
  then show ?thesis using project_all_conceals [of r st' es env] assms(8) by simp
qed

text \<open>A server-authored status turn and the text of its run.\<close>

definition example_env :: projector_env where
  "example_env = \<lparr>env_session = lit ''s'', event_is_visible = \<lambda>_. True, event_files_belong = \<lambda>_. True,
     project_provider_event = \<lambda>e. e, strip_user_context = \<lambda>p _. p, fork_internal_purposes = []\<rparr>"

definition example_status :: jdict where
  "example_status = [(lit ''type'', js ''turn_started''), (lit ''run_id'', js ''r1''), (lit ''exchange_leg_kind'', js ''status'')]"

definition example_text :: jdict where
  "example_text = [(lit ''type'', js ''assistant_text''), (lit ''run_id'', js ''r1''), (lit ''text'', js ''hi'')]"

lemma example_admitted:
  "admitted example_env example_status" "event_run example_status = Some (lit ''r1'')"
  "event_run example_text = Some (lit ''r1'')" "internal_event example_env example_status"
  by (simp_all add: admitted_def example_env_def example_status_def example_text_def owner_ok_def event_run_def
      py_or_def internal_event_def)

theorem internal_run_concealed_witness:
  "list_all2 (conceals (lit ''r1'')) [example_status, example_text]
     (snd (project_all example_env new_projector [example_status, example_text]))"
  using internal_run_concealed [OF example_admitted(1,2) _ example_admitted(4), of "[example_text]" new_projector] by simp

definition example_prompt :: pystr where
  "example_prompt = lit ''[AgentsDock delivery kind=reply leg=1/2 origin=user]'' @ [10]
     @ lit ''source-instruction: replayed in full on the first leg delivered to this chat; excerpt='' @ [34, 34, 10]
     @ lit ''[Agent-prepared reply/result]'' @ [10] @ lit ''ok'' @ [10] @ lit ''[End agent-prepared reply/result]''
     @ [10] @ lit ''[End delivery]''"

definition example_delivery :: jdict where
  "example_delivery = [(lit ''type'', js ''turn_started''), (lit ''run_id'', js ''import_1''), (lit ''imported'', JBool True),
     (lit ''backend'', js ''claude''), (lit ''prompt'', JStr example_prompt)]"

definition example_reply :: jdict where
  "example_reply = [(lit ''type'', js ''assistant_text''), (lit ''run_id'', js ''import_1''), (lit ''text'', js ''hi'')]"

lemma example_envelope: "complete_imported_delivery_envelope example_prompt"
  unfolding complete_imported_delivery_envelope_def example_prompt_def
  by (simp add: lit_def strip_def rstrip_def lstrip_def is_space_def match_header_def match_lit_def starts_with_def
      delivery_kinds_def match_leg_def is_digit_def digits_val_def match_from_def Let_def
      after_source_def source_open_def match_source_line_def prepared_section_def prepared_label_def
      rfind_sub.simps DELIVERY_REPLY_FOOTERS_def)

lemma example_delivery_facts:
  "admitted example_env example_delivery" "event_run example_delivery = Some (lit ''import_1'')"
  "user_boundary example_delivery" "\<not> internal_event example_env example_delivery"
  "dget (project_provider_event example_env example_delivery) ''prompt'' = JStr example_prompt"
  "imported_delivery example_delivery (lit ''import_1'') (strip_user_context example_env example_prompt True)"
proof -
  have "starts_with (lit ''import_'') (lit ''import_1'')" by (simp add: starts_with_def lit_def)
  then show "imported_delivery example_delivery (lit ''import_1'') (strip_user_context example_env example_prompt True)"
    using example_envelope by (simp add: imported_delivery_def example_env_def example_delivery_def)
qed (simp_all add: admitted_def example_env_def example_delivery_def owner_ok_def event_run_def py_or_def
    internal_event_def user_boundary_def)

end
