(* ===== verification/Transcript_Preview.thy ===== *)
theory Transcript_Preview
  imports Public_Transcript
begin

text \<open>
  What a reviewed preview is worth: reading the same prefix again, after the log has grown, gives the
  same messages and the same digest, also when the messages are streamed to a share.
\<close>

section \<open>Lines\<close>

lemma length_readline: "length (readline n bs) \<le> n \<and> length (readline n bs) \<le> length bs"
  by (induction n bs rule: readline.induct) auto

text \<open>A complete line is read whole from any longer stream with at least as much room.\<close>

lemma readline_extend:
  assumes "readline n bs \<noteq> []" "last (readline n bs) = NL" "length (readline n bs) \<le> m"
  shows "readline m (bs @ later) = readline n bs"
  using assms
proof (induction n bs arbitrary: m rule: readline.induct)
  case (3 n b bs)
  then obtain k where m: "m = Suc k" by (cases m) auto
  show ?case
  proof (cases "b = NL")
    case False
    then have ne: "readline n bs \<noteq> []" using 3(3) by auto
    then show ?thesis using 3(1) [of k] 3(3,4) False m by simp
  qed (simp add: m)
qed simp_all

lemma readline_cong: "take n bs = take n bs' \<Longrightarrow> readline n bs = readline n bs'"
proof (induction n bs arbitrary: bs' rule: readline.induct)
  case (2 n)
  then show ?case by (cases bs') auto
next
  case (3 n b bs)
  then show ?case by (cases bs') auto
qed simp

lemma scan_lines_mono:
  "scan_lines env streamed through late i rest left consumed st = Inr (j, consumed', st')
    \<Longrightarrow> consumed \<le> consumed' \<and> consumed' \<le> consumed + left \<and> i \<le> j \<and> consumed' - consumed \<le> length rest"
proof (induction env streamed through late i rest left consumed st rule: scan_lines.induct)
  case (1 env streamed through late i rest left consumed st)
  let ?line = "readline (min (MAX_LINE_BYTES + 1) left) rest"
  have len: "length ?line \<le> left" "length ?line \<le> length rest"
    using length_readline [of "min (MAX_LINE_BYTES + 1) left" rest] by auto
  show ?case
  proof (cases "left = 0 \<or> late i \<or> MAX_LINE_BYTES < length ?line \<or> ?line = [] \<or> last ?line \<noteq> NL")
    case True
    then show ?thesis using 1(2) by (subst (asm) scan_lines.simps) (auto simp: Let_def split: if_splits)
  next
    case False
    then obtain st1 where st1: "scan_line env streamed ?line st = Inr st1"
      using 1(2) by (subst (asm) scan_lines.simps) (cases "scan_line env streamed ?line st", auto simp: Let_def)
    then have "scan_lines env streamed through late (Suc i) (drop (length ?line) rest) (left - length ?line)
        (consumed + length ?line) st1 = Inr (j, consumed', st')"
      using 1(2) False by (subst (asm) scan_lines.simps) (simp add: Let_def)
    from 1(1) [OF _ _ refl _ _ st1 this] False len show ?thesis by auto
  qed
qed

text \<open>Streaming only lifts the bound on the preview.\<close>

lemma emit_message_streamed:
  "emit_message env False m st = Inr st' \<Longrightarrow> emit_message env s m st = Inr st'"
  by (auto simp: emit_message_def Let_def split: if_splits)

lemma scan_text_streamed:
  "scan_text env False kind e run videos st = Inr st' \<Longrightarrow> scan_text env s kind e run videos st = Inr st'"
proof -
  assume run: "scan_text env False kind e run videos st = Inr st'"
  then obtain st1 m where "text_step env kind e run videos st = Inr (st1, m)"
    by (auto simp: scan_text_def ebind_Inr_iff)
  then show ?thesis using run by (cases m) (auto simp: scan_text_def dest: emit_message_streamed)
qed

lemma scan_event_streamed:
  assumes "scan_event env False raw st = Inr st'"
  shows "scan_event env s raw st = Inr st'"
proof -
  obtain ps r where p: "projector env (scan_projector st) raw = (ps, r)" by fastforce
  show ?thesis
  proof (cases "\<exists>e. r = Inr (JObj e)")
    case True
    then obtain e where "r = Inr (JObj e)" ..
    with assms p show ?thesis
      by (auto simp: scan_event_def Let_def ebind_Inr_iff split: if_splits dest: scan_text_streamed)
  next
    case False
    then have "scan_event env s raw st = scan_event env False raw st"
    proof (cases r)
      case (Inr v)
      then show ?thesis using False p by (cases v) (simp_all add: scan_event_def Let_def)
    qed (use p in \<open>simp add: scan_event_def Let_def\<close>)
    then show ?thesis using assms by simp
  qed
qed

lemma scan_line_streamed: "scan_line env False line st = Inr st' \<Longrightarrow> scan_line env s line st = Inr st'"
proof -
  assume run: "scan_line env False line st = Inr st'"
  then obtain v where v: "loads env line = Some v" by (cases "loads env line") (simp_all add: scan_line_def)
  show ?thesis using run scan_event_streamed [of env _ st st' s] by (cases v) (simp_all add: scan_line_def v)
qed

lemma scan_lines_step:
  assumes "left \<noteq> 0" "\<not> late i" "line = readline (min (MAX_LINE_BYTES + 1) left) rest"
    "length line \<le> MAX_LINE_BYTES" "line \<noteq> []" "last line = NL" "scan_line env streamed line st = Inr st1"
  shows "scan_lines env streamed through late i rest left consumed st =
     scan_lines env streamed through late (Suc i) (drop (length line) rest) (left - length line) (consumed + length line) st1"
  using assms by (subst scan_lines.simps) (simp add: Let_def)

text \<open>A scan that got as far as \<open>consumed'\<close> gets exactly as far when it is told to stop there.\<close>

lemma scan_lines_prefix:
  assumes "scan_lines env s through late i rest left consumed st = Inr (j, consumed', st')"
    "\<forall>k. \<not> late' k" "\<forall>line st st'. scan_line env s line st = Inr st' \<longrightarrow> scan_line env s' line st = Inr st'"
  shows "\<exists>j'. scan_lines env s' through' late' i' (take (consumed' - consumed) rest @ later) (consumed' - consumed) consumed st
    = Inr (j', consumed', st')"
  using assms
proof (induction env s through late i rest left consumed st arbitrary: i' rule: scan_lines.induct)
  case (1 env s through late i rest left consumed st)
  let ?line = "readline (min (MAX_LINE_BYTES + 1) left) rest"
  show ?case
  proof (cases "left = 0 \<or> late i \<or> MAX_LINE_BYTES < length ?line \<or> ?line = [] \<or> last ?line \<noteq> NL")
    case True
    then have "consumed' = consumed" "st' = st"
      using 1(2) by (subst (asm) scan_lines.simps, auto simp: Let_def split: if_splits)+
    then show ?thesis by (subst scan_lines.simps) simp
  next
    case False
    then obtain st1 where st1: "scan_line env s ?line st = Inr st1"
      using 1(2) by (subst (asm) scan_lines.simps) (cases "scan_line env s ?line st", auto simp: Let_def)
    have next_lines: "scan_lines env s through late (Suc i) (drop (length ?line) rest) (left - length ?line)
        (consumed + length ?line) st1 = Inr (j, consumed', st')"
      using 1(2) False st1 by (subst (asm) scan_lines.simps) (simp add: Let_def)
    have len: "length ?line \<le> consumed' - consumed" "consumed' - consumed \<le> length rest"
      using scan_lines_mono [OF next_lines] length_readline [of "min (MAX_LINE_BYTES + 1) left" rest]
      unfolding length_drop by linarith+
    let ?k = "consumed' - consumed"
    let ?rest = "take ?k rest @ later"
    have line': "?line = readline (min (MAX_LINE_BYTES + 1) ?k) ?rest"
    proof -
      have "readline (min (MAX_LINE_BYTES + 1) ?k) ?rest = readline (min (MAX_LINE_BYTES + 1) ?k) rest"
        by (rule readline_cong) (use len(2) in simp)
      also have "\<dots> = ?line"
        by (rule readline_extend [of _ _ _ "[]", unfolded append_Nil2]) (use False len(1) in auto)
      finally show ?thesis ..
    qed
    have "drop (length ?line) ?rest = take (consumed' - (consumed + length ?line)) (drop (length ?line) rest) @ later"
      using len by (simp add: drop_take)
    moreover have "\<exists>j'. scan_lines env s' through' late' (Suc i') (take (consumed' - (consumed + length ?line)) (drop (length ?line) rest) @ later)
        (consumed' - (consumed + length ?line)) (consumed + length ?line) st1 = Inr (j', consumed', st')"
      by (rule 1(1) [OF _ _ refl _ _ st1 next_lines 1(3,4)]) (use False in auto)
    moreover have "scan_lines env s' through' late' i' ?rest ?k consumed st =
        scan_lines env s' through' late' (Suc i') (drop (length ?line) ?rest) (?k - length ?line) (consumed + length ?line) st1"
    proof (rule scan_lines_step [OF _ _ line'])
      show "scan_line env s' ?line st = Inr st1" using 1(4) st1 by blast
    qed (use False len(1) 1(3) in auto)
    ultimately show ?thesis by simp
  qed
qed

lemma scan_lines_progress:
  assumes "scan_lines env s through late i rest left consumed st = Inr (j, consumed, st')"
  shows "st' = st"
proof -
  obtain j' where "scan_lines env s False (\<lambda>_. False) i (take 0 rest @ []) 0 consumed st = Inr (j', consumed, st')"
    using scan_lines_prefix [OF assms, of "\<lambda>_. False" s False i "[]"] by auto
  then show ?thesis by (subst (asm) scan_lines.simps) simp
qed

text \<open>The log as it is read again: the reviewed prefix is unchanged, anything may follow, and the file
  is stable while it is read.\<close>

definition regrown :: "nat \<Rightarrow> log_view \<Rightarrow> log_view \<Rightarrow> bool" where
  "regrown n v v' \<longleftrightarrow> regular v' \<and> (\<exists>later. content v' = take n (content v) @ later) \<and> n \<le> initial_size v'
     \<and> initial_size v' \<le> final_size v' \<and> (final_size v' = initial_size v' \<longrightarrow> final_mtime v' = initial_mtime v')"

text \<open>C20. A reviewed preview binds what is shared: when its prefix is read again by a fresh projector, within
  the time limit, after the log has grown, the reader accepts the boundary and yields the same messages
  and the same digest, whether they are returned or streamed into a share.\<close>

theorem preview_stable:
  assumes "read_public_transcript env ps late (Some v) None False = Inr (t, [])"
    and "regrown (through_bytes t) v v'" and "\<forall>k. \<not> late' k"
  shows "read_public_transcript env ps late' (Some v') (Some (int (through_bytes t))) streamed =
    Inr (if streamed then (\<lparr>out_messages = [], through_bytes = through_bytes t, digest = digest t,
                             message_count = Some (length (out_messages t))\<rparr>, out_messages t)
         else (t, []))"
proof -
  obtain i c st where sc: "scan_lines env False False late 0 (content v) (initial_size v) 0 (new_scan ps) = Inr (i, c, st)"
      and ne: "scan_messages st \<noteq> []" and b: "initial_size v \<le> MAX_SNAPSHOT_BOUNDARY"
      and t: "t = \<lparr>out_messages = scan_messages st, through_bytes = c,
        digest = confirmation (sha256 env) (take c (content v)) (scan_digest st), message_count = None\<rparr>"
    using assms(1) by (auto simp: read_public_transcript_def Let_def ebind_Inr_iff split: if_splits)
  have c: "through_bytes t = c" by (simp add: t)
  obtain later where v': "regular v'" "content v' = take c (content v) @ later" "c \<le> initial_size v'"
      "initial_size v' \<le> final_size v'" "final_size v' = initial_size v' \<longrightarrow> final_mtime v' = initial_mtime v'"
    using assms(2) unfolding regrown_def c by blast
  have "c \<noteq> 0"
  proof
    assume "c = 0"
    then have "st = new_scan ps" using scan_lines_progress sc by metis
    then show False using ne by (simp add: new_scan_def)
  qed
  moreover have "c \<le> initial_size v" "c \<le> length (content v)" using scan_lines_mono [OF sc] by auto
  moreover have "\<forall>line st st'. scan_line env False line st = Inr st' \<longrightarrow> scan_line env streamed line st = Inr st'"
    using scan_line_streamed by blast
  from scan_lines_prefix [OF sc assms(3) this, of True 0 later]
  obtain j where "scan_lines env streamed True late' 0 (content v') c 0 (new_scan ps) = Inr (j, c, st)"
    using v'(2) by auto
  ultimately show ?thesis
    using b v' assms(3) ne by (auto simp: read_public_transcript_def c t)
qed

text \<open>A log of one assistant text, then the same log with an unfinished record behind it.\<close>

definition small_env :: "unit transcript_env" where
  "small_env = \<lparr>loads = \<lambda>_. Some (JObj [(lit ''type'', js ''assistant_text''), (lit ''text'', js ''hi'')]),
     projector = \<lambda>s e. (s, Inr (JObj e)), sha256 = \<lambda>b. b, iso_timestamp = \<lambda>_. None, py_repr = \<lambda>_. [], fl_repr = \<lambda>_. []\<rparr>"

definition small_log :: log_view where
  "small_log = \<lparr>regular = True, content = [123, NL], initial_size = 2, initial_mtime = 0, final_size = 2, final_mtime = 0\<rparr>"

definition grown_log :: log_view where
  "grown_log = \<lparr>regular = True, content = [123, NL, 123], initial_size = 3, initial_mtime = 1, final_size = 4, final_mtime = 2\<rparr>"

lemma small_message_size:
  "length (enc (dumps (compact_opts False (\<lambda>_. [])) (sort_keys (transcript_message ''assistant'' (lit ''hi'') [] None)))) \<le> 40"
  by (simp add: transcript_message_def lit_def dumps_str_def escape_char_def compact_opts_def enc_def utf8_encode_def
      is_surrogate_def utf8_char_def)

lemma small_scan:
  "\<exists>st. scan_lines small_env False False (\<lambda>_. False) 0 [123, NL] 2 0 (new_scan ()) = Inr (1, 2, st) \<and> scan_messages st \<noteq> []"
proof -
  have hi: "strip (lit ''hi'') \<noteq> []" "utf8_size (lit ''hi'') = Some 2"
    by (simp_all add: lit_def strip_def rstrip_def lstrip_def is_space_def utf8_size_def is_surrogate_def utf8_width_def)
  have ev: "event_text (js ''assistant_text'') [(lit ''type'', js ''assistant_text''), (lit ''text'', js ''hi'')] = (''assistant'', js ''hi'')"
    "\<not> is_goal_followup [(lit ''type'', js ''assistant_text''), (lit ''text'', js ''hi'')]"
    by (simp_all add: event_text_def is_goal_followup_def)
  have ts: "public_timestamp i JNull = None" for i by (simp add: public_timestamp_def)
  obtain st where st: "scan_line small_env False [123, NL] (new_scan ()) = Inr st" "scan_messages st \<noteq> []"
    using small_message_size
    by (simp add: scan_line_def small_env_def scan_event_def readable_event_def readable_kinds_def Let_def run_name_def py_or_def
        event_videos_def ev scan_text_def text_step_def hi MAX_MESSAGE_BYTES_def ts emit_message_def new_scan_def MAX_TEXT_BYTES_def)
  have line: "[123, NL] = readline (min (MAX_LINE_BYTES + 1) 2) [123, NL]"
  proof -
    have "min (MAX_LINE_BYTES + 1) 2 = Suc (Suc 0)" by (simp add: MAX_LINE_BYTES_def)
    then show ?thesis by simp
  qed
  have "scan_lines small_env False False (\<lambda>_. False) 0 [123, NL] 2 0 (new_scan ()) = Inr (1, 2, st)"
    by (subst scan_lines_step [OF _ _ line _ _ _ st(1)]) (simp_all add: MAX_LINE_BYTES_def scan_lines.simps)
  then show ?thesis using st(2) by blast
qed

theorem preview_stable_witness:
  "\<exists>t. read_public_transcript small_env () (\<lambda>_. False) (Some small_log) None False = Inr (t, [])
    \<and> read_public_transcript small_env () (\<lambda>_. False) (Some grown_log) (Some (int (through_bytes t))) False = Inr (t, [])"
proof -
  obtain st where "scan_lines small_env False False (\<lambda>_. False) 0 [123, NL] 2 0 (new_scan ()) = Inr (1, 2, st)"
    "scan_messages st \<noteq> []" using small_scan by blast
  then obtain t where t: "read_public_transcript small_env () (\<lambda>_. False) (Some small_log) None False = Inr (t, [])"
      "through_bytes t = 2"
    by (simp add: read_public_transcript_def small_log_def MAX_SNAPSHOT_BOUNDARY_def)
  have "regrown (through_bytes t) small_log grown_log"
    by (simp add: regrown_def small_log_def grown_log_def t(2))
  from preview_stable [OF t(1) this, of "\<lambda>_. False" False] show ?thesis using t(1) by auto
qed

end
