(* ===== verification/Chat_Projection.thy ===== *)
theory Chat_Projection
  imports Transcript_Preview "HOL-Library.Sublist"
begin

text \<open>
  The incremental text view of a shared chat: \<open>interactive_chat_projection.py\<close>. One reader follows an
  append-only event log with a privacy projector that keeps its own state; each load reads only the
  new complete records and returns a snapshot of all messages.
\<close>

section \<open>Definitions\<close>

definition MAX_LOG_BYTES :: nat where
  "MAX_LOG_BYTES = 64 * 1024 * 1024"

text \<open>\<open>os.stat\<close> results; the stamp of a file leaves its mode out.\<close>

record file_stat =
  st_regular :: bool
  st_dev :: nat
  st_ino :: nat
  st_size :: nat
  st_mtime :: int
  st_ctime :: int

type_synonym stamp = "(nat \<times> nat) \<times> nat \<times> int \<times> int"

definition file_stamp :: "file_stat \<Rightarrow> stamp" where
  "file_stamp s = ((st_dev s, st_ino s), st_size s, st_mtime s, st_ctime s)"

text \<open>
  What one load sees: the file is missing, cannot be opened, or is opened with a first \<open>fstat\<close>, the bytes
  from its start, a last \<open>fstat\<close> and a \<open>stat\<close> of the path (\<open>None\<close> when that one fails).
\<close>

record file_view =
  view_initial :: file_stat
  view_bytes :: bytes
  view_final :: file_stat
  view_current :: "file_stat option"

datatype opened = Missing | Open_error | Opened file_view

text \<open>What the loop over the records changes, and the rest of the reader.\<close>

record 's progress =
  rd_projector :: 's
  rd_offset :: nat
  rd_revision :: nat
  rd_records :: nat
  rd_total_text :: nat
  rd_messages :: "json list"
  rd_outputs :: "(pystr \<times> pystr list) list"

record 's chat_reader =
  rd_progress :: "'s progress"
  rd_stamp :: "stamp option"
  rd_failed :: bool

definition new_reader :: "'s \<Rightarrow> 's chat_reader" where
  "new_reader ps = \<lparr>rd_progress = \<lparr>rd_projector = ps, rd_offset = 0, rd_revision = 0, rd_records = 0,
     rd_total_text = 0, rd_messages = [], rd_outputs = []\<rparr>, rd_stamp = None, rd_failed = False\<rparr>"

record reader_snapshot =
  snap_messages :: "json list"
  snap_through :: nat
  snap_revision :: pystr

definition reader_snapshot :: "'s progress \<Rightarrow> reader_snapshot" where
  "reader_snapshot rd = \<lparr>snap_messages = rd_messages rd, snap_through = rd_offset rd, snap_revision = dec_nat (rd_revision rd)\<rparr>"

definition visible_kinds :: "string list" where
  "visible_kinds = [''turn_started'', ''assistant_text'', ''turn_finished'', ''reasoning_summary'']"

definition visible_event :: "jdict \<Rightarrow> bool" where
  "visible_event raw \<longleftrightarrow> (dget raw ''type'' \<in> js ` set visible_kinds \<or> is_goal_followup raw)
     \<and> (dget raw ''type'' = js ''reasoning_summary'' \<longrightarrow> dget raw ''phase'' = js ''commentary'')"

definition already_said :: "pystr list \<Rightarrow> pystr \<Rightarrow> bool" where
  "already_said previous text \<longleftrightarrow> text \<in> set previous \<or> text = join (lit '' '') previous"

text \<open>The end of \<open>_consume\<close>: the limits, and the message with the offset it was read at.\<close>

definition append_message :: "'s transcript_env \<Rightarrow> jdict \<Rightarrow> string \<Rightarrow> pystr \<Rightarrow> nat \<Rightarrow> 's progress
    \<Rightarrow> transcript_error + 's progress" where
  "append_message env e role text n rd =
     (if MAX_TEXT_BYTES < rd_total_text rd + n \<or> MAX_MESSAGES \<le> length (rd_messages rd) then Inl Chat_too_large
      else Inr (rd\<lparr>rd_total_text := rd_total_text rd + n,
             rd_messages := rd_messages rd @ [transcript_message role text [] (public_timestamp (iso_timestamp env) (dget e ''ts''))],
             rd_revision := rd_offset rd\<rparr>))"

definition consume_text :: "'s transcript_env \<Rightarrow> json \<Rightarrow> jdict \<Rightarrow> 's progress \<Rightarrow> transcript_error + 's progress" where
  "consume_text env kind e rd =
     (let run = run_name (py_repr env) e;
          opens = (kind = js ''turn_started'' \<or> is_goal_followup e);
          rd = (if opens then rd\<lparr>rd_outputs := AList.update run [] (rd_outputs rd)\<rparr> else rd)
      in case snd (event_text kind e) of
           JStr t \<Rightarrow>
             if strip t = [] then Inr rd
             else (case utf8_size t of
                 None \<Rightarrow> Inl Invalid_unicode
               | Some n \<Rightarrow>
                   if MAX_MESSAGE_BYTES < n then Inl Message_too_large
                   else let norm = normalize_ws t;
                            previous = (case map_of (rd_outputs rd) run of Some p \<Rightarrow> p | None \<Rightarrow> []);
                            rd = rd\<lparr>rd_outputs := AList.update run
                                     (if kind = js ''assistant_text'' then previous @ [norm] else previous) (rd_outputs rd)\<rparr>
                     in if kind = js ''turn_finished'' \<and> already_said previous norm then Inr rd
                        else append_message env e (fst (event_text kind e)) t n rd)
         | _ \<Rightarrow> Inr rd)"

definition consume :: "'s transcript_env \<Rightarrow> jdict \<Rightarrow> 's progress \<Rightarrow> transcript_error + 's progress" where
  "consume env raw rd =
     (if \<not> visible_event raw then Inr rd
      else case projector env (rd_projector rd) raw of
        (ps, Inl err) \<Rightarrow> Inl err
      | (ps, Inr v) \<Rightarrow>
          let rd = rd\<lparr>rd_projector := ps\<rparr> in
          if \<not> truthy v then Inr rd
          else (case v of JObj e \<Rightarrow> consume_text env (dget raw ''type'') e rd | _ \<Rightarrow> Inl Invalid_projection))"

definition read_record :: "'s transcript_env \<Rightarrow> bytes \<Rightarrow> 's progress \<Rightarrow> transcript_error + 's progress" where
  "read_record env line rd =
     (let rd = rd\<lparr>rd_offset := rd_offset rd + length line, rd_records := rd_records rd + 1\<rparr> in
      if MAX_RECORDS < rd_records rd then Inl Too_many_records
      else case loads env line of
        None \<Rightarrow> Inl Unreadable_record
      | Some (JObj raw) \<Rightarrow> if is_str (dget raw ''type'') then consume env raw rd else Inl Invalid_record
      | Some _ \<Rightarrow> Inl Invalid_record)"

text \<open>The loop over the new records; \<open>left\<close> is the size of the file less the offset.\<close>

function load_lines :: "'s transcript_env \<Rightarrow> bytes \<Rightarrow> nat \<Rightarrow> 's progress \<Rightarrow> transcript_error + 's progress" where
  "load_lines env rest left rd =
     (if left = 0 then Inr rd
      else let line = readline (min (MAX_LINE_BYTES + 1) left) rest in
        if MAX_LINE_BYTES < length line then Inl Record_too_large
        else if line = [] \<or> last line \<noteq> NL then Inr rd
        else (case read_record env line rd of
            Inl err \<Rightarrow> Inl err
          | Inr rd' \<Rightarrow> load_lines env (drop (length line) rest) (left - length line) rd'))"
  by pat_completeness auto
termination
  by (relation "measure (\<lambda>(env, rest, left, rd). left)") auto

declare load_lines.simps [simp del]

text \<open>The file was replaced, cut, or changed without growing since the stamp was taken.\<close>

definition stamp_conflict :: "stamp \<Rightarrow> stamp \<Rightarrow> bool" where
  "stamp_conflict old new \<longleftrightarrow> fst new \<noteq> fst old \<or> fst (snd new) < fst (snd old)
     \<or> (fst (snd new) = fst (snd old) \<and> snd (snd new) \<noteq> snd (snd old))"

definition replaced_meanwhile :: "file_view \<Rightarrow> bool" where
  "replaced_meanwhile v \<longleftrightarrow>
     (let stamp = file_stamp (view_initial v); final = file_stamp (view_final v) in
      (case view_current v of None \<Rightarrow> True
       | Some c \<Rightarrow> \<not> st_regular c \<or> (st_dev c, st_ino c) \<noteq> fst stamp)
      \<or> fst (snd final) < fst (snd stamp)
      \<or> (fst (snd final) = fst (snd stamp) \<and> snd (snd final) \<noteq> snd (snd stamp)))"

text \<open>\<open>_load\<close>; any exception ends in \<open>load\<close>, which keeps only that the reader failed. A failing \<open>stat\<close>
  of the path is reported as an unavailable history, the other changes as a changed one.\<close>

definition load_once :: "'s transcript_env \<Rightarrow> 's chat_reader \<Rightarrow> opened \<Rightarrow> transcript_error + 's chat_reader" where
  "load_once env rd f = (case f of
     Missing \<Rightarrow> if rd_stamp rd = None then Inr rd else Inl Changed_history
   | Open_error \<Rightarrow> Inl Unavailable_history
   | Opened v \<Rightarrow>
       let initial = view_initial v; stamp = file_stamp initial in
       if \<not> st_regular initial then Inl Unavailable_history
       else if MAX_LOG_BYTES < st_size initial then Inl Log_too_large
       else if (case rd_stamp rd of None \<Rightarrow> False | Some old \<Rightarrow> stamp_conflict old stamp) then Inl Changed_history
       else if rd_stamp rd = Some stamp then Inr rd
       else ebind (load_lines env (drop (rd_offset (rd_progress rd)) (view_bytes v))
           (st_size initial - rd_offset (rd_progress rd)) (rd_progress rd)) (\<lambda>p.
         if replaced_meanwhile v then Inl (if view_current v = None then Unavailable_history else Changed_history)
         else Inr (rd\<lparr>rd_progress := p, rd_stamp := Some stamp\<rparr>)))"

definition load :: "'s transcript_env \<Rightarrow> 's chat_reader \<Rightarrow> opened \<Rightarrow> 's chat_reader \<times> (transcript_error + reader_snapshot)" where
  "load env rd f =
     (if rd_failed rd then (rd, Inl Changed_history)
      else case load_once env rd f of
        Inl err \<Rightarrow> (rd\<lparr>rd_failed := True\<rparr>, Inl err)
      | Inr rd' \<Rightarrow> (rd', Inr (reader_snapshot (rd_progress rd'))))"

section \<open>Limits and revisions\<close>

definition message_bytes :: "json \<Rightarrow> nat" where
  "message_bytes m = (case m of JObj d \<Rightarrow> (case dget d ''text'' of JStr t \<Rightarrow> the (utf8_size t) | _ \<Rightarrow> 0) | _ \<Rightarrow> 0)"

definition reader_inv :: "'s progress \<Rightarrow> bool" where
  "reader_inv rd \<longleftrightarrow> length (rd_messages rd) \<le> MAX_MESSAGES \<and> rd_records rd \<le> MAX_RECORDS
     \<and> rd_total_text rd = sum_list (map message_bytes (rd_messages rd)) \<and> rd_total_text rd \<le> MAX_TEXT_BYTES
     \<and> rd_revision rd \<le> rd_offset rd"

text \<open>How one record, or any number of them, may move a reader: messages are only appended, and the
  revision moves exactly when one is.\<close>

definition moves :: "'s progress \<Rightarrow> 's progress \<Rightarrow> bool" where
  "moves rd rd' \<longleftrightarrow> reader_inv rd' \<and> rd_offset rd \<le> rd_offset rd' \<and> prefix (rd_messages rd) (rd_messages rd')
     \<and> (if rd_messages rd' = rd_messages rd then rd_revision rd' = rd_revision rd else rd_offset rd < rd_revision rd')"

lemma reader_moves_refl: "reader_inv rd \<Longrightarrow> moves rd rd"
  by (simp add: moves_def)

lemma moves_trans: "moves a b \<Longrightarrow> moves b c \<Longrightarrow> moves a c"
  unfolding moves_def by (auto split: if_splits dest: prefix_order.antisym)

lemma append_message_moves:
  assumes "append_message env e role t n rd = Inr rd'" "reader_inv rd" "utf8_size t = Some n"
  shows "reader_inv rd' \<and> rd_messages rd' = rd_messages rd @ [last (rd_messages rd')] \<and> rd_revision rd' = rd_offset rd
    \<and> rd_offset rd' = rd_offset rd"
proof -
  have "message_bytes (transcript_message role t [] ts) = n" for ts
    by (simp add: message_bytes_def transcript_message_def assms(3))
  then show ?thesis using assms(1,2) by (auto simp: append_message_def reader_inv_def split: if_splits)
qed

text \<open>The bookkeeping of a record leaves limits, messages and revision alone.\<close>

definition same_messages :: "'s progress \<Rightarrow> 's progress \<Rightarrow> bool" where
  "same_messages rd rd' \<longleftrightarrow> rd_messages rd' = rd_messages rd \<and> rd_revision rd' = rd_revision rd
     \<and> rd_total_text rd' = rd_total_text rd \<and> rd_records rd' = rd_records rd \<and> rd_offset rd' = rd_offset rd"

lemma same_messages_inv: "same_messages rd rd' \<Longrightarrow> reader_inv rd' = reader_inv rd"
  by (simp add: same_messages_def reader_inv_def)

definition appended :: "'s progress \<Rightarrow> 's progress \<Rightarrow> bool" where
  "appended rd rd' \<longleftrightarrow> reader_inv rd' \<and> (\<exists>m. rd_messages rd' = rd_messages rd @ [m]) \<and> rd_revision rd' = rd_offset rd
     \<and> rd_offset rd' = rd_offset rd"

lemma append_message_appended:
  assumes "append_message env e role t n rd1 = Inr rd'" "same_messages rd rd1" "reader_inv rd" "utf8_size t = Some n"
  shows "appended rd rd'"
  using append_message_moves [OF assms(1) _ assms(4)] same_messages_inv [OF assms(2)] assms(2,3)
  by (auto simp: appended_def same_messages_def)

lemma consume_text_step:
  assumes "consume_text env kind e rd = Inr rd'" "reader_inv rd"
  shows "same_messages rd rd' \<or> appended rd rd'"
proof -
  define rd1 where "rd1 = (if kind = js ''turn_started'' \<or> is_goal_followup e
    then rd\<lparr>rd_outputs := AList.update (run_name (py_repr env) e) [] (rd_outputs rd)\<rparr> else rd)"
  have same: "same_messages rd rd1" by (simp add: rd1_def same_messages_def)
  note run = assms(1) [unfolded consume_text_def Let_def, folded rd1_def]
  show ?thesis
  proof (cases "\<exists>t n. snd (event_text kind e) = JStr t \<and> strip t \<noteq> [] \<and> utf8_size t = Some n")
    case True
    then obtain t n where t: "snd (event_text kind e) = JStr t" "strip t \<noteq> []" "utf8_size t = Some n" by blast
    have outs: "same_messages rd (rd1\<lparr>rd_outputs := x\<rparr>)" for x using same by (simp add: same_messages_def)
    show ?thesis using run t outs append_message_appended [OF _ outs assms(2) t(3)]
      by (auto split: if_split_asm)
  next
    case False
    then show ?thesis using run same
      by (cases "snd (event_text kind e)") (auto split: if_split_asm option.split_asm)
  qed
qed

lemma consume_step:
  assumes "consume env raw rd = Inr rd'" "reader_inv rd"
  shows "same_messages rd rd' \<or> appended rd rd'"
proof (cases "visible_event raw")
  case True
  obtain ps r where p: "projector env (rd_projector rd) raw = (ps, r)" by fastforce
  obtain v where v: "r = Inr v" using assms(1) True p by (cases r) (simp_all add: consume_def)
  let ?rd = "rd\<lparr>rd_projector := ps\<rparr>"
  have inv: "reader_inv ?rd" using assms(2) by (simp add: reader_inv_def)
  show ?thesis
  proof (cases "\<exists>e. v = JObj e \<and> truthy v")
    case e: True
    then obtain e where "consume_text env (dget raw ''type'') e ?rd = Inr rd'"
      using assms(1) True p v by (auto simp: consume_def Let_def)
    from consume_text_step [OF this inv] show ?thesis by (auto simp: same_messages_def appended_def)
  next
    case False
    then have "rd' = ?rd" using assms(1) True p v by (cases v) (auto simp: consume_def Let_def split: if_split_asm)
    then show ?thesis by (simp add: same_messages_def)
  qed
qed (use assms in \<open>simp add: consume_def same_messages_def\<close>)

lemma read_record_moves:
  assumes "read_record env line rd = Inr rd'" "reader_inv rd" "line \<noteq> []"
  shows "moves rd rd'" "rd_offset rd' = rd_offset rd + length line"
proof -
  let ?rd = "rd\<lparr>rd_offset := rd_offset rd + length line, rd_records := rd_records rd + 1\<rparr>"
  obtain v where v: "loads env line = Some v"
    using assms(1) by (cases "loads env line") (simp_all add: read_record_def Let_def split: if_split_asm)
  obtain raw where raw: "v = JObj raw"
    using assms(1) by (cases v) (simp_all add: read_record_def Let_def v split: if_split_asm)
  have c: "consume env raw ?rd = Inr rd'" "rd_records rd + 1 \<le> MAX_RECORDS"
    using assms(1) by (auto simp: read_record_def Let_def v raw split: if_split_asm)
  then have inv: "reader_inv ?rd" using assms(2) by (auto simp: reader_inv_def)
  from consume_step [OF c(1) inv] have step: "same_messages ?rd rd' \<or> appended ?rd rd'" .
  then show "rd_offset rd' = rd_offset rd + length line" by (auto simp: same_messages_def appended_def)
  have "0 < length line" using assms(3) by simp
  with step inv show "moves rd rd'"
    by (auto simp: same_messages_def appended_def moves_def reader_inv_def)
qed

lemma load_lines_step:
  assumes "left \<noteq> 0" "line = readline (min (MAX_LINE_BYTES + 1) left) rest" "length line \<le> MAX_LINE_BYTES"
    "line \<noteq> []" "last line = NL"
  shows "load_lines env rest left rd =
    ebind (read_record env line rd) (\<lambda>rd'. load_lines env (drop (length line) rest) (left - length line) rd')"
  using assms by (subst load_lines.simps) (simp add: Let_def ebind_def)

lemma load_lines_stop:
  assumes "load_lines env rest left rd = Inr rd'" "line = readline (min (MAX_LINE_BYTES + 1) left) rest"
    "left = 0 \<or> MAX_LINE_BYTES < length line \<or> line = [] \<or> last line \<noteq> NL"
  shows "rd' = rd"
  using assms by (subst (asm) load_lines.simps) (auto simp: Let_def split: if_split_asm)

lemma load_lines_moves:
  "load_lines env rest left rd = Inr rd' \<Longrightarrow> reader_inv rd
    \<Longrightarrow> moves rd rd' \<and> rd_offset rd' \<le> rd_offset rd + left \<and> rd_offset rd' - rd_offset rd \<le> length rest"
proof (induction env rest left rd rule: load_lines.induct)
  case (1 env rest left rd)
  define line where "line = readline (min (MAX_LINE_BYTES + 1) left) rest"
  have len: "length line \<le> left" "length line \<le> length rest"
    using length_readline [of "min (MAX_LINE_BYTES + 1) left" rest] by (auto simp: line_def)
  show ?case
  proof (cases "left = 0 \<or> MAX_LINE_BYTES < length line \<or> line = [] \<or> last line \<noteq> NL")
    case True
    then show ?thesis using load_lines_stop [OF 1(2) line_def] 1(3) reader_moves_refl by simp
  next
    case False
    then have "ebind (read_record env line rd) (load_lines env (drop (length line) rest) (left - length line)) = Inr rd'"
      using 1(2) load_lines_step [OF _ line_def, of env rd] by simp
    then obtain rd1 where rd1: "read_record env line rd = Inr rd1"
      "load_lines env (drop (length line) rest) (left - length line) rd1 = Inr rd'"
      unfolding ebind_Inr_iff by blast
    have m: "moves rd rd1" "rd_offset rd1 = rd_offset rd + length line"
      using read_record_moves [OF rd1(1) 1(3)] False by auto
    have "reader_inv rd1" using m(1) by (simp add: moves_def)
    then have "moves rd1 rd' \<and> rd_offset rd' \<le> rd_offset rd1 + (left - length line) \<and> rd_offset rd' - rd_offset rd1 \<le> length (drop (length line) rest)"
      using 1(1) [OF _ line_def _ _ rd1] False by auto
    then show ?thesis using m len moves_trans by fastforce
  qed
qed

text \<open>A load that succeeds only appends messages; the revision it reports moves exactly when messages
  were appended, and then beyond everything read before. The reader keeps within 1000 messages, 2 MiB of
  text (counted exactly) and 100000 records. A load that fails closes the reader for good.\<close>

lemma load_revision:
  assumes "reader_inv (rd_progress rd)" and "load env rd f = (rd', r)"
  shows "reader_inv (rd_progress rd') \<and> prefix (rd_messages (rd_progress rd)) (rd_messages (rd_progress rd'))
    \<and> (case r of
         Inl _ \<Rightarrow> rd_failed rd' \<and> (\<forall>f'. load env rd' f' = (rd', Inl Changed_history))
       | Inr snap \<Rightarrow> \<not> rd_failed rd' \<and> snap = reader_snapshot (rd_progress rd')
           \<and> (if rd_messages (rd_progress rd') = rd_messages (rd_progress rd)
              then rd_revision (rd_progress rd') = rd_revision (rd_progress rd)
              else rd_offset (rd_progress rd) < rd_revision (rd_progress rd')))"
proof (cases "rd_failed rd")
  case True
  then show ?thesis using assms by (auto simp: load_def)
next
  case False
  show ?thesis
  proof (cases "load_once env rd f")
    case (Inl err)
    then show ?thesis using assms False by (auto simp: load_def)
  next
    case (Inr rd1)
    then have r: "rd' = rd1" "r = Inr (reader_snapshot (rd_progress rd1))" using assms(2) False by (auto simp: load_def)
    have "rd1 = rd \<or> (\<exists>rest left p st. load_lines env rest left (rd_progress rd) = Inr p \<and> rd1 = rd\<lparr>rd_progress := p, rd_stamp := st\<rparr>)"
      using Inr by (cases f) (auto simp: load_once_def Let_def ebind_Inr_iff split: if_split_asm)
    then show ?thesis
    proof
      assume "rd1 = rd"
      then show ?thesis using assms(1) False r by simp
    next
      assume "\<exists>rest left p st. load_lines env rest left (rd_progress rd) = Inr p \<and> rd1 = rd\<lparr>rd_progress := p, rd_stamp := st\<rparr>"
      then obtain rest left p st where l: "load_lines env rest left (rd_progress rd) = Inr p"
        "rd1 = rd\<lparr>rd_progress := p, rd_stamp := st\<rparr>" by blast
      from load_lines_moves [OF l(1) assms(1)] False show ?thesis unfolding r l(2)
        by (simp add: moves_def)
    qed
  qed
qed

section \<open>Incremental loads\<close>

text \<open>Reading on from where a shorter log ended is reading the longer log.\<close>

lemma load_lines_resume:
  assumes "load_lines env rest left p = Inr p'" "reader_inv p" "length rest = left"
  shows "load_lines env (rest @ later) (left + length later) p =
    load_lines env (drop (rd_offset p' - rd_offset p) (rest @ later)) (left + length later - (rd_offset p' - rd_offset p)) p'"
  using assms
proof (induction env rest left p rule: load_lines.induct)
  case (1 env rest left p)
  define line where "line = readline (min (MAX_LINE_BYTES + 1) left) rest"
  show ?case
  proof (cases "left = 0 \<or> MAX_LINE_BYTES < length line \<or> line = [] \<or> last line \<noteq> NL")
    case True
    then show ?thesis using load_lines_stop [OF 1(2) line_def] by simp
  next
    case False
    have len: "length line \<le> left" "length line \<le> length rest"
      using length_readline [of "min (MAX_LINE_BYTES + 1) left" rest] by (auto simp: line_def)
    from False have "ebind (read_record env line p) (load_lines env (drop (length line) rest) (left - length line)) = Inr p'"
      using 1(2) load_lines_step [OF _ line_def, of env p] by simp
    then obtain p1 where p1: "read_record env line p = Inr p1"
      "load_lines env (drop (length line) rest) (left - length line) p1 = Inr p'"
      unfolding ebind_Inr_iff by blast
    have m: "moves p p1" "rd_offset p1 = rd_offset p + length line"
      using read_record_moves [OF p1(1) 1(3)] False by auto
    have inv: "reader_inv p1" using m(1) by (simp add: moves_def)
    have off: "rd_offset p1 \<le> rd_offset p'" using load_lines_moves [OF p1(2) inv] by (simp add: moves_def)
    have line': "line = readline (min (MAX_LINE_BYTES + 1) (left + length later)) (rest @ later)"
      unfolding line_def by (rule readline_extend [symmetric]) (use False len(1) in \<open>auto simp: line_def\<close>)
    have "load_lines env (rest @ later) (left + length later) p
        = load_lines env (drop (length line) rest @ later) (left - length line + length later) p1"
      using load_lines_step [OF _ line', of env p] False len p1(1) by simp
    also have "\<dots> = load_lines env (drop (rd_offset p' - rd_offset p1) (drop (length line) rest @ later))
        (left - length line + length later - (rd_offset p' - rd_offset p1)) p'"
      using 1(1) [OF _ line_def _ _ p1 inv] False 1(4) len by simp
    finally show ?thesis using m(2) off len by (simp add: algebra_simps)
  qed
qed

text \<open>Successive loads of a growing log.\<close>

fun load_all :: "'s transcript_env \<Rightarrow> 's chat_reader \<Rightarrow> file_view list \<Rightarrow> transcript_error + 's chat_reader" where
  "load_all env rd [] = Inr rd"
| "load_all env rd (v # vs) = (case load env rd (Opened v) of (rd', Inl err) \<Rightarrow> Inl err | (rd', Inr _) \<Rightarrow> load_all env rd' vs)"

text \<open>Each view holds the whole file, and the next one only adds to it.\<close>

definition append_only :: "file_view list \<Rightarrow> bool" where
  "append_only vs \<longleftrightarrow> list_all (\<lambda>v. length (view_bytes v) = st_size (view_initial v)) vs
     \<and> sorted_wrt prefix (map view_bytes vs)"

definition follows :: "'s transcript_env \<Rightarrow> 's \<Rightarrow> 's chat_reader \<Rightarrow> file_view \<Rightarrow> bool" where
  "follows env ps rd v \<longleftrightarrow> \<not> rd_failed rd \<and> rd_stamp rd = Some (file_stamp (view_initial v))
     \<and> load_lines env (view_bytes v) (length (view_bytes v)) (rd_progress (new_reader ps)) = Inr (rd_progress rd)
     \<and> st_regular (view_initial v) \<and> st_size (view_initial v) \<le> MAX_LOG_BYTES"

lemma new_reader_inv: "reader_inv (rd_progress (new_reader ps))"
  by (simp add: reader_inv_def new_reader_def)

lemma load_Inr:
  assumes "load env rd (Opened w) = (rd', Inr s)"
  shows "\<not> rd_failed rd" "st_regular (view_initial w)" "st_size (view_initial w) \<le> MAX_LOG_BYTES"
    "rd_stamp rd = Some (file_stamp (view_initial w)) \<and> rd' = rd \<or>
      (\<exists>p. load_lines env (drop (rd_offset (rd_progress rd)) (view_bytes w))
          (st_size (view_initial w) - rd_offset (rd_progress rd)) (rd_progress rd) = Inr p
        \<and> rd' = rd\<lparr>rd_progress := p, rd_stamp := Some (file_stamp (view_initial w))\<rparr>)"
proof -
  show nf: "\<not> rd_failed rd" using assms by (auto simp: load_def)
  have o: "load_once env rd (Opened w) = Inr rd'"
    using assms nf by (cases "load_once env rd (Opened w)") (simp_all add: load_def)
  then show "st_regular (view_initial w)" "st_size (view_initial w) \<le> MAX_LOG_BYTES"
    by (auto simp: load_once_def Let_def split: if_split_asm)
  show "rd_stamp rd = Some (file_stamp (view_initial w)) \<and> rd' = rd \<or>
      (\<exists>p. load_lines env (drop (rd_offset (rd_progress rd)) (view_bytes w))
          (st_size (view_initial w) - rd_offset (rd_progress rd)) (rd_progress rd) = Inr p
        \<and> rd' = rd\<lparr>rd_progress := p, rd_stamp := Some (file_stamp (view_initial w))\<rparr>)"
    using o by (auto simp: load_once_def Let_def ebind_Inr_iff split: if_split_asm)
qed

lemma follows_first:
  assumes "load env (new_reader ps) (Opened w) = (rd', Inr s)" "length (view_bytes w) = st_size (view_initial w)"
  shows "follows env ps rd' w"
proof -
  have "rd_stamp (new_reader ps) = None" "rd_offset (rd_progress (new_reader ps)) = 0" by (simp_all add: new_reader_def)
  then show ?thesis using load_Inr [OF assms(1)] assms(2) by (auto simp: follows_def)
qed

lemma follows_next:
  assumes "follows env ps rd v" "load env rd (Opened w) = (rd', Inr s)" "prefix (view_bytes v) (view_bytes w)"
    "length (view_bytes v) = st_size (view_initial v)" "length (view_bytes w) = st_size (view_initial w)"
  shows "follows env ps rd' w"
proof -
  note f = assms(1) [unfolded follows_def] and l = load_Inr [OF assms(2)]
  obtain later where w: "view_bytes w = view_bytes v @ later" using assms(3) by (auto elim: prefixE)
  from l(4) show ?thesis
  proof
    assume same: "rd_stamp rd = Some (file_stamp (view_initial w)) \<and> rd' = rd"
    then have "st_size (view_initial w) = st_size (view_initial v)" using f by (simp add: file_stamp_def)
    then have "later = []" using w assms(4,5) by simp
    then show ?thesis using f same l w by (simp add: follows_def)
  next
    assume "\<exists>p. load_lines env (drop (rd_offset (rd_progress rd)) (view_bytes w))
          (st_size (view_initial w) - rd_offset (rd_progress rd)) (rd_progress rd) = Inr p
        \<and> rd' = rd\<lparr>rd_progress := p, rd_stamp := Some (file_stamp (view_initial w))\<rparr>"
    then obtain p where p: "load_lines env (drop (rd_offset (rd_progress rd)) (view_bytes w))
          (st_size (view_initial w) - rd_offset (rd_progress rd)) (rd_progress rd) = Inr p"
        "rd' = rd\<lparr>rd_progress := p, rd_stamp := Some (file_stamp (view_initial w))\<rparr>" by blast
    have z: "rd_offset (rd_progress (new_reader ps)) = 0" by (simp add: new_reader_def)
    have "load_lines env (view_bytes w) (length (view_bytes w)) (rd_progress (new_reader ps)) = Inr p"
      using load_lines_resume [OF _ new_reader_inv refl, of env "view_bytes v" ps "rd_progress rd" later] f p(1) assms(5)
      by (simp add: z w)
    then show ?thesis using l(1-3) p(2) by (simp add: follows_def)
  qed
qed

lemma load_all_follows:
  assumes "load_all env rd vs = Inr rd'" "follows env ps rd v" "append_only (v # vs)"
  shows "follows env ps rd' (last (v # vs))"
  using assms
proof (induction vs arbitrary: rd v)
  case (Cons w vs)
  obtain rd1 r where l: "load env rd (Opened w) = (rd1, r)" by fastforce
  obtain s where s: "r = Inr s" "load_all env rd1 vs = Inr rd'" using Cons.prems(1) l by (cases r) simp_all
  have "follows env ps rd1 w"
    by (rule follows_next [OF Cons.prems(2) l [unfolded s(1)]]) (use Cons.prems(3) in \<open>auto simp: append_only_def\<close>)
  then have "follows env ps rd' (last (w # vs))"
    by (rule Cons.IH [OF s(2)]) (use Cons.prems(3) in \<open>auto simp: append_only_def\<close>)
  then show ?case by simp
qed simp

text \<open>C21. Following a growing log by any number of incremental loads gives exactly the reader, and so the
  messages, offset and revision, that one load of the final log by a fresh reader gives.\<close>

theorem incremental_equals_fresh:
  assumes "load_all env (new_reader ps) vs = Inr rd" and "append_only vs" and "vs \<noteq> []"
    and "\<not> replaced_meanwhile (last vs)"
  shows "load env (new_reader ps) (Opened (last vs)) = (rd, Inr (reader_snapshot (rd_progress rd)))"
proof -
  obtain v ws where vs: "vs = v # ws" using assms(3) by (cases vs) auto
  obtain rd1 r where l: "load env (new_reader ps) (Opened v) = (rd1, r)" by fastforce
  obtain s where s: "r = Inr s" "load_all env rd1 ws = Inr rd" using assms(1) l vs by (cases r) simp_all
  have "follows env ps rd1 v"
    by (rule follows_first [OF l [unfolded s(1)]]) (use assms(2) in \<open>simp add: append_only_def vs\<close>)
  then have f: "follows env ps rd (last vs)" using load_all_follows [OF s(2)] assms(2) vs by simp
  have "length (view_bytes (last vs)) = st_size (view_initial (last vs))"
    using assms(2,3) by (simp add: append_only_def list_all_iff)
  then show ?thesis using f assms(4)
    by (simp add: load_def load_once_def Let_def follows_def new_reader_def)
qed

text \<open>A log of one record, then of two, each an assistant text.\<close>

definition log_stat :: "nat \<Rightarrow> file_stat" where
  "log_stat n = \<lparr>st_regular = True, st_dev = 1, st_ino = 1, st_size = n, st_mtime = int n, st_ctime = int n\<rparr>"

definition log_at :: "bytes \<Rightarrow> file_view" where
  "log_at b = \<lparr>view_initial = log_stat (length b), view_bytes = b, view_final = log_stat (length b),
     view_current = Some (log_stat (length b))\<rparr>"

lemma log_at_stable: "\<not> replaced_meanwhile (log_at b)" "append_only [log_at [123, NL], log_at [123, NL, 123, NL]]"
  by (simp_all add: replaced_meanwhile_def log_at_def log_stat_def file_stamp_def append_only_def)

lemma small_record:
  assumes "rd_records p \<le> 1" "rd_total_text p \<le> 10" "length (rd_messages p) \<le> 1"
  shows "\<exists>p'. read_record small_env [123, NL] p = Inr p' \<and> rd_records p' = rd_records p + 1
    \<and> rd_total_text p' = rd_total_text p + 2 \<and> length (rd_messages p') = length (rd_messages p) + 1
    \<and> rd_offset p' = rd_offset p + 2"
proof -
  have hi: "strip (lit ''hi'') \<noteq> []" "utf8_size (lit ''hi'') = Some 2"
    by (simp_all add: lit_def strip_def rstrip_def lstrip_def is_space_def utf8_size_def is_surrogate_def utf8_width_def)
  have ev: "event_text (js ''assistant_text'') [(lit ''type'', js ''assistant_text''), (lit ''text'', js ''hi'')] = (''assistant'', js ''hi'')"
    "\<not> is_goal_followup [(lit ''type'', js ''assistant_text''), (lit ''text'', js ''hi'')]"
    by (simp_all add: event_text_def is_goal_followup_def)
  show ?thesis using assms
    by (simp add: read_record_def Let_def small_env_def MAX_RECORDS_def consume_def visible_event_def visible_kinds_def
        consume_text_def ev hi MAX_MESSAGE_BYTES_def append_message_def MAX_TEXT_BYTES_def MAX_MESSAGES_def)
qed

lemma small_line: "[123, NL] = readline (min (MAX_LINE_BYTES + 1) 2) ([123, NL] @ later)"
proof -
  have "min (MAX_LINE_BYTES + 1) 2 = Suc (Suc 0)" by (simp add: MAX_LINE_BYTES_def)
  then show ?thesis by simp
qed

lemma small_load_lines:
  assumes "read_record small_env [123, NL] p = Inr p'"
  shows "load_lines small_env [123, NL] 2 p = Inr p'"
  using load_lines_step [of 2 "[123, NL]" "[123, NL]" small_env p] small_line [of "[]"] assms
  by (simp add: MAX_LINE_BYTES_def load_lines.simps)

lemma load_opened:
  assumes "\<not> rd_failed rd" "rd_stamp rd = None \<or> rd_stamp rd = Some (file_stamp (log_stat 2))"
    "rd_offset (rd_progress rd) = k" "length b = n" "n = k + 2" "k \<le> 2" "rd_stamp rd = None \<longleftrightarrow> k = 0"
    "load_lines small_env (drop k b) 2 (rd_progress rd) = Inr p"
  shows "load small_env rd (Opened (log_at b)) =
    (rd\<lparr>rd_progress := p, rd_stamp := Some (file_stamp (log_stat n))\<rparr>, Inr (reader_snapshot p))"
proof -
  have "\<not> replaced_meanwhile (log_at b)" by (rule log_at_stable(1))
  then show ?thesis using assms
    by (auto simp: load_def load_once_def Let_def log_at_def log_stat_def MAX_LOG_BYTES_def file_stamp_def stamp_conflict_def)
qed

theorem incremental_equals_fresh_witness:
  "\<exists>rd. load_all small_env (new_reader ()) [log_at [123, NL], log_at [123, NL, 123, NL]] = Inr rd
    \<and> length (rd_messages (rd_progress rd)) = 2
    \<and> load small_env (new_reader ()) (Opened (log_at [123, NL, 123, NL])) = (rd, Inr (reader_snapshot (rd_progress rd)))"
proof -
  let ?rd = "new_reader ()"
  have r0: "\<not> rd_failed ?rd" "rd_stamp ?rd = None" "rd_offset (rd_progress ?rd) = 0" "rd_records (rd_progress ?rd) = 0"
      "rd_total_text (rd_progress ?rd) = 0" "rd_messages (rd_progress ?rd) = []"
    by (simp_all add: new_reader_def)
  obtain p where p: "read_record small_env [123, NL] (rd_progress ?rd) = Inr p" "rd_records p = 1" "rd_total_text p = 2"
      "length (rd_messages p) = 1" "rd_offset p = 2"
    using small_record [of "rd_progress ?rd"] r0 by auto
  obtain q where q: "read_record small_env [123, NL] p = Inr q" "length (rd_messages q) = 2"
    using small_record [of p] p by auto
  let ?rd1 = "?rd\<lparr>rd_progress := p, rd_stamp := Some (file_stamp (log_stat 2))\<rparr>"
  let ?rd2 = "?rd1\<lparr>rd_progress := q, rd_stamp := Some (file_stamp (log_stat 4))\<rparr>"
  have "load small_env ?rd (Opened (log_at [123, NL])) = (?rd1, Inr (reader_snapshot p))"
    using load_opened [of ?rd 0 "[123, NL]" 2 p] r0 small_load_lines [OF p(1)] by simp
  moreover have "load small_env ?rd1 (Opened (log_at [123, NL, 123, NL])) = (?rd2, Inr (reader_snapshot q))"
    by (rule load_opened [where k = 2]) (use r0(1) p(5) small_load_lines [OF q(1)] in simp_all)
  ultimately have a: "load_all small_env ?rd [log_at [123, NL], log_at [123, NL, 123, NL]] = Inr ?rd2" by simp
  from incremental_equals_fresh [OF this log_at_stable(2)] log_at_stable(1) show ?thesis
    using a q(2) by (intro exI [of _ ?rd2]) simp
qed

end
