(* ===== verification/Public_Shares.thy ===== *)
theory Public_Shares
  imports Public_Transcript
begin

text \<open>
  Read-only snapshots of conversations: \<open>public_chat_shares.py\<close>. A share is a bounded, validated first
  page with further pages beside it, found by the hash of a bearer token until it expires or is revoked.
  Tables are lists of rows; a transaction that raises leaves them as they were. Tokens, identifiers and
  the clock are arguments; the hash and \<open>json.loads\<close> are parameters.
\<close>

section \<open>Validation\<close>

definition MAX_SNAPSHOT_BYTES :: nat where
  "MAX_SNAPSHOT_BYTES = 2 * 1024 * 1024"

definition MAX_SNAPSHOT_PAGE_MESSAGES :: nat where
  "MAX_SNAPSHOT_PAGE_MESSAGES = 100"

definition MAX_TITLE_CHARACTERS :: nat where
  "MAX_TITLE_CHARACTERS = 256"

definition MAX_LIST_LIMIT :: nat where
  "MAX_LIST_LIMIT = 100"

datatype share_error = Share_invalid | Share_unavailable | Share_storage

definition token_re :: "pystr \<Rightarrow> bool" where
  "token_re s \<longleftrightarrow> length s = 43 \<and> list_all (\<lambda>c. is_alnum c \<or> c = 95 \<or> c = 45) s"

definition public_share_id_re :: "pystr \<Rightarrow> bool" where
  "public_share_id_re s \<longleftrightarrow> prefixed_hex32 ''share_'' s"

text \<open>\<open>_timestamp\<close>: a number that is no bool, in range.\<close>

definition timestamp_ok :: "json \<Rightarrow> bool" where
  "timestamp_ok v = (case v of
     JInt i \<Rightarrow> 0 \<le> i \<and> i \<le> MAX_UNIX_TIMESTAMP
   | JFloat r \<Rightarrow> 0 \<le> r \<and> r \<le> of_int MAX_UNIX_TIMESTAMP
   | _ \<Rightarrow> False)"

definition utf8_limit :: "pystr \<Rightarrow> nat \<Rightarrow> share_error + nat" where
  "utf8_limit s limit =
     (if limit < length s then Inl Share_invalid
      else case utf8_size s of
        None \<Rightarrow> Inl Share_invalid
      | Some n \<Rightarrow> if limit < n then Inl Share_invalid else Inr n)"

definition session_id_check :: "json \<Rightarrow> share_error + pystr" where
  "session_id_check v = (case v of
     JStr s \<Rightarrow> if s = [] \<or> 0 \<in> set s then Inl Share_invalid else ebind (utf8_limit s 1024) (\<lambda>_. Inr s)
   | _ \<Rightarrow> Inl Share_invalid)"

definition title_check :: "json \<Rightarrow> share_error + pystr" where
  "title_check v = (case (if v = JNull then js ''Shared conversation'' else v) of
     JStr s \<Rightarrow> if strip s = [] \<or> MAX_TITLE_CHARACTERS < length s then Inl Share_invalid else Inr s
   | _ \<Rightarrow> Inl Share_invalid)"

text \<open>\<open>json.dumps(v, ensure_ascii=False, separators=(",", ":")).encode("utf-8")\<close>.\<close>

definition json_bytes :: "(rat \<Rightarrow> pystr) \<Rightarrow> json \<Rightarrow> share_error + bytes" where
  "json_bytes fr v = (case utf8_encode (dumps (compact_opts False fr) v) of
     None \<Rightarrow> Inl Share_invalid | Some b \<Rightarrow> Inr b)"

text \<open>One message of a snapshot, projected to its allowed fields, and the bytes of its text.\<close>

definition message_item :: "json \<Rightarrow> share_error + nat \<times> json" where
  "message_item v = (case v of
     JObj m \<Rightarrow>
       if \<not> list_all (\<lambda>k. k \<in> set (map lit [''role'', ''text'', ''timestamp'', ''videos''])) (map fst m)
       then Inl Share_invalid
       else if dget m ''role'' \<notin> {js ''user'', js ''assistant''} then Inl Share_invalid
       else (case dget m ''text'' of
         JStr t \<Rightarrow> ebind (utf8_limit t MAX_MESSAGE_BYTES) (\<lambda>n.
           ebind (if dhas m ''videos'' then
                    (case normalize_shared_chat_videos (dget m ''videos'') of
                       None \<Rightarrow> Inl Share_invalid
                     | Some vs \<Rightarrow> Inr (if vs = [] then [] else [(lit ''videos'', JArr (map JObj vs))]))
                  else Inr []) (\<lambda>videos.
           ebind (if dhas m ''timestamp'' then
                    (if timestamp_ok (dget m ''timestamp'') then Inr [(lit ''timestamp'', dget m ''timestamp'')] else Inl Share_invalid)
                  else Inr []) (\<lambda>stamp.
           Inr (n, JObj ([(lit ''role'', dget m ''role''), (lit ''text'', JStr t)] @ videos @ stamp)))))
       | _ \<Rightarrow> Inl Share_invalid)
   | _ \<Rightarrow> Inl Share_invalid)"

text \<open>The loop of \<open>_snapshot\<close>: \<open>texts\<close> counts text bytes, \<open>serialized\<close> the bytes of the encoding.\<close>

fun snapshot_messages :: "(rat \<Rightarrow> pystr) \<Rightarrow> nat \<Rightarrow> nat \<Rightarrow> json list \<Rightarrow> json list \<Rightarrow> share_error + json list" where
  "snapshot_messages fr texts serialized projected [] = Inr projected"
| "snapshot_messages fr texts serialized projected (v # vs) =
     ebind (message_item v) (\<lambda>(n, item).
       if MAX_SNAPSHOT_BYTES < texts + n then Inl Share_invalid
       else ebind (json_bytes fr item) (\<lambda>b.
         let serialized' = serialized + length b + (if projected = [] then 0 else 1) in
         if MAX_SNAPSHOT_BYTES < serialized' then Inl Share_invalid
         else snapshot_messages fr (texts + n) serialized' (projected @ [item]) vs))"

definition snapshot_doc :: "pystr \<Rightarrow> json \<Rightarrow> json list \<Rightarrow> json" where
  "snapshot_doc title created messages =
     JObj [(lit ''title'', JStr title), (lit ''created_at'', created), (lit ''messages'', JArr messages)]"

definition snapshot :: "(rat \<Rightarrow> pystr) \<Rightarrow> json \<Rightarrow> json \<Rightarrow> json \<Rightarrow> share_error + (pystr \<times> json list \<times> bytes)" where
  "snapshot fr messages title created =
     ebind (title_check title) (\<lambda>t.
     ebind (utf8_limit t (MAX_TITLE_CHARACTERS * 4)) (\<lambda>texts.
     if \<not> timestamp_ok created then Inl Share_invalid
     else (case messages of
       JArr ms \<Rightarrow>
         if ms = [] then Inl Share_invalid
         else ebind (json_bytes fr (snapshot_doc t created [])) (\<lambda>b.
           ebind (snapshot_messages fr texts (length b) [] ms) (\<lambda>projected.
           ebind (json_bytes fr (snapshot_doc t created projected)) (\<lambda>encoded.
             if MAX_SNAPSHOT_BYTES < length encoded then Inl Share_invalid else Inr (t, projected, encoded))))
     | _ \<Rightarrow> Inl Share_invalid)))"

section \<open>The store\<close>

record share_row =
  row_share :: pystr
  row_session :: pystr
  row_token :: bytes
  row_title :: pystr
  row_created :: json
  row_expires :: json
  row_count :: nat
  row_json :: bytes
  row_sha :: bytes

record page_row =
  page_share :: pystr
  page_index :: nat
  page_json :: bytes
  page_sha :: bytes

record share_db =
  shares :: "share_row list"
  revocations :: "(pystr \<times> json) list"
  share_pages :: "page_row list"

record share_env =
  hash :: "bytes \<Rightarrow> bytes"
  decode :: "bytes \<Rightarrow> json option"
  flt :: "rat \<Rightarrow> pystr"

text \<open>Numbers are compared by value; only validated times are compared.\<close>

definition time_le :: "json \<Rightarrow> json \<Rightarrow> bool" where
  "time_le a b = (case (num_of a, num_of b) of (Some x, Some y) \<Rightarrow> x \<le> y | _ \<Rightarrow> False)"

definition expiry_check :: "json \<Rightarrow> json \<Rightarrow> share_error + unit" where
  "expiry_check expires now =
     (if \<not> timestamp_ok now then Inl Share_invalid
      else if expires = JNull then Inr ()
      else if \<not> timestamp_ok expires \<or> time_le expires now then Inl Share_invalid
      else Inr ())"

text \<open>Primary key, unique token and the check constraints of the table.\<close>

definition insert_share :: "share_row \<Rightarrow> share_db \<Rightarrow> share_error + share_db" where
  "insert_share r db =
     (if list_ex (\<lambda>x. row_share x = row_share r \<or> row_token x = row_token r) (shares db)
         \<or> length (row_token r) \<noteq> 32 \<or> length (row_sha r) \<noteq> 32 \<or> row_count r < 1 \<or> 2097152 < length (row_json r)
      then Inl Share_storage else Inr (db\<lparr>shares := shares db @ [r]\<rparr>))"

definition insert_page :: "page_row \<Rightarrow> share_db \<Rightarrow> share_error + share_db" where
  "insert_page r db =
     (if list_ex (\<lambda>x. page_share x = page_share r \<and> page_index x = page_index r) (share_pages db)
         \<or> length (page_sha r) \<noteq> 32 \<or> page_index r < 1 \<or> 2097152 < length (page_json r)
      then Inl Share_storage else Inr (db\<lparr>share_pages := share_pages db @ [r]\<rparr>))"

definition create_share :: "share_env \<Rightarrow> share_db \<Rightarrow> json \<Rightarrow> json \<Rightarrow> json \<Rightarrow> json \<Rightarrow> json \<Rightarrow> pystr \<Rightarrow> pystr
    \<Rightarrow> share_error + share_db" where
  "create_share env db session messages title expires now token share_id =
     ebind (session_id_check session) (\<lambda>sid.
     ebind (expiry_check expires now) (\<lambda>_.
     ebind (snapshot (flt env) messages title now) (\<lambda>(t, projected, encoded).
     insert_share \<lparr>row_share = share_id, row_session = sid, row_token = hash env (enc token), row_title = t,
       row_created = now, row_expires = expires, row_count = length projected, row_json = encoded,
       row_sha = hash env encoded\<rparr> db)))"

text \<open>\<open>ORDER BY created_at DESC, share_id DESC LIMIT\<close>, with the revocation time joined.\<close>

definition row_before :: "share_row \<Rightarrow> share_row \<Rightarrow> bool" where
  "row_before a b \<longleftrightarrow> (if time_le (row_created a) (row_created b) \<and> time_le (row_created b) (row_created a)
     then key_less (row_share b) (row_share a) else time_le (row_created b) (row_created a))"

fun insert_row :: "share_row \<Rightarrow> share_row list \<Rightarrow> share_row list" where
  "insert_row r [] = [r]"
| "insert_row r (x # xs) = (if row_before r x then r # x # xs else x # insert_row r xs)"

definition list_shares :: "share_db \<Rightarrow> json \<Rightarrow> json \<Rightarrow> share_error + (share_row \<times> json option) list" where
  "list_shares db session limit =
     ebind (session_id_check session) (\<lambda>sid. case limit of
       JInt n \<Rightarrow>
         if n < 1 \<or> int MAX_LIST_LIMIT < n then Inl Share_invalid
         else Inr (map (\<lambda>r. (r, map_of (revocations db) (row_share r)))
           (take (nat n) (foldr insert_row (filter (\<lambda>r. row_session r = sid) (shares db)) [])))
     | _ \<Rightarrow> Inl Share_invalid)"

definition revoke_share :: "share_db \<Rightarrow> json \<Rightarrow> json \<Rightarrow> json \<Rightarrow> share_error + (share_db \<times> bool)" where
  "revoke_share db share session now =
     ebind (session_id_check session) (\<lambda>sid. case share of
       JStr i \<Rightarrow>
         if \<not> public_share_id_re i then Inr (db, False)
         else if \<not> timestamp_ok now then Inl Share_invalid
         else if \<not> list_ex (\<lambda>r. row_share r = i \<and> row_session r = sid) (shares db) then Inr (db, False)
         else if map_of (revocations db) i \<noteq> None then Inr (db, True)
         else Inr (db\<lparr>revocations := revocations db @ [(i, now)]\<rparr>, True)
     | _ \<Rightarrow> Inr (db, False))"

section \<open>Streamed shares\<close>

text \<open>The variables that \<open>flush\<close> and \<open>emit\<close> share.\<close>

record paginator =
  pg_first :: "bytes option"
  pg_page :: "json list"
  pg_bytes :: nat
  pg_index :: nat
  pg_total :: nat
  pg_db :: share_db

definition flush :: "share_env \<Rightarrow> pystr \<Rightarrow> pystr \<Rightarrow> json \<Rightarrow> paginator \<Rightarrow> share_error + paginator" where
  "flush env share_id title created pg =
     (if pg_page pg = [] then Inr pg
      else ebind (snapshot (flt env) (JArr (pg_page pg)) (JStr title) created) (\<lambda>(_, _, encoded).
        ebind (if pg_index pg = 0 then Inr (pg\<lparr>pg_first := Some encoded\<rparr>)
               else ebind (insert_page \<lparr>page_share = share_id, page_index = pg_index pg, page_json = encoded,
                                        page_sha = hash env encoded\<rparr> (pg_db pg)) (\<lambda>db. Inr (pg\<lparr>pg_db := db\<rparr>)))
          (\<lambda>pg. Inr (pg\<lparr>pg_index := pg_index pg + 1, pg_page := [], pg_bytes := 0\<rparr>))))"

definition emit :: "share_env \<Rightarrow> pystr \<Rightarrow> pystr \<Rightarrow> json \<Rightarrow> nat \<Rightarrow> json \<Rightarrow> paginator \<Rightarrow> share_error + paginator" where
  "emit env share_id title created overhead message pg =
     ebind (snapshot (flt env) (JArr [message]) (JStr title) created) (\<lambda>(_, checked, _).
     let item = hd checked in
     ebind (json_bytes (flt env) item) (\<lambda>b.
     ebind (if pg_page pg \<noteq> [] \<and> (MAX_SNAPSHOT_PAGE_MESSAGES \<le> length (pg_page pg)
               \<or> MAX_SNAPSHOT_BYTES < overhead + pg_bytes pg + length b + length (pg_page pg))
            then flush env share_id title created pg else Inr pg) (\<lambda>pg.
     Inr (pg\<lparr>pg_page := pg_page pg @ [item], pg_bytes := pg_bytes pg + length b, pg_total := pg_total pg + 1\<rparr>))))"

fun emit_all :: "share_env \<Rightarrow> pystr \<Rightarrow> pystr \<Rightarrow> json \<Rightarrow> nat \<Rightarrow> json list \<Rightarrow> paginator \<Rightarrow> share_error + paginator" where
  "emit_all env share_id title created overhead [] pg = Inr pg"
| "emit_all env share_id title created overhead (m # ms) pg =
     ebind (emit env share_id title created overhead m pg) (emit_all env share_id title created overhead ms)"

text \<open>\<open>load_messages(emit)\<close> is the list of messages the loader emits before it returns; a loader that
  raises aborts the transaction.\<close>

definition create_streamed_share :: "share_env \<Rightarrow> share_db \<Rightarrow> json \<Rightarrow> json list \<Rightarrow> json \<Rightarrow> json \<Rightarrow> json \<Rightarrow> pystr \<Rightarrow> pystr
    \<Rightarrow> share_error + share_db" where
  "create_streamed_share env db session messages title expires now token share_id =
     ebind (session_id_check session) (\<lambda>sid.
     ebind (expiry_check expires now) (\<lambda>_.
     ebind (snapshot (flt env) (JArr [JObj [(lit ''role'', js ''user''), (lit ''text'', JStr [])]]) title now) (\<lambda>(t, _, _).
     ebind (json_bytes (flt env) (snapshot_doc t now [])) (\<lambda>b.
     ebind (emit_all env share_id t now (length b) messages
              \<lparr>pg_first = None, pg_page = [], pg_bytes = 0, pg_index = 0, pg_total = 0, pg_db = db\<rparr>) (\<lambda>pg.
     ebind (flush env share_id t now pg) (\<lambda>pg.
     case pg_first pg of
       None \<Rightarrow> Inl Share_invalid
     | Some first \<Rightarrow> insert_share \<lparr>row_share = share_id, row_session = sid, row_token = hash env (enc token), row_title = t,
         row_created = now, row_expires = expires, row_count = pg_total pg, row_json = first,
         row_sha = hash env first\<rparr> (pg_db pg)))))))"

section \<open>Access\<close>

definition token_arg :: "json \<Rightarrow> json \<Rightarrow> (pystr \<times> pystr option) option" where
  "token_arg token share = (case token of
     JStr t \<Rightarrow>
       if \<not> token_re t then None
       else (case share of
         JNull \<Rightarrow> Some (t, None)
       | JStr i \<Rightarrow> if public_share_id_re i then Some (t, Some i) else None
       | _ \<Rightarrow> None)
   | _ \<Rightarrow> None)"

text \<open>The row a token opens: not expired and not revoked.\<close>

definition open_row :: "share_env \<Rightarrow> share_db \<Rightarrow> pystr \<Rightarrow> pystr option \<Rightarrow> json \<Rightarrow> share_row option" where
  "open_row env db token share now = find (\<lambda>r. row_token r = hash env (enc token)
     \<and> (share = None \<or> share = Some (row_share r))
     \<and> (row_expires r = JNull \<or> \<not> time_le (row_expires r) now)
     \<and> row_share r \<notin> fst ` set (revocations db)) (shares db)"

record snapshot_page =
  sp_title :: pystr
  sp_created :: json
  sp_messages :: "json list"
  sp_page :: nat
  sp_page_count :: nat
  sp_message_count :: nat
  sp_session :: pystr

text \<open>The stored bytes, checked against their hash and validated again.\<close>

definition decode_page :: "share_env \<Rightarrow> bytes \<Rightarrow> bytes \<Rightarrow> share_error + (pystr \<times> json \<times> json list)" where
  "decode_page env encoded sha =
     (if MAX_SNAPSHOT_BYTES < length encoded \<or> hash env encoded \<noteq> sha then Inl Share_unavailable
      else case decode env encoded of
        Some (JObj d) \<Rightarrow>
          if \<not> dkeys_eq d [''title'', ''created_at'', ''messages''] then Inl Share_unavailable
          else (case snapshot (flt env) (dget d ''messages'') (dget d ''title'') (dget d ''created_at'') of
              Inl _ \<Rightarrow> Inl Share_unavailable
            | Inr (t, projected, _) \<Rightarrow> Inr (t, dget d ''created_at'', projected))
      | _ \<Rightarrow> Inl Share_unavailable)"

text \<open>The page argument: \<open>None\<close> asks for the newest page.\<close>

definition page_arg :: "json \<Rightarrow> nat option option" where
  "page_arg p = (case p of
     JNull \<Rightarrow> Some None
   | JInt n \<Rightarrow> if 0 \<le> n \<and> n \<le> 2 ^ 31 - 1 then Some (Some (nat n)) else None
   | _ \<Rightarrow> None)"

definition page_source :: "share_db \<Rightarrow> share_row \<Rightarrow> nat \<Rightarrow> (bytes \<times> bytes) option" where
  "page_source db r n = (if n = 0 then Some (row_json r, row_sha r)
     else map_option (\<lambda>x. (page_json x, page_sha x))
       (find (\<lambda>x. page_share x = row_share r \<and> page_index x = n) (share_pages db)))"

definition get_snapshot_page :: "share_env \<Rightarrow> share_db \<Rightarrow> json \<Rightarrow> json \<Rightarrow> json \<Rightarrow> json \<Rightarrow> share_error + snapshot_page" where
  "get_snapshot_page env db token share page now = (case (token_arg token share, page_arg page) of
     (Some (t, i), Some p) \<Rightarrow>
       if \<not> timestamp_ok now then Inl Share_invalid
       else (case open_row env db t i now of
           None \<Rightarrow> Inl Share_unavailable
         | Some r \<Rightarrow>
             let count = 1 + length (filter (\<lambda>x. page_share x = row_share r) (share_pages db));
                 n = (case p of None \<Rightarrow> count - 1 | Some n \<Rightarrow> n)
             in if count \<le> n then Inl Share_unavailable
                else case page_source db r n of
                  None \<Rightarrow> Inl Share_unavailable
                | Some (encoded, sha) \<Rightarrow> ebind (decode_page env encoded sha) (\<lambda>(title, created, messages).
                    Inr \<lparr>sp_title = title, sp_created = created, sp_messages = messages, sp_page = n,
                      sp_page_count = count, sp_message_count = row_count r, sp_session = row_session r\<rparr>))
   | _ \<Rightarrow> Inl Share_unavailable)"

definition authorize_access :: "share_env \<Rightarrow> share_db \<Rightarrow> json \<Rightarrow> json \<Rightarrow> json \<Rightarrow> share_error + unit" where
  "authorize_access env db token share now = (case token_arg token share of
     None \<Rightarrow> Inl Share_unavailable
   | Some (t, i) \<Rightarrow>
       if \<not> timestamp_ok now then Inl Share_invalid
       else (case open_row env db t i now of None \<Rightarrow> Inl Share_unavailable | Some _ \<Rightarrow> Inr ()))"

text \<open>Indexing of lists and dictionaries that came from a validated page.\<close>

definition index_arg :: "json \<Rightarrow> nat option" where
  "index_arg v = (case v of JInt n \<Rightarrow> if 0 \<le> n \<and> n \<le> 2 ^ 31 - 1 then Some (nat n) else None | _ \<Rightarrow> None)"

definition get_snapshot_video :: "share_env \<Rightarrow> share_db \<Rightarrow> json \<Rightarrow> json \<Rightarrow> json \<Rightarrow> json \<Rightarrow> json \<Rightarrow> json
    \<Rightarrow> share_error + (pystr \<times> json)" where
  "get_snapshot_video env db token share page message video now =
     (case (index_arg page, index_arg message, index_arg video) of
        (Some _, Some m, Some v) \<Rightarrow> ebind (get_snapshot_page env db token share page now) (\<lambda>sp.
          if length (sp_messages sp) \<le> m then Inl Share_unavailable
          else (case sp_messages sp ! m of
            JObj d \<Rightarrow> (case dget d ''videos'' of
               JArr vs \<Rightarrow> if length vs \<le> v then Inl Share_unavailable else Inr (sp_session sp, vs ! v)
             | _ \<Rightarrow> Inl Share_unavailable)
          | _ \<Rightarrow> Inl Share_unavailable))
      | _ \<Rightarrow> Inl Share_unavailable)"

end
