(* ===== verification/Share_Pages.thy ===== *)
theory Share_Pages
  imports Public_Shares
begin

text \<open>
  Streamed shares: the byte counts that decide where a page ends are exact, so cutting the pages never
  fails on messages that are acceptable one by one, and reading the pages back gives the messages.
\<close>

section \<open>Sizes of encodings\<close>

definition width :: "pystr \<Rightarrow> nat" where
  "width s = sum_list (map utf8_width s)"

definition encodable :: "pystr \<Rightarrow> bool" where
  "encodable s \<longleftrightarrow> \<not> list_ex is_surrogate s"

lemma width_simps [simp]: "width [] = 0" "width (c # s) = utf8_width c + width s" "width (s @ t) = width s + width t"
  by (simp_all add: width_def)

lemma encodable_simps [simp]:
  "encodable []" "encodable (c # s) \<longleftrightarrow> \<not> is_surrogate c \<and> encodable s" "encodable (s @ t) \<longleftrightarrow> encodable s \<and> encodable t"
  by (simp_all add: encodable_def)

lemma utf8_size_width: "utf8_size s = (if encodable s then Some (width s) else None)"
  by (simp add: utf8_size_def encodable_def width_def)

lemma length_concat_utf8: "length (concat (map utf8_char s)) = width s"
  by (induction s) (simp_all add: utf8_char_def utf8_width_def)

definition doc_text :: "(rat \<Rightarrow> pystr) \<Rightarrow> json \<Rightarrow> pystr" where
  "doc_text fr v = dumps (compact_opts False fr) v"

lemma json_bytes_Inr:
  "json_bytes fr v = Inr b \<longleftrightarrow> encodable (doc_text fr v) \<and> b = concat (map utf8_char (doc_text fr v))"
  by (auto simp: json_bytes_def utf8_encode_def doc_text_def encodable_def)

lemma json_bytes_length: "json_bytes fr v = Inr b \<Longrightarrow> length b = width (doc_text fr v)"
  by (simp add: json_bytes_Inr length_concat_utf8)

lemma width_join:
  "xs \<noteq> [] \<Longrightarrow> width (join [44] xs) = sum_list (map width xs) + (length xs - 1)"
  by (induction "[44::nat]" xs rule: join.induct) (auto simp: utf8_width_def)

lemma encodable_join: "encodable (join [44] xs) \<longleftrightarrow> list_all encodable xs"
  by (induction "[44::nat]" xs rule: join.induct) (auto simp: is_surrogate_def)

text \<open>The text of a snapshot around the texts of its messages.\<close>

definition doc_prefix :: "(rat \<Rightarrow> pystr) \<Rightarrow> pystr \<Rightarrow> json \<Rightarrow> pystr" where
  "doc_prefix fr t created = [123] @ dumps_str False (lit ''title'') @ [58] @ dumps_str False t @ [44]
     @ dumps_str False (lit ''created_at'') @ [58] @ doc_text fr created @ [44] @ dumps_str False (lit ''messages'') @ [58, 91]"

lemma doc_text_snapshot:
  "doc_text fr (snapshot_doc t created ms) = doc_prefix fr t created @ join [44] (map (doc_text fr) ms) @ [93, 125]"
  by (simp add: doc_text_def [abs_def] doc_prefix_def snapshot_doc_def compact_opts_def)

lemma snapshot_doc_length:
  assumes "json_bytes fr (snapshot_doc t created []) = Inr b0" "list_all (\<lambda>m. encodable (doc_text fr m)) ms" "ms \<noteq> []"
  shows "\<exists>b. json_bytes fr (snapshot_doc t created ms) = Inr b
    \<and> length b = length b0 + sum_list (map (\<lambda>m. width (doc_text fr m)) ms) + (length ms - 1)"
proof -
  have "encodable (doc_prefix fr t created)" using assms(1) by (simp add: json_bytes_Inr doc_text_snapshot)
  moreover have "list_all encodable (map (doc_text fr) ms)" using assms(2) by (simp add: list_all_iff)
  ultimately have "encodable (doc_text fr (snapshot_doc t created ms))"
    by (simp add: doc_text_snapshot encodable_join is_surrogate_def)
  then obtain b where b: "json_bytes fr (snapshot_doc t created ms) = Inr b" by (simp add: json_bytes_Inr)
  have "length b = length b0 + sum_list (map (\<lambda>m. width (doc_text fr m)) ms) + (length ms - 1)"
    using json_bytes_length [OF b] json_bytes_length [OF assms(1)] assms(3)
    by (simp add: doc_text_snapshot width_join comp_def)
  with b show ?thesis by blast
qed

section \<open>Messages\<close>

text \<open>Encoding never shortens a text.\<close>

lemma width_escape: "utf8_width c \<le> width (escape_char False c)"
proof (cases "c < 128")
  case True
  then show ?thesis by (auto simp: escape_char_def hex4_def utf8_width_def)
qed (simp add: escape_char_def)

lemma width_dumps_str: "width s \<le> width (dumps_str False s)"
proof -
  have "width s \<le> width (concat (map (escape_char False) s))"
    using width_escape by (induction s) (auto intro: add_mono)
  then show ?thesis by (simp add: dumps_str_def)
qed

lemma doc_prefix_title: "width t \<le> width (doc_prefix fr t created)"
  using width_dumps_str [of t] by (simp add: doc_prefix_def)

definition videos_field :: "jdict \<Rightarrow> share_error + jdict" where
  "videos_field m = (if dhas m ''videos'' then
      (case normalize_shared_chat_videos (dget m ''videos'') of
         None \<Rightarrow> Inl Share_invalid
       | Some vs \<Rightarrow> Inr (if vs = [] then [] else [(lit ''videos'', JArr (map JObj vs))]))
    else Inr [])"

definition stamp_field :: "jdict \<Rightarrow> share_error + jdict" where
  "stamp_field m = (if dhas m ''timestamp'' then
      (if timestamp_ok (dget m ''timestamp'') then Inr [(lit ''timestamp'', dget m ''timestamp'')] else Inl Share_invalid)
    else Inr [])"

lemma message_item_Inr:
  "message_item v = Inr (n, item) \<longleftrightarrow> (\<exists>m t videos stamp. v = JObj m
     \<and> set (map fst m) \<subseteq> set (map lit [''role'', ''text'', ''timestamp'', ''videos''])
     \<and> dget m ''role'' \<in> {js ''user'', js ''assistant''} \<and> dget m ''text'' = JStr t \<and> utf8_limit t MAX_MESSAGE_BYTES = Inr n
     \<and> videos_field m = Inr videos \<and> stamp_field m = Inr stamp
     \<and> item = JObj ([(lit ''role'', dget m ''role''), (lit ''text'', JStr t)] @ videos @ stamp))"
proof (cases "\<exists>m t. v = JObj m \<and> dget m ''text'' = JStr t")
  case True
  then obtain m t where m: "v = JObj m" "dget m ''text'' = JStr t" by blast
  show ?thesis
    unfolding message_item_def m json.case videos_field_def [symmetric] stamp_field_def [symmetric]
    by (auto simp: m ebind_Inr_iff list_all_iff subset_iff)
next
  case False
  then have "message_item v \<noteq> Inr (n, item)"
    by (cases v) (auto simp: message_item_def split: if_splits json.splits)
  then show ?thesis using False by auto
qed

lemma videos_loop_Some: "videos_loop seen out xs = Some r \<Longrightarrow> \<exists>items. r = out @ items \<and> xs = map JObj items"
proof (induction seen out xs rule: videos_loop.induct)
  case (2 seen out item rest)
  then obtain i where i: "video_ok seen item = Some i" by (cases "video_ok seen item") auto
  with 2 obtain items where "r = (out @ [item]) @ items" "rest = map JObj items" by auto
  then show ?case by (intro exI [of _ "item # items"]) simp
qed simp_all

lemma normalize_videos_stable: "normalize_shared_chat_videos v = Some vs \<Longrightarrow> v = JArr (map JObj vs)"
proof (cases v)
  case (JArr xs)
  assume "normalize_shared_chat_videos v = Some vs"
  then have "videos_loop [] [] xs = Some vs" using JArr by (simp add: normalize_shared_chat_videos_def split: if_splits)
  then show ?thesis using videos_loop_Some JArr by fastforce
qed (simp_all add: normalize_shared_chat_videos_def)

lemma videos_field_cases:
  assumes "videos_field m = Inr videos"
  obtains "videos = []" | vs where "videos = [(lit ''videos'', JArr (map JObj vs))]" "vs \<noteq> []"
    "normalize_shared_chat_videos (JArr (map JObj vs)) = Some vs"
proof (cases "dhas m ''videos''")
  case True
  then obtain vs where vs: "normalize_shared_chat_videos (dget m ''videos'') = Some vs"
    "videos = (if vs = [] then [] else [(lit ''videos'', JArr (map JObj vs))])"
    using assms by (cases "normalize_shared_chat_videos (dget m ''videos'')") (simp_all add: videos_field_def)
  show thesis
  proof (cases "vs = []")
    case False
    show thesis by (rule that(2) [of vs]) (use vs False normalize_videos_stable [OF vs(1)] in simp_all)
  qed (use vs that(1) in simp)
qed (use assms that(1) in \<open>simp add: videos_field_def\<close>)

lemma stamp_field_cases:
  assumes "stamp_field m = Inr stamp"
  obtains "stamp = []" | x where "stamp = [(lit ''timestamp'', x)]" "timestamp_ok x"
  using assms that by (auto simp: stamp_field_def split: if_splits)

lemma message_item_stable:
  assumes "message_item v = Inr (n, item)"
  shows "message_item item = Inr (n, item)"
proof -
  obtain m t videos stamp where m: "v = JObj m" "dget m ''role'' \<in> {js ''user'', js ''assistant''}"
    "utf8_limit t MAX_MESSAGE_BYTES = Inr n" "videos_field m = Inr videos" "stamp_field m = Inr stamp"
    and item: "item = JObj ([(lit ''role'', dget m ''role''), (lit ''text'', JStr t)] @ videos @ stamp)"
    using assms unfolding message_item_Inr by blast
  let ?d = "[(lit ''role'', dget m ''role''), (lit ''text'', JStr t)] @ videos @ stamp"
  have form: "videos = [] \<or> (\<exists>vs. videos = [(lit ''videos'', JArr (map JObj vs))] \<and> vs \<noteq> []
      \<and> normalize_shared_chat_videos (JArr (map JObj vs)) = Some vs)"
    "stamp = [] \<or> (\<exists>x. stamp = [(lit ''timestamp'', x)] \<and> timestamp_ok x)"
    using videos_field_cases [OF m(4)] stamp_field_cases [OF m(5)] by metis+
  have v: "videos_field ?d = Inr videos" using form by (elim disjE exE conjE) (simp_all add: videos_field_def)
  have s: "stamp_field ?d = Inr stamp" using form by (elim disjE exE conjE) (simp_all add: stamp_field_def)
  have k: "set (map fst videos) \<subseteq> {lit ''videos''}" "set (map fst stamp) \<subseteq> {lit ''timestamp''}" using form by auto
  show ?thesis unfolding message_item_Inr item
    by (intro exI [of _ ?d] exI [of _ t] exI [of _ videos] exI [of _ stamp]) (use m(2,3) v s k in auto)
qed

definition shared_message :: "json \<Rightarrow> json option" where
  "shared_message v = (case message_item v of Inl _ \<Rightarrow> None | Inr (n, item) \<Rightarrow> Some item)"

interpretation share_messages: normal_form shared_message "\<lambda>x. case x of None \<Rightarrow> JNull | Some v \<Rightarrow> v"
proof
  fix v
  show "shared_message (case shared_message v of None \<Rightarrow> JNull | Some v \<Rightarrow> v) = shared_message v"
  proof (cases "message_item v")
    case (Inl e)
    moreover have "message_item JNull = Inl Share_invalid" by (simp add: message_item_def)
    ultimately show ?thesis by (simp add: shared_message_def)
  next
    case (Inr ni)
    then obtain n item where i: "message_item v = Inr (n, item)" by (cases ni) simp
    from message_item_stable [OF this] i show ?thesis by (simp add: shared_message_def)
  qed
qed

lemma utf8_limit_Inr: "utf8_limit s k = Inr n \<longleftrightarrow> encodable s \<and> n = width s \<and> width s \<le> k"
proof -
  have "length s \<le> width s" by (induction s) (auto simp: utf8_width_def)
  then show ?thesis by (auto simp: utf8_limit_def utf8_size_width)
qed

lemma message_item_width:
  assumes "message_item v = Inr (n, item)"
  shows "n \<le> width (doc_text fr item)"
proof -
  obtain r t rest where item: "item = JObj ((lit ''role'', r) # (lit ''text'', JStr t) # rest)" "n = width t"
    using assms unfolding message_item_Inr by (auto simp: utf8_limit_Inr)
  have "width (dumps_str False t) \<le> width (doc_text fr item)"
    by (cases rest) (simp_all add: doc_text_def item(1) compact_opts_def)
  then show ?thesis using width_dumps_str [of t] item(2) by simp
qed

section \<open>Snapshots of good messages\<close>

text \<open>A message that is projected and encodable, as it lies on a page.\<close>

definition good :: "(rat \<Rightarrow> pystr) \<Rightarrow> json \<Rightarrow> bool" where
  "good fr item \<longleftrightarrow> (\<exists>n. message_item item = Inr (n, item)) \<and> encodable (doc_text fr item)"

abbreviation item_width :: "(rat \<Rightarrow> pystr) \<Rightarrow> json \<Rightarrow> nat" where
  "item_width fr item \<equiv> width (doc_text fr item)"

definition separators :: "json list \<Rightarrow> json list \<Rightarrow> nat" where
  "separators projected items = (if projected = [] then length items - 1 else length items)"

lemma snapshot_messages_good:
  assumes "list_all (good fr) items" "texts + sum_list (map (item_width fr) items) \<le> MAX_SNAPSHOT_BYTES"
    "serialized + sum_list (map (item_width fr) items) + separators projected items \<le> MAX_SNAPSHOT_BYTES"
  shows "snapshot_messages fr texts serialized projected items = Inr (projected @ items)"
  using assms
proof (induction items arbitrary: texts serialized projected)
  case (Cons item items)
  obtain n where n: "message_item item = Inr (n, item)" and e: "encodable (doc_text fr item)"
    using Cons.prems(1) by (auto simp: good_def)
  obtain b where b: "json_bytes fr item = Inr b" "length b = item_width fr item"
    using e json_bytes_length by (auto simp: json_bytes_Inr length_concat_utf8)
  have le: "n \<le> item_width fr item" by (rule message_item_width [OF n])
  let ?s = "serialized + length b + (if projected = [] then 0 else 1)"
  have sep: "?s + sum_list (map (item_width fr) items) + separators (projected @ [item]) items \<le> MAX_SNAPSHOT_BYTES"
    using Cons.prems(3) b(2) by (auto simp: separators_def)
  have "snapshot_messages fr (texts + n) ?s (projected @ [item]) items = Inr ((projected @ [item]) @ items)"
    by (rule Cons.IH) (use Cons.prems le sep in auto)
  then show ?case using n b le sep Cons.prems(2) by simp
qed simp

lemma snapshot_good:
  assumes "title_check (JStr t) = Inr t" "utf8_limit t (MAX_TITLE_CHARACTERS * 4) = Inr k" "timestamp_ok created"
    "json_bytes fr (snapshot_doc t created []) = Inr b0" "list_all (good fr) items" "items \<noteq> []"
    "length b0 + sum_list (map (item_width fr) items) + (length items - 1) \<le> MAX_SNAPSHOT_BYTES"
  shows "\<exists>b. snapshot fr (JArr items) (JStr t) created = Inr (t, items, b) \<and> json_bytes fr (snapshot_doc t created items) = Inr b
    \<and> length b = length b0 + sum_list (map (item_width fr) items) + (length items - 1)"
proof -
  have "k \<le> length b0"
    using assms(2) doc_prefix_title [of t fr created] json_bytes_length [OF assms(4)]
    by (simp add: utf8_limit_Inr doc_text_snapshot)
  then have "snapshot_messages fr k (length b0) [] items = Inr ([] @ items)"
    by (intro snapshot_messages_good) (use assms(5,7) in \<open>simp_all add: separators_def\<close>)
  moreover have "list_all (\<lambda>m. encodable (doc_text fr m)) items" using assms(5) by (auto simp: list_all_iff good_def)
  then obtain b where b: "json_bytes fr (snapshot_doc t created items) = Inr b"
    "length b = length b0 + sum_list (map (item_width fr) items) + (length items - 1)"
    using snapshot_doc_length [OF assms(4) _ assms(6)] by blast
  ultimately show ?thesis using assms by (simp add: snapshot_def)
qed

text \<open>What a snapshot of one message tells: the projected message is good and fits a page of its own.\<close>

lemma snapshot_single:
  assumes "snapshot fr (JArr [m]) title created = Inr (t, checked, b)"
  shows "\<exists>n item b0 k. message_item m = Inr (n, item) \<and> checked = [item] \<and> good fr item
    \<and> json_bytes fr (snapshot_doc t created []) = Inr b0 \<and> length b0 + item_width fr item \<le> MAX_SNAPSHOT_BYTES
    \<and> title_check (JStr t) = Inr t \<and> utf8_limit t (MAX_TITLE_CHARACTERS * 4) = Inr k \<and> timestamp_ok created"
proof -
  obtain k b0 projected where s: "title_check title = Inr t" "utf8_limit t (MAX_TITLE_CHARACTERS * 4) = Inr k"
      "timestamp_ok created" "json_bytes fr (snapshot_doc t created []) = Inr b0"
      "snapshot_messages fr k (length b0) [] [m] = Inr projected" "checked = projected"
    using assms by (auto simp: snapshot_def ebind_Inr_iff split: if_splits)
  obtain n item bi where i: "message_item m = Inr (n, item)" "json_bytes fr item = Inr bi" "projected = [item]"
      "length b0 + length bi \<le> MAX_SNAPSHOT_BYTES"
    using s(5) by (auto simp: ebind_Inr_iff Let_def split: if_splits)
  have "good fr item" using message_item_stable [OF i(1)] i(2) by (auto simp: good_def json_bytes_Inr)
  moreover have "title_check (JStr t) = Inr t"
    using s(1) by (auto simp: title_check_def split: json.splits if_splits)
  ultimately show ?thesis using s i json_bytes_length [OF i(2)] by auto
qed

section \<open>Cutting pages\<close>

text \<open>The rows of the later pages of a share.\<close>

definition page_rows :: "share_env \<Rightarrow> pystr \<Rightarrow> bytes list \<Rightarrow> page_row list" where
  "page_rows env share_id bs = map (\<lambda>(i, b). \<lparr>page_share = share_id, page_index = i, page_json = b, page_sha = hash env b\<rparr>)
     (enumerate 1 bs)"

lemma page_rows_snoc:
  "page_rows env i (bs @ [b]) = page_rows env i bs
     @ [\<lparr>page_share = i, page_index = Suc (length bs), page_json = b, page_sha = hash env b\<rparr>]"
  by (simp add: page_rows_def enumerate_append_eq)

lemma page_rows_index: "r \<in> set (page_rows env i bs) \<Longrightarrow> page_share r = i \<and> page_index r \<le> length bs"
  by (auto simp: page_rows_def in_set_enumerate_eq)

text \<open>The values that stay fixed while the pages of one share are cut.\<close>

record cutting =
  cut_env :: share_env
  cut_share :: pystr
  cut_title :: pystr
  cut_created :: json
  cut_db :: share_db
  cut_head :: bytes

definition cutting_ok :: "cutting \<Rightarrow> bool" where
  "cutting_ok c \<longleftrightarrow> title_check (JStr (cut_title c)) = Inr (cut_title c)
     \<and> (\<exists>k. utf8_limit (cut_title c) (MAX_TITLE_CHARACTERS * 4) = Inr k) \<and> timestamp_ok (cut_created c)
     \<and> json_bytes (flt (cut_env c)) (snapshot_doc (cut_title c) (cut_created c) []) = Inr (cut_head c)
     \<and> (\<forall>b. length (hash (cut_env c) b) = 32)
     \<and> (\<forall>r \<in> set (share_pages (cut_db c)). page_share r \<noteq> cut_share c)"

text \<open>\<open>p\<close> is a finished page stored as \<open>b\<close>.\<close>

definition page_ok :: "cutting \<Rightarrow> json list \<Rightarrow> bytes \<Rightarrow> bool" where
  "page_ok c p b \<longleftrightarrow> p \<noteq> [] \<and> length p \<le> MAX_SNAPSHOT_PAGE_MESSAGES \<and> length b \<le> MAX_SNAPSHOT_BYTES
     \<and> json_bytes (flt (cut_env c)) (snapshot_doc (cut_title c) (cut_created c) p) = Inr b
     \<and> snapshot (flt (cut_env c)) (JArr p) (JStr (cut_title c)) (cut_created c) = Inr (cut_title c, p, b)"

definition open_page :: "cutting \<Rightarrow> paginator \<Rightarrow> bool" where
  "open_page c pg \<longleftrightarrow> list_all (good (flt (cut_env c))) (pg_page pg) \<and> length (pg_page pg) \<le> MAX_SNAPSHOT_PAGE_MESSAGES
     \<and> pg_bytes pg = sum_list (map (item_width (flt (cut_env c))) (pg_page pg))
     \<and> (pg_page pg \<noteq> [] \<longrightarrow> length (cut_head c) + pg_bytes pg + (length (pg_page pg) - 1) \<le> MAX_SNAPSHOT_BYTES)"

definition stored :: "cutting \<Rightarrow> json list list \<Rightarrow> bytes list \<Rightarrow> paginator \<Rightarrow> bool" where
  "stored c ps bs pg \<longleftrightarrow> list_all2 (page_ok c) ps bs \<and> pg_index pg = length ps
     \<and> pg_first pg = (case bs of [] \<Rightarrow> None | b # _ \<Rightarrow> Some b)
     \<and> pg_db pg = (cut_db c)\<lparr>share_pages := share_pages (cut_db c) @ page_rows (cut_env c) (cut_share c) (tl bs)\<rparr>"

lemma flush_ok:
  assumes "cutting_ok c" "open_page c pg" "stored c ps bs pg" "pg_page pg \<noteq> []"
  shows "\<exists>b pg'. flush (cut_env c) (cut_share c) (cut_title c) (cut_created c) pg = Inr pg'
    \<and> stored c (ps @ [pg_page pg]) (bs @ [b]) pg' \<and> pg_page pg' = [] \<and> pg_bytes pg' = 0 \<and> pg_total pg' = pg_total pg"
proof -
  obtain k where k: "utf8_limit (cut_title c) (MAX_TITLE_CHARACTERS * 4) = Inr k" using assms(1) by (auto simp: cutting_ok_def)
  have "\<exists>b. snapshot (flt (cut_env c)) (JArr (pg_page pg)) (JStr (cut_title c)) (cut_created c) = Inr (cut_title c, pg_page pg, b)
      \<and> json_bytes (flt (cut_env c)) (snapshot_doc (cut_title c) (cut_created c) (pg_page pg)) = Inr b
      \<and> length b = length (cut_head c) + sum_list (map (item_width (flt (cut_env c))) (pg_page pg)) + (length (pg_page pg) - 1)"
    by (rule snapshot_good [OF _ k]) (use assms(1,2,4) in \<open>auto simp: cutting_ok_def open_page_def\<close>)
  then obtain b where b: "snapshot (flt (cut_env c)) (JArr (pg_page pg)) (JStr (cut_title c)) (cut_created c) = Inr (cut_title c, pg_page pg, b)"
      "json_bytes (flt (cut_env c)) (snapshot_doc (cut_title c) (cut_created c) (pg_page pg)) = Inr b" "length b \<le> MAX_SNAPSHOT_BYTES"
    using assms(2,4) by (auto simp: open_page_def)
  have ok: "page_ok c (pg_page pg) b" using b assms(2,4) by (simp add: page_ok_def open_page_def)
  have len: "length ps = length bs" using assms(3) by (auto simp: stored_def list_all2_lengthD)
  show ?thesis
  proof (cases "bs = []")
    case True
    let ?pg = "pg\<lparr>pg_first := Some b, pg_index := pg_index pg + 1, pg_page := [], pg_bytes := 0\<rparr>"
    from True have "flush (cut_env c) (cut_share c) (cut_title c) (cut_created c) pg = Inr ?pg"
      using assms(3,4) len b(1) by (simp add: flush_def stored_def)
    then show ?thesis using True assms(3) len ok by (intro exI [of _ b] exI [of _ ?pg]) (simp add: stored_def page_rows_def)
  next
    case False
    let ?r = "\<lparr>page_share = cut_share c, page_index = pg_index pg, page_json = b, page_sha = hash (cut_env c) b\<rparr>"
    let ?pg = "pg\<lparr>pg_db := (pg_db pg)\<lparr>share_pages := share_pages (pg_db pg) @ [?r]\<rparr>, pg_index := pg_index pg + 1,
      pg_page := [], pg_bytes := 0\<rparr>"
    have idx: "pg_index pg = Suc (length (tl bs))" using assms(3) len False by (simp add: stored_def)
    have "insert_page ?r (pg_db pg) = Inr ((pg_db pg)\<lparr>share_pages := share_pages (pg_db pg) @ [?r]\<rparr>)"
      using assms(1,3) b(3) idx page_rows_index [of _ "cut_env c" "cut_share c" "tl bs"]
      by (fastforce simp: insert_page_def stored_def cutting_ok_def list_ex_iff MAX_SNAPSHOT_BYTES_def)
    then have "flush (cut_env c) (cut_share c) (cut_title c) (cut_created c) pg = Inr ?pg"
      using assms(4) b(1) idx by (simp add: flush_def)
    moreover have "tl (bs @ [b]) = tl bs @ [b]" "pg_first pg = (case bs @ [b] of [] \<Rightarrow> None | b # _ \<Rightarrow> Some b)"
      using False assms(3) by (cases bs; simp add: stored_def)+
    ultimately show ?thesis using assms(3) ok idx
      by (intro exI [of _ b] exI [of _ ?pg]) (simp add: stored_def page_rows_snoc list_all2_appendI)
  qed
qed

lemma emit_ok:
  assumes "cutting_ok c" "open_page c pg" "stored c ps bs pg"
    and sn: "snapshot (flt (cut_env c)) (JArr [m]) (JStr (cut_title c)) (cut_created c) = Inr x"
  shows "\<exists>n item ps' bs' pg'. message_item m = Inr (n, item)
    \<and> emit (cut_env c) (cut_share c) (cut_title c) (cut_created c) (length (cut_head c)) m pg = Inr pg'
    \<and> open_page c pg' \<and> stored c ps' bs' pg' \<and> concat ps' @ pg_page pg' = concat ps @ pg_page pg @ [item]
    \<and> pg_page pg' \<noteq> [] \<and> pg_total pg' = pg_total pg + 1"
proof -
  obtain t checked b where x: "x = (t, checked, b)" by (cases x)
  have t: "t = cut_title c" using sn assms(1) by (auto simp: x snapshot_def cutting_ok_def ebind_Inr_iff split: if_splits)
  obtain n item where i: "message_item m = Inr (n, item)" "checked = [item]" "good (flt (cut_env c)) item"
      "length (cut_head c) + item_width (flt (cut_env c)) item \<le> MAX_SNAPSHOT_BYTES"
    using snapshot_single [OF sn [unfolded x]] assms(1) by (auto simp: cutting_ok_def t)
  obtain bi where bi: "json_bytes (flt (cut_env c)) item = Inr bi" "length bi = item_width (flt (cut_env c)) item"
    using i(3) json_bytes_length by (auto simp: good_def json_bytes_Inr length_concat_utf8)
  define full where "full \<longleftrightarrow> pg_page pg \<noteq> [] \<and> (MAX_SNAPSHOT_PAGE_MESSAGES \<le> length (pg_page pg)
      \<or> MAX_SNAPSHOT_BYTES < length (cut_head c) + pg_bytes pg + length bi + length (pg_page pg))"
  define add where "add pg = pg\<lparr>pg_page := pg_page pg @ [item], pg_bytes := pg_bytes pg + length bi, pg_total := pg_total pg + 1\<rparr>"
    for pg :: paginator
  have em: "emit (cut_env c) (cut_share c) (cut_title c) (cut_created c) (length (cut_head c)) m pg =
      ebind (if full then flush (cut_env c) (cut_share c) (cut_title c) (cut_created c) pg else Inr pg) (\<lambda>pg. Inr (add pg))"
    by (simp add: emit_def sn x i(2) bi(1) Let_def full_def add_def)
  have sa: "stored c ps bs (add pg) = stored c ps bs pg" "pg_page (add pg) = pg_page pg @ [item]" "pg_total (add pg) = pg_total pg + 1"
    for ps bs pg by (simp_all add: stored_def add_def)
  show ?thesis
  proof (cases full)
    case True
    then have ne: "pg_page pg \<noteq> []" by (simp add: full_def)
    obtain b pg1 where p1: "flush (cut_env c) (cut_share c) (cut_title c) (cut_created c) pg = Inr pg1"
        "stored c (ps @ [pg_page pg]) (bs @ [b]) pg1" "pg_page pg1 = []" "pg_bytes pg1 = 0" "pg_total pg1 = pg_total pg"
      using flush_ok [OF assms(1-3) ne] by blast
    have "open_page c (add pg1)" using p1(3,4) i(3,4) bi(2) by (simp add: open_page_def add_def MAX_SNAPSHOT_PAGE_MESSAGES_def)
    then show ?thesis using i(1) em True p1 sa
      by (intro exI [of _ n] exI [of _ item] exI [of _ "ps @ [pg_page pg]"] exI [of _ "bs @ [b]"] exI [of _ "add pg1"])
        simp
  next
    case False
    have "open_page c (add pg)"
      using False assms(2) i(3,4) bi(2)
      by (cases "pg_page pg = []") (auto simp: open_page_def add_def full_def MAX_SNAPSHOT_PAGE_MESSAGES_def)
    then show ?thesis using i(1) em False assms(3) sa
      by (intro exI [of _ n] exI [of _ item] exI [of _ ps] exI [of _ bs] exI [of _ "add pg"]) simp
  qed
qed

text \<open>The projected form of a message, and whether it is acceptable on its own.\<close>

definition acceptable :: "cutting \<Rightarrow> json \<Rightarrow> bool" where
  "acceptable c m \<longleftrightarrow> (\<exists>x. snapshot (flt (cut_env c)) (JArr [m]) (JStr (cut_title c)) (cut_created c) = Inr x)"

lemma emit_all_ok:
  assumes "cutting_ok c" "open_page c pg" "stored c ps bs pg" "list_all (acceptable c) ms"
  shows "\<exists>items ps' bs' pg'. list_all2 (\<lambda>m item. shared_message m = Some item) ms items
    \<and> emit_all (cut_env c) (cut_share c) (cut_title c) (cut_created c) (length (cut_head c)) ms pg = Inr pg'
    \<and> open_page c pg' \<and> stored c ps' bs' pg' \<and> concat ps' @ pg_page pg' = concat ps @ pg_page pg @ items
    \<and> (pg_page pg \<noteq> [] \<or> ms \<noteq> [] \<longrightarrow> pg_page pg' \<noteq> []) \<and> pg_total pg' = pg_total pg + length ms"
  using assms(2-4)
proof (induction ms arbitrary: pg ps bs)
  case Nil
  then show ?case by (intro exI [of _ "[]"] exI [of _ ps] exI [of _ bs] exI [of _ pg]) simp
next
  case (Cons m ms)
  obtain x where x: "snapshot (flt (cut_env c)) (JArr [m]) (JStr (cut_title c)) (cut_created c) = Inr x"
    using Cons.prems(3) by (auto simp: acceptable_def)
  obtain n item ps1 bs1 pg1 where 1: "message_item m = Inr (n, item)"
      "emit (cut_env c) (cut_share c) (cut_title c) (cut_created c) (length (cut_head c)) m pg = Inr pg1"
      "open_page c pg1" "stored c ps1 bs1 pg1" "concat ps1 @ pg_page pg1 = concat ps @ pg_page pg @ [item]"
      "pg_page pg1 \<noteq> []" "pg_total pg1 = pg_total pg + 1"
    using emit_ok [OF assms(1) Cons.prems(1,2) x] by blast
  obtain items ps2 bs2 pg2 where 2: "list_all2 (\<lambda>m item. shared_message m = Some item) ms items"
      "emit_all (cut_env c) (cut_share c) (cut_title c) (cut_created c) (length (cut_head c)) ms pg1 = Inr pg2"
      "open_page c pg2" "stored c ps2 bs2 pg2" "concat ps2 @ pg_page pg2 = concat ps1 @ pg_page pg1 @ items"
      "pg_page pg2 \<noteq> []" "pg_total pg2 = pg_total pg1 + length ms"
    using Cons.IH [OF 1(3,4)] Cons.prems(3) 1(6) by auto
  have "concat ps2 @ pg_page pg2 = concat ps @ pg_page pg @ (item # items)"
    using 2(5) arg_cong [OF 1(5), of "\<lambda>l. l @ items"] by simp
  then show ?case using 1 2
    by (intro exI [of _ "item # items"] exI [of _ ps2] exI [of _ bs2] exI [of _ pg2]) (simp add: shared_message_def)
qed

lemma emit_all_acceptable:
  "emit_all (cut_env c) (cut_share c) (cut_title c) (cut_created c) (length (cut_head c)) ms pg = Inr pg' \<Longrightarrow> list_all (acceptable c) ms"
  by (induction ms arbitrary: pg) (auto simp: ebind_Inr_iff emit_def acceptable_def)

section \<open>Streamed shares\<close>

text \<open>The title and creation time of a streamed share are checked with an empty message first.\<close>

definition seed_snapshot :: "share_env \<Rightarrow> json \<Rightarrow> json \<Rightarrow> share_error + (pystr \<times> json list \<times> bytes)" where
  "seed_snapshot env title now =
     snapshot (flt env) (JArr [JObj [(lit ''role'', js ''user''), (lit ''text'', JStr [])]]) title now"

definition cutting_of :: "share_env \<Rightarrow> share_db \<Rightarrow> pystr \<Rightarrow> pystr \<Rightarrow> json \<Rightarrow> bytes \<Rightarrow> cutting" where
  "cutting_of env db share_id t now b0 =
     \<lparr>cut_env = env, cut_share = share_id, cut_title = t, cut_created = now, cut_db = db, cut_head = b0\<rparr>"

text \<open>The identifier is new to the store, and the digest is one of SHA-256.\<close>

definition fresh_share :: "share_env \<Rightarrow> share_db \<Rightarrow> pystr \<Rightarrow> bool" where
  "fresh_share env db share_id \<longleftrightarrow> (\<forall>b. length (hash env b) = 32)
     \<and> (\<forall>r \<in> set (share_pages db). page_share r \<noteq> share_id) \<and> share_id \<notin> fst ` set (revocations db)"

lemma seed_cutting:
  assumes "seed_snapshot env title now = Inr (t, x)" "fresh_share env db share_id"
  obtains b0 where "json_bytes (flt env) (snapshot_doc t now []) = Inr b0" "cutting_ok (cutting_of env db share_id t now b0)"
proof -
  obtain ch y where x: "x = (ch, y)" by (cases x)
  obtain b0 k where "json_bytes (flt env) (snapshot_doc t now []) = Inr b0" "title_check (JStr t) = Inr t"
      "utf8_limit t (MAX_TITLE_CHARACTERS * 4) = Inr k" "timestamp_ok now"
    using snapshot_single [OF assms(1) [unfolded seed_snapshot_def x]] by blast
  then show thesis using that assms(2) by (simp add: cutting_ok_def cutting_of_def fresh_share_def)
qed

definition start_pages :: "share_db \<Rightarrow> paginator" where
  "start_pages db = \<lparr>pg_first = None, pg_page = [], pg_bytes = 0, pg_index = 0, pg_total = 0, pg_db = db\<rparr>"

lemma cut_pages:
  assumes "cutting_ok c" "list_all (acceptable c) ms" "ms \<noteq> []"
  shows "\<exists>items ps b bs pg pg'. list_all2 (\<lambda>m item. shared_message m = Some item) ms items \<and> concat ps = items
    \<and> emit_all (cut_env c) (cut_share c) (cut_title c) (cut_created c) (length (cut_head c)) ms (start_pages (cut_db c)) = Inr pg
    \<and> flush (cut_env c) (cut_share c) (cut_title c) (cut_created c) pg = Inr pg' \<and> list_all2 (page_ok c) ps (b # bs)
    \<and> pg_first pg' = Some b \<and> pg_total pg' = length ms
    \<and> pg_db pg' = (cut_db c)\<lparr>share_pages := share_pages (cut_db c) @ page_rows (cut_env c) (cut_share c) bs\<rparr>"
proof -
  have "open_page c (start_pages (cut_db c))" "stored c [] [] (start_pages (cut_db c))"
    by (simp_all add: open_page_def stored_def start_pages_def page_rows_def)
  from emit_all_ok [OF assms(1) this assms(2)]
  obtain items ps bs pg where 1: "list_all2 (\<lambda>m item. shared_message m = Some item) ms items"
      "emit_all (cut_env c) (cut_share c) (cut_title c) (cut_created c) (length (cut_head c)) ms (start_pages (cut_db c)) = Inr pg"
      "open_page c pg" "stored c ps bs pg" "concat ps @ pg_page pg = items" "pg_page pg \<noteq> []" "pg_total pg = length ms"
    using assms(3) by (auto simp: start_pages_def)
  obtain b pg' where 2: "flush (cut_env c) (cut_share c) (cut_title c) (cut_created c) pg = Inr pg'"
      "stored c (ps @ [pg_page pg]) (bs @ [b]) pg'" "pg_total pg' = pg_total pg"
    using flush_ok [OF assms(1) 1(3,4,6)] by blast
  obtain b1 bs1 where bs: "bs @ [b] = b1 # bs1" by (cases "bs @ [b]") auto
  show ?thesis using 1 2
    by (intro exI [of _ items] exI [of _ "ps @ [pg_page pg]"] exI [of _ b1] exI [of _ bs1] exI [of _ pg] exI [of _ pg'])
      (simp add: stored_def bs)
qed

text \<open>The stored rows of a streamed share.\<close>

definition streamed_row :: "share_env \<Rightarrow> pystr \<Rightarrow> pystr \<Rightarrow> pystr \<Rightarrow> pystr \<Rightarrow> json \<Rightarrow> json \<Rightarrow> nat \<Rightarrow> bytes \<Rightarrow> share_row" where
  "streamed_row env share_id sid token t now expires n b = \<lparr>row_share = share_id, row_session = sid,
     row_token = hash env (enc token), row_title = t, row_created = now, row_expires = expires, row_count = n,
     row_json = b, row_sha = hash env b\<rparr>"

lemma create_streamed_share_unfold:
  assumes "session_id_check session = Inr sid" "expiry_check expires now = Inr ()" "seed_snapshot env title now = Inr (t, x)"
    "json_bytes (flt env) (snapshot_doc t now []) = Inr b0"
  shows "create_streamed_share env db session ms title expires now token share_id =
    ebind (emit_all env share_id t now (length b0) ms (start_pages db)) (\<lambda>pg. ebind (flush env share_id t now pg) (\<lambda>pg.
      case pg_first pg of None \<Rightarrow> Inl Share_invalid
      | Some first \<Rightarrow> insert_share (streamed_row env share_id sid token t now expires (pg_total pg) first) (pg_db pg)))"
  using assms unfolding streamed_row_def by (cases x) (simp add: create_streamed_share_def seed_snapshot_def start_pages_def)

text \<open>C16. Cutting pages never fails: a streamed share of at least one message is created whenever its session,
  expiry and title are valid, its token and identifier are new, and each message alone would be accepted.\<close>

theorem streamed_share_succeeds:
  assumes "session_id_check session = Inr sid" and "expiry_check expires now = Inr ()"
    and "seed_snapshot env title now = Inr (t, x)" and "fresh_share env db share_id"
    and "\<forall>r \<in> set (shares db). row_share r \<noteq> share_id \<and> row_token r \<noteq> hash env (enc token)"
    and "messages \<noteq> []" and "\<forall>m \<in> set messages. \<exists>y. snapshot (flt env) (JArr [m]) (JStr t) now = Inr y"
  shows "\<exists>db'. create_streamed_share env db session messages title expires now token share_id = Inr db'"
proof -
  obtain b0 where b0: "json_bytes (flt env) (snapshot_doc t now []) = Inr b0" "cutting_ok (cutting_of env db share_id t now b0)"
    using seed_cutting [OF assms(3,4)] .
  let ?c = "cutting_of env db share_id t now b0"
  have "list_all (acceptable ?c) messages" using assms(7) by (simp add: acceptable_def cutting_of_def list_all_iff)
  then obtain ps b bs pg pg' where p:
      "emit_all env share_id t now (length b0) messages (start_pages db) = Inr pg"
      "flush env share_id t now pg = Inr pg'" "list_all2 (page_ok ?c) ps (b # bs)" "pg_first pg' = Some b"
      "pg_total pg' = length messages" "pg_db pg' = db\<lparr>share_pages := share_pages db @ page_rows env share_id bs\<rparr>"
    using cut_pages [OF b0(2) _ assms(6)] by (auto simp: cutting_of_def)
  have "length b \<le> MAX_SNAPSHOT_BYTES" using p(3) by (auto simp: list_all2_Cons2 page_ok_def)
  then have "insert_share (streamed_row env share_id sid token t now expires (length messages) b) (pg_db pg')
      = Inr ((pg_db pg')\<lparr>shares := shares (pg_db pg') @ [streamed_row env share_id sid token t now expires (length messages) b]\<rparr>)"
    using p(6) assms(4,5,6) by (auto simp: insert_share_def streamed_row_def fresh_share_def list_ex_iff MAX_SNAPSHOT_BYTES_def)
  then show ?thesis using p by (simp add: create_streamed_share_unfold [OF assms(1-3) b0(1)])
qed

lemma create_streamed_share_Inr:
  assumes "create_streamed_share env db session ms title expires now token share_id = Inr db'" "fresh_share env db share_id"
  shows "\<exists>sid t x b0 items ps b bs. session_id_check session = Inr sid \<and> expiry_check expires now = Inr ()
    \<and> seed_snapshot env title now = Inr (t, x)
    \<and> list_all2 (\<lambda>m item. shared_message m = Some item) ms items \<and> concat ps = items
    \<and> list_all2 (page_ok (cutting_of env db share_id t now b0)) ps (b # bs)
    \<and> (\<forall>r \<in> set (shares db). row_share r \<noteq> share_id)
    \<and> db' = db\<lparr>share_pages := share_pages db @ page_rows env share_id bs,
              shares := shares db @ [streamed_row env share_id sid token t now expires (length ms) b]\<rparr>"
proof -
  obtain sid t x where s: "session_id_check session = Inr sid" "expiry_check expires now = Inr ()" "seed_snapshot env title now = Inr (t, x)"
    using assms(1) by (auto simp: create_streamed_share_def seed_snapshot_def ebind_Inr_iff)
  obtain b0 where b0: "json_bytes (flt env) (snapshot_doc t now []) = Inr b0" "cutting_ok (cutting_of env db share_id t now b0)"
    using seed_cutting [OF s(3) assms(2)] .
  let ?c = "cutting_of env db share_id t now b0"
  note run = assms(1) [unfolded create_streamed_share_unfold [OF s b0(1)]]
  obtain pg pg' where e: "emit_all env share_id t now (length b0) ms (start_pages db) = Inr pg" "flush env share_id t now pg = Inr pg'"
    using run unfolding ebind_Inr_iff by blast
  have acc: "list_all (acceptable ?c) ms" using emit_all_acceptable [of ?c ms "start_pages db" pg] e(1) by (simp add: cutting_of_def)
  have ne: "ms \<noteq> []" using run e by (auto simp: start_pages_def flush_def)
  obtain items ps b bs where p: "list_all2 (\<lambda>m item. shared_message m = Some item) ms items" "concat ps = items"
      "list_all2 (page_ok ?c) ps (b # bs)" "pg_first pg' = Some b" "pg_total pg' = length ms"
      "pg_db pg' = db\<lparr>share_pages := share_pages db @ page_rows env share_id bs\<rparr>"
    using cut_pages [OF b0(2) acc ne] e by (auto simp: cutting_of_def)
  have "insert_share (streamed_row env share_id sid token t now expires (length ms) b) (pg_db pg') = Inr db'"
    using run e p(4,5) by simp
  then have "(\<forall>r \<in> set (shares db). row_share r \<noteq> share_id)"
      "db' = (pg_db pg')\<lparr>shares := shares (pg_db pg') @ [streamed_row env share_id sid token t now expires (length ms) b]\<rparr>"
    by (auto simp: insert_share_def p(6) list_ex_iff streamed_row_def split: if_splits)
  then have fin: "(\<forall>r \<in> set (shares db). row_share r \<noteq> share_id)"
      "db' = db\<lparr>share_pages := share_pages db @ page_rows env share_id bs,
              shares := shares db @ [streamed_row env share_id sid token t now expires (length ms) b]\<rparr>"
    by (simp_all add: p(6))
  show ?thesis
    by (intro exI [of _ sid] exI [of _ t] exI [of _ x] exI [of _ b0] exI [of _ items] exI [of _ ps] exI [of _ b] exI [of _ bs] conjI)
      (rule s p(1-3) fin)+
qed

lemma find_page_row:
  assumes "k < length bs"
  shows "find (\<lambda>r. page_share r = i \<and> page_index r = Suc k) (page_rows env i bs)
    = Some \<lparr>page_share = i, page_index = Suc k, page_json = bs ! k, page_sha = hash env (bs ! k)\<rparr>"
  using assms
proof (induction bs rule: rev_induct)
  case (snoc b bs)
  have "find (\<lambda>r. page_share r = i \<and> page_index r = Suc k) (page_rows env i bs) = None" if "k = length bs"
    unfolding find_None_iff using that by (metis page_rows_index Suc_n_not_le_n)
  then show ?case
  proof (cases "k = length bs")
    case False
    then have "k < length bs" using snoc.prems by simp
    from snoc.IH [OF this] this show ?thesis by (simp add: page_rows_snoc find_append nth_append)
  qed (simp add: page_rows_snoc find_append)
qed simp

lemma page_rows_filter: "filter (\<lambda>r. page_share r = i) (page_rows env i bs) = page_rows env i bs" "length (page_rows env i bs) = length bs"
  by (rule filter_True, auto dest: page_rows_index) (simp add: page_rows_def)

lemma decode_page_ok:
  assumes "page_ok (cutting_of env db i t now b0) p b" "decode env b = Some (snapshot_doc t now p)"
  shows "decode_page env b (hash env b) = Inr (t, now, p)"
  using assms by (simp add: decode_page_def page_ok_def cutting_of_def snapshot_doc_def dkeys_eq_def)

text \<open>C15. What was shared is what is read: the pages of a streamed share hold the projected messages in
  order, at most 100 on a page of at most 2 MiB, and until the share expires the token holder reads each of
  them back unchanged, with the right number of pages and messages (given that \<open>json.loads\<close> inverts the
  encoding of that page).\<close>

theorem streamed_share_roundtrip:
  assumes "create_streamed_share env db session messages title expires now token share_id = Inr db'"
    and "fresh_share env db share_id" and "token_re token" and "public_share_id_re share_id"
  shows "\<exists>sid t pages bytes. session_id_check session = Inr sid \<and> title_check title = Inr t
    \<and> list_all2 (\<lambda>m item. shared_message m = Some item) messages (concat pages)
    \<and> list_all2 (\<lambda>p b. json_bytes (flt env) (snapshot_doc t now p) = Inr b \<and> 0 < length p
        \<and> length p \<le> MAX_SNAPSHOT_PAGE_MESSAGES \<and> length b \<le> MAX_SNAPSHOT_BYTES) pages bytes
    \<and> (\<forall>k later. k < length pages \<and> int k \<le> 2 ^ 31 - 1 \<and> decode env (bytes ! k) = Some (snapshot_doc t now (pages ! k))
         \<and> timestamp_ok later \<and> (expires = JNull \<or> \<not> time_le expires later) \<longrightarrow>
       get_snapshot_page env db' (JStr token) (JStr share_id) (JInt (int k)) later =
         Inr \<lparr>sp_title = t, sp_created = now, sp_messages = pages ! k, sp_page = k, sp_page_count = length pages,
              sp_message_count = length messages, sp_session = sid\<rparr>)"
proof -
  obtain sid t x b0 items ps b bs where s: "session_id_check session = Inr sid" "seed_snapshot env title now = Inr (t, x)"
    and p: "list_all2 (\<lambda>m item. shared_message m = Some item) messages items" "concat ps = items"
      "list_all2 (page_ok (cutting_of env db share_id t now b0)) ps (b # bs)" "\<forall>r \<in> set (shares db). row_share r \<noteq> share_id"
      "db' = db\<lparr>share_pages := share_pages db @ page_rows env share_id bs,
              shares := shares db @ [streamed_row env share_id sid token t now expires (length messages) b]\<rparr>"
    using create_streamed_share_Inr [OF assms(1,2)] by blast
  have len: "length ps = Suc (length bs)" using list_all2_lengthD [OF p(3)] by simp
  let ?r = "streamed_row env share_id sid token t now expires (length messages) b"
  have get: "get_snapshot_page env db' (JStr token) (JStr share_id) (JInt (int k)) later =
      Inr \<lparr>sp_title = t, sp_created = now, sp_messages = ps ! k, sp_page = k, sp_page_count = length ps,
           sp_message_count = length messages, sp_session = sid\<rparr>"
    if k: "k < length ps" "int k \<le> 2 ^ 31 - 1" "decode env ((b # bs) ! k) = Some (snapshot_doc t now (ps ! k))" "timestamp_ok later"
      "expires = JNull \<or> \<not> time_le expires later" for k later
  proof -
    have row: "open_row env db' token (Some share_id) later = Some ?r"
    proof -
      have "find (\<lambda>r. row_token r = hash env (enc token) \<and> (Some share_id = None \<or> Some share_id = Some (row_share r))
         \<and> (row_expires r = JNull \<or> \<not> time_le (row_expires r) later) \<and> row_share r \<notin> fst ` set (revocations db')) (shares db) = None"
        using p(4) by (auto simp: find_None_iff)
      then show ?thesis using k(5) assms(2) unfolding open_row_def
        by (simp add: p(5) find_append streamed_row_def fresh_share_def)
    qed
    have none: "filter (\<lambda>x. page_share x = share_id) (share_pages db) = []"
      using assms(2) by (simp add: filter_empty_conv fresh_share_def)
    have count: "length (filter (\<lambda>x. page_share x = share_id) (share_pages db')) = length bs"
      by (simp add: p(5) none page_rows_filter)
    have nf: "find (\<lambda>x. page_share x = share_id \<and> page_index x = k) (share_pages db) = None"
      using assms(2) by (auto simp: find_None_iff fresh_share_def)
    have "page_source db' ?r k = Some ((b # bs) ! k, hash env ((b # bs) ! k))"
      using k(1) len nf find_page_row [of "k - 1" bs share_id env]
      by (cases k) (simp_all add: page_source_def streamed_row_def p(5) find_append)
    moreover have "decode_page env ((b # bs) ! k) (hash env ((b # bs) ! k)) = Inr (t, now, ps ! k)"
      using list_all2_nthD [OF p(3) k(1)] k(3) decode_page_ok by blast
    moreover have "row_share ?r = share_id" "row_count ?r = length messages" "row_session ?r = sid"
      by (simp_all add: streamed_row_def)
    ultimately show ?thesis using row count k(1,2,4) assms(3,4) len
      by (simp add: get_snapshot_page_def token_arg_def page_arg_def Let_def)
  qed
  have "list_all2 (\<lambda>p b. json_bytes (flt env) (snapshot_doc t now p) = Inr b \<and> 0 < length p
        \<and> length p \<le> MAX_SNAPSHOT_PAGE_MESSAGES \<and> length b \<le> MAX_SNAPSHOT_BYTES) ps (b # bs)"
    using p(3) by (rule list_all2_mono) (simp add: page_ok_def cutting_of_def)
  moreover have "title_check title = Inr t" using s(2) by (auto simp: seed_snapshot_def snapshot_def ebind_Inr_iff split: if_splits)
  ultimately show ?thesis
    by (intro exI [of _ sid] exI [of _ t] exI [of _ ps] exI [of _ "b # bs"] conjI allI impI)
      (rule s, assumption, use p(1,2) in simp, assumption, elim conjE, rule get, assumption+)
qed

text \<open>A share of one message.\<close>

definition hi_message :: json where
  "hi_message = JObj [(lit ''role'', js ''user''), (lit ''text'', js ''hi'')]"

definition hi_env :: share_env where
  "hi_env = \<lparr>hash = \<lambda>_. replicate 32 0, decode = \<lambda>_. Some (snapshot_doc (lit ''Shared conversation'') (JInt 5) [hi_message]), flt = \<lambda>_. []\<rparr>"

definition empty_shares :: share_db where
  "empty_shares = \<lparr>shares = [], revocations = [], share_pages = []\<rparr>"

definition hi_token :: pystr where
  "hi_token = replicate 43 97"

definition hi_share :: pystr where
  "hi_share = lit ''share_'' @ replicate 32 48"

lemma hi_texts:
  "strip (lit ''hi'') \<noteq> []" "utf8_limit (lit ''hi'') MAX_MESSAGE_BYTES = Inr 2" "utf8_limit [] MAX_MESSAGE_BYTES = Inr 0"
  "utf8_limit (lit ''Shared conversation'') (MAX_TITLE_CHARACTERS * 4) = Inr 19" "strip (lit ''Shared conversation'') \<noteq> []"
  by (simp_all add: lit_def strip_def rstrip_def lstrip_def is_space_def utf8_limit_def utf8_size_def is_surrogate_def
      utf8_width_def MAX_MESSAGE_BYTES_def MAX_TITLE_CHARACTERS_def)

lemma hi_title: "title_check JNull = Inr (lit ''Shared conversation'')"
  "title_check (js ''Shared conversation'') = Inr (lit ''Shared conversation'')"
  using hi_texts(5) by (simp_all add: title_check_def MAX_TITLE_CHARACTERS_def)

lemma hi_items:
  "message_item hi_message = Inr (2, hi_message)"
  "message_item (JObj [(lit ''role'', js ''user''), (lit ''text'', JStr [])]) = Inr (0, JObj [(lit ''role'', js ''user''), (lit ''text'', JStr [])])"
  by (simp_all add: message_item_def hi_message_def hi_texts)

lemma hi_widths:
  "encodable (doc_text f hi_message)" "item_width f hi_message = 27"
  "encodable (doc_text f (JObj [(lit ''role'', js ''user''), (lit ''text'', JStr [])]))"
  "item_width f (JObj [(lit ''role'', js ''user''), (lit ''text'', JStr [])]) = 25"
  "encodable (doc_text f (snapshot_doc (lit ''Shared conversation'') (JInt 5) []))"
  "width (doc_text f (snapshot_doc (lit ''Shared conversation'') (JInt 5) [])) = 60"
  by (simp_all add: hi_message_def doc_text_def compact_opts_def dumps_str_def escape_char_def lit_def is_surrogate_def
      utf8_width_def snapshot_doc_def dec_int_def dec_nat.simps)

lemma hi_snapshot:
  assumes "item = hi_message \<or> item = JObj [(lit ''role'', js ''user''), (lit ''text'', JStr [])]"
    "title = JNull \<or> title = js ''Shared conversation''"
  shows "\<exists>b. snapshot f (JArr [item]) title (JInt 5) = Inr (lit ''Shared conversation'', [item], b)"
proof -
  let ?t = "lit ''Shared conversation''"
  obtain b0 where b0: "json_bytes f (snapshot_doc ?t (JInt 5) []) = Inr b0" using hi_widths(5) [of f] by (simp add: json_bytes_Inr)
  have l0: "length b0 = 60" using json_bytes_length [OF b0] hi_widths(6) [of f] by simp
  have "good f item" "item_width f item \<le> 27" using assms(1) hi_items hi_widths(1-4) [of f] by (auto simp: good_def)
  then obtain b where "snapshot f (JArr [item]) (JStr ?t) (JInt 5) = Inr (?t, [item], b)"
    using snapshot_good [OF hi_title(2) hi_texts(4) _ b0, of "[item]"] l0
    by (auto simp: timestamp_ok_def MAX_UNIX_TIMESTAMP_def MAX_SNAPSHOT_BYTES_def)
  then show ?thesis using assms(2) by (auto simp: snapshot_def hi_title)
qed

lemma hi_session: "session_id_check (js ''s'') = Inr (lit ''s'')"
  by (simp add: session_id_check_def utf8_limit_def lit_def utf8_size_def is_surrogate_def utf8_width_def)

lemma hi_fresh: "fresh_share hi_env empty_shares hi_share"
  by (simp add: fresh_share_def hi_env_def empty_shares_def)

theorem streamed_share_succeeds_witness:
  "\<exists>db. create_streamed_share hi_env empty_shares (js ''s'') [hi_message] JNull JNull (JInt 5) hi_token hi_share = Inr db"
proof -
  obtain b where seed: "seed_snapshot hi_env JNull (JInt 5) = Inr (lit ''Shared conversation'', [JObj [(lit ''role'', js ''user''), (lit ''text'', JStr [])]], b)"
    using hi_snapshot unfolding seed_snapshot_def by blast
  have ex: "expiry_check JNull (JInt 5) = Inr ()" by (simp add: expiry_check_def timestamp_ok_def MAX_UNIX_TIMESTAMP_def)
  have "\<forall>m \<in> set [hi_message]. \<exists>y. snapshot (flt hi_env) (JArr [m]) (js ''Shared conversation'') (JInt 5) = Inr y"
    using hi_snapshot [of hi_message "js ''Shared conversation''" "flt hi_env"] by auto
  from streamed_share_succeeds [OF hi_session ex seed hi_fresh _ _ this, of hi_token] show ?thesis
    by (simp add: empty_shares_def)
qed

lemma hi_created:
  "\<exists>db. create_streamed_share hi_env empty_shares (js ''s'') [hi_message] JNull JNull (JInt 5) hi_token hi_share = Inr db"
proof -
  let ?t = "lit ''Shared conversation''" and ?c = "\<lambda>b0. cutting_of hi_env empty_shares hi_share (lit ''Shared conversation'') (JInt 5) b0"
  obtain x where seed: "seed_snapshot hi_env JNull (JInt 5) = Inr (?t, x)" using hi_snapshot unfolding seed_snapshot_def by blast
  have ex: "expiry_check JNull (JInt 5) = Inr ()" by (simp add: expiry_check_def timestamp_ok_def MAX_UNIX_TIMESTAMP_def)
  obtain b0 where b0: "json_bytes (flt hi_env) (snapshot_doc ?t (JInt 5) []) = Inr b0" "cutting_ok (?c b0)"
    using seed_cutting [OF seed hi_fresh] .
  have "list_all (acceptable (?c b0)) [hi_message]"
    using hi_snapshot [of hi_message "js ''Shared conversation''" "flt hi_env"] by (auto simp: acceptable_def cutting_of_def)
  then obtain ps b bs pg pg' where p:
      "emit_all hi_env hi_share ?t (JInt 5) (length b0) [hi_message] (start_pages empty_shares) = Inr pg"
      "flush hi_env hi_share ?t (JInt 5) pg = Inr pg'" "list_all2 (page_ok (?c b0)) ps (b # bs)" "pg_first pg' = Some b"
      "pg_total pg' = 1" "shares (pg_db pg') = []"
    using cut_pages [OF b0(2), of "[hi_message]"] by (auto simp: cutting_of_def empty_shares_def)
  have "length b \<le> 2097152" using p(3) by (auto simp: list_all2_Cons2 page_ok_def MAX_SNAPSHOT_BYTES_def)
  moreover have "length (hash hi_env x) = 32" for x by (simp add: hi_env_def)
  ultimately show ?thesis unfolding create_streamed_share_unfold [OF hi_session ex seed b0(1)] using p
    by (simp add: insert_share_def streamed_row_def)
qed

theorem streamed_share_roundtrip_witness:
  "\<exists>db page. create_streamed_share hi_env empty_shares (js ''s'') [hi_message] JNull JNull (JInt 5) hi_token hi_share = Inr db
    \<and> get_snapshot_page hi_env db (JStr hi_token) (JStr hi_share) (JInt 0) (JInt 6) = Inr page \<and> sp_messages page = [hi_message]"
proof -
  obtain db where db: "create_streamed_share hi_env empty_shares (js ''s'') [hi_message] JNull JNull (JInt 5) hi_token hi_share = Inr db"
    using hi_created by blast
  have "token_re hi_token" "public_share_id_re hi_share"
    by (simp_all add: token_re_def hi_token_def is_alnum_def is_lower_def public_share_id_re_def prefixed_hex32_def hi_share_def
        is_hexlow_def is_digit_def list_all_iff)
  from streamed_share_roundtrip [OF db hi_fresh this]
  obtain sid t pages bytes where r: "title_check JNull = Inr t"
      "list_all2 (\<lambda>m item. shared_message m = Some item) [hi_message] (concat pages)"
      "list_all2 (\<lambda>p b. json_bytes (flt hi_env) (snapshot_doc t (JInt 5) p) = Inr b \<and> 0 < length p
        \<and> length p \<le> MAX_SNAPSHOT_PAGE_MESSAGES \<and> length b \<le> MAX_SNAPSHOT_BYTES) pages bytes"
      "\<And>k later. k < length pages \<Longrightarrow> int k \<le> 2 ^ 31 - 1 \<Longrightarrow> decode hi_env (bytes ! k) = Some (snapshot_doc t (JInt 5) (pages ! k))
         \<Longrightarrow> timestamp_ok later \<Longrightarrow>
       get_snapshot_page hi_env db (JStr hi_token) (JStr hi_share) (JInt (int k)) later =
         Inr \<lparr>sp_title = t, sp_created = JInt 5, sp_messages = pages ! k, sp_page = k, sp_page_count = length pages,
              sp_message_count = length [hi_message], sp_session = sid\<rparr>"
    by auto
  have c: "concat pages = [hi_message]" using r(2) hi_items(1) by (auto simp: list_all2_Cons1 shared_message_def)
  then obtain p ps where ps: "pages = p # ps" "p \<noteq> []" using r(3) by (cases pages) (auto simp: list_all2_Cons1)
  then have "p = [hi_message]" using c by (cases p) auto
  then show ?thesis using db r(1) r(4) [of 0 "JInt 6"] ps hi_title(1)
    by (auto simp: hi_env_def timestamp_ok_def MAX_UNIX_TIMESTAMP_def)
qed

end
