(* ===== verification/Share_Revocation.thy ===== *)
theory Share_Revocation
  imports Public_Shares "HOL-Library.Sublist"
begin

text \<open>
  Revocation of public shares: rows and revocations are only added, tokens stay unique, and a revoked
  share is never opened again.
\<close>

section \<open>Operations on the store\<close>

datatype share_op =
    Create json json json json json pystr pystr
  | Streamed json "json list" json json json pystr pystr
  | Revoke json json json

definition apply_share :: "share_env \<Rightarrow> share_op \<Rightarrow> share_db \<Rightarrow> share_db" where
  "apply_share env op db =
     (case (case op of
         Create session messages title expires now token i \<Rightarrow> create_share env db session messages title expires now token i
       | Streamed session messages title expires now token i \<Rightarrow> create_streamed_share env db session messages title expires now token i
       | Revoke share session now \<Rightarrow> map_sum id fst (revoke_share db share session now)) of
       Inl _ \<Rightarrow> db | Inr db' \<Rightarrow> db')"

definition share_wf :: "share_db \<Rightarrow> bool" where
  "share_wf db \<longleftrightarrow> distinct (map row_share (shares db)) \<and> distinct (map row_token (shares db))
     \<and> distinct (map fst (revocations db))"

text \<open>What every operation keeps: well-formedness, rows and revocations.\<close>

definition extends :: "share_db \<Rightarrow> share_db \<Rightarrow> bool" where
  "extends db db' \<longleftrightarrow> (share_wf db \<longrightarrow> share_wf db') \<and> prefix (shares db) (shares db') \<and> prefix (revocations db) (revocations db')"

lemma extends_refl: "extends db db"
  by (simp add: extends_def)

lemma extends_trans: "extends a b \<Longrightarrow> extends b c \<Longrightarrow> extends a c"
  unfolding extends_def by (auto dest: prefix_order.trans)

lemma insert_share_extends: "insert_share r db = Inr db' \<Longrightarrow> extends db db'"
  by (force simp: insert_share_def extends_def share_wf_def list_ex_iff split: if_splits)

lemma insert_page_extends: "insert_page r db = Inr db' \<Longrightarrow> extends db db'"
  by (auto simp: insert_page_def extends_def share_wf_def split: if_splits)

lemma flush_extends: "flush env i t now pg = Inr pg' \<Longrightarrow> extends (pg_db pg) (pg_db pg')"
  by (auto simp: flush_def ebind_Inr_iff extends_refl split: if_splits dest!: insert_page_extends)

lemma emit_extends: "emit env i t now k m pg = Inr pg' \<Longrightarrow> extends (pg_db pg) (pg_db pg')"
  by (auto simp: emit_def ebind_Inr_iff Let_def extends_refl split: if_splits dest!: flush_extends)

lemma emit_all_extends: "emit_all env i t now k ms pg = Inr pg' \<Longrightarrow> extends (pg_db pg) (pg_db pg')"
  by (induction ms arbitrary: pg) (auto simp: extends_refl ebind_Inr_iff dest!: emit_extends intro: extends_trans)

lemma create_share_extends: "create_share env db s ms t e now token i = Inr db' \<Longrightarrow> extends db db'"
  by (auto simp: create_share_def ebind_Inr_iff dest!: insert_share_extends)

lemma create_streamed_share_extends:
  assumes "create_streamed_share env db s ms title e now token i = Inr db'"
  shows "extends db db'"
proof -
  obtain t k pg pg' where 1: "emit_all env i t now k ms
        \<lparr>pg_first = None, pg_page = [], pg_bytes = 0, pg_index = 0, pg_total = 0, pg_db = db\<rparr> = Inr pg"
      "flush env i t now pg = Inr pg'" and 2: "\<exists>r. insert_share r (pg_db pg') = Inr db'"
    using assms by (auto simp: create_streamed_share_def ebind_Inr_iff split: option.split_asm) blast
  show ?thesis using emit_all_extends [OF 1(1)] flush_extends [OF 1(2)] 2 insert_share_extends
    by (auto intro: extends_trans)
qed

lemma revoke_share_extends: "revoke_share db share s now = Inr (db', done) \<Longrightarrow> extends db db'"
  by (cases share) (auto simp: revoke_share_def ebind_Inr_iff extends_def share_wf_def map_of_eq_None_iff split: if_splits)

lemma apply_share_extends: "extends db (apply_share env op db)"
proof (cases op)
  case (Revoke share s now)
  then show ?thesis using extends_refl revoke_share_extends
    by (cases "revoke_share db share s now") (auto simp: apply_share_def)
qed (use create_share_extends create_streamed_share_extends extends_refl in \<open>auto simp: apply_share_def split: sum.split\<close>)

interpretation share_store: growing_store "apply_share env" extends
  using extends_refl extends_trans apply_share_extends by unfold_locales blast+

section \<open>Revoked shares\<close>

lemma revoke_share_revokes:
  assumes "revoke_share db (JStr i) s now = Inr (db', True)"
  shows "i \<in> fst ` set (revocations db') \<and> shares db' = shares db"
  using assms
  by (auto simp: revoke_share_def ebind_Inr_iff split: if_splits) (force dest: map_of_SomeD)+

lemma token_arg_token: "token_arg (JStr token) share = Some (t, s) \<Longrightarrow> t = token"
  by (cases share) (auto simp: token_arg_def split: if_splits)

text \<open>C17. Revocation is final: after a share was revoked, whatever shares are created or revoked later, its
  token opens no page and passes no access check, with or without naming a share.\<close>

theorem revoked_share_closed:
  assumes "share_wf db" and "revoke_share db (JStr i) session now = Inr (db', True)"
    and "r \<in> set (shares db)" and "row_share r = i" and "hash env (enc token) = row_token r"
  shows "(\<forall>sp. get_snapshot_page env (foldl (\<lambda>db op. apply_share env op db) db' ops) (JStr token) share page later \<noteq> Inr sp)
    \<and> authorize_access env (foldl (\<lambda>db op. apply_share env op db) db' ops) (JStr token) share later \<noteq> Inr ()"
proof -
  let ?db = "foldl (\<lambda>db op. apply_share env op db) db' ops"
  have ext: "extends db' ?db" by (rule share_store.run_ext)
  have "share_wf db'" using revoke_share_extends [OF assms(2)] assms(1) by (simp add: extends_def)
  then have wf: "share_wf ?db" using ext by (simp add: extends_def)
  have "i \<in> fst ` set (revocations db')" "shares db' = shares db" using revoke_share_revokes [OF assms(2)] by auto
  then have rev: "i \<in> fst ` set (revocations ?db)" and row: "r \<in> set (shares ?db)"
    using ext assms(3) by (auto simp: extends_def prefix_def)
  have "open_row env ?db token s later = None" for s
  proof -
    have "row_share x = i" if "x \<in> set (shares ?db)" "row_token x = hash env (enc token)" for x
      using that row wf assms(4,5) by (auto simp: share_wf_def distinct_map inj_on_def)
    then show ?thesis using rev by (auto simp: open_row_def find_None_iff)
  qed
  then show ?thesis
    by (auto simp: get_snapshot_page_def authorize_access_def split: option.split dest!: token_arg_token)
qed

text \<open>One share of chat \<open>s\<close>, revoked by its owner.\<close>

definition owned_row :: share_row where
  "owned_row = \<lparr>row_share = lit ''share_'' @ replicate 32 48, row_session = lit ''s'', row_token = [7], row_title = lit ''t'',
     row_created = JInt 5, row_expires = JNull, row_count = 1, row_json = [], row_sha = []\<rparr>"

definition owned_db :: share_db where
  "owned_db = \<lparr>shares = [owned_row], revocations = [], share_pages = []\<rparr>"

theorem revoked_share_closed_witness:
  "\<exists>db. revoke_share owned_db (JStr (row_share owned_row)) (js ''s'') (JInt 9) = Inr (db, True)
     \<and> authorize_access \<lparr>hash = \<lambda>_. [7], decode = \<lambda>_. None, flt = \<lambda>_. []\<rparr> db (JStr (replicate 43 97)) JNull (JInt 10) \<noteq> Inr ()"
proof -
  have s: "session_id_check (js ''s'') = Inr (lit ''s'')"
    by (simp add: session_id_check_def utf8_limit_def lit_def utf8_size_def is_surrogate_def utf8_width_def)
  have i: "public_share_id_re (row_share owned_row)"
    by (simp add: owned_row_def public_share_id_re_def prefixed_hex32_def is_hexlow_def is_digit_def list_all_iff)
  obtain db where r: "revoke_share owned_db (JStr (row_share owned_row)) (js ''s'') (JInt 9) = Inr (db, True)"
    using i by (simp add: revoke_share_def s owned_db_def timestamp_ok_def MAX_UNIX_TIMESTAMP_def owned_row_def)
  have wf: "share_wf owned_db" "owned_row \<in> set (shares owned_db)" by (simp_all add: share_wf_def owned_db_def)
  show ?thesis
    using revoked_share_closed [OF wf(1) r wf(2) refl, of "\<lparr>hash = \<lambda>_. [7], decode = \<lambda>_. None, flt = \<lambda>_. []\<rparr>" "replicate 43 97"
        "[]" JNull JNull "JInt 10"] r
    by (auto simp: owned_row_def)
qed

end
