(* ===== verification/Interactive_Shares.thy ===== *)
theory Interactive_Shares
  imports Public_Shares
begin

text \<open>
  Interactive access to one chat: \<open>interactive_chat_shares.py\<close>. A ledger of invitations, uploads and
  submitted requests; a reusable token opens exactly the chat of its share until the share expires or is
  revoked, uploads have a quota, and a request identifier admits work at most once. Tokens, identifiers
  and the clock are arguments, the hash is a parameter; a call that raises rolls its transaction back.
\<close>

section \<open>Definitions\<close>

definition MAX_UPLOAD_BYTES :: nat where
  "MAX_UPLOAD_BYTES = 8 * 1024 * 1024"

definition MAX_SHARE_UPLOAD_BYTES :: nat where
  "MAX_SHARE_UPLOAD_BYTES = 64 * 1024 * 1024"

datatype ledger_error = Unavailable | Invalid | Conflict | Integrity

record grant_row =
  gr_id :: pystr
  gr_session :: pystr
  gr_title :: pystr
  gr_created :: json
  gr_expires :: json
  gr_revoked :: "json option"
  gr_redeemed :: "json option"
  gr_invite :: bytes
  gr_browser :: "bytes option"
  gr_origin :: pystr

record upload_row =
  up_id :: pystr
  up_share :: pystr
  up_name :: pystr
  up_media :: pystr
  up_size :: nat
  up_ref :: "pystr option"
  up_created :: json

record submission_row =
  sub_share :: pystr
  sub_request :: pystr
  sub_fingerprint :: bytes
  sub_receipt :: "json option"
  sub_created :: json

record ledger =
  grants :: "grant_row list"
  uploads :: "upload_row list"
  submissions :: "submission_row list"

text \<open>\<open>token_hash\<close>: only tokens of the right shape are hashed.\<close>

definition token_hash :: "(bytes \<Rightarrow> bytes) \<Rightarrow> json \<Rightarrow> ledger_error + bytes" where
  "token_hash sha v = (case v of
     JStr t \<Rightarrow> if token_re t then Inr (sha (enc t)) else Inl Unavailable
   | _ \<Rightarrow> Inl Unavailable)"

definition chat_id_re :: "pystr \<Rightarrow> bool" where
  "chat_id_re s \<longleftrightarrow> 1 \<le> length s \<and> length s \<le> 128 \<and> list_all (\<lambda>c. is_alnum c \<or> c = 95 \<or> c = 45) s"

definition lift_invalid :: "share_error + 'a \<Rightarrow> ledger_error + 'a" where
  "lift_invalid r = (case r of Inl _ \<Rightarrow> Inl Invalid | Inr x \<Rightarrow> Inr x)"

definition grant_title :: "json \<Rightarrow> ledger_error + pystr" where
  "grant_title v = ebind (lift_invalid (title_check v)) (\<lambda>t. ebind (lift_invalid (utf8_limit t 1024)) (\<lambda>_. Inr t))"

text \<open>\<open>create_share\<close>: \<open>id\<close> is the primary key and \<open>invite_hash\<close> is unique; the new invitation is returned
  to the caller by the wrapper and never stored.\<close>

definition create_grant :: "(bytes \<Rightarrow> bytes) \<Rightarrow> ledger \<Rightarrow> json \<Rightarrow> json \<Rightarrow> json \<Rightarrow> pystr \<Rightarrow> json \<Rightarrow> pystr \<Rightarrow> pystr
    \<Rightarrow> ledger_error + ledger" where
  "create_grant sha db session title expires origin now invite share_id = (case session of
     JStr s \<Rightarrow>
       if \<not> chat_id_re s then Inl Invalid
       else ebind (grant_title title) (\<lambda>t.
         ebind (lift_invalid (expiry_check expires now)) (\<lambda>_.
         ebind (token_hash sha (JStr invite)) (\<lambda>h.
         if list_ex (\<lambda>g. gr_id g = share_id \<or> gr_invite g = h) (grants db) then Inl Integrity
         else Inr (db\<lparr>grants := grants db @ [\<lparr>gr_id = share_id, gr_session = s, gr_title = t, gr_created = now,
                gr_expires = expires, gr_revoked = None, gr_redeemed = None, gr_invite = h, gr_browser = None,
                gr_origin = origin\<rparr>]\<rparr>))))
   | _ \<Rightarrow> Inl Invalid)"

definition share_origin :: "ledger \<Rightarrow> pystr \<Rightarrow> ledger_error + pystr" where
  "share_origin db share_id = (case find (\<lambda>g. gr_id g = share_id) (grants db) of
     None \<Rightarrow> Inl Unavailable | Some g \<Rightarrow> Inr (gr_origin g))"

text \<open>\<open>UPDATE ... WHERE\<close>: the changed table and the number of rows it matched.\<close>

definition update_where :: "('r \<Rightarrow> bool) \<Rightarrow> ('r \<Rightarrow> 'r) \<Rightarrow> 'r list \<Rightarrow> 'r list \<times> nat" where
  "update_where P f rows = (map (\<lambda>r. if P r then f r else r) rows, length (filter P rows))"

definition revoke_grant :: "ledger \<Rightarrow> pystr \<Rightarrow> pystr \<Rightarrow> json \<Rightarrow> ledger \<times> bool" where
  "revoke_grant db share_id session now =
     (case update_where (\<lambda>g. gr_id g = share_id \<and> gr_session g = session)
        (\<lambda>g. g\<lparr>gr_revoked := (case gr_revoked g of None \<Rightarrow> Some now | x \<Rightarrow> x)\<rparr>) (grants db) of
      (gs, n) \<Rightarrow> (db\<lparr>grants := gs\<rparr>, n = 1))"

text \<open>The condition on revocation and expiry; times compare as SQLite numbers.\<close>

definition live_grant :: "json \<Rightarrow> grant_row \<Rightarrow> bool" where
  "live_grant now g \<longleftrightarrow> gr_revoked g = None \<and> (gr_expires g = JNull \<or> \<not> time_le (gr_expires g) now)"

definition redeem :: "(bytes \<Rightarrow> bytes) \<Rightarrow> ledger \<Rightarrow> pystr \<Rightarrow> json \<Rightarrow> json \<Rightarrow> ledger_error + ledger" where
  "redeem sha db share_id invite now = ebind (token_hash sha invite) (\<lambda>h.
     case update_where (\<lambda>g. gr_id g = share_id \<and> gr_invite g = h \<and> live_grant now g)
        (\<lambda>g. g\<lparr>gr_redeemed := (case gr_redeemed g of None \<Rightarrow> Some now | x \<Rightarrow> x)\<rparr>) (grants db) of
      (gs, n) \<Rightarrow> if n \<noteq> 1 then Inl Unavailable else Inr (db\<lparr>grants := gs\<rparr>))"

definition authorized :: "(bytes \<Rightarrow> bytes) \<Rightarrow> ledger \<Rightarrow> pystr \<Rightarrow> json \<Rightarrow> json \<Rightarrow> ledger_error + grant_row" where
  "authorized sha db share_id token now = ebind (token_hash sha token) (\<lambda>h.
     case find (\<lambda>g. gr_id g = share_id \<and> (gr_browser g = Some h \<or> gr_invite g = h)
        \<and> gr_redeemed g \<noteq> None \<and> live_grant now g) (grants db) of
       None \<Rightarrow> Inl Unavailable | Some g \<Rightarrow> Inr g)"

text \<open>\<open>authenticate\<close> answers with the metadata and the chat of the row.\<close>

definition authenticate :: "(bytes \<Rightarrow> bytes) \<Rightarrow> ledger \<Rightarrow> pystr \<Rightarrow> json \<Rightarrow> json \<Rightarrow> ledger_error + (grant_row \<times> pystr)" where
  "authenticate sha db share_id token now = ebind (authorized sha db share_id token now) (\<lambda>g. Inr (g, gr_session g))"

section \<open>Uploads\<close>

definition upload_name_ok :: "json \<Rightarrow> bool" where
  "upload_name_ok v = (case v of
     JStr s \<Rightarrow> 1 \<le> length s \<and> length s \<le> 160 \<and> s \<noteq> lit ''.'' \<and> s \<noteq> lit ''..''
       \<and> list_all (\<lambda>c. 32 \<le> c \<and> c \<noteq> 47 \<and> c \<noteq> 92) s \<and> (case utf8_limit s 640 of Inl _ \<Rightarrow> False | Inr _ \<Rightarrow> True)
   | _ \<Rightarrow> False)"

text \<open>\<open>[a-zA-Z0-9!#$&^_.+-]+/[a-zA-Z0-9!#$&^_.+-]+\<close>: exactly one slash, with both sides nonempty.\<close>

definition media_char :: "nat \<Rightarrow> bool" where
  "media_char c \<longleftrightarrow> is_alnum c \<or> c \<in> {33, 35, 36, 38, 94, 95, 46, 43, 45}"

definition media_re :: "pystr \<Rightarrow> bool" where
  "media_re s = (case split_on 47 s of
     [a, b] \<Rightarrow> a \<noteq> [] \<and> b \<noteq> [] \<and> list_all media_char a \<and> list_all media_char b
   | _ \<Rightarrow> False)"

definition upload_used :: "ledger \<Rightarrow> pystr \<Rightarrow> nat" where
  "upload_used db share_id = sum_list (map up_size (filter (\<lambda>u. up_share u = share_id) (uploads db)))"

definition reserve_upload :: "(bytes \<Rightarrow> bytes) \<Rightarrow> ledger \<Rightarrow> pystr \<Rightarrow> json \<Rightarrow> json \<Rightarrow> json \<Rightarrow> json \<Rightarrow> json \<Rightarrow> pystr
    \<Rightarrow> ledger_error + ledger" where
  "reserve_upload sha db share_id token name media bytes now upload_id = (case (name, media, bytes) of
     (JStr n, JStr m, JInt k) \<Rightarrow>
       if \<not> upload_name_ok name \<or> \<not> media_re m \<or> k < 1 \<or> int MAX_UPLOAD_BYTES < k then Inl Invalid
       else ebind (authorized sha db share_id token now) (\<lambda>_.
         if MAX_SHARE_UPLOAD_BYTES < upload_used db share_id + nat k then Inl Invalid
         else if list_ex (\<lambda>u. up_id u = upload_id) (uploads db) then Inl Integrity
         else Inr (db\<lparr>uploads := uploads db @ [\<lparr>up_id = upload_id, up_share = share_id, up_name = n, up_media = m,
                up_size = nat k, up_ref = None, up_created = now\<rparr>]\<rparr>))
   | _ \<Rightarrow> Inl Invalid)"

definition complete_upload :: "(bytes \<Rightarrow> bytes) \<Rightarrow> ledger \<Rightarrow> pystr \<Rightarrow> json \<Rightarrow> pystr \<Rightarrow> json \<Rightarrow> json \<Rightarrow> ledger_error + ledger" where
  "complete_upload sha db share_id token upload_id ref now = (case ref of
     JStr r \<Rightarrow>
       if r = [] \<or> 1024 < length r then Inl Invalid
       else ebind (authorized sha db share_id token now) (\<lambda>_.
         case update_where (\<lambda>u. up_id u = upload_id \<and> up_share u = share_id \<and> up_ref u = None)
             (\<lambda>u. u\<lparr>up_ref := Some r\<rparr>) (uploads db) of
           (us, n) \<Rightarrow> if n \<noteq> 1 then Inl Unavailable else Inr (db\<lparr>uploads := us\<rparr>))
   | _ \<Rightarrow> Inl Invalid)"

definition abandon_upload :: "ledger \<Rightarrow> pystr \<Rightarrow> pystr \<Rightarrow> ledger" where
  "abandon_upload db share_id upload_id =
     db\<lparr>uploads := filter (\<lambda>u. \<not> (up_id u = upload_id \<and> up_share u = share_id \<and> up_ref u = None)) (uploads db)\<rparr>"

definition upload_ref :: "ledger \<Rightarrow> pystr \<Rightarrow> pystr \<Rightarrow> pystr option" where
  "upload_ref db share_id i = Option.bind
     (find (\<lambda>u. up_id u = i \<and> up_share u = share_id \<and> up_ref u \<noteq> None) (uploads db)) up_ref"

fun upload_refs_loop :: "ledger \<Rightarrow> pystr \<Rightarrow> pystr list \<Rightarrow> pystr list \<Rightarrow> ledger_error + pystr list" where
  "upload_refs_loop db share_id refs [] = Inr refs"
| "upload_refs_loop db share_id refs (i # is) = (case upload_ref db share_id i of
     None \<Rightarrow> Inl Unavailable | Some r \<Rightarrow> upload_refs_loop db share_id (refs @ [r]) is)"

definition upload_ids :: "json \<Rightarrow> pystr list option" where
  "upload_ids v = (case v of
     JArr xs \<Rightarrow>
       if length xs \<le> 4 \<and> list_all is_str xs then
         let is = map (\<lambda>x. case x of JStr s \<Rightarrow> s | _ \<Rightarrow> []) xs in
         if distinct is \<and> list_all (prefixed_hex32 ''upload_'') is then Some is else None
       else None
   | _ \<Rightarrow> None)"

definition upload_refs :: "(bytes \<Rightarrow> bytes) \<Rightarrow> ledger \<Rightarrow> pystr \<Rightarrow> json \<Rightarrow> json \<Rightarrow> json \<Rightarrow> ledger_error + pystr list" where
  "upload_refs sha db share_id token ids now = (case upload_ids ids of
     None \<Rightarrow> Inl Invalid
   | Some is \<Rightarrow> ebind (authorized sha db share_id token now) (\<lambda>_. upload_refs_loop db share_id [] is))"

section \<open>Submissions\<close>

text \<open>The fingerprint of the operation, the prompt and the references.\<close>

definition fingerprint :: "(bytes \<Rightarrow> bytes) \<Rightarrow> pystr \<Rightarrow> pystr \<Rightarrow> pystr list \<Rightarrow> ledger_error + bytes" where
  "fingerprint sha operation prompt refs =
     ebind (lift_invalid (json_bytes (\<lambda>_. []) (JArr [JStr operation, JStr prompt, JArr (map JStr refs)]))) (\<lambda>b. Inr (sha b))"

text \<open>\<open>Inr (db, None)\<close> lets the caller submit; \<open>Inr (db, Some receipt)\<close> replays an accepted request.\<close>

definition reserve_submission :: "(bytes \<Rightarrow> bytes) \<Rightarrow> ledger \<Rightarrow> pystr \<Rightarrow> json \<Rightarrow> pystr \<Rightarrow> pystr \<Rightarrow> pystr list \<Rightarrow> pystr \<Rightarrow> json
    \<Rightarrow> ledger_error + (ledger \<times> json option)" where
  "reserve_submission sha db share_id token request prompt refs operation now =
     ebind (fingerprint sha operation prompt refs) (\<lambda>fp.
     ebind (authorized sha db share_id token now) (\<lambda>_.
     case find (\<lambda>s. sub_share s = share_id \<and> sub_request s = request) (submissions db) of
       Some s \<Rightarrow>
         if sub_fingerprint s \<noteq> fp then Inl Conflict
         else (case sub_receipt s of None \<Rightarrow> Inl Conflict | Some r \<Rightarrow> Inr (db, Some r))
     | None \<Rightarrow> Inr (db\<lparr>submissions := submissions db @ [\<lparr>sub_share = share_id, sub_request = request, sub_fingerprint = fp,
                 sub_receipt = None, sub_created = now\<rparr>]\<rparr>, None)))"

definition accept_submission :: "ledger \<Rightarrow> pystr \<Rightarrow> pystr \<Rightarrow> json \<Rightarrow> ledger_error + ledger" where
  "accept_submission db share_id request receipt =
     (case update_where (\<lambda>s. sub_share s = share_id \<and> sub_request s = request \<and> sub_receipt s = None)
         (\<lambda>s. s\<lparr>sub_receipt := Some receipt\<rparr>) (submissions db) of
        (ss, n) \<Rightarrow> if n \<noteq> 1 then Inl Conflict else Inr (db\<lparr>submissions := ss\<rparr>))"

section \<open>Sequences of calls\<close>

datatype ledger_op =
    Create_grant json json json pystr json pystr pystr
  | Revoke_grant pystr pystr json
  | Redeem pystr json json
  | Reserve_upload pystr json json json json json pystr
  | Complete_upload pystr json pystr json json
  | Abandon_upload pystr pystr
  | Reserve_submission pystr json pystr pystr "pystr list" pystr json
  | Accept_submission pystr pystr json

definition keep :: "ledger \<Rightarrow> ledger_error + ledger \<Rightarrow> ledger" where
  "keep db r = (case r of Inl _ \<Rightarrow> db | Inr db' \<Rightarrow> db')"

text \<open>The ledger after a call, and the request the call lets through, if it does.\<close>

definition ledger_step :: "(bytes \<Rightarrow> bytes) \<Rightarrow> ledger_op \<Rightarrow> ledger \<Rightarrow> ledger \<times> (pystr \<times> pystr) list" where
  "ledger_step sha op db = (case op of
     Create_grant session title expires origin now invite i \<Rightarrow>
       (keep db (create_grant sha db session title expires origin now invite i), [])
   | Revoke_grant i session now \<Rightarrow> (fst (revoke_grant db i session now), [])
   | Redeem i invite now \<Rightarrow> (keep db (redeem sha db i invite now), [])
   | Reserve_upload i token name media bytes now u \<Rightarrow> (keep db (reserve_upload sha db i token name media bytes now u), [])
   | Complete_upload i token u ref now \<Rightarrow> (keep db (complete_upload sha db i token u ref now), [])
   | Abandon_upload i u \<Rightarrow> (abandon_upload db i u, [])
   | Reserve_submission i token request prompt refs operation now \<Rightarrow>
       (case reserve_submission sha db i token request prompt refs operation now of
          Inl _ \<Rightarrow> (db, [])
        | Inr (db', r) \<Rightarrow> (db', if r = None then [(i, request)] else []))
   | Accept_submission i request receipt \<Rightarrow> (keep db (accept_submission db i request receipt), []))"

definition apply_ledger :: "(bytes \<Rightarrow> bytes) \<Rightarrow> ledger_op \<Rightarrow> ledger \<Rightarrow> ledger" where
  "apply_ledger sha op db = fst (ledger_step sha op db)"


lemma keep_simps [simp]: "keep db (Inl e) = db" "keep db (Inr db') = db'"
  by (simp_all add: keep_def)

lemma keep_ebind: "(\<And>x. r = Inr x \<Longrightarrow> P (keep db (f x))) \<Longrightarrow> P db \<Longrightarrow> P (keep db (ebind r f))"
  by (cases r) simp_all

section \<open>Revocation\<close>

definition closed_share :: "ledger \<Rightarrow> pystr \<Rightarrow> bool" where
  "closed_share db i \<longleftrightarrow> i \<in> gr_id ` set (grants db) \<and> (\<forall>g \<in> set (grants db). gr_id g = i \<longrightarrow> gr_revoked g \<noteq> None)"

definition closed_ext :: "ledger \<Rightarrow> ledger \<Rightarrow> bool" where
  "closed_ext db db' \<longleftrightarrow> (\<forall>i. closed_share db i \<longrightarrow> closed_share db' i)"

lemma closed_same: "grants db' = grants db \<Longrightarrow> closed_ext db db'"
  by (simp add: closed_ext_def closed_share_def)

lemma closed_update:
  assumes "\<And>g. gr_id (f g) = gr_id g \<and> (gr_revoked g \<noteq> None \<longrightarrow> gr_revoked (f g) \<noteq> None)"
  shows "closed_ext db (db\<lparr>grants := map (\<lambda>g. if P g then f g else g) (grants db)\<rparr>)"
proof -
  define h where "h g = (if P g then f g else g)" for g
  have "gr_id (h g) = gr_id g" "gr_revoked g \<noteq> None \<Longrightarrow> gr_revoked (h g) \<noteq> None" for g
    using assms by (auto simp: h_def)
  then have "closed_ext db (db\<lparr>grants := map h (grants db)\<rparr>)"
    by (auto simp: closed_ext_def closed_share_def image_image)
  then show ?thesis unfolding h_def .
qed

lemma create_grant_Inr:
  assumes "create_grant sha db session title expires origin now invite i = Inr db'"
  shows "\<exists>g. grants db' = grants db @ [g] \<and> gr_id g \<notin> gr_id ` set (grants db) \<and> gr_id g = i
    \<and> uploads db' = uploads db \<and> submissions db' = submissions db"
proof -
  obtain s where s: "session = JStr s" using assms by (cases session) (simp_all add: create_grant_def)
  show ?thesis using assms by (auto simp: create_grant_def s ebind_Inr_iff list_ex_iff split: if_splits)
qed

lemma create_grant_closed: "create_grant sha db session title expires origin now invite i = Inr db' \<Longrightarrow> closed_ext db db'"
  by (auto dest!: create_grant_Inr simp: closed_ext_def closed_share_def)

lemma redeem_closed: "redeem sha db i invite now = Inr db' \<Longrightarrow> closed_ext db db'"
  by (auto simp: redeem_def ebind_Inr_iff update_where_def split: if_splits intro: closed_update)

lemma revoke_grant_closed: "closed_ext db (fst (revoke_grant db i session now))"
  by (auto simp: revoke_grant_def update_where_def intro!: closed_update split: option.split)

lemma reserve_upload_Inr:
  assumes "reserve_upload sha db i token name media sz now u = Inr db'"
  shows "\<exists>r. db' = db\<lparr>uploads := uploads db @ [r]\<rparr> \<and> up_share r = i \<and> upload_used db i + up_size r \<le> MAX_SHARE_UPLOAD_BYTES"
proof -
  obtain n where n: "name = JStr n" using assms by (cases name) (simp_all add: reserve_upload_def)
  obtain m where m: "media = JStr m" using assms by (cases media) (simp_all add: reserve_upload_def n)
  obtain k where k: "sz = JInt k" using assms by (cases sz) (simp_all add: reserve_upload_def n m)
  show ?thesis using assms by (auto simp: reserve_upload_def n m k ebind_Inr_iff split: if_splits)
qed

lemma complete_upload_Inr:
  assumes "complete_upload sha db i token u ref now = Inr db'"
  shows "\<exists>us. db' = db\<lparr>uploads := us\<rparr> \<and> map up_share us = map up_share (uploads db) \<and> map up_size us = map up_size (uploads db)"
proof -
  obtain r where r: "ref = JStr r" using assms by (cases ref) (simp_all add: complete_upload_def)
  show ?thesis using assms
    by (auto simp: complete_upload_def r ebind_Inr_iff update_where_def split: if_splits)
qed

lemma reserve_submission_Inr:
  assumes "reserve_submission sha db i token request prompt refs operation now = Inr (db', r)"
  shows "r \<noteq> None \<and> db' = db \<or>
    r = None \<and> (\<exists>s. db' = db\<lparr>submissions := submissions db @ [s]\<rparr> \<and> sub_share s = i \<and> sub_request s = request)
      \<and> (\<forall>s \<in> set (submissions db). \<not> (sub_share s = i \<and> sub_request s = request))"
proof -
  define f where "f = find (\<lambda>s. sub_share s = i \<and> sub_request s = request) (submissions db)"
  show ?thesis
  proof (cases f)
    case None
    then have "\<forall>s \<in> set (submissions db). \<not> (sub_share s = i \<and> sub_request s = request)"
      by (auto simp: f_def find_None_iff)
    then show ?thesis using assms None by (auto simp: reserve_submission_def f_def [symmetric] ebind_Inr_iff)
  next
    case (Some s)
    then show ?thesis using assms
      by (cases "sub_receipt s") (auto simp: reserve_submission_def f_def [symmetric] ebind_Inr_iff split: if_splits)
  qed
qed

lemma accept_submission_Inr:
  "accept_submission db i request receipt = Inr db' \<Longrightarrow>
    \<exists>ss. db' = db\<lparr>submissions := ss\<rparr> \<and> map sub_share ss = map sub_share (submissions db) \<and> map sub_request ss = map sub_request (submissions db)"
  by (auto simp: accept_submission_def update_where_def split: if_splits)

lemma ledger_closed: "closed_ext db (apply_ledger sha op db)"
proof (cases op)
  case (Create_grant session title expires origin now invite i)
  then show ?thesis
    by (cases "create_grant sha db session title expires origin now invite i")
      (auto simp: apply_ledger_def ledger_step_def closed_same dest: create_grant_closed)
next
  case (Revoke_grant i session now)
  then show ?thesis using revoke_grant_closed by (simp add: apply_ledger_def ledger_step_def)
next
  case (Redeem i invite now)
  then show ?thesis
    by (cases "redeem sha db i invite now") (auto simp: apply_ledger_def ledger_step_def closed_same dest: redeem_closed)
next
  case (Reserve_upload i token name media sz now u)
  then show ?thesis
    by (cases "reserve_upload sha db i token name media sz now u")
      (auto simp: apply_ledger_def ledger_step_def dest!: reserve_upload_Inr intro!: closed_same)
next
  case (Complete_upload i token u ref now)
  then show ?thesis
    by (cases "complete_upload sha db i token u ref now")
      (auto simp: apply_ledger_def ledger_step_def dest!: complete_upload_Inr intro!: closed_same)
next
  case (Abandon_upload i u)
  then show ?thesis by (simp add: apply_ledger_def ledger_step_def abandon_upload_def closed_same)
next
  case (Reserve_submission i token request prompt refs operation now)
  then show ?thesis
    by (cases "reserve_submission sha db i token request prompt refs operation now")
      (auto simp: apply_ledger_def ledger_step_def dest!: reserve_submission_Inr intro!: closed_same)
next
  case (Accept_submission i request receipt)
  then show ?thesis
    by (cases "accept_submission db i request receipt")
      (auto simp: apply_ledger_def ledger_step_def dest!: accept_submission_Inr intro!: closed_same)
qed

interpretation closing: growing_store "apply_ledger sha" closed_ext
  using ledger_closed by unfold_locales (auto simp: closed_ext_def)

lemma closed_unauthorized:
  assumes "closed_share db i"
  shows "authorized sha db i token now = Inl Unavailable" "redeem sha db i invite now = Inl Unavailable"
proof -
  have nl: "\<not> live_grant now g" if "g \<in> set (grants db)" "gr_id g = i" for g
    using assms that by (simp add: closed_share_def live_grant_def)
  show "authorized sha db i token now = Inl Unavailable"
    using nl by (cases token) (auto simp: authorized_def token_hash_def find_None_iff split: option.split dest: find_SomeD)
  show "redeem sha db i invite now = Inl Unavailable"
    using nl by (cases invite) (auto simp: redeem_def token_hash_def update_where_def filter_empty_conv)
qed

text \<open>Revoking an interactive share is final: whatever calls follow, its tokens authenticate nobody and its
  invitation cannot be redeemed.\<close>

lemma revoked_grant_closed:
  assumes "revoke_grant db i session now = (db', True)" and "distinct (map gr_id (grants db))"
  shows "authenticate sha (foldl (\<lambda>db op. apply_ledger sha op db) db' ops) i token later = Inl Unavailable
    \<and> redeem sha (foldl (\<lambda>db op. apply_ledger sha op db) db' ops) i token later = Inl Unavailable"
proof -
  have "length (filter (\<lambda>g. gr_id g = i \<and> gr_session g = session) (grants db)) = 1"
    using assms(1) by (simp add: revoke_grant_def update_where_def)
  then obtain g where "g \<in> set (filter (\<lambda>g. gr_id g = i \<and> gr_session g = session) (grants db))"
    by (cases "filter (\<lambda>g. gr_id g = i \<and> gr_session g = session) (grants db)") auto
  then have g: "g \<in> set (grants db)" "gr_id g = i" "gr_session g = session" by auto
  have "gr_session x = session" if "x \<in> set (grants db)" "gr_id x = i" for x
    using that g assms(2) by (auto simp: distinct_map inj_on_def)
  note sess = this
  define h where "h g = (if gr_id g = i \<and> gr_session g = session
      then g\<lparr>gr_revoked := (case gr_revoked g of None \<Rightarrow> Some now | x \<Rightarrow> x)\<rparr> else g)" for g :: grant_row
  have h: "gr_id (h x) = gr_id x" "gr_id x = i \<Longrightarrow> gr_session x = session \<Longrightarrow> gr_revoked (h x) \<noteq> None" for x
    by (simp_all add: h_def split: option.split)
  have "grants db' = map h (grants db)"
    using assms(1) by (auto simp: revoke_grant_def update_where_def h_def [abs_def])
  then have "closed_share db' i" using g h sess by (auto simp: closed_share_def image_image)
  then have "closed_share (foldl (\<lambda>db op. apply_ledger sha op db) db' ops) i"
    using closing.run_ext [of db' sha ops] by (simp add: closed_ext_def)
  then show ?thesis using closed_unauthorized by (simp add: authenticate_def)
qed

definition example_grant :: grant_row where
  "example_grant = \<lparr>gr_id = lit ''interactive_1'', gr_session = lit ''c1'', gr_title = lit ''t'', gr_created = JInt 1,
     gr_expires = JNull, gr_revoked = None, gr_redeemed = Some (JInt 2), gr_invite = [7], gr_browser = None, gr_origin = []\<rparr>"

lemma revoked_grant_closed_witness:
  "authenticate (\<lambda>_. [7]) \<lparr>grants = [example_grant], uploads = [], submissions = []\<rparr> (lit ''interactive_1'') (JStr (replicate 43 97)) (JInt 3)
     = Inr (example_grant, lit ''c1'')
   \<and> authenticate (\<lambda>_. [7]) (fst (revoke_grant \<lparr>grants = [example_grant], uploads = [], submissions = []\<rparr> (lit ''interactive_1'') (lit ''c1'') (JInt 4)))
       (lit ''interactive_1'') (JStr (replicate 43 97)) (JInt 5) = Inl Unavailable"
proof -
  let ?db = "\<lparr>grants = [example_grant], uploads = [], submissions = []\<rparr>"
  have t: "token_re (replicate 43 97)" by (simp add: token_re_def list_all_iff is_alnum_def is_lower_def)
  have 1: "authenticate (\<lambda>_. [7]) ?db (lit ''interactive_1'') (JStr (replicate 43 97)) (JInt 3) = Inr (example_grant, lit ''c1'')"
    using t by (simp add: authenticate_def authorized_def token_hash_def example_grant_def live_grant_def)
  obtain db' where r: "revoke_grant ?db (lit ''interactive_1'') (lit ''c1'') (JInt 4) = (db', True)"
    by (simp add: revoke_grant_def update_where_def example_grant_def)
  have "distinct (map gr_id (grants ?db))" by simp
  from revoked_grant_closed [OF r this, of "\<lambda>_. [7]" "[]" "JStr (replicate 43 97)" "JInt 5"] 1 r show ?thesis by simp
qed

section \<open>Requests\<close>






section \<open>The upload quota\<close>

definition within_quota :: "ledger \<Rightarrow> bool" where
  "within_quota db \<longleftrightarrow> (\<forall>i. upload_used db i \<le> MAX_SHARE_UPLOAD_BYTES)"

definition quota_ext :: "ledger \<Rightarrow> ledger \<Rightarrow> bool" where
  "quota_ext db db' \<longleftrightarrow> (within_quota db \<longrightarrow> within_quota db')"

lemma upload_used_zip:
  "upload_used db i = sum_list (map snd (filter (\<lambda>(s, n). s = i) (zip (map up_share (uploads db)) (map up_size (uploads db)))))"
  by (simp add: upload_used_def zip_map_map zip_same_conv_map filter_map comp_def)

lemma quota_same:
  "map up_share (uploads db') = map up_share (uploads db) \<Longrightarrow> map up_size (uploads db') = map up_size (uploads db) \<Longrightarrow> quota_ext db db'"
  by (simp add: quota_ext_def within_quota_def upload_used_zip)

lemma quota_less: "uploads db' = filter P (uploads db) \<Longrightarrow> quota_ext db db'"
proof -
  assume f: "uploads db' = filter P (uploads db)"
  have "sum_list (map up_size (filter Q (filter P us))) \<le> sum_list (map up_size (filter Q us))" for Q us
    by (induction us) auto
  then have "upload_used db' i \<le> upload_used db i" for i by (simp only: upload_used_def f)
  then show ?thesis unfolding quota_ext_def within_quota_def by (meson order_trans)
qed

lemma ledger_quota: "quota_ext db (apply_ledger sha op db)"
proof (cases op)
  case (Create_grant session title expires origin now invite i)
  then show ?thesis
    by (cases "create_grant sha db session title expires origin now invite i")
      (auto simp: apply_ledger_def ledger_step_def dest!: create_grant_Inr intro!: quota_same)
next
  case (Revoke_grant i session now)
  then show ?thesis by (simp add: apply_ledger_def ledger_step_def revoke_grant_def update_where_def quota_same)
next
  case (Redeem i invite now)
  then show ?thesis
    by (cases "redeem sha db i invite now")
      (auto simp: apply_ledger_def ledger_step_def redeem_def ebind_Inr_iff update_where_def split: if_splits intro!: quota_same)
next
  case (Reserve_upload i token name media sz now u)
  then show ?thesis
    by (cases "reserve_upload sha db i token name media sz now u")
      (auto simp: apply_ledger_def ledger_step_def quota_ext_def within_quota_def upload_used_def dest!: reserve_upload_Inr)
next
  case (Complete_upload i token u ref now)
  then show ?thesis
    by (cases "complete_upload sha db i token u ref now")
      (auto simp: apply_ledger_def ledger_step_def dest!: complete_upload_Inr intro!: quota_same)
next
  case (Abandon_upload i u)
  then show ?thesis by (auto simp: apply_ledger_def ledger_step_def abandon_upload_def intro!: quota_less)
next
  case (Reserve_submission i token request prompt refs operation now)
  then show ?thesis
    by (cases "reserve_submission sha db i token request prompt refs operation now")
      (auto simp: apply_ledger_def ledger_step_def dest!: reserve_submission_Inr intro!: quota_same)
next
  case (Accept_submission i request receipt)
  then show ?thesis
    by (cases "accept_submission db i request receipt")
      (auto simp: apply_ledger_def ledger_step_def dest!: accept_submission_Inr intro!: quota_same)
qed

interpretation quota: growing_store "apply_ledger sha" quota_ext
  using ledger_quota by unfold_locales (auto simp: quota_ext_def)

definition empty_ledger :: ledger where
  "empty_ledger = \<lparr>grants = [], uploads = [], submissions = []\<rparr>"

text \<open>C19. However uploads are reserved, completed and abandoned, the uploads of a share never add up to more
  than 64 MiB.\<close>

theorem upload_quota_kept:
  "upload_used (foldl (\<lambda>db op. apply_ledger sha op db) empty_ledger ops) i \<le> MAX_SHARE_UPLOAD_BYTES"
proof -
  have "within_quota empty_ledger" by (simp add: within_quota_def empty_ledger_def upload_used_def)
  then show ?thesis using quota.run_ext [of empty_ledger sha ops] by (simp add: quota_ext_def within_quota_def)
qed

end
