(* ===== verification/Claude_Provenance.thy ===== *)
theory Claude_Provenance
  imports Interfaces
begin

text \<open>
  Source lineage of imported Claude history: \<open>claude_history_provenance.py\<close>. A tracker reads the
  records of a provider transcript in order and says which synthetic "interrupted" records belong to a
  prompt that was already established. It carries identifiers only, and its state can be exported and
  restored between two reads of a growing file.
\<close>

section \<open>Identifiers and times\<close>

definition interruption_markers :: "string list" where
  "interruption_markers = [''[Request interrupted by user]'', ''[Request interrupted by user for tool use]'']"

definition claude_uuid :: "json \<Rightarrow> pystr option" where
  "claude_uuid v = (case v of
     JStr s \<Rightarrow> if matches ''hhhhhhhh-hhhh-hhhh-hhhh-hhhhhhhhhhhh'' s then Some s else None
   | _ \<Rightarrow> None)"

definition num_at :: "nat \<Rightarrow> nat \<Rightarrow> pystr \<Rightarrow> nat" where
  "num_at i n s = foldl (\<lambda>acc c. acc * 10 + (c - 48)) 0 (take n (drop i s))"

text \<open>The offset part of the time pattern: \<open>Z\<close> or a sign, hours up to 23 and minutes up to 59.\<close>

definition offset_re :: "pystr \<Rightarrow> bool" where
  "offset_re s \<longleftrightarrow> s = lit ''Z''
     \<or> (matches ''+dd:dd'' s \<or> matches ''-dd:dd'' s) \<and> num_at 1 2 s < 24 \<and> num_at 4 2 s < 60"

definition fraction_re :: "pystr \<Rightarrow> bool" where
  "fraction_re s \<longleftrightarrow> (let ds = takeWhile is_digit (drop 1 s) in 1 \<le> length ds \<and> length ds \<le> 9)"

definition time_re :: "pystr \<Rightarrow> bool" where
  "time_re s \<longleftrightarrow> matches ''dddd-dd-ddTdd:dd:dd'' (take 19 s)
     \<and> (let r = drop 19 s in
        if starts_with (lit ''.'') r then fraction_re r \<and> offset_re (dropWhile is_digit (drop 1 r))
        else offset_re r)"

text \<open>
  \<open>datetime.fromisoformat\<close> on a text that has matched (Python 3.11 and later, where any number of
  fraction digits is read): the date exists and the clock time is in range.
\<close>

definition days_in_month :: "nat \<Rightarrow> nat \<Rightarrow> nat" where
  "days_in_month y m = (if m = 2 then (if y mod 4 = 0 \<and> (y mod 100 \<noteq> 0 \<or> y mod 400 = 0) then 29 else 28)
     else if m \<in> {4, 6, 9, 11} then 30 else 31)"

definition fromisoformat_ok :: "pystr \<Rightarrow> bool" where
  "fromisoformat_ok s \<longleftrightarrow> (let y = num_at 0 4 s; m = num_at 5 2 s; d = num_at 8 2 s in
     1 \<le> y \<and> 1 \<le> m \<and> m \<le> 12 \<and> 1 \<le> d \<and> d \<le> days_in_month y m
     \<and> num_at 11 2 s < 24 \<and> num_at 14 2 s < 60 \<and> num_at 17 2 s < 60)"

definition claude_timestamp :: "json \<Rightarrow> pystr option" where
  "claude_timestamp v = (case v of
     JStr s \<Rightarrow> if \<not> time_re s then None else if fromisoformat_ok s then Some s else None
   | _ \<Rightarrow> None)"

section \<open>The cursor context\<close>

text \<open>\<open>{"version": 1}\<close> is \<open>None\<close>; the only other context has all four identifiers.\<close>

record lineage =
  lin_session :: pystr
  lin_prompt :: pystr
  lin_anchor :: pystr
  lin_last :: pystr

type_synonym lineage_context = "lineage option"

definition context_json :: "lineage_context \<Rightarrow> json" where
  "context_json c = (case c of
     None \<Rightarrow> JObj [(lit ''version'', JInt 1)]
   | Some l \<Rightarrow> JObj [(lit ''version'', JInt 1), (lit ''session_id'', JStr (lin_session l)),
       (lit ''prompt_id'', JStr (lin_prompt l)), (lit ''anchor_event_id'', JStr (lin_anchor l)),
       (lit ''last_event_id'', JStr (lin_last l))])"

definition normalize_claude_interruption_context :: "json \<Rightarrow> pystr option \<Rightarrow> lineage_context" where
  "normalize_claude_interruption_context v provider_session = (case v of
     JObj d \<Rightarrow>
       if \<not> py_eq (dget d ''version'') (JInt 1) then None
       else (case (claude_uuid (dget d ''session_id''), claude_uuid (dget d ''prompt_id''),
                   claude_uuid (dget d ''anchor_event_id''), claude_uuid (dget d ''last_event_id'')) of
           (Some s, Some p, Some a, Some l) \<Rightarrow>
             if provider_session \<noteq> None \<and> provider_session \<noteq> Some [] \<and> provider_session \<noteq> Some s then None
             else Some \<lparr>lin_session = s, lin_prompt = p, lin_anchor = a, lin_last = l\<rparr>
         | _ \<Rightarrow> None)
   | _ \<Rightarrow> None)"

section \<open>The tracker\<close>

text \<open>The parts of one record that \<open>consume\<close> looks at.\<close>

definition message_content :: "jdict \<Rightarrow> json" where
  "message_content e = (case dget e ''message'' of JObj m \<Rightarrow> dget m ''content'' | _ \<Rightarrow> JNull)"

definition content_blocks :: "jdict \<Rightarrow> json list" where
  "content_blocks e = (case message_content e of JArr bs \<Rightarrow> bs | _ \<Rightarrow> [])"

definition user_message :: "jdict \<Rightarrow> bool" where
  "user_message e \<longleftrightarrow> dget e ''type'' = js ''user''
     \<and> (case dget e ''message'' of JObj m \<Rightarrow> dget m ''role'' = js ''user'' | _ \<Rightarrow> False)"

definition is_marker :: "jdict \<Rightarrow> bool" where
  "is_marker e \<longleftrightarrow> user_message e \<and> (case content_blocks e of
     [JObj b] \<Rightarrow> dget b ''type'' = js ''text''
       \<and> (case dget b ''text'' of JStr t \<Rightarrow> t \<in> lit ` set interruption_markers | _ \<Rightarrow> False)
   | _ \<Rightarrow> False)"

definition has_text :: "jdict \<Rightarrow> bool" where
  "has_text e \<longleftrightarrow> (case message_content e of JStr t \<Rightarrow> strip t \<noteq> [] | _ \<Rightarrow> False)
     \<or> list_ex (\<lambda>b. case b of
          JObj d \<Rightarrow> dget d ''type'' = js ''text'' \<and> (case dget d ''text'' of JStr t \<Rightarrow> strip t \<noteq> [] | _ \<Rightarrow> False)
        | _ \<Rightarrow> False) (content_blocks e)"

definition has_tool_result :: "jdict \<Rightarrow> bool" where
  "has_tool_result e \<longleftrightarrow> list_ex (\<lambda>b. case b of JObj d \<Rightarrow> dget d ''type'' = js ''tool_result'' | _ \<Rightarrow> False) (content_blocks e)"

definition real_prompt :: "jdict \<Rightarrow> bool" where
  "real_prompt e \<longleftrightarrow> user_message e \<and> has_text e \<and> \<not> has_tool_result e \<and> \<not> is_marker e
     \<and> dget e ''isMeta'' \<noteq> JBool True \<and> claude_uuid (dget e ''sessionId'') \<noteq> None
     \<and> claude_uuid (dget e ''promptId'') \<noteq> None \<and> claude_timestamp (dget e ''timestamp'') \<noteq> None"

definition continued :: "lineage_context \<Rightarrow> jdict \<Rightarrow> bool" where
  "continued c e \<longleftrightarrow> (case c of None \<Rightarrow> False
     | Some l \<Rightarrow> claude_uuid (dget e ''sessionId'') = Some (lin_session l)
         \<and> claude_uuid (dget e ''parentUuid'') = Some (lin_last l))"

definition optional_field :: "string \<Rightarrow> pystr option \<Rightarrow> jdict" where
  "optional_field k v = (case v of None \<Rightarrow> [] | Some s \<Rightarrow> [(lit k, JStr s)])"

definition interruption_origin :: "lineage_context \<Rightarrow> pystr \<Rightarrow> jdict \<Rightarrow> jdict option" where
  "interruption_origin c event_id e =
    (case (claude_uuid (dget e ''sessionId''), claude_timestamp (dget e ''timestamp'')) of
       (Some session, Some timestamp) \<Rightarrow>
         let prompt = claude_uuid (dget e ''promptId'') in
         if is_marker e \<and> (dget e ''isMeta'' = JBool True
              \<or> continued c e \<and> prompt \<noteq> None
                \<and> (case c of None \<Rightarrow> False | Some l \<Rightarrow> prompt = Some (lin_prompt l) \<and> event_id \<noteq> lin_anchor l))
         then Some ([(lit ''provider'', js ''claude''), (lit ''kind'', js ''interruption''), (lit ''cause'', js ''unknown''),
                (lit ''event_id'', JStr event_id), (lit ''session_id'', JStr session), (lit ''timestamp'', JStr timestamp)]
              @ optional_field ''parent_event_id'' (claude_uuid (dget e ''parentUuid''))
              @ optional_field ''prompt_id'' prompt)
         else None
     | _ \<Rightarrow> None)"

definition next_context :: "lineage_context \<Rightarrow> pystr \<Rightarrow> jdict \<Rightarrow> lineage_context" where
  "next_context c event_id e =
    (if real_prompt e then
       (case (claude_uuid (dget e ''sessionId''), claude_uuid (dget e ''promptId'')) of
          (Some s, Some p) \<Rightarrow> Some \<lparr>lin_session = s, lin_prompt = p, lin_anchor = event_id, lin_last = event_id\<rparr>
        | _ \<Rightarrow> None)
     else if continued c e then map_option (\<lambda>l. l\<lparr>lin_last := event_id\<rparr>) c
     else None)"

definition consume_event :: "lineage_context \<Rightarrow> json \<Rightarrow> lineage_context \<times> jdict option" where
  "consume_event c v = (case v of
     JObj e \<Rightarrow>
       if dget e ''isSidechain'' = JBool True then (c, None)
       else (case claude_uuid (dget e ''uuid'') of
           None \<Rightarrow> (case dget e ''type'' of
               JStr t \<Rightarrow> if t \<in> lit ` {''user'', ''assistant'', ''attachment''} then (None, None) else (c, None)
             | _ \<Rightarrow> (None, None))
         | Some event_id \<Rightarrow> (next_context c event_id e, interruption_origin c event_id e))
   | _ \<Rightarrow> (None, None))"

text \<open>A read of the transcript: the context after it and the origin of each record.\<close>

fun track :: "lineage_context \<Rightarrow> json list \<Rightarrow> lineage_context \<times> jdict option list" where
  "track c [] = (c, [])"
| "track c (v # vs) = (case consume_event c v of (c', origin) \<Rightarrow>
     (case track c' vs of (c'', origins) \<Rightarrow> (c'', origin # origins)))"

section \<open>Exported contexts\<close>

lemma claude_uuid_SomeD: "claude_uuid v = Some s \<Longrightarrow> v = JStr s \<and> claude_uuid (JStr s) = Some s"
  by (cases v) (auto simp: claude_uuid_def split: if_splits)

lemma claude_uuid_JNull: "claude_uuid JNull = None"
  by (simp add: claude_uuid_def)

definition wf_lineage :: "lineage_context \<Rightarrow> bool" where
  "wf_lineage c \<longleftrightarrow> (case c of None \<Rightarrow> True
     | Some l \<Rightarrow> list_all (\<lambda>i. claude_uuid (JStr i) = Some i) [lin_session l, lin_prompt l, lin_anchor l, lin_last l])"

lemma normalize_wf: "wf_lineage (normalize_claude_interruption_context v p)"
  by (cases v) (auto simp: normalize_claude_interruption_context_def wf_lineage_def
      split: option.splits dest: claude_uuid_SomeD)

lemma normalize_context_json: "wf_lineage c \<Longrightarrow> normalize_claude_interruption_context (context_json c) None = c"
  by (cases c) (simp_all add: normalize_claude_interruption_context_def context_json_def wf_lineage_def claude_uuid_JNull)

interpretation lineage_context:
  normal_form "\<lambda>v. normalize_claude_interruption_context v None" context_json
  by unfold_locales (rule normalize_context_json [OF normalize_wf])

lemma next_context_wf:
  assumes "wf_lineage c" "claude_uuid v = Some i"
  shows "wf_lineage (next_context c i e)"
proof -
  have "claude_uuid (JStr i) = Some i" using claude_uuid_SomeD [OF assms(2)] by simp
  then show ?thesis
    using assms(1) by (auto simp: next_context_def wf_lineage_def split: option.splits dest: claude_uuid_SomeD)
qed

lemma consume_event_wf: "wf_lineage c \<Longrightarrow> wf_lineage (fst (consume_event c v))"
proof -
  assume wf: "wf_lineage c"
  have none: "wf_lineage None" by (simp add: wf_lineage_def)
  show ?thesis
  proof (cases v)
    case (JObj e)
    show ?thesis
    proof (cases "claude_uuid (dget e ''uuid'')")
      case None
      then show ?thesis using wf none JObj by (cases "dget e ''type''") (simp_all add: consume_event_def)
    qed (use wf JObj in \<open>simp add: consume_event_def next_context_wf\<close>)
  qed (simp_all add: consume_event_def none)
qed

lemma fst_track: "fst (track c (v # vs)) = fst (track (fst (consume_event c v)) vs)"
  by (simp split: prod.splits)

lemma track_wf: "wf_lineage c \<Longrightarrow> wf_lineage (fst (track c vs))"
proof (induction vs arbitrary: c)
  case (Cons v vs)
  then show ?case by (simp only: fst_track consume_event_wf)
qed simp

lemma track_append:
  "track c (xs @ ys) = (case track c xs of (c', os) \<Rightarrow> (case track c' ys of (c'', os') \<Rightarrow> (c'', os @ os')))"
  by (induction xs arbitrary: c) (simp_all split: prod.splits)

text \<open>The tracker can be stopped and resumed at any record of the transcript: when the context is
  exported to JSON after a first part and read back through the allow-list before the second part, the
  final context and the origin of every record are those of one uninterrupted read.\<close>

lemma tracker_resumes:
  "track (normalize_claude_interruption_context v None) (xs @ ys) =
    (case track (normalize_claude_interruption_context v None) xs of (c, origins) \<Rightarrow>
      (case track (normalize_claude_interruption_context (context_json c) None) ys of
        (c', later) \<Rightarrow> (c', origins @ later)))"
proof -
  obtain c os where t: "track (normalize_claude_interruption_context v None) xs = (c, os)" by fastforce
  have "wf_lineage c" using track_wf [OF normalize_wf [of v None], of xs] t by simp
  then show ?thesis by (simp add: track_append t normalize_context_json)
qed

section \<open>Established prompts\<close>


















end
