(* ===== verification/Side_Questions.thy ===== *)
theory Side_Questions
  imports Side_Context
begin

text \<open>
  The runtime of side questions: receipts, native conversations and the routes of
  \<open>side_questions.py\<close>. Coroutines interleave only where they await, so each is cut into the segments
  between two awaits; a segment is one step on the shared state, and what an awaited call returns or
  raises is chosen by the environment. Receipts and conversations are mutable objects that a running
  task keeps after they have left their dictionary: they live in a store, by address.
\<close>

section \<open>State\<close>

definition RECEIPT_TTL_SECONDS :: rat where
  "RECEIPT_TTL_SECONDS = 600"

definition NATIVE_IDLE_SECONDS :: rat where
  "NATIVE_IDLE_SECONDS = 30 * 60"

text \<open>Keys of \<open>receipts\<close> (owner, session, request) and of \<open>conversations\<close> (owner, session, side chat).\<close>

type_synonym receipt_key = "pystr \<times> pystr \<times> pystr"
type_synonym chat_key = "pystr \<times> pystr \<times> pystr option"

text \<open>What a coroutine can raise: its own error, a cancellation, the time limit of \<open>wait_for\<close>, anything else.\<close>

datatype failure = Side_failure side_error | Cancelled | Timed_out | Other_failure

text \<open>Where the task of a receipt stands: not started, awaiting the native factory, the answer or the
  close of a failed conversation, awaiting the plain answerer, or done.\<close>

datatype task_stage =
    Created
  | Making nat
  | Asking nat
  | Closing nat failure
  | Answering
  | Finished "failure + json"

record side_task =
  tk_key :: receipt_key
  tk_stage :: task_stage
  tk_cancel :: bool

record receipt =
  rq_question :: "pystr option"
  rq_history :: "side_message list"
  rq_task :: "side_task option"
  rq_expires :: "rat option"
  rq_cancelled :: bool
  rq_waiters :: int
  rq_side_chat :: "pystr option"
  rq_after :: "pystr option"

text \<open>\<open>expires_at\<close> is \<open>None\<close> for infinity.\<close>

definition new_receipt :: "pystr option \<Rightarrow> side_message list \<Rightarrow> pystr option \<Rightarrow> pystr option \<Rightarrow> receipt" where
  "new_receipt question history side_chat after = \<lparr>rq_question = question, rq_history = history, rq_task = None,
     rq_expires = None, rq_cancelled = False, rq_waiters = 0, rq_side_chat = side_chat, rq_after = after\<rparr>"

record conversation =
  cv_handle :: "nat option"
  cv_last :: "pystr option"
  cv_history :: "(pystr \<times> json) list"
  cv_busy :: bool
  cv_closed :: bool
  cv_timer :: "nat option"
  cv_close_task :: "nat option"

definition new_conversation :: conversation where
  "new_conversation = \<lparr>cv_handle = None, cv_last = None, cv_history = [], cv_busy = False, cv_closed = False,
     cv_timer = None, cv_close_task = None\<rparr>"

text \<open>Members of \<open>cleanup_tasks\<close>: the close of a native handle, the expiry of an idle conversation.\<close>

datatype cleanup_task = Close_task nat | Expiry_task nat

text \<open>A clear request (\<open>close_conversation\<close>) between two awaits.\<close>

datatype closer_stage = Cancelling "receipt_key list" | Awaiting_close | Closer_done

datatype shutdown_stage = Running | Awaiting_tasks "nat list" | Awaiting_closes | Shut

record side_state =
  receipts :: "(receipt_key \<times> nat) list"
  receipt_at :: "nat \<Rightarrow> receipt"
  receipt_next :: nat
  conversations :: "(chat_key \<times> nat) list"
  conversation_at :: "nat \<Rightarrow> conversation"
  conversation_next :: nat
  timers :: "(nat \<times> rat \<times> chat_key \<times> nat) list"
  timer_next :: nat
  cleanup_tasks :: "cleanup_task list"
  closers :: "(chat_key \<times> nat \<times> closer_stage) list"
  shutdown :: shutdown_stage

definition initial_side :: side_state where
  "initial_side = \<lparr>receipts = [], receipt_at = \<lambda>_. new_receipt None [] None None, receipt_next = 0,
     conversations = [], conversation_at = \<lambda>_. new_conversation, conversation_next = 0,
     timers = [], timer_next = 0, cleanup_tasks = [], closers = [], shutdown = Running\<rparr>"

definition set_receipt :: "nat \<Rightarrow> receipt \<Rightarrow> side_state \<Rightarrow> side_state" where
  "set_receipt i r s = s\<lparr>receipt_at := (receipt_at s)(i := r)\<rparr>"

definition set_conversation :: "nat \<Rightarrow> conversation \<Rightarrow> side_state \<Rightarrow> side_state" where
  "set_conversation c cv s = s\<lparr>conversation_at := (conversation_at s)(c := cv)\<rparr>"

definition set_stage :: "nat \<Rightarrow> task_stage \<Rightarrow> side_state \<Rightarrow> side_state" where
  "set_stage i st s = (let r = receipt_at s i in
     set_receipt i (r\<lparr>rq_task := map_option (\<lambda>t. t\<lparr>tk_stage := st\<rparr>) (rq_task r)\<rparr>) s)"

definition stage_of :: "side_state \<Rightarrow> nat \<Rightarrow> task_stage option" where
  "stage_of s i = map_option tk_stage (rq_task (receipt_at s i))"

definition task_done :: "receipt \<Rightarrow> bool" where
  "task_done r \<longleftrightarrow> (case rq_task r of None \<Rightarrow> True
     | Some t \<Rightarrow> (case tk_stage t of Finished _ \<Rightarrow> True | _ \<Rightarrow> False))"

section \<open>Timers\<close>

definition cancel_timer :: "nat option \<Rightarrow> side_state \<Rightarrow> side_state" where
  "cancel_timer t s = (case t of None \<Rightarrow> s | Some n \<Rightarrow> s\<lparr>timers := filter (\<lambda>x. fst x \<noteq> n) (timers s)\<rparr>)"

text \<open>\<open>conversation.timer = loop.call_later(NATIVE_IDLE_SECONDS, self._expire_conversation, key, conversation)\<close>.\<close>

definition set_timer :: "rat \<Rightarrow> chat_key \<Rightarrow> nat \<Rightarrow> side_state \<Rightarrow> side_state" where
  "set_timer now key c s =
    (let n = timer_next s in
     set_conversation c ((conversation_at s c)\<lparr>cv_timer := Some n\<rparr>)
       (s\<lparr>timers := (n, now + NATIVE_IDLE_SECONDS, key, c) # timers s, timer_next := Suc n\<rparr>))"

definition expire_conversation :: "chat_key \<Rightarrow> nat \<Rightarrow> side_state \<Rightarrow> side_state" where
  "expire_conversation key c s =
    (if map_of (conversations s) key \<noteq> Some c \<or> cv_busy (conversation_at s c) then s
     else s\<lparr>conversations := AList.delete key (conversations s), cleanup_tasks := Expiry_task c # cleanup_tasks s\<rparr>)"

text \<open>A timer that is due runs once.\<close>

definition fire_timer :: "rat \<Rightarrow> nat \<Rightarrow> side_state \<Rightarrow> side_state" where
  "fire_timer now n s = (case map_of (timers s) n of
     None \<Rightarrow> s
   | Some (due, key, c) \<Rightarrow> if now < due then s
       else expire_conversation key c (s\<lparr>timers := filter (\<lambda>x. fst x \<noteq> n) (timers s)\<rparr>))"

section \<open>Native conversations\<close>

text \<open>\<open>_close_conversation\<close> up to its await; the flag says whether there is a close task to await.\<close>

definition close_handle :: "nat \<Rightarrow> side_state \<Rightarrow> side_state \<times> bool" where
  "close_handle c s =
    (let cv = (conversation_at s c)\<lparr>cv_closed := True\<rparr>;
         s = cancel_timer (cv_timer cv) s
     in case (cv_handle cv, cv_close_task cv) of
          (Some h, None) \<Rightarrow>
            (set_conversation c (cv\<lparr>cv_handle := None, cv_close_task := Some h\<rparr>)
               (s\<lparr>cleanup_tasks := Close_task c # cleanup_tasks s\<rparr>), True)
        | (_, close_task) \<Rightarrow> (set_conversation c cv s, close_task \<noteq> None))"

text \<open>The end of \<open>run\<close>: the time limit becomes an error of its own, and the receipt starts to age.\<close>

definition finish_run :: "rat \<Rightarrow> nat \<Rightarrow> failure + json \<Rightarrow> side_state \<Rightarrow> side_state" where
  "finish_run now i outcome s =
    (let outcome = (case outcome of Inl Timed_out \<Rightarrow> Inl (Side_failure (504, ''Side question timed out'')) | _ \<Rightarrow> outcome);
         s = set_stage i (Finished outcome) s
     in set_receipt i ((receipt_at s i)\<lparr>rq_expires := Some (now + RECEIPT_TTL_SECONDS)\<rparr>) s)"

definition chat_key_of :: "receipt_key \<Rightarrow> pystr option \<Rightarrow> chat_key" where
  "chat_key_of key side_chat = (fst key, fst (snd key), side_chat)"

definition native_key :: "side_state \<Rightarrow> nat \<Rightarrow> chat_key" where
  "native_key s i = (case rq_task (receipt_at s i) of
     None \<Rightarrow> ([], [], rq_side_chat (receipt_at s i))
   | Some t \<Rightarrow> chat_key_of (tk_key t) (rq_side_chat (receipt_at s i)))"

text \<open>The \<open>finally\<close> of \<open>_native_answer\<close>.\<close>

definition native_exit :: "rat \<Rightarrow> nat \<Rightarrow> nat \<Rightarrow> failure + json \<Rightarrow> side_state \<Rightarrow> side_state" where
  "native_exit now i c outcome s =
    finish_run now i outcome
      (set_timer now (native_key s i) c (set_conversation c ((conversation_at s c)\<lparr>cv_busy := False\<rparr>) s))"

text \<open>\<open>except BaseException: await self._close_conversation(conversation); raise\<close>.\<close>

definition native_fail :: "rat \<Rightarrow> nat \<Rightarrow> nat \<Rightarrow> failure \<Rightarrow> side_state \<Rightarrow> side_state" where
  "native_fail now i c f s = (case close_handle c s of (s, waits) \<Rightarrow>
     if waits then set_stage i (Closing c f) s else native_exit now i c (Inl f) s)"

text \<open>What is observed of a run: tasks started, questions asked of a native handle with the history it
  is given, answers taken from it, and the end of all receipts.\<close>

datatype side_event =
    Started receipt_key
  | Asked nat pystr "(pystr \<times> json) list"
  | Answered nat pystr "pystr option" pystr json
  | Receipts_cleared

definition question_of :: "side_state \<Rightarrow> nat \<Rightarrow> pystr" where
  "question_of s i = (case rq_question (receipt_at s i) of None \<Rightarrow> [] | Some q \<Rightarrow> q)"

definition native_ask :: "nat \<Rightarrow> nat \<Rightarrow> side_state \<Rightarrow> side_state \<times> side_event list" where
  "native_ask i c s = (set_stage i (Asking c) s, [Asked c (question_of s i) (cv_history (conversation_at s c))])"

definition native_enter :: "rat \<Rightarrow> nat \<Rightarrow> nat \<Rightarrow> side_state \<Rightarrow> side_state \<times> side_event list" where
  "native_enter now i c s =
    (let cv = conversation_at s c in
     if cv_closed cv then
       (finish_run now i (Inl (Side_failure (410, ''Side chat ended. Clear Side chat to start a new native conversation.''))) s, [])
     else if cv_busy cv then
       (finish_run now i (Inl (Side_failure (409, ''A side question is already running in this conversation''))) s, [])
     else if cv_last cv \<noteq> rq_after (receipt_at s i) then
       (finish_run now i (Inl (Side_failure (409, ''Side chat changed; refresh or clear the side conversation''))) s, [])
     else
       let s = cancel_timer (cv_timer cv) (set_conversation c (cv\<lparr>cv_busy := True\<rparr>) s)
       in if cv_handle cv = None then (set_stage i (Making c) s, []) else native_ask i c s)"

definition native_start :: "rat \<Rightarrow> nat \<Rightarrow> side_state \<Rightarrow> side_state \<times> side_event list" where
  "native_start now i s = (case map_of (conversations s) (native_key s i) of
     Some c \<Rightarrow> native_enter now i c s
   | None \<Rightarrow>
       if rq_after (receipt_at s i) \<noteq> None then
         (finish_run now i (Inl (Side_failure (410, ''Side chat expired. Clear Side chat to start a new native conversation.''))) s, [])
       else let c = conversation_next s in
         native_enter now i c (set_conversation c new_conversation
           (s\<lparr>conversations := AList.update (native_key s i) c (conversations s), conversation_next := Suc c\<rparr>)))"

text \<open>After \<open>await self.native_factory(session_id)\<close>.\<close>

definition native_made :: "rat \<Rightarrow> nat \<Rightarrow> nat \<Rightarrow> failure + nat \<Rightarrow> side_state \<Rightarrow> side_state \<times> side_event list" where
  "native_made now i c made s = (case made of
     Inl f \<Rightarrow> (native_fail now i c f s, [])
   | Inr h \<Rightarrow>
       let s = set_conversation c ((conversation_at s c)\<lparr>cv_handle := Some h\<rparr>) s in
       if cv_closed (conversation_at s c) then (native_fail now i c (Side_failure (410, ''Side chat ended'')) s, [])
       else native_ask i c s)"

definition last20 :: "'a list \<Rightarrow> 'a list" where
  "last20 xs = drop (length xs - 20) xs"

text \<open>After \<open>await conversation.handle.ask(...)\<close>; a result without an answer raises.\<close>

definition native_answered ::
  "rat \<Rightarrow> nat \<Rightarrow> nat \<Rightarrow> failure + json \<Rightarrow> side_state \<Rightarrow> side_state \<times> side_event list" where
  "native_answered now i c reply s = (case reply of
     Inl f \<Rightarrow> (native_fail now i c f s, [])
   | Inr result \<Rightarrow>
       let cv = conversation_at s c; request = (case rq_task (receipt_at s i) of None \<Rightarrow> [] | Some t \<Rightarrow> snd (snd (tk_key t))) in
       if cv_closed cv then (native_fail now i c (Side_failure (410, ''Side chat ended'')) s, [])
       else (case result of
           JObj d \<Rightarrow>
             if \<not> dhas d ''answer'' then (native_fail now i c Other_failure s, [])
             else (native_exit now i c (Inr result)
                     (set_conversation c (cv\<lparr>cv_history := last20 (cv_history cv @ [(question_of s i, dget d ''answer'')]),
                        cv_last := Some request\<rparr>) s),
                   [Answered c request (rq_after (receipt_at s i)) (question_of s i) (dget d ''answer'')])
         | _ \<Rightarrow> (native_fail now i c Other_failure s, [])))"

text \<open>What resumes a task: a native handle, a result, the end of a close, or an exception.\<close>

datatype reply = Got_handle nat | Got_result json | Got_closed | Got_failure failure

text \<open>
  One segment of the task of receipt \<open>i\<close>. A task that is cancelled before it starts never enters
  \<open>run\<close>. A reply that does not fit the await leaves the state alone.
\<close>

definition run_task :: "bool \<Rightarrow> rat \<Rightarrow> nat \<Rightarrow> reply \<Rightarrow> side_state \<Rightarrow> side_state \<times> side_event list" where
  "run_task native now i reply s = (case stage_of s i of
     Some Created \<Rightarrow> (case reply of
         Got_failure f \<Rightarrow> (set_stage i (Finished (Inl f)) s, [])
       | _ \<Rightarrow> if native then native_start now i s else (set_stage i Answering s, []))
   | Some (Making c) \<Rightarrow> (case reply of
         Got_handle h \<Rightarrow> native_made now i c (Inr h) s
       | Got_failure f \<Rightarrow> native_made now i c (Inl f) s
       | _ \<Rightarrow> (s, []))
   | Some (Asking c) \<Rightarrow> (case reply of
         Got_result v \<Rightarrow> native_answered now i c (Inr v) s
       | Got_failure f \<Rightarrow> native_answered now i c (Inl f) s
       | _ \<Rightarrow> (s, []))
   | Some (Closing c f) \<Rightarrow> (case reply of
         Got_closed \<Rightarrow> (native_exit now i c (Inl f) s, [])
       | Got_failure g \<Rightarrow> (native_exit now i c (Inl g) s, [])
       | _ \<Rightarrow> (s, []))
   | Some Answering \<Rightarrow> (case reply of
         Got_result v \<Rightarrow> (finish_run now i (Inr v) s, [])
       | Got_failure f \<Rightarrow> (finish_run now i (Inl f) s, [])
       | _ \<Rightarrow> (s, []))
   | _ \<Rightarrow> (s, []))"

section \<open>Receipts\<close>

definition expired :: "rat \<Rightarrow> receipt \<Rightarrow> bool" where
  "expired now r \<longleftrightarrow> (case rq_expires r of None \<Rightarrow> False | Some t \<Rightarrow> t \<le> now)"

definition prune :: "rat \<Rightarrow> side_state \<Rightarrow> side_state" where
  "prune now s = s\<lparr>receipts := filter (\<lambda>(k, i). \<not> (expired now (receipt_at s i) \<and> task_done (receipt_at s i))) (receipts s)\<rparr>"

definition add_receipt :: "receipt_key \<Rightarrow> receipt \<Rightarrow> side_state \<Rightarrow> side_state" where
  "add_receipt key r s = (let i = receipt_next s in
     set_receipt i r (s\<lparr>receipts := AList.update key i (receipts s), receipt_next := Suc i\<rparr>))"

definition submit ::
  "bool \<Rightarrow> rat \<Rightarrow> receipt_key \<Rightarrow> pystr \<Rightarrow> json option \<Rightarrow> pystr option \<Rightarrow> pystr option \<Rightarrow> side_state
     \<Rightarrow> side_state \<times> (side_error + nat) \<times> side_event list" where
  "submit native now key question history side_chat after s =
    (case validate_history (case history of None \<Rightarrow> JArr [] | Some h \<Rightarrow> h) of
       Inl e \<Rightarrow> (s, Inl e, [])
     | Inr frozen \<Rightarrow>
         let s = prune now s in
         (case map_of (receipts s) key of
            Some i \<Rightarrow>
              let r = receipt_at s i in
              if rq_cancelled r then (s, Inl (409, ''Side question was cancelled; submit with a new request ID''), [])
              else if rq_question r \<noteq> Some question \<or> rq_history r \<noteq> frozen \<or> rq_side_chat r \<noteq> side_chat \<or> rq_after r \<noteq> after
              then (s, Inl (409, ''Request ID already belongs to a different side question''), [])
              else (s, Inr i, [])
          | None \<Rightarrow>
              if native \<and> (side_chat = None \<or> side_chat = Some [] \<or> frozen \<noteq> [])
              then (s, Inl (409, ''Update the app to use native Side chat; copied conversation history is no longer accepted.''), [])
              else (add_receipt key ((new_receipt (Some question) frozen side_chat after)
                      \<lparr>rq_task := Some \<lparr>tk_key = key, tk_stage = Created, tk_cancel = False\<rparr>\<rparr>) s,
                    Inr (receipt_next s), [Started key])))"

definition cancel_receipt :: "rat \<Rightarrow> nat \<Rightarrow> side_state \<Rightarrow> side_state" where
  "cancel_receipt now i s =
    (let r = receipt_at s i in
     set_receipt i (r\<lparr>rq_cancelled := True, rq_expires := Some (now + RECEIPT_TTL_SECONDS),
       rq_task := (if task_done r \<or> rq_cancelled r then rq_task r
                   else map_option (\<lambda>t. t\<lparr>tk_cancel := True\<rparr>) (rq_task r))\<rparr>) s)"

text \<open>\<open>cancel\<close> up to its await, after which it only returns the status.\<close>

definition cancel :: "rat \<Rightarrow> receipt_key \<Rightarrow> side_state \<Rightarrow> side_state \<times> string" where
  "cancel now key s =
    (let s = prune now s in
     case map_of (receipts s) key of
       Some i \<Rightarrow> (cancel_receipt now i s, ''cancelled'')
     | None \<Rightarrow> (cancel_receipt now (receipt_next s) (add_receipt key (new_receipt None [] None None) s), ''not_found''))"

section \<open>Clearing and shutting down\<close>

text \<open>\<open>close_conversation\<close>: the conversation is marked first; then each of its receipts is cancelled,
  the handle is closed, and the tombstone is given its time to live.\<close>

definition close_conversation :: "chat_key \<Rightarrow> side_state \<Rightarrow> side_state \<times> nat" where
  "close_conversation key s =
    (let c = (case map_of (conversations s) key of Some c \<Rightarrow> c | None \<Rightarrow> conversation_next s);
         s = (if map_of (conversations s) key \<noteq> None then s
              else set_conversation c new_conversation
                (s\<lparr>conversations := AList.update key c (conversations s), conversation_next := Suc c\<rparr>));
         s = set_conversation c ((conversation_at s c)\<lparr>cv_closed := True\<rparr>) s;
         keys = [k. (k, i) \<leftarrow> receipts s, chat_key_of k (rq_side_chat (receipt_at s i)) = key]
     in (s\<lparr>closers := closers s @ [(key, c, Cancelling keys)]\<rparr>, c))"

definition set_closer :: "nat \<Rightarrow> closer_stage \<Rightarrow> side_state \<Rightarrow> side_state" where
  "set_closer n st s = (case closers s ! n of (key, c, _) \<Rightarrow> s\<lparr>closers := (closers s)[n := (key, c, st)]\<rparr>)"

text \<open>The next segment of clear request \<open>n\<close>, whose await returned normally or not.\<close>

definition closer_step :: "rat \<Rightarrow> nat \<Rightarrow> bool \<Rightarrow> side_state \<Rightarrow> side_state" where
  "closer_step now n ok s =
    (if length (closers s) \<le> n then s
     else case closers s ! n of (key, c, st) \<Rightarrow>
       if \<not> ok then set_closer n Closer_done s
       else (case st of
           Cancelling (k # ks) \<Rightarrow> set_closer n (Cancelling ks) (fst (cancel now k s))
         | Cancelling [] \<Rightarrow> set_closer n Awaiting_close (fst (close_handle c s))
         | Awaiting_close \<Rightarrow> set_closer n Closer_done (set_timer now key c s)
         | Closer_done \<Rightarrow> s))"

definition run_expiry :: "nat \<Rightarrow> side_state \<Rightarrow> side_state" where
  "run_expiry c s = (if Expiry_task c \<in> set (cleanup_tasks s) then fst (close_handle c s) else s)"

definition cleanup_done :: "cleanup_task \<Rightarrow> side_state \<Rightarrow> side_state" where
  "cleanup_done t s = s\<lparr>cleanup_tasks := removeAll t (cleanup_tasks s)\<rparr>"

text \<open>\<open>close\<close>: every unfinished task is cancelled and awaited, then the receipts are dropped and the
  conversations closed, awaited and dropped.\<close>

definition request_cancel :: "nat \<Rightarrow> side_state \<Rightarrow> side_state" where
  "request_cancel i s = (let r = receipt_at s i in
     set_receipt i (r\<lparr>rq_task := map_option (\<lambda>t. t\<lparr>tk_cancel := True\<rparr>) (rq_task r)\<rparr>) s)"

definition close_step :: "side_state \<Rightarrow> side_state \<times> side_event list" where
  "close_step s = (case shutdown s of
     Running \<Rightarrow>
       let tasks = filter (\<lambda>i. \<not> task_done (receipt_at s i)) (map snd (receipts s))
       in ((fold request_cancel tasks s)\<lparr>shutdown := Awaiting_tasks tasks\<rparr>, [])
   | Awaiting_tasks tasks \<Rightarrow>
       if list_all (\<lambda>i. task_done (receipt_at s i)) tasks
       then (fold (\<lambda>c s. fst (close_handle c s)) (map snd (conversations s))
               (s\<lparr>receipts := [], shutdown := Awaiting_closes\<rparr>), [Receipts_cleared])
       else (s, [])
   | Awaiting_closes \<Rightarrow> (s\<lparr>conversations := [], shutdown := Shut\<rparr>, [])
   | Shut \<Rightarrow> (s, []))"

section \<open>Routes\<close>

text \<open>The checks of the \<open>POST\<close> body before the runtime is called.\<close>

record side_request =
  sr_request :: pystr
  sr_question :: pystr
  sr_history :: json
  sr_side_chat :: "pystr option"
  sr_after :: "pystr option"

definition request_keys :: "string list" where
  "request_keys = [''request_id'', ''question'', ''history'', ''side_chat_id'', ''after_request_id'']"

definition optional_identifier :: "jdict \<Rightarrow> string \<Rightarrow> side_error + pystr option" where
  "optional_identifier d k = (if \<not> dhas d k then Inr None
     else case dget d k of
       JStr t \<Rightarrow> if identifier128 t then Inr (Some t) else Inl (400, ''Invalid side conversation ID'')
     | _ \<Rightarrow> Inl (400, ''Invalid side conversation ID''))"

definition request_question :: "json \<Rightarrow> side_error + pystr" where
  "request_question v = (case v of
     JStr q \<Rightarrow> if strip q = [] \<or> MAX_QUESTION_CHARS < length q then Inl (400, ''Question must contain 1 to 8000 characters'')
       else if utf8_size q = None then Inl (400, ''Question must contain valid Unicode text'') else Inr q
   | _ \<Rightarrow> Inl (400, ''Question must contain 1 to 8000 characters''))"

definition post_request :: "json \<Rightarrow> side_error + side_request" where
  "post_request v = (case v of
     JObj d \<Rightarrow>
       if \<not> dhas d ''request_id'' \<or> \<not> dhas d ''question'' \<or> \<not> list_all (\<lambda>kv. fst kv \<in> lit ` set request_keys) d
       then Inl (400, ''Invalid side question fields'')
       else ebind (optional_identifier d ''side_chat_id'') (\<lambda>side_chat.
         ebind (optional_identifier d ''after_request_id'') (\<lambda>after.
         if dhas d ''after_request_id'' \<and> \<not> dhas d ''side_chat_id'' then Inl (400, ''Side conversation ID is required'')
         else (case dget d ''request_id'' of
             JStr request \<Rightarrow>
               if \<not> identifier128 request then Inl (400, ''Invalid side question request ID'')
               else ebind (request_question (dget d ''question'')) (\<lambda>question.
                 ebind (validate_history (if dhas d ''history'' then dget d ''history'' else JArr [])) (\<lambda>h.
                 Inr \<lparr>sr_request = request, sr_question = question, sr_history = history_messages h,
                   sr_side_chat = side_chat, sr_after = after\<rparr>))
           | _ \<Rightarrow> Inl (400, ''Invalid side question request ID''))))
   | _ \<Rightarrow> Inl (400, ''Invalid side question fields''))"

text \<open>A request waits on its receipt; the last one to leave an unfinished task cancels it.\<close>

definition join_receipt :: "nat \<Rightarrow> side_state \<Rightarrow> side_state" where
  "join_receipt i s = set_receipt i ((receipt_at s i)\<lparr>rq_waiters := rq_waiters (receipt_at s i) + 1\<rparr>) s"

definition leave_receipt :: "rat \<Rightarrow> receipt_key \<Rightarrow> nat \<Rightarrow> side_state \<Rightarrow> side_state" where
  "leave_receipt now key i s =
    (let s = set_receipt i ((receipt_at s i)\<lparr>rq_waiters := rq_waiters (receipt_at s i) - 1\<rparr>) s; r = receipt_at s i
     in if rq_waiters r = 0 \<and> \<not> task_done r then fst (cancel now key s) else s)"

text \<open>What the \<open>POST\<close> answers once the task is done.\<close>

definition post_outcome :: "side_state \<Rightarrow> nat \<Rightarrow> failure + json" where
  "post_outcome s i = (let r = receipt_at s i in
     case stage_of s i of
       Some (Finished outcome) \<Rightarrow>
         if rq_cancelled r \<or> outcome = Inl Cancelled then Inl (Side_failure (409, ''Side question was cancelled'')) else outcome
     | _ \<Rightarrow> Inl Other_failure)"

end
