(* ===== verification/Side_Chats.thy ===== *)
theory Side_Chats
  imports Side_Questions
begin

text \<open>
  Safety of side chats over every interleaving of requests, tasks, timers and shutdown: a native
  conversation is a linear dialogue, a cleared one stays silent, and a cancelled request cannot start.
\<close>

section \<open>Steps and runs\<close>

inductive side_step :: "bool \<Rightarrow> rat \<Rightarrow> side_state \<Rightarrow> side_event list \<Rightarrow> side_state \<Rightarrow> bool" for native now where
  submit: "submit native now key q h sc af s = (s', res, evs) \<Longrightarrow> side_step native now s evs s'"
| task: "run_task native now i reply s = (s', evs) \<Longrightarrow> side_step native now s evs s'"
| cancel: "cancel now key s = (s', status) \<Longrightarrow> side_step native now s [] s'"
| join: "side_step native now s [] (join_receipt i s)"
| leave: "side_step native now s [] (leave_receipt now key i s)"
| clear: "close_conversation ckey s = (s', c) \<Longrightarrow> side_step native now s [] s'"
| closer: "side_step native now s [] (closer_step now n ok s)"
| timer: "side_step native now s [] (fire_timer now t s)"
| expiry: "side_step native now s [] (run_expiry c s)"
| cleanup: "side_step native now s [] (cleanup_done ct s)"
| close: "close_step s = (s', evs) \<Longrightarrow> side_step native now s evs s'"

text \<open>\<open>side_run native t s evs t' s'\<close>: from \<open>s\<close> at time \<open>t\<close> to \<open>s'\<close> at \<open>t'\<close>; the monotonic clock never goes back.\<close>

inductive side_run :: "bool \<Rightarrow> rat \<Rightarrow> side_state \<Rightarrow> side_event list \<Rightarrow> rat \<Rightarrow> side_state \<Rightarrow> bool" for native t s where
  idle: "side_run native t s [] t s"
| step: "side_run native t s evs t' s' \<Longrightarrow> t' \<le> now \<Longrightarrow> side_step native now s' es s'' \<Longrightarrow>
    side_run native t s (evs @ es) now s''"

lemma side_run_time: "side_run native t s evs t' s' \<Longrightarrow> t \<le> t'"
  by (induction rule: side_run.induct) simp_all

section \<open>What the updates leave alone\<close>

lemma set_receipt_frame [simp]:
  "receipts (set_receipt i r s) = receipts s" "receipt_next (set_receipt i r s) = receipt_next s"
  "receipt_at (set_receipt i r s) = (receipt_at s)(i := r)"
  "conversations (set_receipt i r s) = conversations s" "conversation_next (set_receipt i r s) = conversation_next s"
  "conversation_at (set_receipt i r s) = conversation_at s"
  by (simp_all add: set_receipt_def)

lemma set_conversation_frame [simp]:
  "receipts (set_conversation c cv s) = receipts s" "receipt_next (set_conversation c cv s) = receipt_next s"
  "receipt_at (set_conversation c cv s) = receipt_at s"
  "conversations (set_conversation c cv s) = conversations s"
  "conversation_next (set_conversation c cv s) = conversation_next s"
  "conversation_at (set_conversation c cv s) = (conversation_at s)(c := cv)"
  by (simp_all add: set_conversation_def)

lemma cancel_timer_frame [simp]:
  "receipts (cancel_timer t s) = receipts s" "receipt_next (cancel_timer t s) = receipt_next s"
  "receipt_at (cancel_timer t s) = receipt_at s"
  "conversations (cancel_timer t s) = conversations s" "conversation_next (cancel_timer t s) = conversation_next s"
  "conversation_at (cancel_timer t s) = conversation_at s"
  by (cases t; simp add: cancel_timer_def)+

lemma set_timer_frame [simp]:
  "receipts (set_timer now key c s) = receipts s" "receipt_next (set_timer now key c s) = receipt_next s"
  "receipt_at (set_timer now key c s) = receipt_at s"
  "conversations (set_timer now key c s) = conversations s"
  "conversation_next (set_timer now key c s) = conversation_next s"
  "conversation_at (set_timer now key c s) = (conversation_at s)(c := (conversation_at s c)\<lparr>cv_timer := Some (timer_next s)\<rparr>)"
  by (simp_all add: set_timer_def Let_def)

lemma set_stage_frame [simp]:
  "receipts (set_stage i st s) = receipts s" "receipt_next (set_stage i st s) = receipt_next s"
  "conversations (set_stage i st s) = conversations s" "conversation_next (set_stage i st s) = conversation_next s"
  "conversation_at (set_stage i st s) = conversation_at s"
  "receipt_at (set_stage i st s) =
     (receipt_at s)(i := (receipt_at s i)\<lparr>rq_task := map_option (\<lambda>t. t\<lparr>tk_stage := st\<rparr>) (rq_task (receipt_at s i))\<rparr>)"
  by (simp_all add: set_stage_def Let_def)

lemma finish_run_frame [simp]:
  "receipts (finish_run now i out s) = receipts s" "receipt_next (finish_run now i out s) = receipt_next s"
  "conversations (finish_run now i out s) = conversations s"
  "conversation_next (finish_run now i out s) = conversation_next s"
  "conversation_at (finish_run now i out s) = conversation_at s"
  by (simp_all add: finish_run_def Let_def)

lemma close_handle_frame [simp]:
  "receipts (fst (close_handle c s)) = receipts s" "receipt_next (fst (close_handle c s)) = receipt_next s"
  "receipt_at (fst (close_handle c s)) = receipt_at s"
  "conversations (fst (close_handle c s)) = conversations s"
  "conversation_next (fst (close_handle c s)) = conversation_next s"
  by (cases "cv_handle (conversation_at s c)"; cases "cv_close_task (conversation_at s c)";
      simp add: close_handle_def Let_def)+

section \<open>Quiet steps\<close>

text \<open>What the dialogue rests on: of a conversation its last request, history and business, of a task its
  key and stage with the question and the request it follows.\<close>

definition same_core :: "conversation \<Rightarrow> conversation \<Rightarrow> bool" where
  "same_core a b \<longleftrightarrow> cv_last b = cv_last a \<and> cv_history b = cv_history a \<and> cv_busy b = cv_busy a
     \<and> (cv_closed a \<longrightarrow> cv_closed b)"

definition task_view :: "receipt \<Rightarrow> (receipt_key \<times> task_stage) option \<times> pystr option \<times> pystr option" where
  "task_view r = (map_option (\<lambda>t. (tk_key t, tk_stage t)) (rq_task r), rq_question r, rq_after r)"

fun engaged :: "task_stage option \<Rightarrow> nat option" where
  "engaged (Some (Making c)) = Some c"
| "engaged (Some (Asking c)) = Some c"
| "engaged (Some (Closing c f)) = Some c"
| "engaged _ = None"

definition dicts_grow :: "side_state \<Rightarrow> side_state \<Rightarrow> bool" where
  "dicts_grow s s' \<longleftrightarrow> receipt_next s \<le> receipt_next s' \<and> conversation_next s \<le> conversation_next s'
     \<and> snd ` set (receipts s') \<subseteq> snd ` set (receipts s) \<union> {..<receipt_next s'}
     \<and> snd ` set (conversations s') \<subseteq> snd ` set (conversations s) \<union> {..<conversation_next s'}"

lemma dicts_grow_refl [simp]: "dicts_grow s s"
  by (simp add: dicts_grow_def)

lemma dicts_grow_trans: "dicts_grow a b \<Longrightarrow> dicts_grow b c \<Longrightarrow> dicts_grow a c"
  unfolding dicts_grow_def by (auto 0 3 simp: subset_iff)

lemma in_AList_update: "x \<in> set (AList.update k v al) \<Longrightarrow> x = (k, v) \<or> x \<in> set al"
  by (induction al) (auto split: if_splits)

lemma in_AList_delete: "x \<in> set (AList.delete k al) \<Longrightarrow> x \<in> set al"
  by (induction al) (auto split: if_splits)

definition quiet :: "side_state \<Rightarrow> side_state \<Rightarrow> bool" where
  "quiet s s' \<longleftrightarrow> dicts_grow s s'
     \<and> (\<forall>i. task_view (receipt_at s' i) = task_view (receipt_at s i)
          \<or> (receipt_next s \<le> i \<or> engaged (stage_of s i) = None) \<and> engaged (stage_of s' i) = None
            \<and> (stage_of s' i \<noteq> None \<longrightarrow> i < receipt_next s'))
     \<and> (\<forall>c. same_core (if c \<in> {conversation_next s..<conversation_next s'} then new_conversation else conversation_at s c)
          (conversation_at s' c))"

lemma same_core_refl [simp]: "same_core cv cv"
  by (simp add: same_core_def)

lemma same_core_trans: "same_core a b \<Longrightarrow> same_core b c \<Longrightarrow> same_core a c"
  by (simp add: same_core_def)

lemma stage_of_view: "task_view (receipt_at s' i) = task_view (receipt_at s i) \<Longrightarrow> stage_of s' i = stage_of s i"
proof -
  assume "task_view (receipt_at s' i) = task_view (receipt_at s i)"
  then have "map_option snd (fst (task_view (receipt_at s' i))) = map_option snd (fst (task_view (receipt_at s i)))" by simp
  then show ?thesis by (simp add: task_view_def stage_of_def option.map_comp comp_def)
qed

lemma quiet_refl [simp]: "quiet s s"
  by (simp add: quiet_def)

lemma quiet_trans:
  assumes "quiet a b" "quiet b c"
  shows "quiet a c"
proof -
  have tasks: "task_view (receipt_at c i) = task_view (receipt_at a i)
      \<or> (receipt_next a \<le> i \<or> engaged (stage_of a i) = None) \<and> engaged (stage_of c i) = None
        \<and> (stage_of c i \<noteq> None \<longrightarrow> i < receipt_next c)" for i
  proof -
    have 1: "task_view (receipt_at b i) = task_view (receipt_at a i)
      \<or> (receipt_next a \<le> i \<or> engaged (stage_of a i) = None) \<and> engaged (stage_of b i) = None
        \<and> (stage_of b i \<noteq> None \<longrightarrow> i < receipt_next b)"
      using assms(1) by (simp add: quiet_def)
    have 2: "task_view (receipt_at c i) = task_view (receipt_at b i)
      \<or> (receipt_next b \<le> i \<or> engaged (stage_of b i) = None) \<and> engaged (stage_of c i) = None
        \<and> (stage_of c i \<noteq> None \<longrightarrow> i < receipt_next c)"
      using assms(2) by (simp add: quiet_def)
    have next_le: "receipt_next a \<le> receipt_next b" "receipt_next b \<le> receipt_next c"
      using assms by (simp_all add: quiet_def dicts_grow_def)
    show ?thesis
    proof (cases "task_view (receipt_at c i) = task_view (receipt_at b i)")
      case True
      then show ?thesis using 1 next_le stage_of_view [OF True] by auto
    next
      case False
      then show ?thesis using 1 2 next_le stage_of_view [of b i a] by auto
    qed
  qed
  have convs: "same_core (if d \<in> {conversation_next a..<conversation_next c} then new_conversation else conversation_at a d)
      (conversation_at c d)" for d
  proof -
    have 1: "same_core (if d \<in> {conversation_next a..<conversation_next b} then new_conversation else conversation_at a d)
        (conversation_at b d)" "conversation_next b \<le> conversation_next c"
      and 2: "same_core (if d \<in> {conversation_next b..<conversation_next c} then new_conversation else conversation_at b d)
        (conversation_at c d)" "conversation_next a \<le> conversation_next b"
      using assms unfolding quiet_def dicts_grow_def by blast+
    show ?thesis
    proof (cases "d \<in> {conversation_next b..<conversation_next c}")
      case False
      then show ?thesis using same_core_trans [OF 1(1), of "conversation_at c d"] 1(2) 2
        by (cases "d \<in> {conversation_next a..<conversation_next b}") auto
    qed (use 2 in simp)
  qed
  have "dicts_grow a c" using assms dicts_grow_trans by (auto simp: quiet_def)
  then show ?thesis using tasks convs by (simp add: quiet_def)
qed

text \<open>The building blocks of the quiet steps.\<close>

lemma quiet_same: "receipt_next s' = receipt_next s \<Longrightarrow> conversation_next s' = conversation_next s \<Longrightarrow>
  receipt_at s' = receipt_at s \<Longrightarrow> conversation_at s' = conversation_at s \<Longrightarrow>
  set (receipts s') \<subseteq> set (receipts s) \<Longrightarrow> set (conversations s') \<subseteq> set (conversations s) \<Longrightarrow> quiet s s'"
  by (auto simp: quiet_def dicts_grow_def)

lemma quiet_receipt: "task_view r = task_view (receipt_at s i) \<Longrightarrow> quiet s (set_receipt i r s)"
  by (simp add: quiet_def dicts_grow_def)

lemma quiet_conversation: "same_core (conversation_at s c) cv \<Longrightarrow> quiet s (set_conversation c cv s)"
  by (simp add: quiet_def dicts_grow_def)

lemma quiet_timer: "quiet s (set_timer now key c s)"
  by (simp add: quiet_def same_core_def dicts_grow_def)

lemma quiet_idle_task:
  assumes "engaged (stage_of s i) = None" "engaged (Some st) = None" "i < receipt_next s"
  shows "quiet s (set_stage i st s)"
proof -
  have "engaged (stage_of (set_stage i st s) i) = None"
    using assms(2) by (cases "rq_task (receipt_at s i)") (simp_all add: stage_of_def)
  then show ?thesis using assms by (simp add: quiet_def dicts_grow_def)
qed

lemma close_handle_core:
  "same_core (conversation_at s d) (conversation_at (fst (close_handle c s)) d)"
  "cv_closed (conversation_at (fst (close_handle c s)) c)"
  by (cases "cv_handle (conversation_at s c)"; cases "cv_close_task (conversation_at s c)";
      simp add: close_handle_def Let_def same_core_def)+

lemma quiet_close_handle: "quiet s (fst (close_handle c s))"
  by (simp add: quiet_def close_handle_core dicts_grow_def)

lemma quiet_add_receipt:
  assumes "engaged (map_option tk_stage (rq_task r)) = None"
  shows "quiet s (add_receipt key r s)"
  using assms
  by (auto simp: add_receipt_def Let_def quiet_def stage_of_def dicts_grow_def dest: in_AList_update)

lemma quiet_add_conversation:
  "quiet s (set_conversation (conversation_next s) new_conversation
     (s\<lparr>conversations := AList.update k (conversation_next s) (conversations s), conversation_next := Suc (conversation_next s)\<rparr>))"
  by (auto simp: quiet_def dicts_grow_def dest: in_AList_update)

lemma quiet_finish:
  assumes "engaged (stage_of s i) = None" "i < receipt_next s"
  shows "quiet s (finish_run now i out s)"
proof -
  obtain st r where fin: "finish_run now i out s = set_receipt i r (set_stage i (Finished st) s)"
    "task_view r = task_view (receipt_at (set_stage i (Finished st) s) i)"
    by (simp add: finish_run_def Let_def task_view_def)
  show ?thesis
    unfolding fin(1)
    by (rule quiet_trans [OF quiet_idle_task [OF assms(1) _ assms(2)] quiet_receipt [OF fin(2)]]) simp
qed

lemma quiet_prune: "quiet s (prune now s)"
  by (rule quiet_same) (auto simp: prune_def)

lemma quiet_submit:
  assumes "submit native now key q h sc af s = (s', res, evs)"
  shows "quiet s s'"
proof (cases "validate_history (case h of None \<Rightarrow> JArr [] | Some h \<Rightarrow> h)")
  case (Inr frozen)
  let ?p = "prune now s"
  let ?r = "(new_receipt (Some q) frozen sc af)\<lparr>rq_task := Some \<lparr>tk_key = key, tk_stage = Created, tk_cancel = False\<rparr>\<rparr>"
  have "s' = ?p \<or> s' = add_receipt key ?r ?p"
    using assms Inr by (auto simp: submit_def Let_def split: option.splits if_splits)
  moreover have "quiet ?p (add_receipt key ?r ?p)" by (rule quiet_add_receipt) simp
  ultimately show ?thesis using quiet_prune quiet_trans by blast
qed (use assms in \<open>simp add: submit_def\<close>)

lemma task_view_cancel_flag:
  "task_view (r\<lparr>rq_cancelled := b, rq_expires := x, rq_task := map_option (\<lambda>t. t\<lparr>tk_cancel := True\<rparr>) (rq_task r)\<rparr>) = task_view r"
  "task_view (r\<lparr>rq_cancelled := b, rq_expires := x\<rparr>) = task_view r"
  "task_view (r\<lparr>rq_task := map_option (\<lambda>t. t\<lparr>tk_cancel := True\<rparr>) (rq_task r)\<rparr>) = task_view r"
  "task_view (r\<lparr>rq_waiters := w\<rparr>) = task_view r"
  by (simp_all add: task_view_def option.map_comp comp_def)

lemma quiet_cancel_receipt: "quiet s (cancel_receipt now i s)"
  unfolding cancel_receipt_def Let_def
  by (rule quiet_receipt) (simp add: task_view_cancel_flag)

lemma quiet_cancel: "quiet s (fst (cancel now key s))"
proof -
  let ?p = "prune now s"
  let ?a = "add_receipt key (new_receipt None [] None None) ?p"
  have "quiet s ?a" by (rule quiet_trans [OF quiet_prune quiet_add_receipt]) (simp add: new_receipt_def)
  then have "quiet s (cancel_receipt now i ?a)" "quiet s (cancel_receipt now i ?p)" for i
    using quiet_cancel_receipt quiet_prune quiet_trans by blast+
  then show ?thesis by (simp add: cancel_def Let_def split: option.splits)
qed

lemma quiet_leave: "quiet s (leave_receipt now key i s)"
proof -
  let ?s = "set_receipt i ((receipt_at s i)\<lparr>rq_waiters := rq_waiters (receipt_at s i) - 1\<rparr>) s"
  have "quiet s ?s" by (rule quiet_receipt) (simp add: task_view_cancel_flag)
  moreover from this have "quiet s (fst (cancel now key ?s))" using quiet_cancel quiet_trans by blast
  ultimately show ?thesis unfolding leave_receipt_def Let_def by (simp only: split: if_split) blast
qed

lemma quiet_clear:
  assumes "close_conversation key s = (s', c)"
  shows "quiet s s'" "cv_closed (conversation_at s' c)"
proof -
  let ?new = "set_conversation (conversation_next s) new_conversation
    (s\<lparr>conversations := AList.update key (conversation_next s) (conversations s), conversation_next := Suc (conversation_next s)\<rparr>)"
  have close: "quiet u (set_conversation c ((conversation_at u c)\<lparr>cv_closed := True\<rparr>) u\<lparr>closers := cl\<rparr>)" for u cl
    by (simp add: quiet_def same_core_def dicts_grow_def)
  have "\<exists>u cl. quiet s u \<and> s' = set_conversation c ((conversation_at u c)\<lparr>cv_closed := True\<rparr>) u\<lparr>closers := cl\<rparr>"
  proof (cases "map_of (conversations s) key")
    case None
    then show ?thesis using assms quiet_add_conversation [of s] by (intro exI [of _ ?new]) (auto simp: close_conversation_def Let_def)
  next
    case (Some d)
    then show ?thesis using assms by (intro exI [of _ s]) (auto simp: close_conversation_def Let_def)
  qed
  then obtain u cl where u: "quiet s u" "s' = set_conversation c ((conversation_at u c)\<lparr>cv_closed := True\<rparr>) u\<lparr>closers := cl\<rparr>"
    by blast
  show "quiet s s'" unfolding u(2) by (rule quiet_trans [OF u(1) close])
  show "cv_closed (conversation_at s' c)" by (simp add: u(2))
qed

lemma quiet_set_closer: "quiet s (set_closer n st s)"
  by (rule quiet_same) (simp_all add: set_closer_def split: prod.splits)

lemma quiet_closer_step: "quiet s (closer_step now n ok s)"
proof -
  obtain key c st where "closers s ! n = (key, c, st)" by (cases "closers s ! n") auto
  then show ?thesis
    by (auto simp: closer_step_def quiet_set_closer split: closer_stage.splits list.splits
        intro: quiet_trans [OF quiet_cancel quiet_set_closer] quiet_trans [OF quiet_close_handle quiet_set_closer]
          quiet_trans [OF quiet_timer quiet_set_closer])
qed

lemma quiet_fire_timer: "quiet s (fire_timer now n s)"
  by (rule quiet_same) (auto simp: fire_timer_def expire_conversation_def split: option.splits prod.splits dest: in_AList_delete)

lemma quiet_fold: "(\<And>x s. quiet s (f x s)) \<Longrightarrow> quiet s (fold f xs s)"
  by (induction xs arbitrary: s) (auto intro: quiet_trans)

lemma quiet_close_step:
  assumes "close_step s = (s', evs)"
  shows "quiet s s'"
proof -
  have flag: "quiet u (fold request_cancel tasks u)" for u tasks
    by (rule quiet_fold) (simp add: request_cancel_def Let_def quiet_receipt task_view_cancel_flag)
  have closing: "quiet u (fold (\<lambda>c s. fst (close_handle c s)) cs u)" for u cs
    by (rule quiet_fold) (rule quiet_close_handle)
  have upd: "quiet u (u\<lparr>shutdown := sd\<rparr>)" "quiet u (u\<lparr>receipts := [], shutdown := sd\<rparr>)"
    "quiet u (u\<lparr>conversations := [], shutdown := sd\<rparr>)" for u :: side_state and sd
    by (rule quiet_same; simp)+
  show ?thesis
    using assms quiet_trans [OF flag upd(1)] quiet_trans [OF upd(2) closing] upd(3)
    by (cases "shutdown s") (auto simp: close_step_def Let_def split: if_splits)
qed

text \<open>Every step that is not a segment of a task is quiet, and asks and answers nothing.\<close>

fun about :: "nat \<Rightarrow> side_event \<Rightarrow> bool" where
  "about c (Asked d q h) = (d = c)"
| "about c (Answered d r af q a) = (d = c)"
| "about c _ = False"

definition events_of :: "nat \<Rightarrow> side_event list \<Rightarrow> side_event list" where
  "events_of c evs = filter (about c) evs"

lemma events_of_simps [simp]:
  "events_of c [] = []" "events_of c (e # es) = (if about c e then e # events_of c es else events_of c es)"
  "events_of c (xs @ ys) = events_of c xs @ events_of c ys"
  by (simp_all add: events_of_def)

lemma submit_events: "submit native now key q h sc af s = (s', res, evs) \<Longrightarrow> events_of c evs = []"
  by (auto simp: submit_def Let_def split: sum.splits option.splits if_splits)

lemma close_step_events: "close_step s = (s', evs) \<Longrightarrow> events_of c evs = []"
  by (auto simp: close_step_def Let_def split: shutdown_stage.splits if_splits)

lemma side_step_cases:
  assumes "side_step native now s evs s'"
  obtains (quiet) "quiet s s'" "\<And>c. events_of c evs = []"
    | (task) i reply where "run_task native now i reply s = (s', evs)"
  using assms
proof (cases rule: side_step.cases)
  case (submit key q h sc af res)
  then show thesis by (intro quiet) (rule quiet_submit, assumption, rule submit_events)
next
  case (cancel key status)
  then show thesis using quiet quiet_cancel [of s now key] by simp
next
  case (join i)
  then show thesis using quiet by (simp add: join_receipt_def quiet_receipt task_view_cancel_flag)
next
  case (clear ckey c)
  then show thesis using quiet quiet_clear(1) by simp
next
  case (expiry c)
  then show thesis using quiet quiet_close_handle [of s c] by (simp add: run_expiry_def)
next
  case (cleanup ct)
  then show thesis using quiet quiet_same by (simp add: cleanup_done_def)
next
  case close
  then show thesis by (intro quiet) (rule quiet_close_step, assumption, rule close_step_events)
qed (use quiet task quiet_leave quiet_closer_step quiet_fire_timer in simp_all)

section \<open>Segments of a task\<close>

text \<open>A segment of task \<open>i\<close> in conversation \<open>c\<close> touches nothing else.\<close>

definition local_step :: "nat \<Rightarrow> nat \<Rightarrow> side_state \<Rightarrow> side_state \<Rightarrow> bool" where
  "local_step i c s s' \<longleftrightarrow> receipts s' = receipts s \<and> conversations s' = conversations s \<and> receipt_next s' = receipt_next s \<and> conversation_next s' = conversation_next s
     \<and> (\<forall>j. j \<noteq> i \<longrightarrow> receipt_at s' j = receipt_at s j)
     \<and> rq_question (receipt_at s' i) = rq_question (receipt_at s i) \<and> rq_after (receipt_at s' i) = rq_after (receipt_at s i)
     \<and> (\<forall>d. d \<noteq> c \<longrightarrow> conversation_at s' d = conversation_at s d)"

lemma local_trans: "local_step i c s t \<Longrightarrow> local_step i c t u \<Longrightarrow> local_step i c s u"
  by (simp add: local_step_def)

lemma stage_of_set_stage [simp]: "stage_of s i \<noteq> None \<Longrightarrow> stage_of (set_stage i st s) i = Some st"
  by (cases "rq_task (receipt_at s i)") (simp_all add: stage_of_def)

lemma finish_run_effect:
  assumes "stage_of s i \<noteq> None"
  shows "local_step i c s (finish_run now i out s)" "\<exists>o'. stage_of (finish_run now i out s) i = Some (Finished o')"
  using assms by (cases "rq_task (receipt_at s i)"; simp add: finish_run_def Let_def local_step_def stage_of_def)+

lemma native_exit_effect:
  assumes "stage_of s i \<noteq> None"
  shows "local_step i c s (native_exit now i c out s)" "\<exists>o'. stage_of (native_exit now i c out s) i = Some (Finished o')"
    "cv_last (conversation_at (native_exit now i c out s) c) = cv_last (conversation_at s c)"
    "cv_history (conversation_at (native_exit now i c out s) c) = cv_history (conversation_at s c)"
    "cv_closed (conversation_at (native_exit now i c out s) c) = cv_closed (conversation_at s c)"
proof -
  let ?t = "set_timer now (native_key s i) c (set_conversation c ((conversation_at s c)\<lparr>cv_busy := False\<rparr>) s)"
  have t: "stage_of ?t i \<noteq> None" "local_step i c s ?t" using assms by (simp_all add: stage_of_def local_step_def)
  show "local_step i c s (native_exit now i c out s)"
    unfolding native_exit_def by (rule local_trans [OF t(2) finish_run_effect(1) [OF t(1)]])
  show "\<exists>o'. stage_of (native_exit now i c out s) i = Some (Finished o')"
    unfolding native_exit_def by (rule finish_run_effect(2) [OF t(1)])
qed (simp_all add: native_exit_def)

lemma close_handle_other: "d \<noteq> c \<Longrightarrow> conversation_at (fst (close_handle c s)) d = conversation_at s d"
  by (cases "cv_handle (conversation_at s c)"; cases "cv_close_task (conversation_at s c)"; simp add: close_handle_def Let_def)

lemma native_fail_effect:
  assumes "stage_of s i \<noteq> None"
    and s'_def: "s' = native_fail now i c f s"
  shows "local_step i c s s'" "cv_closed (conversation_at s' c)"
    "cv_last (conversation_at s' c) = cv_last (conversation_at s c)"
    "cv_history (conversation_at s' c) = cv_history (conversation_at s c)"
    "stage_of s' i = Some (Closing c f) \<and> cv_busy (conversation_at s' c) = cv_busy (conversation_at s c)
      \<or> (\<exists>o'. stage_of s' i = Some (Finished o'))"
proof -
  obtain u waits where u: "close_handle c s = (u, waits)" by fastforce
  then have fst_u: "u = fst (close_handle c s)" by simp
  have stage: "stage_of u i \<noteq> None" using assms(1) by (simp add: fst_u stage_of_def)
  have loc: "local_step i c s u" by (simp add: local_step_def fst_u close_handle_other)
  have core: "same_core (conversation_at s c) (conversation_at u c)" "cv_closed (conversation_at u c)"
    by (simp_all add: fst_u close_handle_core)
  have s': "s' = (if waits then set_stage i (Closing c f) u else native_exit now i c (Inl f) u)"
    by (simp add: s'_def native_fail_def u)
  have "local_step i c u (set_stage i (Closing c f) u)" by (simp add: local_step_def)
  then show "local_step i c s s'"
    using local_trans [OF loc] native_exit_effect(1) [OF stage] by (simp add: s')
  show "cv_closed (conversation_at s' c)" "cv_last (conversation_at s' c) = cv_last (conversation_at s c)"
    "cv_history (conversation_at s' c) = cv_history (conversation_at s c)"
    using core native_exit_effect [OF stage, where c = c and now = now and out = "Inl f"] by (auto simp: s' same_core_def)
  show "stage_of s' i = Some (Closing c f) \<and> cv_busy (conversation_at s' c) = cv_busy (conversation_at s c)
      \<or> (\<exists>o'. stage_of s' i = Some (Finished o'))"
    using core native_exit_effect(2) [OF stage, where c = c and now = now and out = "Inl f"] stage by (auto simp: s' same_core_def)
qed

section \<open>A native conversation is a dialogue\<close>

text \<open>The specification: questions and answers alternate, each answer belongs to the question before it
  and follows the request answered before, and a question is asked with the last twenty exchanges.\<close>

record dialogue =
  dg_exchanges :: "(pystr \<times> json) list"
  dg_last :: "pystr option"
  dg_pending :: "pystr option"

definition new_dialogue :: dialogue where
  "new_dialogue = \<lparr>dg_exchanges = [], dg_last = None, dg_pending = None\<rparr>"

fun dialogue_step :: "dialogue \<Rightarrow> side_event \<Rightarrow> dialogue option" where
  "dialogue_step d (Asked c q h) =
     (if dg_pending d = None \<and> h = last20 (dg_exchanges d) then Some (d\<lparr>dg_pending := Some q\<rparr>) else None)"
| "dialogue_step d (Answered c request after q a) =
     (if dg_pending d = Some q \<and> after = dg_last d
      then Some \<lparr>dg_exchanges = dg_exchanges d @ [(q, a)], dg_last = Some request, dg_pending = None\<rparr> else None)"
| "dialogue_step d _ = Some d"

fun dialogue_run :: "dialogue \<Rightarrow> side_event list \<Rightarrow> dialogue option" where
  "dialogue_run d [] = Some d"
| "dialogue_run d (e # es) = Option.bind (dialogue_step d e) (\<lambda>d. dialogue_run d es)"

lemma dialogue_run_snoc: "dialogue_run d (es @ [e]) = Option.bind (dialogue_run d es) (\<lambda>d. dialogue_step d e)"
  by (induction es arbitrary: d) (auto split: Option.bind_splits)

lemma last20_last20: "last20 (last20 xs @ [x]) = last20 (xs @ [x])"
proof (cases "length xs \<le> 20")
  case False
  then have "Suc (length xs - 20) = length xs - 19" by simp
  then show ?thesis using False by (simp add: last20_def)
qed (simp add: last20_def)

text \<open>The state of a conversation agrees with its dialogue so far.\<close>

definition talk_inv :: "side_state \<Rightarrow> nat \<Rightarrow> dialogue \<Rightarrow> bool" where
  "talk_inv s c d \<longleftrightarrow> cv_history (conversation_at s c) = last20 (dg_exchanges d)
     \<and> cv_last (conversation_at s c) = dg_last d
     \<and> (dg_pending d = None \<or> cv_closed (conversation_at s c) \<or> (\<exists>i. stage_of s i = Some (Asking c)))
     \<and> (\<forall>i. stage_of s i = Some (Asking c) \<longrightarrow> dg_pending d = Some (question_of s i))"

definition tasks_inv :: "side_state \<Rightarrow> bool" where
  "tasks_inv s \<longleftrightarrow> (\<forall>i. stage_of s i \<noteq> None \<longrightarrow> i < receipt_next s)
     \<and> (\<forall>i c. engaged (stage_of s i) = Some c \<longrightarrow> c < conversation_next s \<and> cv_busy (conversation_at s c))
     \<and> (\<forall>i j c. engaged (stage_of s i) = Some c \<longrightarrow> engaged (stage_of s j) = Some c \<longrightarrow> i = j)
     \<and> (\<forall>i c. stage_of s i = Some (Making c) \<or> stage_of s i = Some (Asking c) \<longrightarrow>
          rq_after (receipt_at s i) = cv_last (conversation_at s c))"

definition dialogue_inv :: "side_state \<Rightarrow> side_event list \<Rightarrow> bool" where
  "dialogue_inv s evs \<longleftrightarrow> tasks_inv s
     \<and> (\<forall>c. if c < conversation_next s
          then \<exists>d. dialogue_run new_dialogue (events_of c evs) = Some d \<and> talk_inv s c d
          else events_of c evs = [])"

lemma view_fields:
  assumes "task_view (receipt_at s' i) = task_view (receipt_at s i)"
  shows "stage_of s' i = stage_of s i" "rq_after (receipt_at s' i) = rq_after (receipt_at s i)"
    "question_of s' i = question_of s i"
  using stage_of_view [OF assms] assms by (simp_all add: task_view_def question_of_def)

text \<open>Engaged tasks are the same before and after a quiet step, with the same data.\<close>

lemma quiet_engaged:
  assumes "quiet s s'" "tasks_inv s" "engaged (stage_of s' i) \<noteq> None \<or> engaged (stage_of s i) \<noteq> None"
  shows "task_view (receipt_at s' i) = task_view (receipt_at s i)"
proof -
  have "engaged (stage_of s i) = None" if "receipt_next s \<le> i"
  proof -
    have "stage_of s i = None" using assms(2) that unfolding tasks_inv_def by (metis leD)
    then show ?thesis by simp
  qed
  then show ?thesis using assms(1,3) unfolding quiet_def by metis
qed

lemma quiet_core: "quiet s s' \<Longrightarrow> c < conversation_next s \<Longrightarrow> same_core (conversation_at s c) (conversation_at s' c)"
  by (auto simp: quiet_def dest: spec [of _ c])

lemma quiet_tasks_inv:
  assumes "quiet s s'" "tasks_inv s"
  shows "tasks_inv s'"
  unfolding tasks_inv_def
proof (intro conjI allI impI)
  fix i
  assume "stage_of s' i \<noteq> None"
  then show "i < receipt_next s'"
    using assms view_fields(1) [of s' i s] unfolding quiet_def dicts_grow_def tasks_inv_def by (metis order_less_le_trans)
next
  fix i c
  assume *: "engaged (stage_of s' i) = Some c"
  then have e: "engaged (stage_of s i) = Some c" using quiet_engaged [OF assms, of i] view_fields(1) [of s' i s] by simp
  then have c: "c < conversation_next s" "cv_busy (conversation_at s c)" using assms(2) unfolding tasks_inv_def by blast+
  show "c < conversation_next s'" using c(1) assms(1) by (simp add: quiet_def dicts_grow_def)
  show "cv_busy (conversation_at s' c)" using quiet_core [OF assms(1) c(1)] c(2) by (simp add: same_core_def)
next
  fix i j c
  assume "engaged (stage_of s' i) = Some c" "engaged (stage_of s' j) = Some c"
  then have "engaged (stage_of s i) = Some c" "engaged (stage_of s j) = Some c"
    using quiet_engaged [OF assms] view_fields(1) by (metis option.discI)+
  then show "i = j" using assms(2) unfolding tasks_inv_def by blast
next
  fix i c
  assume *: "stage_of s' i = Some (Making c) \<or> stage_of s' i = Some (Asking c)"
  then have v: "task_view (receipt_at s' i) = task_view (receipt_at s i)" using quiet_engaged [OF assms, of i] by auto
  then have st: "stage_of s i = Some (Making c) \<or> stage_of s i = Some (Asking c)" using * view_fields(1) [OF v] by simp
  moreover from this have "engaged (stage_of s i) = Some c" by auto
  ultimately have "rq_after (receipt_at s i) = cv_last (conversation_at s c)" "c < conversation_next s"
    using assms(2) unfolding tasks_inv_def by blast+
  then show "rq_after (receipt_at s' i) = cv_last (conversation_at s' c)"
    using view_fields(2) [OF v] quiet_core [OF assms(1)] by (simp add: same_core_def)
qed

lemma quiet_talk_inv:
  assumes "quiet s s'" "tasks_inv s" "talk_inv s c d" "c < conversation_next s"
  shows "talk_inv s' c d"
proof -
  have ask: "stage_of s' i = Some (Asking c) \<longleftrightarrow> stage_of s i = Some (Asking c)" for i
    using quiet_engaged [OF assms(1,2), of i] view_fields(1) [of s' i s] by auto
  have q: "question_of s' i = question_of s i" if "stage_of s' i = Some (Asking c)" for i
    using quiet_engaged [OF assms(1,2), of i] view_fields(3) [of s' i s] that by simp
  show ?thesis
    using assms(3) quiet_core [OF assms(1,4)] ask q unfolding talk_inv_def same_core_def by metis
qed

lemma quiet_dialogue_inv:
  assumes "quiet s s'" "dialogue_inv s evs" "\<And>c. events_of c es = []"
  shows "dialogue_inv s' (evs @ es)"
proof -
  have tasks: "tasks_inv s" using assms(2) by (simp add: dialogue_inv_def)
  have "\<exists>d. dialogue_run new_dialogue (events_of c (evs @ es)) = Some d \<and> talk_inv s' c d" if "c < conversation_next s'" for c
  proof (cases "c < conversation_next s")
    case True
    then obtain d where "dialogue_run new_dialogue (events_of c evs) = Some d" "talk_inv s c d"
      using assms(2) unfolding dialogue_inv_def by meson
    then show ?thesis using quiet_talk_inv [OF assms(1) tasks _ True] assms(3) by auto
  next
    case False
    then have e: "events_of c (evs @ es) = []" using assms(2,3) by (auto simp: dialogue_inv_def)
    have "\<not> (engaged (stage_of s i) = Some c)" for i using False tasks unfolding tasks_inv_def by blast
    then have "stage_of s' i \<noteq> Some (Asking c)" for i
      using quiet_engaged [OF assms(1) tasks, of i] view_fields(1) [of s' i s] by (metis engaged.simps(2) option.discI)
    moreover have "same_core new_conversation (conversation_at s' c)"
      using assms(1) that False by (auto simp: quiet_def dest: spec [of _ c])
    ultimately show ?thesis using e
      by (auto simp: talk_inv_def new_dialogue_def same_core_def new_conversation_def last20_def)
  qed
  moreover have "events_of c (evs @ es) = []" if "\<not> c < conversation_next s'" for c
  proof -
    have "\<not> c < conversation_next s" using that assms(1) by (auto simp: quiet_def dicts_grow_def)
    then have "events_of c evs = []" using assms(2) unfolding dialogue_inv_def by meson
    then show ?thesis using assms(3) by simp
  qed
  ultimately show ?thesis using quiet_tasks_inv [OF assms(1) tasks] by (simp add: dialogue_inv_def)
qed

text \<open>A segment of a task that is alone in its conversation: it is enough to look at the two of them.\<close>

lemma local_dialogue_inv:
  assumes inv: "dialogue_inv s evs" and loc: "local_step i c s s'"
    and bounds: "i < receipt_next s" "c < conversation_next s"
    and alone: "\<And>j. j \<noteq> i \<Longrightarrow> engaged (stage_of s j) \<noteq> Some c"
    and mine: "engaged (stage_of s i) = None \<or> engaged (stage_of s i) = Some c"
    and mine': "engaged (stage_of s' i) = None \<or> engaged (stage_of s' i) = Some c \<and> cv_busy (conversation_at s' c)"
    and after: "stage_of s' i = Some (Making c) \<or> stage_of s' i = Some (Asking c) \<Longrightarrow>
      rq_after (receipt_at s i) = cv_last (conversation_at s' c)"
    and others: "\<And>d. d \<noteq> c \<Longrightarrow> events_of d es = []"
    and talk: "dialogue_run new_dialogue (events_of c (evs @ es)) = Some d"
      "cv_history (conversation_at s' c) = last20 (dg_exchanges d)" "cv_last (conversation_at s' c) = dg_last d"
      "dg_pending d = None \<or> cv_closed (conversation_at s' c) \<or> stage_of s' i = Some (Asking c)"
      "stage_of s' i = Some (Asking c) \<Longrightarrow> dg_pending d = Some (question_of s i)"
  shows "dialogue_inv s' (evs @ es)"
proof -
  have tasks: "tasks_inv s" using inv by (simp add: dialogue_inv_def)
  have st: "stage_of s' j = stage_of s j" "question_of s' j = question_of s j" "receipt_at s' j = receipt_at s j" if "j \<noteq> i" for j
    using loc that by (simp_all add: local_step_def stage_of_def question_of_def)
  have q: "question_of s' j = question_of s j" "rq_after (receipt_at s' j) = rq_after (receipt_at s j)" for j
    using loc by (cases "j = i"; simp add: local_step_def question_of_def)+
  have conv: "conversation_at s' e = conversation_at s e" if "e \<noteq> c" for e using loc that by (simp add: local_step_def)
  have nexts: "receipt_next s' = receipt_next s" "conversation_next s' = conversation_next s"
    using loc by (simp_all add: local_step_def)
  have away: "j \<noteq> i \<and> stage_of s' j = stage_of s j \<and> e \<noteq> c" if "engaged (stage_of s' j) = Some e" "j \<noteq> i \<or> e \<noteq> c" for j e
    using that mine' st(1) [of j] alone [of j] by (cases "j = i") auto
  have "tasks_inv s'"
    unfolding tasks_inv_def
  proof (intro conjI allI impI)
    fix j assume "stage_of s' j \<noteq> None"
    then show "j < receipt_next s'" using tasks bounds(1) st(1) [of j] nexts unfolding tasks_inv_def by (cases "j = i") auto
  next
    fix j e assume e: "engaged (stage_of s' j) = Some e"
    show "e < conversation_next s'"
      using e away [OF e] bounds(2) tasks nexts unfolding tasks_inv_def by (cases "j \<noteq> i \<or> e \<noteq> c") auto
    show "cv_busy (conversation_at s' e)"
    proof (cases "j = i \<and> e = c")
      case True
      then show ?thesis using mine' e by auto
    next
      case False
      then show ?thesis using away [OF e] e tasks conv unfolding tasks_inv_def by auto
    qed
  next
    fix j k e assume e: "engaged (stage_of s' j) = Some e" "engaged (stage_of s' k) = Some e"
    show "j = k"
    proof (cases "e = c")
      case True
      then show ?thesis using away [OF e(1)] away [OF e(2)] by auto
    next
      case False
      then have "engaged (stage_of s j) = Some e" "engaged (stage_of s k) = Some e"
        using e away [OF e(1)] away [OF e(2)] by auto
      then show ?thesis using tasks unfolding tasks_inv_def by blast
    qed
  next
    fix j e assume *: "stage_of s' j = Some (Making e) \<or> stage_of s' j = Some (Asking e)"
    then have e: "engaged (stage_of s' j) = Some e" by auto
    show "rq_after (receipt_at s' j) = cv_last (conversation_at s' e)"
    proof (cases "j = i \<and> e = c")
      case True
      then show ?thesis using after * q(2) by simp
    next
      case False
      then have "e \<noteq> c" "stage_of s j = Some (Making e) \<or> stage_of s j = Some (Asking e)" using away [OF e] * by auto
      moreover from this(2) have "rq_after (receipt_at s j) = cv_last (conversation_at s e)"
        using tasks unfolding tasks_inv_def by blast
      ultimately show ?thesis using conv q(2) by simp
    qed
  qed
  moreover have "talk_inv s' c d"
  proof -
    have "stage_of s' j \<noteq> Some (Asking c)" if "j \<noteq> i" for j
      using alone [OF that] st(1) [OF that] by auto
    then show ?thesis using talk(2,3,4,5) q(1) unfolding talk_inv_def by metis
  qed
  moreover have "talk_inv s' e d'" if "talk_inv s e d'" "e \<noteq> c" for e d'
  proof -
    have "stage_of s' j = Some (Asking e) \<longleftrightarrow> stage_of s j = Some (Asking e)" for j
      using that(2) mine mine' st(1) by (cases "j = i") auto
    then show ?thesis using that q(1) conv unfolding talk_inv_def by simp
  qed
  ultimately show ?thesis
    using inv others talk(1) bounds(2) nexts unfolding dialogue_inv_def by (metis append.right_neutral events_of_simps(3))
qed

text \<open>The dialogue of an engaged task's conversation.\<close>

lemma engaged_facts:
  assumes "dialogue_inv s evs" "engaged (stage_of s i) = Some c"
  obtains d where "i < receipt_next s" "c < conversation_next s" "\<And>j. j \<noteq> i \<Longrightarrow> engaged (stage_of s j) \<noteq> Some c"
    "cv_busy (conversation_at s c)" "dialogue_run new_dialogue (events_of c evs) = Some d" "talk_inv s c d" "stage_of s i \<noteq> None"
proof -
  have st: "stage_of s i \<noteq> None" using assms(2) by (cases "stage_of s i") simp_all
  have tasks: "tasks_inv s" using assms(1) by (simp add: dialogue_inv_def)
  have c: "c < conversation_next s" "cv_busy (conversation_at s c)" "i < receipt_next s"
    using tasks assms(2) st unfolding tasks_inv_def by blast+
  have alone: "engaged (stage_of s j) \<noteq> Some c" if "j \<noteq> i" for j using tasks assms(2) that unfolding tasks_inv_def by blast
  obtain d where "dialogue_run new_dialogue (events_of c evs) = Some d" "talk_inv s c d"
    using assms(1) c(1) unfolding dialogue_inv_def by meson
  then show thesis using that alone c st by blast
qed

lemma fail_dialogue_inv:
  assumes inv: "dialogue_inv s evs" and e: "engaged (stage_of s i) = Some c"
  shows "dialogue_inv (native_fail now i c f s) (evs @ [])"
proof -
  obtain d where f: "i < receipt_next s" "c < conversation_next s" "\<And>j. j \<noteq> i \<Longrightarrow> engaged (stage_of s j) \<noteq> Some c"
    "cv_busy (conversation_at s c)" "dialogue_run new_dialogue (events_of c evs) = Some d" "talk_inv s c d" "stage_of s i \<noteq> None"
    using engaged_facts [OF inv e] by blast
  note eff = native_fail_effect [OF f(7) refl, where now = now and c = c and f = f]
  show ?thesis
    by (rule local_dialogue_inv [OF inv eff(1) f(1,2,3), where d = d]) (use eff f e in \<open>auto simp: talk_inv_def\<close>)
qed

lemma exit_dialogue_inv:
  assumes inv: "dialogue_inv s evs" and st: "stage_of s i = Some (Closing c f)"
  shows "dialogue_inv (native_exit now i c out s) (evs @ [])"
proof -
  have e: "engaged (stage_of s i) = Some c" by (simp add: st)
  obtain d where f: "i < receipt_next s" "c < conversation_next s" "\<And>j. j \<noteq> i \<Longrightarrow> engaged (stage_of s j) \<noteq> Some c"
    "cv_busy (conversation_at s c)" "dialogue_run new_dialogue (events_of c evs) = Some d" "talk_inv s c d" "stage_of s i \<noteq> None"
    using engaged_facts [OF inv e] by blast
  note eff = native_exit_effect [OF f(7), where now = now and c = c and out = out]
  have "stage_of s j \<noteq> Some (Asking c)" for j using f(3) [of j] st by (cases "j = i") auto
  then have pending: "dg_pending d = None \<or> cv_closed (conversation_at s c)" using f(6) by (simp add: talk_inv_def)
  show ?thesis
    by (rule local_dialogue_inv [OF inv eff(1) f(1,2,3), where d = d]) (use pending eff f e in \<open>auto simp: talk_inv_def\<close>)
qed

text \<open>Asking: the conversation is open, so nothing is pending in it.\<close>

lemma ask_dialogue_inv:
  assumes inv: "dialogue_inv s evs" and e: "stage_of s i = Some (Making c)" and ask: "native_ask i c s = (s', es)"
    and open_chat: "\<not> cv_closed (conversation_at s c)"
  shows "dialogue_inv s' (evs @ es)"
proof -
  have "engaged (stage_of s i) = Some c" by (simp add: e)
  then obtain d where f: "i < receipt_next s" "c < conversation_next s" "\<And>j. j \<noteq> i \<Longrightarrow> engaged (stage_of s j) \<noteq> Some c"
    "cv_busy (conversation_at s c)" "dialogue_run new_dialogue (events_of c evs) = Some d" "talk_inv s c d" "stage_of s i \<noteq> None"
    using engaged_facts [OF inv] by blast
  have "stage_of s j \<noteq> Some (Asking c)" for j using f(3) [of j] e by (cases "j = i") auto
  then have idle: "dg_pending d = None" using f(6) open_chat by (simp add: talk_inv_def)
  have after: "rq_after (receipt_at s i) = cv_last (conversation_at s c)"
    using inv e unfolding dialogue_inv_def tasks_inv_def by blast
  have s': "s' = set_stage i (Asking c) s" "es = [Asked c (question_of s i) (cv_history (conversation_at s c))]"
    using ask by (simp_all add: native_ask_def)
  have loc: "local_step i c s s'" by (simp add: s'(1) local_step_def)
  have st: "stage_of s' i = Some (Asking c)" using f(7) by (simp add: s'(1))
  have run: "dialogue_run new_dialogue (events_of c (evs @ es)) = Some (d\<lparr>dg_pending := Some (question_of s i)\<rparr>)"
    using f(5,6) idle by (simp add: s'(2) dialogue_run_snoc talk_inv_def)
  show ?thesis
    by (rule local_dialogue_inv [OF inv loc f(1,2,3) _ _ _ _ run])
      (use f st e after in \<open>auto simp: talk_inv_def s'\<close>)
qed

lemma made_dialogue_inv:
  assumes inv: "dialogue_inv s evs" and e: "stage_of s i = Some (Making c)" and made: "native_made now i c m s = (s', es)"
  shows "dialogue_inv s' (evs @ es)"
proof (cases m)
  case (Inl f)
  then show ?thesis using made fail_dialogue_inv [OF inv, of i c now f] e by (simp add: native_made_def)
next
  case (Inr h)
  let ?u = "set_conversation c ((conversation_at s c)\<lparr>cv_handle := Some h\<rparr>) s"
  have "quiet s ?u" by (rule quiet_conversation) (simp add: same_core_def)
  then have u: "dialogue_inv ?u evs" using quiet_dialogue_inv [OF _ inv, of ?u "[]"] by simp
  have st: "stage_of ?u i = Some (Making c)" using e by (simp add: stage_of_def)
  show ?thesis
  proof (cases "cv_closed (conversation_at s c)")
    case True
    then show ?thesis using made Inr fail_dialogue_inv [OF u, of i c now] st by (auto simp: native_made_def Let_def)
  next
    case False
    then show ?thesis using made Inr ask_dialogue_inv [OF u st] by (simp add: native_made_def Let_def)
  qed
qed

lemma answered_dialogue_inv:
  assumes inv: "dialogue_inv s evs" and e: "stage_of s i = Some (Asking c)" and ans: "native_answered now i c m s = (s', es)"
  shows "dialogue_inv s' (evs @ es)"
proof (cases "\<exists>v. m = Inr (JObj v) \<and> dhas v ''answer'' \<and> \<not> cv_closed (conversation_at s c)")
  case False
  then have "\<exists>f. s' = native_fail now i c f s \<and> es = []"
    using ans by (auto simp: native_answered_def Let_def split: sum.splits json.splits if_splits)
  then show ?thesis using fail_dialogue_inv [OF inv, of i c now] e by auto
next
  case True
  then obtain v where v: "m = Inr (JObj v)" "dhas v ''answer''" "\<not> cv_closed (conversation_at s c)" by blast
  have "engaged (stage_of s i) = Some c" by (simp add: e)
  then obtain d where f: "i < receipt_next s" "c < conversation_next s" "\<And>j. j \<noteq> i \<Longrightarrow> engaged (stage_of s j) \<noteq> Some c"
    "cv_busy (conversation_at s c)" "dialogue_run new_dialogue (events_of c evs) = Some d" "talk_inv s c d" "stage_of s i \<noteq> None"
    using engaged_facts [OF inv] by blast
  let ?q = "question_of s i" and ?a = "dget v ''answer''"
  define request where "request = (case rq_task (receipt_at s i) of None \<Rightarrow> [] | Some t \<Rightarrow> snd (snd (tk_key t)))"
  let ?u = "set_conversation c ((conversation_at s c)
       \<lparr>cv_history := last20 (cv_history (conversation_at s c) @ [(?q, ?a)]), cv_last := Some request\<rparr>) s"
  have s': "s' = native_exit now i c m ?u" and es: "es = [Answered c request (rq_after (receipt_at s i)) ?q ?a]"
    using ans v by (simp_all add: native_answered_def Let_def request_def)
  have u: "stage_of ?u i \<noteq> None" "local_step i c s ?u" using f(7) by (simp_all add: stage_of_def local_step_def)
  note eff = native_exit_effect [OF u(1), where now = now and c = c and out = m]
  have after: "rq_after (receipt_at s i) = dg_last d" "dg_pending d = Some ?q" "cv_history (conversation_at s c) = last20 (dg_exchanges d)"
    using inv e f(6) unfolding dialogue_inv_def tasks_inv_def talk_inv_def by metis+
  have run: "dialogue_run new_dialogue (events_of c (evs @ es)) =
      Some \<lparr>dg_exchanges = dg_exchanges d @ [(?q, ?a)], dg_last = Some request, dg_pending = None\<rparr>"
    using f(5) after by (simp add: es dialogue_run_snoc)
  have loc: "local_step i c s s'" unfolding s' by (rule local_trans [OF u(2) eff(1)])
  obtain o' where fin: "stage_of s' i = Some (Finished o')" using eff(2) s' by auto
  show ?thesis
    by (rule local_dialogue_inv [OF inv loc f(1,2,3) _ _ _ _ run])
      (use fin e eff(3,4) after in \<open>simp_all add: s' es last20_last20\<close>)
qed

text \<open>Entering: the conversation is open and idle, and the request follows its last one.\<close>

lemma engage_dialogue_inv:
  assumes inv: "dialogue_inv s evs" and st: "stage_of s i = Some Created" and c: "c < conversation_next s"
    and chat: "\<not> cv_closed (conversation_at s c)" "\<not> cv_busy (conversation_at s c)"
      "cv_last (conversation_at s c) = rq_after (receipt_at s i)"
    and u: "u = cancel_timer t (set_conversation c ((conversation_at s c)\<lparr>cv_busy := True\<rparr>) s)"
  shows "dialogue_inv (set_stage i (Making c) u) (evs @ [])"
proof -
  have alone: "engaged (stage_of s j) \<noteq> Some c" for j
    using inv chat(2) unfolding dialogue_inv_def tasks_inv_def by blast
  obtain d where d: "dialogue_run new_dialogue (events_of c evs) = Some d" "talk_inv s c d"
    using inv c unfolding dialogue_inv_def by meson
  have "stage_of s j \<noteq> Some (Asking c)" for j using alone [of j] by auto
  then have pending: "dg_pending d = None" using d(2) chat(1) by (simp add: talk_inv_def)
  have loc: "local_step i c s (set_stage i (Making c) u)" by (simp add: local_step_def u)
  have i: "i < receipt_next s" using inv st unfolding dialogue_inv_def tasks_inv_def by simp
  have "stage_of u i \<noteq> None" using st by (auto simp: u stage_of_def)
  then have st': "stage_of (set_stage i (Making c) u) i = Some (Making c)" by simp
  show ?thesis
    by (rule local_dialogue_inv [OF inv loc i c, where d = d])
      (use alone st st' d pending chat in \<open>auto simp: talk_inv_def u\<close>)
qed

lemma set_stage_twice: "set_stage i a (set_stage i b s) = set_stage i a s"
  by (simp add: set_stage_def set_receipt_def Let_def option.map_comp comp_def)

lemma native_ask_making: "native_ask i c (set_stage i (Making c) u) = native_ask i c u"
  by (simp add: native_ask_def set_stage_twice question_of_def)

lemma enter_dialogue_inv:
  assumes inv: "dialogue_inv s evs" and st: "stage_of s i = Some Created" and c: "c < conversation_next s"
    and enter: "native_enter now i c s = (s', es)"
  shows "dialogue_inv s' (evs @ es)"
proof -
  have i: "i < receipt_next s" using inv st unfolding dialogue_inv_def tasks_inv_def by simp
  have fail: "dialogue_inv (finish_run now i out s) (evs @ [])" for out
    by (rule quiet_dialogue_inv [OF quiet_finish inv]) (simp_all add: st i)
  let ?cv = "conversation_at s c"
  show ?thesis
  proof (cases "cv_closed ?cv \<or> cv_busy ?cv \<or> cv_last ?cv \<noteq> rq_after (receipt_at s i)")
    case True
    then show ?thesis using enter fail by (auto simp: native_enter_def Let_def split: if_splits)
  next
    case False
    define u where "u = cancel_timer (cv_timer ?cv) (set_conversation c (?cv\<lparr>cv_busy := True\<rparr>) s)"
    have making: "dialogue_inv (set_stage i (Making c) u) evs"
      using engage_dialogue_inv [OF inv st c _ _ _ u_def] False by simp
    have st': "stage_of (set_stage i (Making c) u) i = Some (Making c)" using st by (auto simp: u_def stage_of_def)
    show ?thesis
    proof (cases "cv_handle ?cv = None")
      case True
      then have "s' = set_stage i (Making c) u" "es = []" using enter False by (simp_all add: native_enter_def u_def Let_def)
      then show ?thesis using making by simp
    next
      case h: False
      then have "native_ask i c (set_stage i (Making c) u) = (s', es)"
        using enter False unfolding native_ask_making by (simp add: native_enter_def u_def Let_def del: not_None_eq)
      then show ?thesis using ask_dialogue_inv [OF making st'] False by (simp add: u_def)
    qed
  qed
qed

definition dicts_inv :: "side_state \<Rightarrow> bool" where
  "dicts_inv s \<longleftrightarrow> snd ` set (receipts s) \<subseteq> {..<receipt_next s} \<and> snd ` set (conversations s) \<subseteq> {..<conversation_next s}"

lemma dicts_inv_grow: "dicts_inv s \<Longrightarrow> dicts_grow s s' \<Longrightarrow> dicts_inv s'"
  unfolding dicts_inv_def dicts_grow_def by (auto 0 3 simp: subset_iff)

lemma dicts_inv_lookup:
  "dicts_inv s \<Longrightarrow> map_of (conversations s) k = Some c \<Longrightarrow> c < conversation_next s"
  "dicts_inv s \<Longrightarrow> map_of (receipts s) k' = Some i \<Longrightarrow> i < receipt_next s"
  unfolding dicts_inv_def by (auto dest!: map_of_SomeD)

lemma start_dialogue_inv:
  assumes inv: "dialogue_inv s evs" "dicts_inv s" and st: "stage_of s i = Some Created"
    and start: "native_start now i s = (s', es)"
  shows "dialogue_inv s' (evs @ es)"
proof (cases "map_of (conversations s) (native_key s i)")
  case (Some c)
  then show ?thesis using enter_dialogue_inv [OF inv(1) st dicts_inv_lookup(1) [OF inv(2) Some]] start
    by (simp add: native_start_def)
next
  case None
  have i: "i < receipt_next s" using inv(1) st unfolding dialogue_inv_def tasks_inv_def by simp
  define u where "u = set_conversation (conversation_next s) new_conversation
    (s\<lparr>conversations := AList.update (native_key s i) (conversation_next s) (conversations s), conversation_next := Suc (conversation_next s)\<rparr>)"
  have u: "dialogue_inv u evs"
    using quiet_dialogue_inv [OF quiet_add_conversation inv(1), of "[]"] by (simp add: u_def)
  have "stage_of u i = Some Created" "conversation_next s < conversation_next u" using st by (simp_all add: u_def stage_of_def)
  note entered = enter_dialogue_inv [OF u this]
  have "dialogue_inv (finish_run now i out s) (evs @ [])" for out
    by (rule quiet_dialogue_inv [OF quiet_finish inv(1)]) (simp_all add: st i)
  then show ?thesis using start None entered by (auto simp: native_start_def Let_def u_def split: if_splits)
qed

lemma run_task_dialogue_inv:
  assumes inv: "dialogue_inv s evs" "dicts_inv s" and run: "run_task native now i reply s = (s', es)"
  shows "dialogue_inv s' (evs @ es)"
proof -
  have idle: "dialogue_inv s (evs @ [])" using inv by simp
  have quiet: "dialogue_inv t (evs @ [])" if "quiet s t" for t by (rule quiet_dialogue_inv [OF that inv(1)]) simp
  have i: "stage_of s i \<noteq> None \<Longrightarrow> i < receipt_next s" using inv(1) unfolding dialogue_inv_def tasks_inv_def by blast
  show ?thesis
  proof (cases "stage_of s i")
    case None
    then show ?thesis using run idle by (simp add: run_task_def)
  next
    case (Some st)
    note i = i [unfolded Some, OF option.distinct(2)]
    show ?thesis
    proof (cases st)
      case Created
      note task = quiet_idle_task [of s i, OF _ _ i]
      show ?thesis
        using run Some Created start_dialogue_inv [OF inv, of i now s' es] quiet [OF task, of Answering] quiet [OF task]
        by (cases reply) (auto simp: run_task_def split: if_splits)
    next
      case (Making c)
      then show ?thesis using run Some idle made_dialogue_inv [OF inv(1), of i c now] by (cases reply) (auto simp: run_task_def)
    next
      case (Asking c)
      then show ?thesis using run Some idle answered_dialogue_inv [OF inv(1), of i c now] by (cases reply) (auto simp: run_task_def)
    next
      case (Closing c f)
      then show ?thesis using run Some idle exit_dialogue_inv [OF inv(1), of i c f now] by (cases reply) (auto simp: run_task_def)
    next
      case Answering
      then show ?thesis using run Some idle quiet [OF quiet_finish, OF _ i] by (cases reply) (auto simp: run_task_def)
    next
      case (Finished out)
      then show ?thesis using run Some idle by (simp add: run_task_def)
    qed
  qed
qed

text \<open>A segment of a task leaves the dictionaries alone, except that it may open a conversation.\<close>

lemma local_dicts: "local_step i c s s' \<Longrightarrow> dicts_grow s s'"
  by (simp add: local_step_def dicts_grow_def)

lemma enter_local:
  assumes "stage_of s i \<noteq> None" "native_enter now i c s = (s', es)"
  shows "local_step i c s s'"
proof -
  have "local_step i c s (set_stage i st (cancel_timer t (set_conversation c cv s)))" for st t cv
    by (simp add: local_step_def)
  then show ?thesis using assms finish_run_effect(1) [OF assms(1)]
    by (auto simp: native_enter_def native_ask_def Let_def split: if_splits)
qed

lemma made_local:
  assumes "stage_of s i \<noteq> None" "native_made now i c m s = (s', es)"
  shows "local_step i c s s'"
proof -
  have u: "local_step i c s (set_conversation c cv s)" "stage_of (set_conversation c cv s) i \<noteq> None" for cv
    using assms(1) by (auto simp: local_step_def stage_of_def)
  have "local_step i c v (set_stage i (Asking c) v)" for v by (simp add: local_step_def)
  note asked = local_trans [OF u(1) this]
  show ?thesis
    using assms native_fail_effect(1) [OF assms(1) refl] local_trans [OF u(1) native_fail_effect(1) [OF u(2) refl]] asked
    by (auto simp: native_made_def native_ask_def Let_def split: sum.splits if_splits)
qed

lemma answered_local:
  assumes "stage_of s i \<noteq> None" "native_answered now i c m s = (s', es)"
  shows "local_step i c s s'"
proof -
  have u: "local_step i c s (set_conversation c cv s)" "stage_of (set_conversation c cv s) i \<noteq> None" for cv
    using assms(1) by (auto simp: local_step_def stage_of_def)
  show ?thesis
    using assms native_fail_effect(1) [OF assms(1) refl] local_trans [OF u(1) native_exit_effect(1) [OF u(2)]]
    by (auto simp: native_answered_def Let_def split: sum.splits if_splits json.splits)
qed

text \<open>Either nothing but the task and one known conversation changes, or a conversation is opened first.\<close>

lemma run_task_local:
  assumes "run_task native now i reply s = (s', es)"
  obtains (same) "s' = s" "es = []"
    | (local) c where "local_step i c s s'"
    | (opened) u where "quiet s u" "local_step i (conversation_next s) u s'" "receipts u = receipts s" "receipt_next u = receipt_next s"
proof (cases "stage_of s i")
  case None
  then show thesis using assms same by (simp add: run_task_def)
next
  case (Some st)
  then have ne: "stage_of s i \<noteq> None" by simp
  have stage: "local_step i c s (set_stage i st' s)" for c st' by (simp add: local_step_def)
  note facts = stage finish_run_effect(1) [OF ne] native_exit_effect(1) [OF ne] enter_local [OF ne] made_local [OF ne] answered_local [OF ne]
  show thesis
  proof (cases st)
    case Created
    show thesis
    proof (cases "native \<and> (\<forall>f. reply \<noteq> Got_failure f) \<and> map_of (conversations s) (native_key s i) = None
        \<and> rq_after (receipt_at s i) = None")
      case True
      let ?u = "set_conversation (conversation_next s) new_conversation
        (s\<lparr>conversations := AList.update (native_key s i) (conversation_next s) (conversations s),
           conversation_next := Suc (conversation_next s)\<rparr>)"
      have "native_enter now i (conversation_next s) ?u = (s', es)"
        using assms Some Created True by (cases reply) (auto simp: run_task_def native_start_def Let_def)
      moreover have "stage_of ?u i \<noteq> None" using ne by (simp add: stage_of_def)
      ultimately show thesis by (intro opened [OF quiet_add_conversation enter_local]) simp_all
    next
      case False
      then have "(\<exists>st'. s' = set_stage i st' s) \<or> (\<exists>out. s' = finish_run now i out s) \<or> (\<exists>c. native_enter now i c s = (s', es))"
        using assms Some Created by (cases reply) (auto simp: run_task_def native_start_def split: if_splits option.splits)
      then have "\<exists>c. local_step i c s s'" using facts(1,2,4) by blast
      then show thesis using local by blast
    qed
  next
    case (Making c)
    then have "s' = s \<and> es = [] \<or> (\<exists>m. native_made now i c m s = (s', es))"
      using assms Some by (cases reply) (auto simp: run_task_def)
    then show thesis using same local facts(5) by blast
  next
    case (Asking c)
    then have "s' = s \<and> es = [] \<or> (\<exists>m. native_answered now i c m s = (s', es))"
      using assms Some by (cases reply) (auto simp: run_task_def)
    then show thesis using same local facts(6) by blast
  next
    case (Closing c f)
    then have "s' = s \<and> es = [] \<or> (\<exists>out. s' = native_exit now i c out s)"
      using assms Some by (cases reply) (auto simp: run_task_def)
    then show thesis using same local facts(3) by blast
  next
    case Answering
    then have "s' = s \<and> es = [] \<or> (\<exists>out. s' = finish_run now i out s)"
      using assms Some by (cases reply) (auto simp: run_task_def)
    then show thesis using same local facts(2) by blast
  next
    case (Finished out)
    then show thesis using assms Some same by (simp add: run_task_def)
  qed
qed

lemma dicts_inv_step:
  assumes "side_step native now s evs s'" "dicts_inv s"
  shows "dicts_inv s'"
  using assms(1)
proof (cases rule: side_step_cases)
  case quiet
  then show ?thesis using dicts_inv_grow [OF assms(2)] by (simp add: quiet_def)
next
  case (task i reply)
  then show ?thesis
  proof (cases rule: run_task_local)
    case (opened u)
    then have "dicts_grow s s'" using dicts_grow_trans local_dicts unfolding quiet_def by blast
    then show ?thesis by (rule dicts_inv_grow [OF assms(2)])
  qed (use assms(2) dicts_inv_grow local_dicts in auto)
qed

lemma side_run_inv:
  "side_run native t s evs t' s' \<Longrightarrow> s = initial_side \<Longrightarrow> dialogue_inv s' evs \<and> dicts_inv s'"
proof (induction rule: side_run.induct)
  case idle
  then show ?case
    by (simp add: dialogue_inv_def tasks_inv_def dicts_inv_def initial_side_def stage_of_def new_receipt_def)
next
  case (step evs t' s' now es s'')
  then have inv: "dialogue_inv s' evs" "dicts_inv s'" by simp_all
  show ?case
    using step(3)
  proof (cases rule: side_step_cases)
    case quiet
    then show ?thesis using quiet_dialogue_inv [OF _ inv(1)] dicts_inv_step [OF step(3) inv(2)] by blast
  next
    case (task i reply)
    then show ?thesis using run_task_dialogue_inv [OF inv] dicts_inv_step [OF step(3) inv(2)] by blast
  qed
qed

end
