(* ===== verification/Side_Chat_Safety.thy ===== *)
theory Side_Chat_Safety
  imports Side_Chats
begin

text \<open>
  The properties of side chats: the refinement of the dialogue specification, the silence of cleared
  conversations, and the tombstones of cancelled requests.
\<close>

section \<open>Dialogues\<close>

text \<open>C23. Whatever requests, timers, clears, cancellations, failures and shutdowns interleave, the questions
  that are put to a native conversation and the answers taken from it form one dialogue: they
  alternate, each answer belongs to the question before it and to a request that follows the one
  answered before, and every question is asked with exactly the last twenty exchanges. The stored
  history and last request are those of the dialogue.\<close>

theorem side_chat_dialogue:
  assumes "side_run native t initial_side evs t' s"
  shows "\<exists>d. dialogue_run new_dialogue (events_of c evs) = Some d
    \<and> (if c < conversation_next s
       then cv_history (conversation_at s c) = last20 (dg_exchanges d) \<and> cv_last (conversation_at s c) = dg_last d
       else events_of c evs = [])"
proof -
  have inv: "dialogue_inv s evs" using side_run_inv [OF assms refl] by simp
  show ?thesis
  proof (cases "c < conversation_next s")
    case True
    then show ?thesis using inv unfolding dialogue_inv_def talk_inv_def by meson
  next
    case False
    then have "events_of c evs = []" using inv unfolding dialogue_inv_def by meson
    then show ?thesis using False by simp
  qed
qed

section \<open>Cleared conversations\<close>

lemma enter_closed:
  assumes "native_enter now i e s = (s', es)" "cv_closed (conversation_at s c)"
  shows "cv_closed (conversation_at s' c) \<and> events_of c es = []"
  using assms by (auto simp: native_enter_def native_ask_def Let_def split: if_splits)

lemma fail_closed:
  assumes "stage_of s i \<noteq> None" "cv_closed (conversation_at s c)"
  shows "cv_closed (conversation_at (native_fail now i e f s) c)"
  using assms(2) native_fail_effect(1,2) [OF assms(1) refl, where now = now and c = e and f = f]
  by (cases "c = e") (simp_all add: local_step_def)

lemma made_closed:
  assumes "native_made now i e m s = (s', es)" "stage_of s i \<noteq> None" "cv_closed (conversation_at s c)"
  shows "cv_closed (conversation_at s' c) \<and> events_of c es = []"
proof (cases m)
  case (Inr h)
  let ?u = "set_conversation e ((conversation_at s e)\<lparr>cv_handle := Some h\<rparr>) s"
  have u: "stage_of ?u i \<noteq> None" "cv_closed (conversation_at ?u c)" using assms(2,3) by (auto simp: stage_of_def)
  show ?thesis
    using assms(1,3) Inr fail_closed [OF u] by (auto simp: native_made_def native_ask_def Let_def split: if_splits)
qed (use assms fail_closed [OF assms(2,3)] in \<open>auto simp: native_made_def\<close>)

lemma answered_closed:
  assumes "native_answered now i e m s = (s', es)" "stage_of s i \<noteq> None" "cv_closed (conversation_at s c)"
  shows "cv_closed (conversation_at s' c) \<and> events_of c es = []"
proof (cases "\<exists>f. s' = native_fail now i e f s \<and> es = []")
  case True
  then show ?thesis using fail_closed [OF assms(2,3)] by auto
next
  case False
  then show ?thesis using assms
    by (auto simp: native_answered_def native_exit_def Let_def split: sum.splits json.splits if_splits)
qed

lemma run_task_closed:
  assumes "run_task native now i reply s = (s', es)" "cv_closed (conversation_at s c)" "c < conversation_next s"
  shows "cv_closed (conversation_at s' c) \<and> events_of c es = []"
proof (cases "stage_of s i")
  case (Some st)
  then have ne: "stage_of s i \<noteq> None" by simp
  show ?thesis
  proof (cases st)
    case Created
    let ?u = "set_conversation (conversation_next s) new_conversation
      (s\<lparr>conversations := AList.update (native_key s i) (conversation_next s) (conversations s),
         conversation_next := Suc (conversation_next s)\<rparr>)"
    have "cv_closed (conversation_at ?u c)" using assms(2,3) by simp
    note enter = enter_closed [OF _ assms(2)] enter_closed [OF _ this]
    have "(conversation_at s' = conversation_at s \<and> es = []) \<or> (\<exists>e. native_enter now i e s = (s', es)) \<or> (\<exists>e. native_enter now i e ?u = (s', es))"
      using assms(1) Some Created
      by (cases reply) (auto simp: run_task_def native_start_def Let_def split: if_splits option.splits)
    then show ?thesis using enter assms(2) by fastforce
  next
    case (Making e)
    then show ?thesis using assms Some made_closed [OF _ ne assms(2)] by (cases reply) (auto simp: run_task_def)
  next
    case (Asking e)
    then show ?thesis using assms Some answered_closed [OF _ ne assms(2)] by (cases reply) (auto simp: run_task_def)
  qed (use assms Some in \<open>(cases reply; auto simp: run_task_def native_exit_def)+\<close>)
qed (use assms in \<open>simp add: run_task_def\<close>)

lemma side_step_closed:
  assumes "side_step native now s es s'" "cv_closed (conversation_at s c)" "c < conversation_next s"
  shows "cv_closed (conversation_at s' c) \<and> events_of c es = [] \<and> c < conversation_next s'"
  using assms(1)
proof (cases rule: side_step_cases)
  case quiet
  then show ?thesis using quiet_core [of s s' c] assms(2,3) by (auto simp: same_core_def quiet_def dicts_grow_def)
next
  case (task i reply)
  have "c < conversation_next s'"
    using task
  proof (cases rule: run_task_local)
    case (opened u)
    then show ?thesis using assms(3) by (simp add: local_step_def quiet_def dicts_grow_def)
  qed (use assms(3) in \<open>simp_all add: local_step_def\<close>)
  then show ?thesis using run_task_closed [OF task assms(2,3)] by simp
qed

text \<open>C25. After a clear request has been accepted for a side chat, no further question is put to its native
  conversation and no answer is taken from it, also when a question was in flight: whatever happens
  later, its events are over and it stays closed.\<close>

theorem cleared_side_chat_silent:
  assumes "side_run native t initial_side before t1 s" "close_conversation key s = (s1, c)"
    and "side_run native t1 s1 later t2 s2"
  shows "events_of c later = [] \<and> cv_closed (conversation_at s2 c)"
proof -
  have inv: "dicts_inv s" using side_run_inv [OF assms(1) refl] by simp
  have closed: "cv_closed (conversation_at s1 c)" using quiet_clear(2) [OF assms(2)] .
  have c: "c < conversation_next s1"
    using assms(2) dicts_inv_lookup(1) [OF inv, of key] by (auto simp: close_conversation_def Let_def split: option.splits)
  from assms(3) have "events_of c later = [] \<and> cv_closed (conversation_at s2 c) \<and> c < conversation_next s2"
  proof (induction rule: side_run.induct)
    case idle
    then show ?case using closed c by simp
  next
    case (step evs t' s' now es s'')
    then show ?case using side_step_closed [OF step(3)] by simp
  qed
  then show ?thesis by simp
qed

section \<open>Cancelled requests\<close>

text \<open>The receipt of a cancelled request, kept at least until \<open>e\<close>.\<close>

definition tombstone :: "receipt_key \<Rightarrow> rat \<Rightarrow> side_state \<Rightarrow> bool" where
  "tombstone k e s \<longleftrightarrow> (\<exists>i x. map_of (receipts s) k = Some i \<and> i < receipt_next s \<and> rq_cancelled (receipt_at s i)
     \<and> rq_expires (receipt_at s i) = Some x \<and> e \<le> x)"

text \<open>\<open>s'\<close> keeps every tombstone for \<open>k\<close> that does not outlive one made now.\<close>

definition keeps :: "receipt_key \<Rightarrow> rat \<Rightarrow> side_state \<Rightarrow> side_state \<Rightarrow> bool" where
  "keeps k now s s' \<longleftrightarrow> (\<forall>e. now < e \<longrightarrow> e \<le> now + RECEIPT_TTL_SECONDS \<longrightarrow> tombstone k e s \<longrightarrow> tombstone k e s')"

definition ages :: "rat \<Rightarrow> receipt \<Rightarrow> receipt \<Rightarrow> bool" where
  "ages now r r' \<longleftrightarrow> (rq_cancelled r \<longrightarrow> rq_cancelled r')
     \<and> (rq_expires r' = rq_expires r \<or> rq_expires r' = Some (now + RECEIPT_TTL_SECONDS))"

lemma ages_refl [simp]: "ages now r r"
  by (simp add: ages_def)

lemma ages_trans: "ages now a b \<Longrightarrow> ages now b c \<Longrightarrow> ages now a c"
  by (auto simp: ages_def)

lemma keeps_refl: "keeps k now s s"
  by (simp add: keeps_def)

lemma keeps_trans: "keeps k now a b \<Longrightarrow> keeps k now b c \<Longrightarrow> keeps k now a c"
  by (simp add: keeps_def)

lemma keeps_ages:
  assumes "receipts s' = receipts s" "receipt_next s \<le> receipt_next s'" "\<And>j. ages now (receipt_at s j) (receipt_at s' j)"
  shows "keeps k now s s'"
  unfolding keeps_def
proof (intro allI impI)
  fix e assume e: "now < e" "e \<le> now + RECEIPT_TTL_SECONDS" "tombstone k e s"
  then obtain i x where i: "map_of (receipts s) k = Some i" "i < receipt_next s" "rq_cancelled (receipt_at s i)"
    "rq_expires (receipt_at s i) = Some x" "e \<le> x" by (auto simp: tombstone_def)
  then show "tombstone k e s'" using assms(1,2) assms(3) [of i] e(2) by (auto simp: tombstone_def ages_def)
qed

lemma map_of_filter_keep: "map_of al k = Some v \<Longrightarrow> P (k, v) \<Longrightarrow> map_of (filter P al) k = Some v"
  by (induction al) (auto split: if_splits)

lemma keeps_prune: "keeps k now s (prune now s)"
proof -
  have "tombstone k e (prune now s)" if later: "now < e" "tombstone k e s" for e
  proof -
    obtain i x where i: "map_of (receipts s) k = Some i" "i < receipt_next s" "rq_cancelled (receipt_at s i)"
      "rq_expires (receipt_at s i) = Some x" "e \<le> x" using later(2) by (auto simp: tombstone_def)
    then have "\<not> expired now (receipt_at s i)" using later(1) by (simp add: expired_def)
    then have "map_of (receipts (prune now s)) k = Some i" unfolding prune_def using i(1) by (simp add: map_of_filter_keep)
    moreover have "receipt_at (prune now s) = receipt_at s" "receipt_next (prune now s) = receipt_next s" by (simp_all add: prune_def)
    ultimately show ?thesis using i by (auto simp: tombstone_def)
  qed
  then show ?thesis by (simp add: keeps_def)
qed

lemma keeps_add:
  assumes "map_of (receipts s) key = None"
  shows "keeps k now s (add_receipt key r s)"
  unfolding keeps_def
proof (intro allI impI)
  fix e assume "tombstone k e s"
  then obtain i x where i: "map_of (receipts s) k = Some i" "i < receipt_next s" "rq_cancelled (receipt_at s i)"
    "rq_expires (receipt_at s i) = Some x" "e \<le> x" by (auto simp: tombstone_def)
  then have "k \<noteq> key" using assms by auto
  then show "tombstone k e (add_receipt key r s)"
    using i by (auto simp: tombstone_def add_receipt_def Let_def update_conv')
qed

lemma keeps_submit:
  assumes "submit native now key q h sc af s = (s', res, es)"
  shows "keeps k now s s'"
proof (cases "validate_history (case h of None \<Rightarrow> JArr [] | Some h \<Rightarrow> h)")
  case (Inr frozen)
  then have "s' = prune now s \<or> map_of (receipts (prune now s)) key = None \<and> (\<exists>r. s' = add_receipt key r (prune now s))"
    using assms by (auto simp: submit_def Let_def split: option.splits if_splits)
  then show ?thesis using keeps_prune keeps_trans [OF keeps_prune keeps_add] by blast
qed (use assms in \<open>simp add: submit_def keeps_refl\<close>)

lemma keeps_cancel: "keeps k now s (fst (cancel now key s))"
proof -
  have aged: "keeps k now u (cancel_receipt now i u)" for u i
    by (rule keeps_ages) (simp_all add: cancel_receipt_def Let_def ages_def)
  show ?thesis
    using keeps_trans [OF keeps_prune aged] keeps_trans [OF keeps_prune keeps_trans [OF keeps_add aged]]
    by (auto simp: cancel_def Let_def split: option.splits)
qed

text \<open>The segments of a task, from a state with the same receipts.\<close>

lemma finish_run_ages:
  "receipt_at u = receipt_at s \<Longrightarrow> ages now (receipt_at s j) (receipt_at (finish_run now i out u) j)"
  by (cases "j = i") (simp_all add: finish_run_def Let_def ages_def)

lemma native_exit_ages:
  "receipt_at u = receipt_at s \<Longrightarrow> ages now (receipt_at s j) (receipt_at (native_exit now i c out u) j)"
  unfolding native_exit_def by (rule finish_run_ages) simp

lemma native_fail_ages:
  assumes "receipt_at u = receipt_at s"
  shows "ages now (receipt_at s j) (receipt_at (native_fail now i c f u) j)"
proof -
  obtain v waits where v: "close_handle c u = (v, waits)" by fastforce
  then have "receipt_at v = receipt_at s" using close_handle_frame(3) [of c u] assms by simp
  then show ?thesis using v native_exit_ages [of v s now j i c "Inl f"] by (simp add: native_fail_def ages_def)
qed

lemma set_stage_ages: "receipt_at u = receipt_at s \<Longrightarrow> ages now (receipt_at s j) (receipt_at (set_stage i st u) j)"
  by (simp add: ages_def)

lemma enter_ages:
  assumes "native_enter now i c u = (s', es)" "receipt_at u = receipt_at s"
  shows "ages now (receipt_at s j) (receipt_at s' j) \<and> Started k \<notin> set es"
proof -
  have out: "(\<exists>out. s' = finish_run now i out u) \<or> (\<exists>t cv st. s' = set_stage i st (cancel_timer t (set_conversation c cv u)))"
    "Started k \<notin> set es"
    using assms(1) by (auto simp: native_enter_def native_ask_def Let_def split: if_splits)
  have "ages now (receipt_at s j) (receipt_at (set_stage i st (cancel_timer t (set_conversation c cv u))) j)" for st t cv
    by (rule set_stage_ages) (simp add: assms(2))
  then have "ages now (receipt_at s j) (receipt_at s' j)"
    using out(1) finish_run_ages [OF assms(2)] by (elim disjE exE) simp_all
  then show ?thesis using out(2) ..
qed

lemma made_ages:
  assumes "native_made now i c m s = (s', es)"
  shows "ages now (receipt_at s j) (receipt_at s' j) \<and> Started k \<notin> set es"
proof -
  have out: "(\<exists>f. s' = native_fail now i c f s) \<or> (\<exists>cv f. s' = native_fail now i c f (set_conversation c cv s))
      \<or> (\<exists>cv st. s' = set_stage i st (set_conversation c cv s))"
    "Started k \<notin> set es"
    using assms by (auto simp: native_made_def native_ask_def Let_def split: if_splits sum.splits)
  have "ages now (receipt_at s j) (receipt_at (set_stage i st (set_conversation c cv s)) j)"
    "ages now (receipt_at s j) (receipt_at (native_fail now i c f (set_conversation c cv s)) j)" for st cv f
    by (rule set_stage_ages native_fail_ages; simp)+
  then have "ages now (receipt_at s j) (receipt_at s' j)"
    using out(1) native_fail_ages [of s s] by (elim disjE exE) simp_all
  then show ?thesis using out(2) ..
qed

lemma answered_ages:
  assumes "native_answered now i c m s = (s', es)"
  shows "ages now (receipt_at s j) (receipt_at s' j) \<and> Started k \<notin> set es"
proof -
  have out: "(\<exists>f. s' = native_fail now i c f s) \<or> (\<exists>cv out. s' = native_exit now i c out (set_conversation c cv s))"
    "Started k \<notin> set es"
    using assms by (auto simp: native_answered_def Let_def split: if_splits sum.splits json.splits)
  have "ages now (receipt_at s j) (receipt_at (native_exit now i c out (set_conversation c cv s)) j)" for out cv
    by (rule native_exit_ages) simp
  then have "ages now (receipt_at s j) (receipt_at s' j)"
    using out(1) native_fail_ages [of s s] by (elim disjE exE) simp_all
  then show ?thesis using out(2) ..
qed

lemma start_ages:
  assumes "native_start now i s = (s', es)"
  shows "ages now (receipt_at s j) (receipt_at s' j) \<and> Started k \<notin> set es"
proof -
  let ?u = "set_conversation (conversation_next s) new_conversation
    (s\<lparr>conversations := AList.update (native_key s i) (conversation_next s) (conversations s),
       conversation_next := Suc (conversation_next s)\<rparr>)"
  have "(\<exists>out. s' = finish_run now i out s \<and> es = []) \<or> (\<exists>c. native_enter now i c s = (s', es)) \<or> (\<exists>c. native_enter now i c ?u = (s', es))"
    using assms by (auto simp: native_start_def Let_def split: if_splits option.splits)
  moreover have "receipt_at ?u = receipt_at s" by simp
  ultimately show ?thesis
    using enter_ages [of now i _ s s' es s] enter_ages [of now i _ ?u s' es s] finish_run_ages [of s s now j i]
    by (elim disjE exE) simp_all
qed

lemma run_task_ages:
  assumes "run_task native now i reply s = (s', es)"
  shows "ages now (receipt_at s j) (receipt_at s' j) \<and> Started k \<notin> set es"
proof (cases "stage_of s i")
  case (Some st)
  note facts = start_ages made_ages answered_ages native_exit_ages [of s s] finish_run_ages [of s s] set_stage_ages [of s s]
  show ?thesis
  proof (cases st)
    case Created
    then have "(\<exists>st'. s' = set_stage i st' s \<and> es = []) \<or> native_start now i s = (s', es)"
      using assms Some by (cases reply) (auto simp: run_task_def split: if_splits)
    then show ?thesis using facts(1) [of now i s s' es] facts(6) [of now j i] by (elim disjE exE) simp_all
  next
    case (Making c)
    then show ?thesis using assms Some facts(2) by (cases reply) (auto simp: run_task_def)
  next
    case (Asking c)
    then show ?thesis using assms Some facts(3) by (cases reply) (auto simp: run_task_def)
  next
    case (Closing c f)
    then show ?thesis using assms Some facts(4) by (cases reply) (auto simp: run_task_def)
  next
    case Answering
    then show ?thesis using assms Some facts(5) by (cases reply) (auto simp: run_task_def)
  qed (use assms Some in \<open>auto simp: run_task_def\<close>)
qed (use assms in \<open>auto simp: run_task_def\<close>)

lemma keeps_task:
  assumes "run_task native now i reply s = (s', es)"
  shows "keeps k now s s'"
  using assms
proof (cases rule: run_task_local)
  case same
  then show ?thesis by (simp add: keeps_refl)
next
  case (local c)
  then show ?thesis using run_task_ages [OF assms] by (intro keeps_ages) (auto simp: local_step_def)
next
  case (opened u)
  then show ?thesis using run_task_ages [OF assms] by (intro keeps_ages) (auto simp: local_step_def)
qed

lemma keeps_leave: "keeps k now s (leave_receipt now key i s)"
proof -
  let ?s = "set_receipt i ((receipt_at s i)\<lparr>rq_waiters := rq_waiters (receipt_at s i) - 1\<rparr>) s"
  have "keeps k now s ?s" by (rule keeps_ages) (simp_all add: ages_def)
  then have "keeps k now s ?s" "keeps k now s (fst (cancel now key ?s))" using keeps_trans [OF _ keeps_cancel] by blast+
  then show ?thesis unfolding leave_receipt_def Let_def by (simp only: split: if_split) blast
qed

lemma keeps_same: "receipts s' = receipts s \<Longrightarrow> receipt_next s' = receipt_next s \<Longrightarrow> receipt_at s' = receipt_at s \<Longrightarrow> keeps k now s s'"
  by (rule keeps_ages) simp_all

lemma keeps_closer: "keeps k now s (closer_step now n ok s)"
proof -
  have set: "keeps k now u (set_closer m st u)" for u m st
    by (rule keeps_same) (simp_all add: set_closer_def split: prod.splits)
  have "keeps k now s (fst (close_handle c s))" "keeps k now s (set_timer now key c s)" for c key
    by (rule keeps_same; simp)+
  then show ?thesis
    using set keeps_trans [OF _ set] keeps_trans [OF keeps_cancel set] keeps_refl
    by (auto simp: closer_step_def split: prod.splits closer_stage.splits list.splits)
qed

lemma keeps_close_step:
  assumes "close_step s = (s', es)" "Receipts_cleared \<notin> set es"
  shows "keeps k now s s'"
proof -
  have "receipts (fold request_cancel xs u) = receipts u \<and> receipt_next (fold request_cancel xs u) = receipt_next u
      \<and> (\<forall>j. ages now (receipt_at u j) (receipt_at (fold request_cancel xs u) j))" for xs u
  proof (induction xs arbitrary: u)
    case (Cons x xs)
    have "ages now (receipt_at u j) (receipt_at (request_cancel x u) j)" for j
      by (simp add: request_cancel_def Let_def ages_def)
    then show ?case using Cons [of "request_cancel x u"] ages_trans by (simp add: request_cancel_def Let_def) blast
  qed simp
  then have "keeps k now s (fold request_cancel xs s\<lparr>shutdown := sd\<rparr>)" for xs sd by (intro keeps_ages) simp_all
  moreover have "keeps k now s (s\<lparr>conversations := [], shutdown := sd\<rparr>)" for sd by (rule keeps_same) simp_all
  ultimately show ?thesis
    using assms keeps_refl by (cases "shutdown s") (auto simp: close_step_def Let_def split: if_splits)
qed

lemma started_submit:
  assumes "submit native now key q h sc af s = (s', res, es)" "Started k \<in> set es"
  shows "key = k \<and> map_of (receipts (prune now s)) k = None"
  using assms by (auto simp: submit_def Let_def split: sum.splits option.splits if_splits)

lemma tombstone_step:
  assumes step: "side_step native now s es s'" and tomb: "tombstone k e s" and time: "now < e" "e \<le> now + RECEIPT_TTL_SECONDS"
    and up: "Receipts_cleared \<notin> set es"
  shows "tombstone k e s' \<and> Started k \<notin> set es"
proof -
  have pruned: "map_of (receipts (prune now s)) k \<noteq> None"
    using keeps_prune [of k now s] tomb time unfolding keeps_def tombstone_def by auto
  have "keeps k now s s' \<and> Started k \<notin> set es"
    using step
  proof (cases rule: side_step.cases)
    case (submit key q h sc af res)
    then show ?thesis using keeps_submit started_submit [of native now key q h sc af s s' res es k] pruned by blast
  next
    case (cancel key status)
    then show ?thesis using keeps_cancel [of k now s key] by simp
  next
    case (join i)
    then show ?thesis by (simp add: join_receipt_def keeps_ages ages_def)
  next
    case (clear ckey c)
    then show ?thesis by (auto simp: close_conversation_def Let_def intro!: keeps_same)
  next
    case (timer t)
    then show ?thesis
      by (auto simp: fire_timer_def expire_conversation_def split: option.splits intro!: keeps_same)
  next
    case (expiry c)
    then show ?thesis by (auto simp: run_expiry_def intro!: keeps_same)
  next
    case (cleanup ct)
    then show ?thesis by (auto simp: cleanup_done_def intro!: keeps_same)
  next
    case close
    then have "Started k \<notin> set es" by (auto simp: close_step_def Let_def split: shutdown_stage.splits if_splits)
    then show ?thesis using keeps_close_step [OF close up] by simp
  qed (use keeps_task run_task_ages keeps_leave keeps_closer in auto)
  then show ?thesis using tomb time unfolding keeps_def by blast
qed

text \<open>C24. A cancelled request cannot start afterwards: for ten minutes after a cancellation has been recorded,
  and as long as the runtime is not shut down, no delayed submission of the same request starts a
  task. It is refused, also when the cancellation came first and when the task had already ended.\<close>

theorem cancelled_request_refused:
  assumes "side_run native t initial_side before t1 s" "t1 \<le> now" "cancel now k s = (s1, status)"
    and "side_run native now s1 later t2 s2" "t2 < now + RECEIPT_TTL_SECONDS" "Receipts_cleared \<notin> set later"
  shows "Started k \<notin> set later \<and> fst (snd (submit native t2 k q h sc af s2)) =
    (case validate_history (case h of None \<Rightarrow> JArr [] | Some h \<Rightarrow> h) of Inl e \<Rightarrow> Inl e
     | Inr _ \<Rightarrow> Inl (409, ''Side question was cancelled; submit with a new request ID''))"
proof -
  let ?e = "now + RECEIPT_TTL_SECONDS"
  have "dicts_inv (prune now s)"
    using side_run_inv [OF assms(1) refl] dicts_inv_grow quiet_prune [of s now] unfolding quiet_def by blast
  then have "tombstone k ?e s1"
    using assms(3) dicts_inv_lookup(2) [of "prune now s" k]
    by (auto simp: cancel_def Let_def tombstone_def cancel_receipt_def add_receipt_def update_conv' split: option.splits)
  with assms(4-6) have run: "tombstone k ?e s2 \<and> Started k \<notin> set later"
  proof (induction rule: side_run.induct)
    case (step evs t' s' now' es s'')
    have "now \<le> now'" using side_run_time [OF step(1)] step(2) by simp
    moreover have "t' < ?e" using step(2) step.prems(1) by (rule order_le_less_trans)
    ultimately show ?case using tombstone_step [OF step(3), of k ?e] step.IH step.prems by auto
  qed simp
  then have "tombstone k ?e (prune t2 s2)"
    using keeps_prune [of k t2 s2] assms(5) side_run_time [OF assms(4)] unfolding keeps_def by simp
  then show ?thesis using run by (auto simp: submit_def Let_def tombstone_def split: sum.splits)
qed

section \<open>One side chat\<close>

text \<open>A first question of a side chat, asked of a new handle; then its answer, or a clear while it is in
  flight.\<close>

abbreviation why_key :: receipt_key where
  "why_key \<equiv> (lit ''owner'', lit ''session'', lit ''r1'')"

definition why_submitted :: side_state where
  "why_submitted = fst (submit True 0 why_key (lit ''Why?'') None (Some (lit ''chat'')) None initial_side)"

definition why_started :: side_state where
  "why_started = fst (run_task True 0 0 Got_closed why_submitted)"

definition why_asked :: side_state where
  "why_asked = fst (run_task True 0 0 (Got_handle 7) why_started)"

abbreviation because :: json where
  "because \<equiv> JObj [(lit ''answer'', js ''Because.'')]"

definition why_answered :: side_state where
  "why_answered = fst (run_task True 0 0 (Got_result because) why_asked)"

definition why_cleared :: side_state where
  "why_cleared = fst (close_conversation (lit ''owner'', lit ''session'', Some (lit ''chat'')) why_asked)"

lemmas why_eval = initial_side_def submit_def validate_history_def MAX_HISTORY_ITEMS_def prune_def add_receipt_def new_receipt_def
  run_task_def stage_of_def native_start_def native_enter_def native_key_def chat_key_of_def new_conversation_def set_stage_def
  set_receipt_def set_conversation_def cancel_timer_def native_made_def native_ask_def question_of_def Let_def

lemma why_submit: "submit True 0 why_key (lit ''Why?'') None (Some (lit ''chat'')) None initial_side = (why_submitted, Inr 0, [Started why_key])"
  by (simp add: why_submitted_def why_eval)

lemma why_submitted_eq: "why_submitted = initial_side\<lparr>receipts := [(why_key, 0)], receipt_next := 1,
    receipt_at := (receipt_at initial_side)(0 := (new_receipt (Some (lit ''Why?'')) [] (Some (lit ''chat'')) None)
      \<lparr>rq_task := Some \<lparr>tk_key = why_key, tk_stage = Created, tk_cancel = False\<rparr>\<rparr>)\<rparr>"
  by (simp add: why_submitted_def why_eval)

lemma why_start: "run_task True 0 0 Got_closed why_submitted = (why_started, [])"
  by (simp add: why_started_def why_submitted_eq why_eval)

lemma why_started_eq:
  "stage_of why_started 0 = Some (Making 0)" "question_of why_started 0 = lit ''Why?''"
  "conversation_at why_started 0 = new_conversation\<lparr>cv_busy := True\<rparr>" "rq_after (receipt_at why_started 0) = None"
  "conversations why_started = [((lit ''owner'', lit ''session'', Some (lit ''chat'')), 0)]"
  by (simp_all add: why_started_def why_submitted_eq why_eval)

lemma why_ask: "run_task True 0 0 (Got_handle 7) why_started = (why_asked, [Asked 0 (lit ''Why?'') []])"
  unfolding why_asked_def run_task_def why_started_eq
  by (simp add: native_made_def native_ask_def Let_def why_started_eq question_of_def new_conversation_def)
    (use why_started_eq(2) in \<open>simp add: question_of_def\<close>)

lemma why_asked_eq:
  "stage_of why_asked 0 = Some (Asking 0)" "question_of why_asked 0 = lit ''Why?''" "rq_after (receipt_at why_asked 0) = None"
  "\<not> cv_closed (conversation_at why_asked 0)"
  "conversations why_asked = [((lit ''owner'', lit ''session'', Some (lit ''chat'')), 0)]"
proof -
  have eq: "why_asked = set_stage 0 (Asking 0) (set_conversation 0 (new_conversation\<lparr>cv_busy := True, cv_handle := Some 7\<rparr>) why_started)"
    unfolding why_asked_def run_task_def why_started_eq
    by (simp add: native_made_def native_ask_def Let_def why_started_eq new_conversation_def)
  show "stage_of why_asked 0 = Some (Asking 0)" using why_started_eq(1) unfolding eq by (auto simp: stage_of_def)
  show "question_of why_asked 0 = lit ''Why?''" using why_started_eq(2) unfolding eq by (simp add: question_of_def)
  show "rq_after (receipt_at why_asked 0) = None" "\<not> cv_closed (conversation_at why_asked 0)"
    "conversations why_asked = [((lit ''owner'', lit ''session'', Some (lit ''chat'')), 0)]"
    using why_started_eq unfolding eq by (simp_all add: new_conversation_def)
qed

lemma why_run: "side_run True 0 initial_side [Started why_key, Asked 0 (lit ''Why?'') []] 0 why_asked"
proof -
  have "side_run True 0 initial_side ([] @ [Started why_key]) 0 why_submitted"
    by (rule side_run.step [OF side_run.idle order_refl side_step.submit [OF why_submit]])
  from side_run.step [OF this order_refl side_step.task [OF why_start]]
  have "side_run True 0 initial_side [Started why_key] 0 why_started" by simp
  from side_run.step [OF this order_refl side_step.task [OF why_ask]] show ?thesis by simp
qed

lemma why_answer:
  "\<exists>r. run_task True 0 0 (Got_result because) why_asked = (why_answered, [Answered 0 r None (lit ''Why?'') (js ''Because.'')])"
  unfolding why_answered_def run_task_def why_asked_eq
  by (simp add: native_answered_def Let_def why_asked_eq)

theorem side_chat_dialogue_witness:
  "\<exists>r s d. side_run True 0 initial_side
     [Started why_key, Asked 0 (lit ''Why?'') [], Answered 0 r None (lit ''Why?'') (js ''Because.'')] 0 s
   \<and> dialogue_run new_dialogue [Asked 0 (lit ''Why?'') [], Answered 0 r None (lit ''Why?'') (js ''Because.'')] = Some d"
proof -
  obtain r where "run_task True 0 0 (Got_result because) why_asked = (why_answered, [Answered 0 r None (lit ''Why?'') (js ''Because.'')])"
    using why_answer ..
  from side_run.step [OF why_run order_refl side_step.task [OF this]]
  have run: "side_run True 0 initial_side
     [Started why_key, Asked 0 (lit ''Why?'') [], Answered 0 r None (lit ''Why?'') (js ''Because.'')] 0 why_answered" by simp
  have "events_of 0 [Started why_key, Asked 0 (lit ''Why?'') [], Answered 0 r None (lit ''Why?'') (js ''Because.'')] =
     [Asked 0 (lit ''Why?'') [], Answered 0 r None (lit ''Why?'') (js ''Because.'')]" by simp
  with side_chat_dialogue [OF run, where c = 0] run show ?thesis by metis
qed

theorem cleared_side_chat_silent_witness:
  "\<exists>s1 s2 es. close_conversation (lit ''owner'', lit ''session'', Some (lit ''chat'')) why_asked = (s1, 0)
    \<and> run_task True 0 0 (Got_result because) s1 = (s2, es) \<and> events_of 0 es = [] \<and> cv_closed (conversation_at s2 0)"
proof -
  have clear: "close_conversation (lit ''owner'', lit ''session'', Some (lit ''chat'')) why_asked = (why_cleared, 0)"
    using why_asked_eq(5) by (simp add: why_cleared_def close_conversation_def Let_def)
  obtain s2 es where r: "run_task True 0 0 (Got_result because) why_cleared = (s2, es)" by fastforce
  from side_run.step [OF side_run.idle order_refl side_step.task [OF r]] have "side_run True 0 why_cleared es 0 s2" by simp
  from cleared_side_chat_silent [OF why_run clear this] clear r show ?thesis by blast
qed

theorem cancelled_request_refused_witness:
  "\<exists>s1 status. cancel 0 why_key initial_side = (s1, status)
    \<and> fst (snd (submit True 0 why_key (lit ''Why?'') None (Some (lit ''chat'')) None s1)) =
      Inl (409, ''Side question was cancelled; submit with a new request ID'')"
proof -
  obtain s1 status where c: "cancel 0 why_key initial_side = (s1, status)" by fastforce
  have "(0::rat) < 0 + RECEIPT_TTL_SECONDS" "validate_history (JArr []) = Inr []"
    by (simp_all add: RECEIPT_TTL_SECONDS_def validate_history_def MAX_HISTORY_ITEMS_def)
  with cancelled_request_refused [OF side_run.idle order_refl c side_run.idle,
      where native = True and q = "lit ''Why?''" and h = None and sc = "Some (lit ''chat'')" and af = None] c
  show ?thesis by auto
qed

end
