(* ===== verification/Live_Chats.thy ===== *)
theory Live_Chats
  imports Interfaces
begin

text \<open>
  Live views of shared chats: \<open>interactive_chat_runtime.py\<close>. One entry per recently viewed chat holds its
  reader and a revision; loads read under a lock, notifications advance the revision and wake the
  viewers that wait on it. Coroutines are cut where they await; entries are objects that a load keeps
  after they have left the cache, so they live in a store, by address.
\<close>

section \<open>State\<close>

text \<open>\<open>ident n\<close> is the n-th random identity (\<open>secrets.token_hex(8)\<close>); a reader is named by the factory call that made it.\<close>

record live_env =
  native :: bool
  max_cached :: nat
  ident :: "nat \<Rightarrow> pystr"

record open_chat =
  oc_reader :: "nat option"
  oc_generation :: nat
  oc_identity :: nat
  oc_locked :: bool
  oc_waiters :: "nat list"
  oc_reset :: bool

datatype load_stage = Waiting_lock | Reading pystr | Loaded pystr | Load_failed

record live_state =
  chats :: "(pystr \<times> nat) list"
  chat_at :: "nat \<Rightarrow> open_chat"
  chat_next :: nat
  ident_next :: nat
  reader_next :: nat
  chat_loads :: "(pystr \<times> nat \<times> load_stage) list"
  woken :: "nat \<Rightarrow> bool"
  wait_next :: nat

definition initial_live :: live_state where
  "initial_live = \<lparr>chats = [], chat_at = \<lambda>_. \<lparr>oc_reader = None, oc_generation = 0, oc_identity = 0, oc_locked = False,
      oc_waiters = [], oc_reset = False\<rparr>, chat_next = 0, ident_next = 0, reader_next = 0, chat_loads = [],
     woken = \<lambda>_. False, wait_next = 0\<rparr>"

definition revision :: "live_env \<Rightarrow> open_chat \<Rightarrow> pystr" where
  "revision env c = ident env (oc_identity c) @ [58] @ dec_nat (oc_generation c)"

definition set_chat :: "nat \<Rightarrow> open_chat \<Rightarrow> live_state \<Rightarrow> live_state" where
  "set_chat e c s = s\<lparr>chat_at := (chat_at s)(e := c)\<rparr>"

section \<open>Notifications\<close>

definition text_kinds :: "string list" where
  "text_kinds = [''turn_started'', ''turn_finished'', ''turn_stopped'', ''turn_steered'', ''assistant_text'',
     ''history_imported'', ''history_reconciled'', ''session_deleted'', ''turn_unqueued'']"

text \<open>\<open>event.get("type", "")\<close> when it is a string that concerns the view.\<close>

definition notified_kind :: "live_env \<Rightarrow> jdict \<Rightarrow> pystr option" where
  "notified_kind env event =
    (case (if dhas event ''type'' then dget event ''type'' else JStr []) of
       JStr kind \<Rightarrow>
         if native env \<or> kind \<in> lit ` set text_kinds \<or> starts_with (lit ''turn_queue'') kind
            \<or> kind = lit ''reasoning_summary'' \<and> dget event ''phase'' = js ''commentary'' then Some kind else None
     | _ \<Rightarrow> None)"

definition notify :: "live_env \<Rightarrow> pystr \<Rightarrow> jdict \<Rightarrow> live_state \<Rightarrow> live_state" where
  "notify env session event s = (case (map_of (chats s) session, notified_kind env event) of
     (Some e, Some kind) \<Rightarrow>
       let c = chat_at s e; rebuilt = (kind \<in> {lit ''history_reconciled'', lit ''history_imported''});
           c = (if rebuilt then c\<lparr>oc_reset := True\<rparr> else c);
           renew = (rebuilt \<and> native env);
           c = (if renew then c\<lparr>oc_identity := ident_next s\<rparr> else c);
           c = c\<lparr>oc_generation := oc_generation c + 1\<rparr>
       in set_chat e c (s\<lparr>ident_next := (if renew then Suc (ident_next s) else ident_next s),
            woken := (\<lambda>w. w \<in> set (oc_waiters c) \<or> woken s w)\<rparr>)
   | _ \<Rightarrow> s)"

section \<open>Loads\<close>

datatype live_error = Chat_unavailable | Viewers_busy | Reader_error

text \<open>The first entry that nobody waits on and no load holds.\<close>

definition evictable :: "live_state \<Rightarrow> pystr option" where
  "evictable s = map_option fst
     (find (\<lambda>(k, e). oc_waiters (chat_at s e) = [] \<and> \<not> oc_locked (chat_at s e)) (chats s))"

definition new_chat :: "live_env \<Rightarrow> pystr \<Rightarrow> live_state \<Rightarrow> live_state" where
  "new_chat env session s =
    (let e = chat_next s in
     set_chat e \<lparr>oc_reader = (if native env then None else Some (reader_next s)), oc_generation = 0, oc_identity = ident_next s,
         oc_locked = False, oc_waiters = [], oc_reset = False\<rparr>
       (s\<lparr>chats := chats s @ [(session, e)], chat_next := Suc e, ident_next := Suc (ident_next s),
         reader_next := (if native env then reader_next s else Suc (reader_next s))\<rparr>))"

text \<open>\<open>load\<close> up to its lock; \<open>made\<close> says whether the reader factory returns.\<close>

definition load_begin :: "live_env \<Rightarrow> bool \<Rightarrow> bool \<Rightarrow> pystr \<Rightarrow> live_state \<Rightarrow> live_state \<times> (live_error + nat)" where
  "load_begin env session_exists made session s =
    (if \<not> session_exists then (s, Inl Chat_unavailable)
     else case map_of (chats s) session of
       Some e \<Rightarrow> (s\<lparr>chats := AList.delete session (chats s) @ [(session, e)],
           chat_loads := chat_loads s @ [(session, e, Waiting_lock)]\<rparr>, Inr (length (chat_loads s)))
     | None \<Rightarrow>
         if max_cached env \<le> length (chats s) \<and> evictable s = None then (s, Inl Viewers_busy)
         else let s = (case evictable s of
                    Some k \<Rightarrow> if max_cached env \<le> length (chats s) then s\<lparr>chats := AList.delete k (chats s)\<rparr> else s
                  | None \<Rightarrow> s)
              in if \<not> native env \<and> \<not> made then (s, Inl Reader_error)
                 else let e = chat_next s; s = new_chat env session s
                      in (s\<lparr>chat_loads := chat_loads s @ [(session, e, Waiting_lock)]\<rparr>, Inr (length (chat_loads s))))"

definition set_load :: "nat \<Rightarrow> load_stage \<Rightarrow> live_state \<Rightarrow> live_state" where
  "set_load i st s = (case chat_loads s ! i of (k, e, _) \<Rightarrow> s\<lparr>chat_loads := (chat_loads s)[i := (k, e, st)]\<rparr>)"

text \<open>Inside the lock: a reader that must be rebuilt is rebuilt, and the revision is captured before the read.\<close>

definition load_locked :: "live_env \<Rightarrow> nat \<Rightarrow> live_state \<Rightarrow> live_state" where
  "load_locked env i s =
    (if length (chat_loads s) \<le> i then s
     else case chat_loads s ! i of (session, e, st) \<Rightarrow>
       if st \<noteq> Waiting_lock \<or> oc_locked (chat_at s e) then s
       else let c = (chat_at s e)\<lparr>oc_locked := True\<rparr>;
                fresh = (oc_reset c \<and> \<not> native env);
                c = (if oc_reset c then c\<lparr>oc_reset := False\<rparr> else c);
                c = (if fresh then c\<lparr>oc_reader := Some (reader_next s)\<rparr> else c)
            in set_load i (Reading (revision env c))
                 (set_chat e c (s\<lparr>reader_next := (if fresh then Suc (reader_next s) else reader_next s)\<rparr>)))"

datatype read_outcome = Read_done | Read_cancelled | Read_failed

text \<open>The end of the read: a failure or a deleted chat drops the entry; the lock is released on every exit.\<close>

definition load_done :: "nat \<Rightarrow> read_outcome \<Rightarrow> bool \<Rightarrow> live_state \<Rightarrow> live_state" where
  "load_done i outcome session_exists s =
    (if length (chat_loads s) \<le> i then s
     else case chat_loads s ! i of (session, e, st) \<Rightarrow>
       (case st of
          Reading rv \<Rightarrow>
            let s = set_chat e ((chat_at s e)\<lparr>oc_locked := False\<rparr>) s in
            (case outcome of
               Read_cancelled \<Rightarrow> set_load i Load_failed s
             | Read_failed \<Rightarrow> set_load i Load_failed (s\<lparr>chats := AList.delete session (chats s)\<rparr>)
             | Read_done \<Rightarrow> if session_exists then set_load i (Loaded rv) s
                 else set_load i Load_failed (s\<lparr>chats := AList.delete session (chats s)\<rparr>))
        | _ \<Rightarrow> s))"

section \<open>Waiting\<close>

text \<open>\<open>wait\<close>: an answer at once, or a registered waiter.\<close>

definition wait_begin :: "live_env \<Rightarrow> pystr \<Rightarrow> pystr \<Rightarrow> live_state \<Rightarrow> live_state \<times> (bool + nat)" where
  "wait_begin env session rv s = (case map_of (chats s) session of
     None \<Rightarrow> (s, Inl True)
   | Some e \<Rightarrow>
       if revision env (chat_at s e) \<noteq> rv then (s, Inl True)
       else let w = wait_next s; c = chat_at s e
            in (set_chat e (c\<lparr>oc_waiters := oc_waiters c @ [w]\<rparr>) (s\<lparr>wait_next := Suc w\<rparr>), Inr w))"

text \<open>The end of the wait of \<open>w\<close> on entry \<open>e\<close>: woken, timed out or cancelled, the waiter is discarded.\<close>

definition wait_end :: "nat \<Rightarrow> nat \<Rightarrow> live_state \<Rightarrow> live_state \<times> bool" where
  "wait_end e w s = (set_chat e ((chat_at s e)\<lparr>oc_waiters := removeAll w (oc_waiters (chat_at s e))\<rparr>) s, woken s w)"

datatype live_op =
    Notify pystr jdict
  | Load_begin bool bool pystr
  | Load_locked nat
  | Load_done nat read_outcome bool
  | Wait_begin pystr pystr
  | Wait_end nat nat

fun live_step :: "live_env \<Rightarrow> live_op \<Rightarrow> live_state \<Rightarrow> live_state" where
  "live_step env (Notify k ev) s = notify env k ev s"
| "live_step env (Load_begin ex made k) s = fst (load_begin env ex made k s)"
| "live_step env (Load_locked i) s = load_locked env i s"
| "live_step env (Load_done i outcome ex) s = load_done i outcome ex s"
| "live_step env (Wait_begin k rv) s = fst (wait_begin env k rv s)"
| "live_step env (Wait_end e w) s = fst (wait_end e w s)"

section \<open>Revisions never come back\<close>




definition live_inv :: "live_env \<Rightarrow> live_state \<Rightarrow> bool" where
  "live_inv env s \<longleftrightarrow> snd ` set (chats s) \<subseteq> {..<chat_next s} \<and> length (chats s) \<le> max_cached env
     \<and> (\<forall>e < chat_next s. oc_identity (chat_at s e) < ident_next s)
     \<and> inj_on (\<lambda>e. oc_identity (chat_at s e)) {..<chat_next s}
     \<and> (\<lambda>(k, e, st). e) ` set (chat_loads s) \<subseteq> {..<chat_next s}"

text \<open>Entries are only added; an entry keeps its identity unless it moves to a later generation, and a
  changed or new identity is one that had not been used. A chat is never given back an entry it has lost.\<close>

definition entry_moved :: "nat \<Rightarrow> open_chat \<Rightarrow> open_chat \<Rightarrow> bool" where
  "entry_moved used x y \<longleftrightarrow> oc_generation x \<le> oc_generation y
     \<and> (oc_generation x = oc_generation y \<longrightarrow> oc_identity y = oc_identity x)
     \<and> (oc_identity y = oc_identity x \<or> used \<le> oc_identity y)"

definition moved :: "live_state \<Rightarrow> live_state \<Rightarrow> bool" where
  "moved a b \<longleftrightarrow> chat_next a \<le> chat_next b \<and> ident_next a \<le> ident_next b
     \<and> (\<forall>e < chat_next a. entry_moved (ident_next a) (chat_at a e) (chat_at b e))
     \<and> (\<forall>e < chat_next b. chat_next a \<le> e \<longrightarrow> ident_next a \<le> oc_identity (chat_at b e))
     \<and> (\<forall>k. \<forall>e < chat_next a. map_of (chats b) k = Some e \<longrightarrow> map_of (chats a) k = Some e)"

definition live_ext :: "live_env \<Rightarrow> live_state \<Rightarrow> live_state \<Rightarrow> bool" where
  "live_ext env a b \<longleftrightarrow> (live_inv env a \<longrightarrow> live_inv env b \<and> moved a b)"

lemma entry_moved_trans: "entry_moved m x y \<Longrightarrow> entry_moved n y z \<Longrightarrow> m \<le> n \<Longrightarrow> entry_moved m x z"
  unfolding entry_moved_def by linarith

lemma moved_trans:
  assumes ab: "moved a b" and bc: "moved b c"
  shows "moved a c"
proof -
  have le: "chat_next a \<le> chat_next b" "chat_next b \<le> chat_next c" "ident_next a \<le> ident_next b" "ident_next b \<le> ident_next c"
    using ab bc by (simp_all add: moved_def)
  have "entry_moved (ident_next a) (chat_at a e) (chat_at c e)" if "e < chat_next a" for e
    using ab bc that le entry_moved_trans unfolding moved_def by (meson less_le_trans)
  moreover have "ident_next a \<le> oc_identity (chat_at c e)" if "e < chat_next c" "chat_next a \<le> e" for e
  proof (cases "e < chat_next b")
    case True
    then have "ident_next a \<le> oc_identity (chat_at b e)" "entry_moved (ident_next b) (chat_at b e) (chat_at c e)"
      using ab bc that by (simp_all add: moved_def)
    then show ?thesis using le unfolding entry_moved_def by linarith
  next
    case False
    then have "ident_next b \<le> oc_identity (chat_at c e)" using bc that by (simp add: moved_def)
    then show ?thesis using le by linarith
  qed
  moreover have "map_of (chats a) k = Some e" if "e < chat_next a" "map_of (chats c) k = Some e" for k e
    using ab bc that le unfolding moved_def by (meson less_le_trans)
  ultimately show ?thesis using le by (simp add: moved_def)
qed

lemma live_ext_trans: "live_ext env a b \<Longrightarrow> live_ext env b c \<Longrightarrow> live_ext env a c"
  unfolding live_ext_def using moved_trans by blast

text \<open>Updates that touch neither identities nor generations.\<close>

lemma soft_ext:
  assumes same: "chat_next b = chat_next a" "ident_next b = ident_next a"
    "\<And>e. oc_generation (chat_at b e) = oc_generation (chat_at a e)"
    "\<And>e. oc_identity (chat_at b e) = oc_identity (chat_at a e)"
    and cached: "snd ` set (chats b) \<subseteq> snd ` set (chats a)" "length (chats b) \<le> length (chats a)"
      "\<And>k e. map_of (chats b) k = Some e \<Longrightarrow> map_of (chats a) k = Some e"
    and loads: "live_inv env a \<Longrightarrow> (\<lambda>(k, e, st). e) ` set (chat_loads b) \<subseteq> {..<chat_next a}"
  shows "live_ext env a b"
proof -
  have "moved a b" using cached(3) unfolding moved_def entry_moved_def same by simp
  moreover have "live_inv env b" if "live_inv env a"
    using that cached(1,2) loads [OF that] unfolding live_inv_def same by (meson order_trans)
  ultimately show ?thesis by (simp add: live_ext_def)
qed

lemma live_ext_refl: "live_ext env s s"
  by (rule soft_ext) (simp_all add: live_inv_def)

text \<open>One entry moves: it takes a new identity or keeps its own.\<close>

lemma entry_ext:
  assumes same: "chat_next b = chat_next a" "chats b = chats a" "chat_loads b = chat_loads a" "\<And>d. d \<noteq> e \<Longrightarrow> chat_at b d = chat_at a d"
    and gen: "oc_generation (chat_at b e) = Suc (oc_generation (chat_at a e))"
    and fresh: "oc_identity (chat_at b e) = oc_identity (chat_at a e) \<and> ident_next b = ident_next a
      \<or> oc_identity (chat_at b e) = ident_next a \<and> ident_next b = Suc (ident_next a)"
  shows "live_ext env a b"
  unfolding live_ext_def
proof
  assume inv: "live_inv env a"
  then have used: "oc_identity (chat_at a d) < ident_next a" if "d < chat_next a" for d using that by (simp add: live_inv_def)
  have le: "ident_next a \<le> ident_next b" using fresh by linarith
  have "entry_moved (ident_next a) (chat_at a d) (chat_at b d)" for d
    using fresh gen same(4) [of d] by (cases "d = e") (auto simp: entry_moved_def)
  then have mv: "moved a b" using le by (simp add: moved_def same)
  have bound: "oc_identity (chat_at b d) < ident_next b" if "d < chat_next a" for d
    using used [OF that] fresh same(4) [of d] by (cases "d = e") auto
  have "c = d" if "c < chat_next a" "d < chat_next a" "oc_identity (chat_at b c) = oc_identity (chat_at b d)" for c d
  proof -
    have inj: "oc_identity (chat_at a c) = oc_identity (chat_at a d) \<Longrightarrow> c = d"
      using inv that by (simp add: live_inv_def inj_on_def)
    show ?thesis
      using that(3) inj fresh used [OF that(1)] used [OF that(2)] same(4) [of c] same(4) [of d]
      by (cases "c = e"; cases "d = e") auto
  qed
  then have "inj_on (\<lambda>e. oc_identity (chat_at b e)) {..<chat_next b}" by (simp add: inj_on_def same)
  then show "live_inv env b \<and> moved a b" using inv mv bound by (simp add: live_inv_def same)
qed

lemma notify_ext: "live_ext env s (notify env k ev s)"
proof (cases "map_of (chats s) k")
  case (Some e)
  show ?thesis
  proof (cases "notified_kind env ev")
    case kind: (Some kind)
    show ?thesis by (rule entry_ext [where e = e]) (simp_all add: notify_def Some kind Let_def set_chat_def)
  qed (simp add: notify_def Some live_ext_refl)
qed (simp add: notify_def live_ext_refl)

lemma new_chat_ext:
  assumes "length (chats s) < max_cached env"
  shows "live_ext env s (new_chat env k s)"
  unfolding live_ext_def
proof
  let ?s = "new_chat env k s"
  assume inv: "live_inv env s"
  then have used: "oc_identity (chat_at s d) < ident_next s" if "d < chat_next s" for d using that by (simp add: live_inv_def)
  have new: "chat_next ?s = Suc (chat_next s)" "ident_next ?s = Suc (ident_next s)" "chats ?s = chats s @ [(k, chat_next s)]"
    "chat_loads ?s = chat_loads s"
    "oc_identity (chat_at ?s (chat_next s)) = ident_next s" "\<And>d. d < chat_next s \<Longrightarrow> chat_at ?s d = chat_at s d"
    by (simp_all add: new_chat_def Let_def set_chat_def)
  have kept: "map_of (chats s) x = Some d" if "d < chat_next s" "map_of (chats ?s) x = Some d" for x d
    using that by (cases "map_of (chats s) x"; cases "x = k") (simp_all add: new map_add_def)
  have "entry_moved (ident_next s) (chat_at s d) (chat_at ?s d)" if "d < chat_next s" for d
    by (simp add: new(6) [OF that] entry_moved_def)
  moreover have "ident_next s \<le> oc_identity (chat_at ?s d)" if "d < chat_next ?s" "chat_next s \<le> d" for d
  proof -
    have "d = chat_next s" using that new(1) by linarith
    then show ?thesis by (simp add: new(5))
  qed
  ultimately have mv: "moved s ?s" using kept new(1,2) by (simp add: moved_def)
  have bound: "oc_identity (chat_at ?s d) < ident_next ?s" if "d < chat_next ?s" for d
    using used [of d] that new by (cases "d = chat_next s") auto
  have "c = d" if "c < chat_next ?s" "d < chat_next ?s" "oc_identity (chat_at ?s c) = oc_identity (chat_at ?s d)" for c d
  proof -
    have inj: "c < chat_next s \<Longrightarrow> d < chat_next s \<Longrightarrow> oc_identity (chat_at s c) = oc_identity (chat_at s d) \<Longrightarrow> c = d"
      using inv by (simp add: live_inv_def inj_on_def)
    show ?thesis
      using that inj used [of c] used [of d] new(1,5) new(6) [of c] new(6) [of d]
      by (cases "c = chat_next s"; cases "d = chat_next s") auto
  qed
  then have inj: "inj_on (\<lambda>e. oc_identity (chat_at ?s e)) {..<chat_next ?s}" by (simp add: inj_on_def)
  have "snd ` set (chats ?s) \<subseteq> {..<chat_next ?s}" "length (chats ?s) \<le> max_cached env"
    "(\<lambda>(k, e, st). e) ` set (chat_loads ?s) \<subseteq> {..<chat_next ?s}"
    using inv assms new by (auto simp: live_inv_def)
  then show "live_inv env ?s \<and> moved s ?s" using inj mv bound by (simp add: live_inv_def)
qed

text \<open>A new load of an existing entry, and a cache that only loses an entry.\<close>

lemma load_added_ext: "e < chat_next s \<Longrightarrow> live_ext env s (s\<lparr>chat_loads := chat_loads s @ [(k, e, st)]\<rparr>)"
  by (rule soft_ext) (auto simp: live_inv_def)

lemma dropped_ext: "live_ext env s (s\<lparr>chats := AList.delete k (chats s)\<rparr>)"
proof (rule soft_ext)
  show "snd ` set (chats (s\<lparr>chats := AList.delete k (chats s)\<rparr>)) \<subseteq> snd ` set (chats s)"
    by (simp add: AList.delete_eq image_mono)
  show "length (chats (s\<lparr>chats := AList.delete k (chats s)\<rparr>)) \<le> length (chats s)"
    by (simp add: AList.length_delete_le)
  show "map_of (chats s) x = Some e" if "map_of (chats (s\<lparr>chats := AList.delete k (chats s)\<rparr>)) x = Some e" for x e
    using that by (cases "x = k") (simp_all add: AList.delete_conv')
qed (simp_all add: live_inv_def)

lemma touched_ext:
  assumes "map_of (chats s) k = Some e"
  shows "live_ext env s (s\<lparr>chats := AList.delete k (chats s) @ [(k, e)]\<rparr>)"
proof (rule soft_ext)
  let ?m = "AList.delete k (chats s) @ [(k, e)]"
  have "k \<in> fst ` set (chats s)" and in_cache: "(k, e) \<in> set (chats s)"
    using map_of_SomeD [OF assms] by force+
  then have "length (AList.delete k (chats s)) < length (chats s)"
    unfolding AList.delete_eq by (auto intro!: length_filter_less)
  then show "length (chats (s\<lparr>chats := ?m\<rparr>)) \<le> length (chats s)" by simp
  show "snd ` set (chats (s\<lparr>chats := ?m\<rparr>)) \<subseteq> snd ` set (chats s)"
    using in_cache by (force simp: AList.delete_eq)
  show "map_of (chats s) x = Some d" if "map_of (chats (s\<lparr>chats := ?m\<rparr>)) x = Some d" for x d
    using that assms by (cases "x = k"; cases "map_of (chats s) x") (simp_all add: AList.delete_conv' map_add_def)
qed (simp_all add: live_inv_def)

text \<open>An entry whose identity and generation stay, and a load that changes its stage.\<close>

lemma set_chat_ext:
  assumes "oc_generation c = oc_generation (chat_at s e)" "oc_identity c = oc_identity (chat_at s e)"
  shows "live_ext env s (set_chat e c s)"
  using assms by (intro soft_ext) (auto simp: set_chat_def live_inv_def)

lemma set_load_ext: "i < length (chat_loads s) \<Longrightarrow> live_ext env s (set_load i st s)"
proof (rule soft_ext)
  assume i: "i < length (chat_loads s)" and inv: "live_inv env s"
  obtain k e old where load: "chat_loads s ! i = (k, e, old)" by (cases "chat_loads s ! i")
  then have "e < chat_next s" using i inv nth_mem [OF i] by (force simp: live_inv_def)
  then show "(\<lambda>(k, e, st). e) ` set (chat_loads (set_load i st s)) \<subseteq> {..<chat_next s}"
    using inv set_update_subset_insert [of "chat_loads s" i "(k, e, st)"]
    by (fastforce simp: set_load_def load live_inv_def)
qed (simp_all add: set_load_def split: prod.splits)

lemma counters_ext: "live_ext env s (s\<lparr>reader_next := n\<rparr>)" "live_ext env s (s\<lparr>wait_next := n\<rparr>)"
  by (rule soft_ext; simp add: live_inv_def)+

lemma chats_delete_shorter: "k \<in> fst ` set m \<Longrightarrow> length (AList.delete k m) < length m"
  unfolding AList.delete_eq by (auto intro!: length_filter_less)

lemma evictable_cached: "evictable s = Some k \<Longrightarrow> k \<in> fst ` set (chats s)"
  unfolding evictable_def by (auto simp: find_Some_iff) (metis fst_conv image_eqI nth_mem)

lemma load_begin_ext: "live_ext env s (fst (load_begin env ex made k s))"
proof (cases "map_of (chats s) k")
  case (Some e)
  let ?s = "s\<lparr>chats := AList.delete k (chats s) @ [(k, e)]\<rparr>"
  have "live_ext env s (?s\<lparr>chat_loads := chat_loads ?s @ [(k, e, Waiting_lock)]\<rparr>)"
    if "live_inv env s"
  proof (rule live_ext_trans [OF touched_ext [OF Some] load_added_ext])
    show "e < chat_next ?s" using that map_of_SomeD [OF Some] by (force simp: live_inv_def)
  qed
  then have "live_ext env s (?s\<lparr>chat_loads := chat_loads s @ [(k, e, Waiting_lock)]\<rparr>)"
    by (cases "live_inv env s") (simp_all add: live_ext_def)
  then show ?thesis by (simp add: load_begin_def Some live_ext_refl)
next
  case None
  let ?full = "max_cached env \<le> length (chats s)"
  define t where "t = (case evictable s of Some x \<Rightarrow> if ?full then s\<lparr>chats := AList.delete x (chats s)\<rparr> else s | None \<Rightarrow> s)"
  have st: "live_ext env s t" unfolding t_def by (simp add: dropped_ext live_ext_refl split: option.split)
  have room: "length (chats t) < max_cached env" if "live_inv env s" "\<not> (?full \<and> evictable s = None)"
  proof (cases "evictable s")
    case None
    then show ?thesis using that by (simp add: t_def)
  next
    case (Some x)
    then have "length (AList.delete x (chats s)) < length (chats s)" by (intro chats_delete_shorter evictable_cached)
    moreover have "length (chats s) \<le> max_cached env" using that by (simp add: live_inv_def)
    ultimately show ?thesis by (simp add: t_def Some)
  qed
  have "live_ext env s (new_chat env k t\<lparr>chat_loads := chat_loads (new_chat env k t) @ [(k, chat_next t, Waiting_lock)]\<rparr>)"
    if ok: "live_inv env s" "\<not> (?full \<and> evictable s = None)"
    by (intro live_ext_trans [OF live_ext_trans [OF st new_chat_ext [OF room [OF ok]]] load_added_ext])
      (simp add: new_chat_def Let_def set_chat_def)
  then show ?thesis
    using st by (cases "live_inv env s")
      (simp_all add: load_begin_def None t_def [symmetric] live_ext_refl Let_def, simp_all add: live_ext_def)
qed

lemma load_locked_ext: "live_ext env s (load_locked env i s)"
proof (cases "i < length (chat_loads s)")
  case True
  obtain k e st where load: "chat_loads s ! i = (k, e, st)" by (cases "chat_loads s ! i")
  have step: "live_ext env s (set_load i q (set_chat e c (s\<lparr>reader_next := n\<rparr>)))"
    if "oc_generation c = oc_generation (chat_at s e)" "oc_identity c = oc_identity (chat_at s e)" for q c n
    by (rule live_ext_trans [OF live_ext_trans [OF counters_ext(1) set_chat_ext] set_load_ext])
      (simp_all add: that True set_chat_def)
  have plain: "live_ext env s (set_load i q (set_chat e c s))"
    if "oc_generation c = oc_generation (chat_at s e)" "oc_identity c = oc_identity (chat_at s e)" for q c
    using step [OF that, of q "reader_next s"] by simp
  show ?thesis unfolding load_locked_def Let_def load
    by (simp add: step plain True live_ext_refl)
qed (simp add: load_locked_def live_ext_refl)

lemma load_done_ext: "live_ext env s (load_done i outcome ex s)"
proof (cases "i < length (chat_loads s)")
  case True
  obtain k e st where load: "chat_loads s ! i = (k, e, st)" by (cases "chat_loads s ! i")
  let ?t = "set_chat e ((chat_at s e)\<lparr>oc_locked := False\<rparr>) s"
  have un: "live_ext env s ?t" by (rule set_chat_ext) simp_all
  have keep: "live_ext env s (set_load i q ?t)" for q
    by (rule live_ext_trans [OF un set_load_ext]) (simp add: set_chat_def True)
  have drop: "live_ext env s (set_load i q (?t\<lparr>chats := AList.delete k (chats ?t)\<rparr>))" for q
    by (rule live_ext_trans [OF live_ext_trans [OF un dropped_ext] set_load_ext]) (simp add: set_chat_def True)
  show ?thesis unfolding load_done_def Let_def load
    using keep drop True by (simp add: live_ext_refl split: load_stage.split read_outcome.split)
qed (simp add: load_done_def live_ext_refl)

lemma wait_begin_ext: "live_ext env s (fst (wait_begin env k rv s))"
proof -
  have "live_ext env s (set_chat e ((chat_at s e)\<lparr>oc_waiters := ws\<rparr>) (s\<lparr>wait_next := n\<rparr>))" for e ws n
    by (rule live_ext_trans [OF counters_ext(2) set_chat_ext]) simp_all
  then show ?thesis by (simp add: wait_begin_def live_ext_refl Let_def split: option.split)
qed

lemma live_step_ext: "live_ext env s (live_step env op s)"
  by (cases op) (simp_all add: notify_ext load_begin_ext load_locked_ext load_done_ext wait_begin_ext
      wait_end_def set_chat_ext)

interpretation live_store: growing_store "live_step env" "live_ext env" for env
  using live_ext_refl live_ext_trans live_step_ext by unfold_locales

section \<open>No update is missed\<close>




definition live_run :: "live_env \<Rightarrow> live_op list \<Rightarrow> live_state \<Rightarrow> live_state" where
  "live_run env ops s = foldl (\<lambda>s op. live_step env op s) s ops"

lemma live_run_ext: "live_ext env s (live_run env ops s)"
  unfolding live_run_def by (rule live_store.run_ext)

lemma live_reached: "live_inv env (live_run env ops initial_live)"
proof -
  have "live_inv env initial_live" by (simp add: live_inv_def initial_live_def)
  then show ?thesis using live_run_ext [of env initial_live ops] by (simp add: live_ext_def)
qed

lemma live_cache_bounded: "length (chats (live_run env ops initial_live)) \<le> max_cached env"
  using live_reached [of env ops] by (simp add: live_inv_def)







end
