(* ===== verification/Video_Stream.thy ===== *)
theory Video_Stream
  imports Prelude
begin

text \<open>
  Streaming of a shared video: \<open>shared_chat_video_stream.py\<close>. A response owns a pinned descriptor, selects
  one byte range, and sends it in bounded chunks while it is still authorised and the file is unchanged.
  The file system, the clock and the authorisation callback are inputs of each step.
\<close>

section \<open>Admission\<close>

record admission =
  adm_limit :: int
  adm_active :: int

definition admission_new :: "json \<Rightarrow> py_exn + admission" where
  "admission_new limit = (case limit of
     JInt n \<Rightarrow> if n < 1 then Inl ValueError else Inr \<lparr>adm_limit = n, adm_active = 0\<rparr>
   | _ \<Rightarrow> Inl ValueError)"



section \<open>Byte ranges\<close>

definition lower_ascii :: "nat \<Rightarrow> nat" where
  "lower_ascii c = (if is_upper c then c + 32 else c)"

text \<open>\<open>bytes=([0-9]*)-([0-9]*)\<close>, ignoring case; a header value has no character beyond Latin-1.\<close>

definition range_match :: "pystr \<Rightarrow> (pystr \<times> pystr) option" where
  "range_match s =
    (if map lower_ascii (take 6 s) \<noteq> lit ''bytes='' then None
     else let first = takeWhile is_digit (drop 6 s); r = dropWhile is_digit (drop 6 s) in
       case r of
         c # rest \<Rightarrow> if c = 45 \<and> list_all is_digit rest then Some (first, rest) else None
       | [] \<Rightarrow> None)"

definition digits_value :: "pystr \<Rightarrow> nat" where
  "digits_value s = foldl (\<lambda>n c. n * 10 + (c - 48)) 0 s"

definition byte_range :: "pystr list \<Rightarrow> nat \<Rightarrow> nat \<times> nat \<times> nat" where
  "byte_range headers byte_size = (case headers of
     [] \<Rightarrow> (200, 0, byte_size)
   | [v] \<Rightarrow>
       if 256 < length v then (416, 0, 0)
       else (case range_match (strip v) of
           None \<Rightarrow> (416, 0, 0)
         | Some (lo, hi) \<Rightarrow>
             if lo = [] \<and> hi = [] \<or> byte_size = 0 then (416, 0, 0)
             else if lo \<noteq> [] then
               (let start = digits_value lo;
                    stop = (if hi \<noteq> [] then min (digits_value hi) (byte_size - 1) else byte_size - 1)
                in if byte_size \<le> start \<or> stop < start then (416, 0, 0) else (206, start, stop - start + 1))
             else
               (let suffix = digits_value hi in
                if suffix = 0 then (416, 0, 0)
                else let start = byte_size - suffix; stop = byte_size - 1 in (206, start, stop - start + 1)))
   | _ \<Rightarrow> (416, 0, 0))"

section \<open>The response\<close>




type_synonym headers = "(pystr \<times> pystr) list"











section \<open>Streaming\<close>












section \<open>The range that is served\<close>


text \<open>What a range header asks for: the bytes from \<open>lo\<close> to \<open>hi\<close> that exist, or the last \<open>hi\<close> bytes.\<close>

lemma byte_range_meaning:
  assumes "length v \<le> 256" "range_match (strip v) = Some (lo, hi)" "byte_range [v] n = (206, start, len)"
  shows "{start..<start + len} = {i. i < n \<and> (if lo \<noteq> [] then digits_value lo \<le> i \<and> (if hi = [] then True else i \<le> digits_value hi)
    else n - digits_value hi \<le> i)}"
  using assms by (auto simp: byte_range_def Let_def split: if_splits)

section \<open>The bytes that are sent\<close>
















end
