(* ===== verification/Access_Tokens.thy ===== *)
theory Access_Tokens
  imports Prelude "HOL-Library.List_Lexorder" "HOL-Library.Multiset"
begin

text \<open>
  Signed access credentials of the team hub: \<open>agentsdock_team_hub/security.py\<close>. A token is a header, a
  payload and a signature in unpadded base64, joined by dots. The keyed hash and the decoding of JSON
  are parameters. Key files and certificates are not modelled.
\<close>

section \<open>Unpadded base64\<close>

text \<open>The URL-safe alphabet, and the sextets that \<open>b64decode\<close> reads: translating the alternative
  characters leaves the standard ones readable too.\<close>

definition b64_char :: "nat \<Rightarrow> nat" where
  "b64_char n = (if n < 26 then 65 + n else if n < 52 then 71 + n else if n < 62 then n - 4
     else if n = 62 then 45 else 95)"

definition b64_value :: "nat \<Rightarrow> nat option" where
  "b64_value c = (if is_upper c then Some (c - 65) else if is_lower c then Some (c - 71)
     else if is_digit c then Some (c + 4) else if c = 45 \<or> c = 43 then Some 62
     else if c = 95 \<or> c = 47 then Some 63 else None)"

text \<open>\<open>base64.urlsafe_b64encode(value).rstrip(b"=")\<close>.\<close>

fun sextets :: "nat list \<Rightarrow> nat list" where
  "sextets (a # b # c # r) = [a div 4, a mod 4 * 16 + b div 16, b mod 16 * 4 + c div 64, c mod 64] @ sextets r"
| "sextets [a, b] = [a div 4, a mod 4 * 16 + b div 16, b mod 16 * 4]"
| "sextets [a] = [a div 4, a mod 4 * 16]"
| "sextets [] = []"

fun octets :: "nat list \<Rightarrow> nat list option" where
  "octets (w # x # y # z # r) =
     map_option (\<lambda>bs. [w * 4 + x div 16, x mod 16 * 16 + y div 4, y mod 4 * 64 + z] @ bs) (octets r)"
| "octets [w, x, y] = Some [w * 4 + x div 16, x mod 16 * 16 + y div 4]"
| "octets [w, x] = Some [w * 4 + x div 16]"
| "octets [w] = None"
| "octets [] = Some []"

definition b64url_encode :: "bytes \<Rightarrow> pystr" where
  "b64url_encode value = map b64_char (sextets (map unat value))"

text \<open>Every way in which a credential can fail is the same \<open>TokenError\<close>.\<close>

datatype token_error = Token_error

fun b64_values :: "nat list \<Rightarrow> nat list option" where
  "b64_values [] = Some []"
| "b64_values (c # cs) = (case (b64_value c, b64_values cs) of (Some v, Some vs) \<Rightarrow> Some (v # vs) | _ \<Rightarrow> None)"

text \<open>\<open>validate=True\<close>: alphabet characters, then at most two padding characters.\<close>

definition b64url_decode :: "pystr \<Rightarrow> token_error + bytes" where
  "b64url_decode value =
    (if value = [] \<or> 8192 < length value then Inl Token_error
     else let padded = value @ replicate (nat (- int (length value) mod 4)) 61;
              data = takeWhile (\<lambda>c. c \<noteq> 61) padded; padding = dropWhile (\<lambda>c. c \<noteq> 61) padded
          in if 2 < length padding \<or> \<not> list_all (\<lambda>c. c = 61) padding then Inl Token_error
             else case Option.bind (b64_values data) octets of
                    None \<Rightarrow> Inl Token_error | Some bs \<Rightarrow> Inr (map of_nat bs))"

section \<open>Canonical JSON\<close>

text \<open>\<open>sort_keys=True\<close>: dictionaries in the order of their keys, at every depth.\<close>

fun keys_sorted :: "json \<Rightarrow> json" where
  "keys_sorted (JArr xs) = JArr (map keys_sorted xs)"
| "keys_sorted (JObj d) = JObj (sort_key fst (map (\<lambda>kv. (fst kv, keys_sorted (snd kv))) d))"
| "keys_sorted v = v"

definition canonical_json :: "(rat \<Rightarrow> pystr) \<Rightarrow> json \<Rightarrow> bytes option" where
  "canonical_json fr v = utf8_encode (dumps (compact_opts False fr) (keys_sorted v))"

section \<open>The signer\<close>

definition ACCESS_TOKEN_TTL_SECONDS :: int where
  "ACCESS_TOKEN_TTL_SECONDS = 10 * 60"

definition TOKEN_ISSUER :: pystr where
  "TOKEN_ISSUER = lit ''agentsdock-team-hub''"

definition TOKEN_AUDIENCE :: pystr where
  "TOKEN_AUDIENCE = lit ''agentsdock-team-hub-api''"

definition hub_token_hash :: "(bytes \<Rightarrow> bytes) \<Rightarrow> json \<Rightarrow> token_error + bytes" where
  "hub_token_hash sha v = (case v of
     JStr s \<Rightarrow> if length s < 16 \<or> 4096 < length s then Inl Token_error
       else (case utf8_encode s of None \<Rightarrow> Inl Token_error | Some b \<Rightarrow> Inr (sha b))
   | _ \<Rightarrow> Inl Token_error)"

record minted =
  minted_token :: pystr
  minted_jti :: pystr
  minted_expires :: int

definition token_header :: json where
  "token_header = JObj [(lit ''alg'', js ''HS256''), (lit ''typ'', js ''ADTH-AT1'')]"

definition token_payload :: "pystr \<Rightarrow> pystr \<Rightarrow> pystr \<Rightarrow> int \<Rightarrow> int \<Rightarrow> jdict" where
  "token_payload sub sid jti issued expires =
     [(lit ''iss'', JStr TOKEN_ISSUER), (lit ''aud'', JStr TOKEN_AUDIENCE), (lit ''sub'', JStr sub), (lit ''sid'', JStr sid),
      (lit ''jti'', JStr jti), (lit ''iat'', JInt issued), (lit ''nbf'', JInt issued), (lit ''exp'', JInt expires)]"

definition visible :: "nat \<Rightarrow> pystr \<Rightarrow> bool" where
  "visible n s \<longleftrightarrow> 1 \<le> length s \<and> length s \<le> n \<and> list_all (\<lambda>c. 33 \<le> c \<and> c \<le> 126) s"

text \<open>\<open>s.encode("ascii")\<close>; \<open>None\<close> is the \<open>UnicodeEncodeError\<close>.\<close>

definition ascii_encode :: "pystr \<Rightarrow> bytes option" where
  "ascii_encode s = (if list_all (\<lambda>c. c < 128) s then Some (map of_nat s) else None)"

definition signer :: "bytes \<Rightarrow> py_exn + bytes" where
  "signer key = (if length key < 32 then Inl ValueError else Inr key)"

text \<open>\<open>jti\<close> is the random \<open>secrets.token_urlsafe(18)\<close>.\<close>

definition mint :: "(bytes \<Rightarrow> bytes \<Rightarrow> bytes) \<Rightarrow> (rat \<Rightarrow> pystr) \<Rightarrow> bytes \<Rightarrow> pystr \<Rightarrow> pystr \<Rightarrow> int \<Rightarrow> int \<Rightarrow> pystr \<Rightarrow> py_exn + minted" where
  "mint hmac fr key sub sid issued ttl jti =
    (if ttl < 1 \<or> ACCESS_TOKEN_TTL_SECONDS < ttl then Inl ValueError
     else if \<not> visible 240 sub \<or> \<not> visible 240 sid then Inl ValueError
     else case (canonical_json fr token_header, canonical_json fr (JObj (token_payload sub sid jti issued (issued + ttl)))) of
       (Some h, Some p) \<Rightarrow>
         (let signing_input = b64url_encode h @ [46] @ b64url_encode p in
          case ascii_encode signing_input of
            Some m \<Rightarrow> Inr \<lparr>minted_token = signing_input @ [46] @ b64url_encode (hmac key m), minted_jti = jti,
              minted_expires = issued + ttl\<rparr>
          | None \<Rightarrow> Inl ValueError)
     | _ \<Rightarrow> Inl ValueError)"

definition payload_keys :: "string list" where
  "payload_keys = [''iss'', ''aud'', ''sub'', ''sid'', ''jti'', ''iat'', ''nbf'', ''exp'']"

definition check_payload :: "int \<Rightarrow> json \<Rightarrow> token_error + jdict" where
  "check_payload now v = (case v of
     JObj p \<Rightarrow>
       if \<not> dkeys_eq p payload_keys then Inl Token_error
       else if dget p ''iss'' \<noteq> JStr TOKEN_ISSUER \<or> dget p ''aud'' \<noteq> JStr TOKEN_AUDIENCE then Inl Token_error
       else (case (dget p ''sub'', dget p ''sid'', dget p ''jti'') of
           (JStr sub, JStr sid, JStr jti) \<Rightarrow>
             if \<not> visible 240 sub \<or> \<not> visible 240 sid \<or> \<not> visible 128 jti then Inl Token_error
             else (case (dget p ''iat'', dget p ''nbf'', dget p ''exp'') of
                 (JInt iat, JInt nbf, JInt expires) \<Rightarrow>
                   if nbf \<noteq> iat \<or> now + 5 < iat then Inl Token_error
                   else if expires \<le> now \<or> expires \<le> iat \<or> ACCESS_TOKEN_TTL_SECONDS < expires - iat then Inl Token_error
                   else Inr p
               | _ \<Rightarrow> Inl Token_error)
         | _ \<Rightarrow> Inl Token_error)
   | _ \<Rightarrow> Inl Token_error)"

definition decode_part :: "(bytes \<Rightarrow> json option) \<Rightarrow> pystr \<Rightarrow> token_error + json" where
  "decode_part loads part = ebind (b64url_decode part) (\<lambda>b. case loads b of None \<Rightarrow> Inl Token_error | Some v \<Rightarrow> Inr v)"

definition verify :: "(bytes \<Rightarrow> bytes \<Rightarrow> bytes) \<Rightarrow> (bytes \<Rightarrow> json option) \<Rightarrow> bytes \<Rightarrow> json \<Rightarrow> int \<Rightarrow> token_error + jdict" where
  "verify hmac loads key token now = (case token of
     JStr t \<Rightarrow>
       if length t < 40 \<or> 8192 < length t then Inl Token_error
       else (case split_on 46 t of
           [h, p, sig] \<Rightarrow> (case ascii_encode (h @ [46] @ p) of
               None \<Rightarrow> Inl Token_error
             | Some signing_input \<Rightarrow>
                 ebind (b64url_decode sig) (\<lambda>supplied.
                   if supplied \<noteq> hmac key signing_input then Inl Token_error
                   else ebind (decode_part loads h) (\<lambda>header.
                     ebind (decode_part loads p) (\<lambda>payload.
                       if \<not> py_eq header token_header then Inl Token_error else check_payload now payload))))
         | _ \<Rightarrow> Inl Token_error)
   | _ \<Rightarrow> Inl Token_error)"

section \<open>Encoding and decoding are inverse\<close>

lemma sextets_bound: "list_all (\<lambda>n. n < 256) bs \<Longrightarrow> list_all (\<lambda>n. n < 64) (sextets bs)"
  by (induction bs rule: sextets.induct) auto

lemma length_sextets: "length (sextets bs) mod 4 \<noteq> 1"
  by (induction bs rule: sextets.induct) auto

lemma join_nibble: "(y::nat) < 16 \<Longrightarrow> (x * 16 + y) div 16 = x \<and> (x * 16 + y) mod 16 = y"
  by simp

lemma join_pair: "(y::nat) < 4 \<Longrightarrow> (x * 4 + y) div 4 = x \<and> (x * 4 + y) mod 4 = y"
  by simp

lemma octets_sextets: "list_all (\<lambda>n. n < 256) bs \<Longrightarrow> octets (sextets bs) = Some bs"
proof (induction bs rule: sextets.induct)
  case (1 a b c r)
  then have "b div 16 < 16" "c div 64 < 4" by auto
  then show ?case using 1 by (simp add: join_nibble join_pair)
next
  case (2 a b)
  then have "b div 16 < 16" by auto
  then show ?case by (simp add: join_nibble)
qed simp_all

lemma b64_value_char: "n < 64 \<Longrightarrow> b64_value (b64_char n) = Some n"
  by (auto simp: b64_value_def b64_char_def is_upper_def is_lower_def is_digit_def)

lemma b64_char_range: "b64_char n \<noteq> 61 \<and> b64_char n \<noteq> 46 \<and> b64_char n < 128"
  by (auto simp: b64_char_def)

lemma b64_values_map: "list_all (\<lambda>n. n < 64) ns \<Longrightarrow> b64_values (map b64_char ns) = Some ns"
  by (induction ns) (simp_all add: b64_value_char)

lemma b64url_encode_chars: "c \<in> set (b64url_encode bs) \<Longrightarrow> c \<noteq> 61 \<and> c \<noteq> 46 \<and> c < 128"
  unfolding b64url_encode_def using b64_char_range by auto

lemma b64url_encode_Nil_iff: "b64url_encode bs = [] \<longleftrightarrow> bs = []"
  by (cases "map unat bs" rule: sextets.cases) (auto simp: b64url_encode_def)

lemma padding_short: "n mod 4 \<noteq> 1 \<Longrightarrow> nat (- int n mod 4) \<le> 2"
proof -
  assume "n mod 4 \<noteq> 1"
  then consider "n mod 4 = 0" | "2 \<le> n mod 4" by linarith
  moreover have "int n mod 4 = int (n mod 4)" by (simp add: zmod_int)
  ultimately show ?thesis by cases (simp_all add: zmod_zminus1_eq_if)
qed

lemma b64url_roundtrip:
  assumes "bs \<noteq> []" "length (b64url_encode bs) \<le> 8192"
  shows "b64url_decode (b64url_encode bs) = Inr bs"
proof -
  let ?v = "b64url_encode bs" and ?ns = "sextets (map unat bs)"
  have "unat b < 256" for b :: byte using unsigned_less [where w = b and 'a = nat] by simp
  then have small: "list_all (\<lambda>n. n < 256) (map unat bs)" by (simp add: list_all_iff)
  have len: "length ?v mod 4 \<noteq> 1" using length_sextets [of "map unat bs"] by (simp add: b64url_encode_def)
  define k where "k = nat (- int (length ?v) mod 4)"
  have "k \<le> 2" unfolding k_def by (rule padding_short [OF len])
  have neq: "\<forall>c \<in> set ?v. c \<noteq> 61" using b64url_encode_chars by blast
  have split: "takeWhile (\<lambda>c. c \<noteq> 61) (?v @ replicate k 61) = ?v" "dropWhile (\<lambda>c. c \<noteq> 61) (?v @ replicate k 61) = replicate k 61"
    using neq by (simp_all add: takeWhile_append2 dropWhile_append2)
  have "Option.bind (b64_values ?v) octets = Some (map unat bs)"
    using b64_values_map [OF sextets_bound [OF small]] octets_sextets [OF small] by (simp add: b64url_encode_def)
  moreover have "map (of_nat \<circ> unat) bs = bs" by (simp add: map_idI)
  ultimately show ?thesis
    using assms split \<open>k \<le> 2\<close> b64url_encode_Nil_iff [of bs] unfolding b64url_decode_def k_def [symmetric] Let_def
    by (simp add: list_all_iff)
qed

section \<open>What the signer promises\<close>

lemma map_of_sort_key:
  assumes "distinct (map fst d)"
  shows "map_of (sort_key fst d) = map_of d"
proof -
  have "mset (map fst (sort_key fst d)) = mset (map fst d)" by simp
  then have "distinct (map fst (sort_key fst d))" using assms mset_eq_imp_distinct_iff by blast
  then have "map_of (sort_key fst d) k = Some v \<longleftrightarrow> map_of d k = Some v" for k v using assms by simp
  then show ?thesis by (metis (no_types, opaque_lifting) ext not_None_eq)
qed

lemma check_payload_minted:
  assumes "visible 240 sub" "visible 240 sid" "visible 128 jti" "1 \<le> ttl" "ttl \<le> ACCESS_TOKEN_TTL_SECONDS"
    "issued \<le> now + 5" "now < issued + ttl" "p = sort_key fst (token_payload sub sid jti issued (issued + ttl))"
  shows "check_payload now (JObj p) = Inr p"
proof -
  let ?p = "token_payload sub sid jti issued (issued + ttl)"
  have "distinct (map fst ?p)" by (simp add: token_payload_def)
  then have "map_of (sort_key fst ?p) = map_of ?p" by (rule map_of_sort_key)
  then have d: "dget p k = dget ?p k" "dhas p k = dhas ?p k" for k by (simp_all add: dget_def dhas_def assms(8))
  have "dkeys_eq ?p payload_keys" by (simp add: dkeys_eq_def token_payload_def payload_keys_def)
  then have keys: "dkeys_eq p payload_keys" using d(2) by (auto simp: dkeys_eq_def list_all_iff assms(8))
  have fields: "dget ?p ''iss'' = JStr TOKEN_ISSUER" "dget ?p ''aud'' = JStr TOKEN_AUDIENCE" "dget ?p ''sub'' = JStr sub"
    "dget ?p ''sid'' = JStr sid" "dget ?p ''jti'' = JStr jti" "dget ?p ''iat'' = JInt issued" "dget ?p ''nbf'' = JInt issued"
    "dget ?p ''exp'' = JInt (issued + ttl)"
    by (simp_all add: token_payload_def)
  show ?thesis using assms(1-7) keys by (simp add: check_payload_def d fields)
qed

lemma keys_sorted_payload: "map (\<lambda>kv. (fst kv, keys_sorted (snd kv))) (token_payload a b c i e) = token_payload a b c i e"
  by (simp add: token_payload_def)

lemma keys_sorted_header: "keys_sorted token_header = token_header"
  by (simp add: token_header_def sort_key_def lit_def)

lemma canonical_nonempty: "canonical_json fr (JObj d) = Some b \<Longrightarrow> b \<noteq> []"
  by (auto simp: canonical_json_def utf8_encode_def utf8_char_def split: if_splits)

text \<open>The encoded header alone is longer than the shortest token that is looked at.\<close>

lemma header_bytes: "canonical_json fr token_header = Some h \<Longrightarrow> 40 \<le> length (b64url_encode h)"
  unfolding canonical_json_def keys_sorted_header
  by (auto simp: token_header_def compact_opts_def dumps_str_def lit_def escape_char_def utf8_encode_def utf8_char_def
      is_surrogate_def b64url_encode_def)

lemma mint_verify:
  assumes "mint hmac fr key sub sid issued ttl jti = Inr m" "visible 128 jti" "issued \<le> now + 5" "now < minted_expires m"
    and "length (minted_token m) \<le> 8192" "\<And>x. hmac key x \<noteq> []"
    and loads: "\<And>v b. v \<in> {token_header, JObj (token_payload sub sid jti issued (minted_expires m))} \<Longrightarrow>
      canonical_json fr v = Some b \<Longrightarrow> loads b = Some (keys_sorted v)"
  shows "verify hmac loads key (JStr (minted_token m)) now =
    Inr (sort_key fst (token_payload sub sid jti issued (minted_expires m)))"
proof -
  let ?pl = "token_payload sub sid jti issued (issued + ttl)"
  have ttl: "1 \<le> ttl" "ttl \<le> ACCESS_TOKEN_TTL_SECONDS" and vis: "visible 240 sub" "visible 240 sid"
    using assms(1) by (auto simp: mint_def split: if_splits)
  obtain h p x where enc: "canonical_json fr token_header = Some h" "canonical_json fr (JObj ?pl) = Some p"
      "ascii_encode (b64url_encode h @ [46] @ b64url_encode p) = Some x"
    and m: "minted_token m = b64url_encode h @ [46] @ b64url_encode p @ [46] @ b64url_encode (hmac key x)"
      "minted_expires m = issued + ttl"
    using assms(1) ttl vis by (auto simp: mint_def Let_def split: option.splits)
  have no_dot: "46 \<notin> set (b64url_encode bs)" for bs using b64url_encode_chars by blast
  have parts: "split_on 46 (minted_token m) = [b64url_encode h, b64url_encode p, b64url_encode (hmac key x)]"
    using split_on_line [OF no_dot] split_on_no_sep [OF no_dot] by (simp add: m)
  have len: "length (b64url_encode h) \<le> 8192" "length (b64url_encode p) \<le> 8192" "length (b64url_encode (hmac key x)) \<le> 8192"
    "40 \<le> length (minted_token m)"
    using assms(5) header_bytes [OF enc(1)] by (simp_all add: m)
  have json: "h \<noteq> []" "loads h = Some token_header" "p \<noteq> []" "loads p = Some (JObj (sort_key fst ?pl))"
    using loads [OF _ enc(1)] loads [OF _ enc(2)] canonical_nonempty enc(1,2)
    by (simp_all add: m(2) keys_sorted_header keys_sorted_payload) (metis token_header_def)
  have "decode_part loads (b64url_encode h) = Inr token_header" "decode_part loads (b64url_encode p) = Inr (JObj (sort_key fst ?pl))"
    "b64url_decode (b64url_encode (hmac key x)) = Inr (hmac key x)"
    using json assms(6) len by (simp_all add: decode_part_def b64url_roundtrip)
  moreover have "py_eq token_header token_header" by (rule py_eq_refl) (simp add: token_header_def)
  moreover have "check_payload now (JObj (sort_key fst ?pl)) = Inr (sort_key fst ?pl)"
    using check_payload_minted [OF vis assms(2) ttl assms(3) _ refl] assms(4) m(2) by simp
  ultimately show ?thesis using assms(5) len(4) enc(3) by (simp add: verify_def parts m(2))
qed

text \<open>A minted token is accepted by the verifier that holds the same key, from five seconds before
  its issue time until it expires, and yields exactly the payload it was minted with, provided that decoding
  inverts the canonical encoding of header and payload.\<close>

lemma minted_token_verifies:
  assumes "mint hmac fr key sub sid issued ttl jti = Inr m" "visible 128 jti" "issued \<le> now + 5" "now < minted_expires m"
    and "length (minted_token m) \<le> 8192" "\<And>x. hmac key x \<noteq> []"
    and loads: "\<And>v b. v \<in> {token_header, JObj (token_payload sub sid jti issued (minted_expires m))} \<Longrightarrow>
      canonical_json fr v = Some b \<Longrightarrow> loads b = Some (keys_sorted v)"
  shows "verify hmac loads key (JStr (minted_token m)) now =
    Inr (sort_key fst (token_payload sub sid jti issued (minted_expires m)))"
  by (rule mint_verify [OF assms])

text \<open>A decoder that knows two encoded values.\<close>

definition two_loads :: "json \<Rightarrow> json \<Rightarrow> bytes \<Rightarrow> json option" where
  "two_loads v w b = (if canonical_json (\<lambda>_. []) v = Some b then Some (keys_sorted v)
     else if canonical_json (\<lambda>_. []) w = Some b then Some (keys_sorted w) else None)"

abbreviation demo_payload :: jdict where
  "demo_payload \<equiv> token_payload (lit ''user'') (lit ''device'') (lit ''id'') 100 160"

abbreviation demo_mint :: "py_exn + minted" where
  "demo_mint \<equiv> mint (\<lambda>_ _. [7]) (\<lambda>_. []) [] (lit ''user'') (lit ''device'') 100 60 (lit ''id'')"

lemmas canonical_eval = canonical_json_def token_header_def token_payload_def TOKEN_ISSUER_def TOKEN_AUDIENCE_def lit_def
  compact_opts_def dumps_str_def escape_char_def dec_int_def dec_nat.simps utf8_encode_def utf8_char_def is_surrogate_def

lemma demo_bytes:
  "\<exists>h p. canonical_json (\<lambda>_. []) token_header = Some h \<and> canonical_json (\<lambda>_. []) (JObj demo_payload) = Some p
    \<and> h \<noteq> p \<and> length h \<le> 100 \<and> length p \<le> 1000"
  by (simp add: canonical_eval)

lemma length_encode: "length (b64url_encode bs) \<le> 2 * length bs"
proof -
  have "length (sextets ns) \<le> 2 * length ns" for ns by (induction ns rule: sextets.induct) auto
  from this [of "map unat bs"] show ?thesis by (simp add: b64url_encode_def)
qed

lemma demo_minted: "\<exists>m. demo_mint = Inr m \<and> length (minted_token m) \<le> 8192 \<and> minted_expires m = 160"
proof -
  obtain h p where b: "canonical_json (\<lambda>_. []) token_header = Some h" "canonical_json (\<lambda>_. []) (JObj demo_payload) = Some p"
    "length h \<le> 100" "length p \<le> 1000" using demo_bytes by blast
  have "ascii_encode (b64url_encode h @ [46] @ b64url_encode p) \<noteq> None"
    using b64url_encode_chars by (auto simp: ascii_encode_def list_all_iff)
  moreover have "visible 240 (lit ''user'')" "visible 240 (lit ''device'')" by (simp_all add: visible_def lit_def)
  moreover have "length (b64url_encode h) \<le> 200" "length (b64url_encode p) \<le> 2000" "length (b64url_encode [7]) \<le> 2"
    using length_encode [of h] length_encode [of p] length_encode [of "[7]"] b(3,4) by simp_all
  ultimately show ?thesis using b by (auto simp: mint_def Let_def ACCESS_TOKEN_TTL_SECONDS_def)
qed

lemma demo_loads:
  assumes "v \<in> {token_header, JObj demo_payload}" "canonical_json (\<lambda>_. []) v = Some b"
  shows "two_loads token_header (JObj demo_payload) b = Some (keys_sorted v)"
  using assms demo_bytes by (auto simp: two_loads_def)

lemma demo_id: "visible 128 (lit ''id'')"
  by (simp add: visible_def lit_def)

lemma minted_token_verifies_witness:
  "\<exists>m. demo_mint = Inr m \<and>
    verify (\<lambda>_ _. [7]) (two_loads token_header (JObj demo_payload)) [] (JStr (minted_token m)) 130 = Inr (sort_key fst demo_payload)"
proof -
  obtain m where m: "demo_mint = Inr m" "length (minted_token m) \<le> 8192" "minted_expires m = 160" using demo_minted by blast
  from minted_token_verifies [OF m(1) demo_id _ _ m(2), where now = 130 and loads = "two_loads token_header (JObj demo_payload)"]
  show ?thesis using m(1,3) demo_loads by simp
qed

text \<open>C30. Whatever it is given, the verifier only accepts three dot-separated parts whose third part
  decodes to the keyed hash of the first two, with exactly the expected claims: visible ASCII
  identifiers, this issuer and audience, and a life time that has begun, has not ended, and ends within
  ten minutes and five seconds from now.\<close>

theorem verified_token_sound:
  assumes "verify hmac loads key token now = Inr p"
  shows "\<exists>h b sig. token = JStr (h @ [46] @ b @ [46] @ sig)
    \<and> b64url_decode sig = Inr (hmac key (map of_nat (h @ [46] @ b))) \<and> decode_part loads b = Inr (JObj p)
    \<and> dkeys_eq p payload_keys \<and> dget p ''iss'' = JStr TOKEN_ISSUER \<and> dget p ''aud'' = JStr TOKEN_AUDIENCE
    \<and> (\<exists>sub sid iat expires. dget p ''sub'' = JStr sub \<and> visible 240 sub \<and> dget p ''sid'' = JStr sid \<and> visible 240 sid
        \<and> dget p ''iat'' = JInt iat \<and> dget p ''exp'' = JInt expires
        \<and> iat \<le> now + 5 \<and> now < expires \<and> expires \<le> now + 605)"
proof -
  obtain t where t: "token = JStr t" using assms by (cases token) (simp_all add: verify_def)
  have "length (split_on 46 t) = 3"
    using assms unfolding verify_def t by (cases "split_on 46 t" rule: remdups_adj.cases) (auto split: if_splits list.splits)
  then obtain h b sig where parts: "split_on 46 t = [h, b, sig]" by (auto simp: numeral_3_eq_3 length_Suc_conv)
  have tok: "t = h @ [46] @ b @ [46] @ sig" using join_split_on [of 46 t] by (simp add: parts)
  have asc: "ascii_encode (h @ [46] @ b) = Some (map of_nat (h @ [46] @ b))"
    using assms by (auto simp: verify_def t parts ascii_encode_def split: if_splits)
  obtain header v where v: "b64url_decode sig = Inr (hmac key (map of_nat (h @ [46] @ b)))"
      "decode_part loads h = Inr header" "decode_part loads b = Inr v" "check_payload now v = Inr p"
    using assms unfolding verify_def t json.case parts list.case asc option.case by (auto simp: ebind_Inr_iff split: if_splits)
  then obtain q where q: "v = JObj q" by (cases v) (simp_all add: check_payload_def)
  have "q = p \<and> dkeys_eq q payload_keys \<and> dget q ''iss'' = JStr TOKEN_ISSUER \<and> dget q ''aud'' = JStr TOKEN_AUDIENCE
    \<and> (\<exists>sub sid iat expires. dget q ''sub'' = JStr sub \<and> visible 240 sub \<and> dget q ''sid'' = JStr sid \<and> visible 240 sid
        \<and> dget q ''iat'' = JInt iat \<and> dget q ''exp'' = JInt expires
        \<and> iat \<le> now + 5 \<and> now < expires \<and> expires \<le> now + 605)"
    using v(4) unfolding q
    by (auto simp: check_payload_def ACCESS_TOKEN_TTL_SECONDS_def split: if_splits json.splits)
  then show ?thesis using t tok v q by blast
qed

theorem verified_token_sound_witness:
  "\<exists>m h b sig. demo_mint = Inr m \<and> minted_token m = h @ [46] @ b @ [46] @ sig \<and> b64url_decode sig = Inr [7]"
proof -
  obtain m where m: "demo_mint = Inr m" "length (minted_token m) \<le> 8192" "minted_expires m = 160" using demo_minted by blast
  from mint_verify [OF m(1) demo_id _ _ m(2), where now = 130 and loads = "two_loads token_header (JObj demo_payload)"]
  have "verify (\<lambda>_ _. [7]) (two_loads token_header (JObj demo_payload)) [] (JStr (minted_token m)) 130 = Inr (sort_key fst demo_payload)"
    using m(3) demo_loads by simp
  from verified_token_sound [OF this] m(1) show ?thesis by auto
qed

end
