(* ===== verification/Job_Schedules.thy ===== *)
theory Job_Schedules
  imports Interfaces
begin

text \<open>
  Schedules of jobs: \<open>agent_server.py\<close>, from \<open>normalize_job_timezone\<close> to \<open>next_job_occurrence\<close>. A job recurs at a
  fixed interval, by a cron expression, or by an RFC 5545 recurrence rule. The time zone database, the cron
  and recurrence packages and the Unicode tables are parameters.
\<close>

section \<open>Environment\<close>

text \<open>A zoned \<open>datetime\<close>: its time stamp, its wall clock, and whether \<open>datetime_exists\<close>.\<close>

record dt =
  dt_stamp :: rat
  dt_hour :: int
  dt_minute :: int
  dt_second :: int
  dt_micro :: nat
  dt_fold :: bool
  dt_exists :: bool

datatype cron_item = Star | At int

datatype cron_step = Cron_at dt | Cron_bad_date | Cron_error pystr

text \<open>
  \<open>upper\<close>, \<open>lower\<close>, \<open>digit\<close> (the value of a decimal digit) and \<open>word_char\<close> are Unicode tables; \<open>py_repr\<close> is \<open>str\<close> of a value
  that is no string, \<open>float_str\<close> is \<open>float\<close> of a string, for a finite result. \<open>zone_key\<close> is the key of
  \<open>ZoneInfo(name)\<close>, \<open>local_time\<close> is \<open>datetime.fromtimestamp\<close>. \<open>cron_next\<close> is the n-th step of an iterator, an error of
  its constructor being its first step; \<open>rule_nth\<close> and \<open>rule_after\<close> query the rule that \<open>rrulestr\<close> has built.
\<close>

record job_env =
  upper :: "pystr \<Rightarrow> pystr"
  lower :: "pystr \<Rightarrow> pystr"
  digit :: "nat \<Rightarrow> nat option"
  word_char :: "nat \<Rightarrow> bool"
  py_repr :: "json \<Rightarrow> pystr"
  float_str :: "pystr \<Rightarrow> rat option"
  zone_key :: "pystr \<Rightarrow> pystr option"
  local_time :: "pystr \<Rightarrow> rat \<Rightarrow> py_exn + dt"
  cron_valid :: "pystr \<Rightarrow> pystr option \<Rightarrow> pystr + bool"
  cron_match :: "pystr \<Rightarrow> dt \<Rightarrow> bool option"
  cron_expanded :: "pystr \<Rightarrow> dt \<Rightarrow> pystr option \<Rightarrow> cron_item list list"
  cron_next :: "pystr \<Rightarrow> dt \<Rightarrow> pystr option \<Rightarrow> nat \<Rightarrow> cron_step"
  rule_error :: "pystr \<Rightarrow> dt \<Rightarrow> pystr option"
  rule_nth :: "pystr \<Rightarrow> dt \<Rightarrow> nat \<Rightarrow> dt option"
  rule_after :: "pystr \<Rightarrow> dt \<Rightarrow> dt \<Rightarrow> bool \<Rightarrow> dt option"

definition str_of :: "job_env \<Rightarrow> json \<Rightarrow> pystr" where
  "str_of env v = (case v of JStr s \<Rightarrow> s | _ \<Rightarrow> py_repr env v)"

text \<open>\<open>str(v or "")\<close>.\<close>

definition str_or :: "job_env \<Rightarrow> json \<Rightarrow> pystr" where
  "str_or env v = str_of env (py_or v (JStr []))"

lemma str_or_JStr [simp]: "str_or env (JStr s) = s"
  by (simp add: str_or_def str_of_def py_or_def)

text \<open>\<open>float(v)\<close>, exact.\<close>

definition py_float :: "job_env \<Rightarrow> json \<Rightarrow> py_exn + rat" where
  "py_float env v = (case v of
     JStr s \<Rightarrow> (case float_str env s of None \<Rightarrow> Inl ValueError | Some r \<Rightarrow> Inr r)
   | _ \<Rightarrow> (case num_of v of None \<Rightarrow> Inl TypeError | Some r \<Rightarrow> Inr r))"

lemma py_float_num [simp]: "py_float env (JFloat r) = Inr r" "py_float env (JInt i) = Inr (of_int i)" "py_float env JNull = Inl TypeError"
  by (simp_all add: py_float_def)

section \<open>Kinds, time zones, intervals\<close>

definition VALID_JOB_SCHEDULE_KINDS :: "string list" where
  "VALID_JOB_SCHEDULE_KINDS = [''interval'', ''cron'', ''rrule'']"

definition MAX_JOB_INTERVAL_SECONDS :: int where
  "MAX_JOB_INTERVAL_SECONDS = 10 * 366 * 24 * 60 * 60"

definition normalize_job_timezone :: "job_env \<Rightarrow> json \<Rightarrow> server_error + pystr" where
  "normalize_job_timezone env v =
    (let name = strip (str_of env (py_or v (js ''UTC''))); name = (if name = [] then lit ''UTC'' else name)
     in case zone_key env name of
          None \<Rightarrow> Inl (Http 400 (lit ''invalid IANA timezone: '' @ name))
        | Some key \<Rightarrow> Inr (if key = [] then name else key))"

definition job_schedule_kind :: "job_env \<Rightarrow> jdict \<Rightarrow> string" where
  "job_schedule_kind env job =
    (let kind = lower env (strip (str_or env (dget job ''schedule_kind'')))
     in case find (\<lambda>k. lit k = kind) VALID_JOB_SCHEDULE_KINDS of
          Some k \<Rightarrow> k
        | None \<Rightarrow> if strip (str_or env (dget job ''cron_expression'')) \<noteq> [] then ''cron''
                  else if strip (str_or env (dget job ''rrule'')) \<noteq> [] then ''rrule'' else ''interval'')"

definition requested_job_schedule_kind :: "job_env \<Rightarrow> json \<Rightarrow> json \<Rightarrow> json \<Rightarrow> json \<Rightarrow> server_error + pystr" where
  "requested_job_schedule_kind env schedule_kind interval_seconds cron_expression rrule_expression =
    (let explicit = lower env (strip (str_or env schedule_kind)) in
     if explicit \<noteq> [] \<and> explicit \<notin> lit ` set VALID_JOB_SCHEDULE_KINDS
     then Inl (Http 400 (lit ''schedule_kind must be one of ['' @ [39] @ lit ''cron'' @ [39] @ lit '', '' @ [39] @ lit ''interval''
       @ [39] @ lit '', '' @ [39] @ lit ''rrule'' @ [39] @ lit '']''))
     else
       let supplied = (if interval_seconds \<noteq> JNull then [''interval''] else [])
             @ (if strip (str_or env cron_expression) \<noteq> [] then [''cron''] else [])
             @ (if strip (str_or env rrule_expression) \<noteq> [] then [''rrule''] else []);
           inferred = (case supplied of k # _ \<Rightarrow> k | [] \<Rightarrow> ''interval'')
       in if 1 < length supplied then Inl (Http 400 (lit ''choose only one of interval_seconds, cron_expression, or rrule''))
          else if explicit \<noteq> [] \<and> supplied \<noteq> [] \<and> explicit \<noteq> lit inferred
          then Inl (Http 400 (lit (hd supplied) @ lit '' schedule fields conflict with schedule_kind='' @ explicit))
          else Inr (if explicit \<noteq> [] then explicit else lit inferred))"

definition normalize_interval_seconds :: "json \<Rightarrow> server_error + int option" where
  "normalize_interval_seconds v =
    (if v = JNull then Inr None
     else case py_int v of
         Inl _ \<Rightarrow> Inl (Http 400 (lit ''interval_seconds must be a positive integer''))
       | Inr interval \<Rightarrow>
           if interval \<le> 0 then Inl (Http 400 (lit ''interval_seconds must be a positive integer''))
           else if MAX_JOB_INTERVAL_SECONDS < interval
           then Inl (Http 400 (lit ''interval_seconds must be at most '' @ dec_int MAX_JOB_INTERVAL_SECONDS))
           else Inr (Some interval))"

section \<open>Cron expressions\<close>

text \<open>\<open>(?i)\bX\b\<close>: the letter, in either case, as a word of its own.\<close>

definition lone_letter :: "job_env \<Rightarrow> nat list \<Rightarrow> pystr \<Rightarrow> bool" where
  "lone_letter env letters s = list_ex (\<lambda>i. s ! i \<in> set letters
     \<and> (i = 0 \<or> \<not> word_char env (s ! (i - 1))) \<and> (Suc i = length s \<or> \<not> word_char env (s ! Suc i))) [0..<length s]"

definition cron_hash_id :: "job_env \<Rightarrow> pystr \<Rightarrow> pystr \<Rightarrow> pystr option" where
  "cron_hash_id env expression job_id = (if lone_letter env [72, 104] expression then Some job_id else None)"

definition normalize_cron_expression :: "job_env \<Rightarrow> json \<Rightarrow> pystr \<Rightarrow> server_error + pystr" where
  "normalize_cron_expression env v job_id =
    (let expression = normalize_ws (str_or env v) in
     if expression = [] then Inl (Http 400 (lit ''cron_expression is required for a cron schedule''))
     else if lone_letter env [82, 114] expression
     then Inl (Http 400 (lit ''cron random (R) fields are not supported; use hashed (H) fields for stable schedules''))
     else case cron_valid env expression (cron_hash_id env expression job_id) of
         Inl e \<Rightarrow> Inl (Http 400 (lit ''invalid cron expression: '' @ e))
       | Inr ok \<Rightarrow> if ok then Inr expression else Inl (Http 400 (lit ''invalid cron expression'')))"

definition cron_clock_field_allows :: "cron_item list \<Rightarrow> int \<Rightarrow> bool" where
  "cron_clock_field_allows vs actual \<longleftrightarrow> Star \<in> set vs \<or> At actual \<in> set vs"

text \<open>Fields in the order minute, hour, day, month, weekday and, as the sixth, second.\<close>

definition cron_candidate_has_requested_clock :: "cron_item list list \<Rightarrow> dt \<Rightarrow> bool" where
  "cron_candidate_has_requested_clock expanded c =
    (if \<not> cron_clock_field_allows (expanded ! 0) (dt_minute c) then False
     else if \<not> cron_clock_field_allows (expanded ! 1) (dt_hour c) then False
     else cron_clock_field_allows (if 6 \<le> length expanded then expanded ! 5 else [At 0]) (dt_second c))"

section \<open>Recurrence rules\<close>

definition RRULE_FREQUENCIES :: "string list" where
  "RRULE_FREQUENCIES = [''SECONDLY'', ''MINUTELY'', ''HOURLY'', ''DAILY'', ''WEEKLY'', ''MONTHLY'', ''YEARLY'']"

definition RRULE_WEEKDAYS :: "string list" where
  "RRULE_WEEKDAYS = [''MO'', ''TU'', ''WE'', ''TH'', ''FR'', ''SA'', ''SU'']"

definition RRULE_ALLOWED_PARTS :: "string list" where
  "RRULE_ALLOWED_PARTS = [''FREQ'', ''UNTIL'', ''COUNT'', ''INTERVAL'', ''BYSECOND'', ''BYMINUTE'', ''BYHOUR'', ''BYDAY'',
     ''BYMONTHDAY'', ''BYYEARDAY'', ''BYWEEKNO'', ''BYMONTH'', ''BYSETPOS'', ''WKST'']"

definition RRULE_INTEGER_LIST_RANGES :: "(string \<times> int \<times> int \<times> bool) list" where
  "RRULE_INTEGER_LIST_RANGES = [(''BYSECOND'', 0, 59, True), (''BYMINUTE'', 0, 59, True), (''BYHOUR'', 0, 23, True),
     (''BYMONTHDAY'', -31, 31, False), (''BYYEARDAY'', -366, 366, False), (''BYWEEKNO'', -53, 53, False),
     (''BYMONTH'', 1, 12, True), (''BYSETPOS'', -366, 366, False)]"

definition MAX_RRULE_COUNT :: nat where
  "MAX_RRULE_COUNT = 10000"

definition MAX_RRULE_SCAN :: nat where
  "MAX_RRULE_SCAN = MAX_RRULE_COUNT + 10000"

type_synonym rule_parts = "(pystr \<times> pystr) list"

definition part :: "rule_parts \<Rightarrow> string \<Rightarrow> pystr option" where
  "part parts k = map_of parts (lit k)"

text \<open>The loop over \<open>expression.split(";")\<close>; \<open>raw.partition("=")\<close> cuts at the first equals sign.\<close>

fun parse_parts :: "job_env \<Rightarrow> rule_parts \<Rightarrow> pystr list \<Rightarrow> server_error + rule_parts" where
  "parse_parts env parts [] = Inr parts"
| "parse_parts env parts (raw # rest) =
    (let key = upper env (strip (takeWhile (\<lambda>c. c \<noteq> 61) raw)); item = strip (drop 1 (dropWhile (\<lambda>c. c \<noteq> 61) raw)) in
     if 61 \<notin> set raw \<or> key = [] \<or> item = [] then Inl (Http 400 (lit ''invalid RFC 5545 RRULE property''))
     else if key \<notin> lit ` set RRULE_ALLOWED_PARTS then Inl (Http 400 (lit ''unsupported RFC 5545 RRULE part: '' @ key))
     else if key \<in> fst ` set parts then Inl (Http 400 (lit ''RRULE part may appear only once: '' @ key))
     else parse_parts env (parts @ [(key, item)]) rest)"

definition all_digits :: "job_env \<Rightarrow> pystr \<Rightarrow> bool" where
  "all_digits env s \<longleftrightarrow> s \<noteq> [] \<and> list_all (\<lambda>c. digit env c \<noteq> None) s"

definition number :: "job_env \<Rightarrow> pystr \<Rightarrow> nat" where
  "number env s = foldl (\<lambda>v c. v * 10 + the (digit env c)) 0 s"

definition unsigned :: "pystr \<Rightarrow> pystr" where
  "unsigned s = (case s of c # r \<Rightarrow> if c = 43 \<or> c = 45 then r else s | [] \<Rightarrow> [])"

definition signed_number :: "job_env \<Rightarrow> pystr \<Rightarrow> int" where
  "signed_number env s = (if s \<noteq> [] \<and> hd s = 45 then - int (number env (unsigned s)) else int (number env (unsigned s)))"

definition check_count :: "job_env \<Rightarrow> rule_parts \<Rightarrow> string \<Rightarrow> server_error + unit" where
  "check_count env parts key = (case part parts key of
     None \<Rightarrow> Inr ()
   | Some v \<Rightarrow>
       if \<not> all_digits env v then Inl (Http 400 (lit ''RRULE '' @ lit key @ lit '' must be a positive integer''))
       else if 10 < length v then Inl (Http 400 (lit ''RRULE '' @ lit key @ lit '' is too large''))
       else if number env v < 1 then Inl (Http 400 (lit ''RRULE '' @ lit key @ lit '' must be at least 1''))
       else if key = ''COUNT'' \<and> MAX_RRULE_COUNT < number env v
       then Inl (Http 400 (lit ''RRULE COUNT must be at most '' @ dec_nat MAX_RRULE_COUNT))
       else Inr ())"

fun check_ranges :: "job_env \<Rightarrow> rule_parts \<Rightarrow> (string \<times> int \<times> int \<times> bool) list \<Rightarrow> server_error + unit" where
  "check_ranges env parts [] = Inr ()"
| "check_ranges env parts ((key, minimum, maximum, zero_allowed) # rest) = (case part parts key of
     None \<Rightarrow> check_ranges env parts rest
   | Some v \<Rightarrow>
       let items = split_on 44 v in
       if list_ex (\<lambda>item. \<not> all_digits env (unsigned item)) items
       then Inl (Http 400 (lit ''RRULE '' @ lit key @ lit '' contains an invalid integer''))
       else if list_ex (\<lambda>item. 3 < length (unsigned item)) items
       then Inl (Http 400 (lit ''RRULE '' @ lit key @ lit '' contains an integer that is too large''))
       else if list_ex (\<lambda>n. n < minimum \<or> maximum < n \<or> n = 0 \<and> \<not> zero_allowed) (map (signed_number env) items)
       then Inl (Http 400 (lit ''RRULE '' @ lit key @ lit '' contains a value outside its RFC 5545 range''))
       else check_ranges env parts rest)"

text \<open>\<open>([+-]?\d{1,2})?(MO|TU|WE|TH|FR|SA|SU)\<close>: the ordinal, if the item has the form.\<close>

definition byday_match :: "job_env \<Rightarrow> pystr \<Rightarrow> pystr option" where
  "byday_match env item =
    (let n = length item - 2; ordinal = take n item
     in if drop n item \<in> lit ` set RRULE_WEEKDAYS
          \<and> (ordinal = [] \<or> all_digits env (unsigned ordinal) \<and> length (unsigned ordinal) \<le> 2)
        then Some ordinal else None)"

fun check_days :: "job_env \<Rightarrow> rule_parts \<Rightarrow> pystr \<Rightarrow> pystr list \<Rightarrow> server_error + unit" where
  "check_days env parts frequency [] = Inr ()"
| "check_days env parts frequency (item # rest) = (case byday_match env item of
     None \<Rightarrow> Inl (Http 400 (lit ''RRULE BYDAY contains an invalid weekday''))
   | Some ordinal \<Rightarrow>
       let n = signed_number env ordinal in
       if ordinal = [] then check_days env parts frequency rest
       else if n = 0 \<or> 53 < \<bar>n\<bar> then Inl (Http 400 (lit ''RRULE BYDAY ordinal must be between 1 and 53''))
       else if frequency \<notin> {lit ''MONTHLY'', lit ''YEARLY''}
       then Inl (Http 400 (lit ''numeric BYDAY is only valid with MONTHLY or YEARLY''))
       else if frequency = lit ''MONTHLY'' \<and> 5 < \<bar>n\<bar>
       then Inl (Http 400 (lit ''numeric MONTHLY BYDAY must be between 1 and 5''))
       else if frequency = lit ''YEARLY'' \<and> part parts ''BYWEEKNO'' \<noteq> None
       then Inl (Http 400 (lit ''numeric BYDAY cannot be combined with YEARLY BYWEEKNO''))
       else check_days env parts frequency rest)"

text \<open>The combinations of parts that are refused at the end.\<close>

definition check_combination :: "job_env \<Rightarrow> rule_parts \<Rightarrow> pystr \<Rightarrow> server_error + unit" where
  "check_combination env parts frequency =
    (if (case part parts ''WKST'' of None \<Rightarrow> False | Some v \<Rightarrow> upper env v \<notin> lit ` set RRULE_WEEKDAYS)
     then Inl (Http 400 (lit ''RRULE WKST must be a weekday''))
     else if part parts ''BYWEEKNO'' \<noteq> None \<and> frequency \<noteq> lit ''YEARLY''
     then Inl (Http 400 (lit ''RRULE BYWEEKNO is only valid with YEARLY''))
     else if part parts ''BYMONTHDAY'' \<noteq> None \<and> frequency = lit ''WEEKLY''
     then Inl (Http 400 (lit ''RRULE BYMONTHDAY is not valid with WEEKLY''))
     else if part parts ''BYYEARDAY'' \<noteq> None \<and> frequency \<in> {lit ''DAILY'', lit ''WEEKLY'', lit ''MONTHLY''}
     then Inl (Http 400 (lit ''RRULE BYYEARDAY is not valid with '' @ frequency))
     else if part parts ''BYSETPOS'' \<noteq> None
        \<and> \<not> list_ex (\<lambda>kv. starts_with (lit ''BY'') (fst kv) \<and> fst kv \<noteq> lit ''BYSETPOS'') parts
     then Inl (Http 400 (lit ''RRULE BYSETPOS requires another BY rule part''))
     else Inr ())"

definition validate_rrule_parts :: "job_env \<Rightarrow> pystr \<Rightarrow> server_error + rule_parts" where
  "validate_rrule_parts env expression =
    ebind (parse_parts env [] (split_on 59 expression)) (\<lambda>parts.
      let frequency = upper env (case part parts ''FREQ'' of Some v \<Rightarrow> v | None \<Rightarrow> []) in
      if frequency \<notin> lit ` set RRULE_FREQUENCIES then Inl (Http 400 (lit ''RRULE requires a valid FREQ part''))
      else if part parts ''COUNT'' \<noteq> None \<and> part parts ''UNTIL'' \<noteq> None
      then Inl (Http 400 (lit ''RRULE cannot contain both COUNT and UNTIL''))
      else ebind (check_count env parts ''COUNT'') (\<lambda>_.
        ebind (check_count env parts ''INTERVAL'') (\<lambda>_.
        ebind (check_ranges env parts RRULE_INTEGER_LIST_RANGES) (\<lambda>_.
        ebind (case part parts ''BYDAY'' of None \<Rightarrow> Inr () | Some v \<Rightarrow> check_days env parts frequency (split_on 44 (upper env v))) (\<lambda>_.
        ebind (check_combination env parts frequency) (\<lambda>_. Inr parts))))))"

definition normalize_rrule_expression :: "job_env \<Rightarrow> json \<Rightarrow> pystr \<Rightarrow> rat \<Rightarrow> server_error + pystr" where
  "normalize_rrule_expression env v timezone_name schedule_start_at =
    (let expression = strip (str_or env v);
         expression = (if starts_with (lit ''RRULE:'') (upper env expression) then strip (drop 6 expression) else expression)
     in if expression = [] then Inl (Http 400 (lit ''rrule is required for an RRULE schedule''))
        else if 10 \<in> set expression \<or> 13 \<in> set expression
        then Inl (Http 400 (lit ''rrule must be one RFC 5545 RRULE property, not an iCalendar document''))
        else ebind (validate_rrule_parts env expression) (\<lambda>_.
          ebind (normalize_job_timezone env (JStr timezone_name)) (\<lambda>zone.
          ebind (raised (local_time env zone schedule_start_at)) (\<lambda>anchor.
          case rule_error env expression anchor of
            Some e \<Rightarrow> Inl (Http 400 (lit ''invalid RFC 5545 RRULE: '' @ e))
          | None \<Rightarrow> Inr expression))))"

section \<open>The next occurrence\<close>

definition due :: "bool \<Rightarrow> rat \<Rightarrow> rat \<Rightarrow> bool" where
  "due inclusive after t \<longleftrightarrow> after < t \<or> inclusive \<and> after \<le> t"

definition interval_occurrence :: "rat \<Rightarrow> int \<Rightarrow> rat \<Rightarrow> bool \<Rightarrow> rat option" where
  "interval_occurrence anchor interval after inclusive =
    (if interval \<le> 0 then None
     else if due inclusive after anchor then Some anchor
     else let elapsed = max 0 (after - anchor); steps = floor (elapsed / of_int interval);
              candidate = anchor + of_int (steps * interval)
          in Some (if candidate < after \<or> \<not> inclusive \<and> candidate \<le> after then candidate + of_int interval else candidate))"

text \<open>A local time that the clocks show once, not skipped and not the second of two.\<close>

definition plain_time :: "dt \<Rightarrow> bool" where
  "plain_time c \<longleftrightarrow> \<not> dt_fold c \<and> dt_exists c"

fun cron_scan :: "(nat \<Rightarrow> cron_step) \<Rightarrow> cron_item list list \<Rightarrow> rat \<Rightarrow> bool \<Rightarrow> nat \<Rightarrow> nat \<Rightarrow> server_error + rat option" where
  "cron_scan step expanded after inclusive i 0 = Inl (Http 400 (lit ''cron expression produced too many invalid occurrences''))"
| "cron_scan step expanded after inclusive i (Suc n) = (case step i of
     Cron_bad_date \<Rightarrow> Inr None
   | Cron_error e \<Rightarrow> Inl (Http 400 (lit ''invalid cron expression: '' @ e))
   | Cron_at c \<Rightarrow>
       if plain_time c \<and> cron_candidate_has_requested_clock expanded c \<and> due inclusive after (dt_stamp c)
       then Inr (Some (dt_stamp c))
       else cron_scan step expanded after inclusive (Suc i) n)"

definition cron_occurrence :: "job_env \<Rightarrow> pystr \<Rightarrow> pystr \<Rightarrow> dt \<Rightarrow> rat \<Rightarrow> bool \<Rightarrow> server_error + rat option" where
  "cron_occurrence env expression job_id base after inclusive =
    (let hashed = cron_hash_id env expression job_id in
     if inclusive \<and> dt_micro base = 0 \<and> (hashed = None \<or> hashed = Some []) \<and> plain_time base
        \<and> cron_match env expression base = Some True
     then Inr (Some (dt_stamp base))
     else cron_scan (cron_next env expression base hashed) (cron_expanded env expression base hashed) after inclusive 0 10000)"

text \<open>The occurrences of a rule with a \<open>COUNT\<close>: only plain times count, and only so many.\<close>

fun count_scan :: "(nat \<Rightarrow> dt option) \<Rightarrow> nat \<Rightarrow> rat \<Rightarrow> bool \<Rightarrow> nat \<Rightarrow> nat \<Rightarrow> nat \<Rightarrow> rat option" where
  "count_scan rule limit after inclusive i seen 0 = None"
| "count_scan rule limit after inclusive i seen (Suc n) = (case rule i of
     None \<Rightarrow> None
   | Some c \<Rightarrow>
       if \<not> plain_time c then count_scan rule limit after inclusive (Suc i) seen n
       else if limit < Suc seen then None
       else if due inclusive after (dt_stamp c) then Some (dt_stamp c)
       else count_scan rule limit after inclusive (Suc i) (Suc seen) n)"

fun rule_scan :: "(dt \<Rightarrow> bool \<Rightarrow> dt option) \<Rightarrow> rat \<Rightarrow> bool \<Rightarrow> dt \<Rightarrow> bool \<Rightarrow> nat \<Rightarrow> server_error + rat option" where
  "rule_scan rule after inclusive cursor include_cursor 0 = Inl (Http 400 (lit ''rrule produced too many invalid occurrences''))"
| "rule_scan rule after inclusive cursor include_cursor (Suc n) = (case rule cursor include_cursor of
     None \<Rightarrow> Inr None
   | Some c \<Rightarrow>
       if plain_time c \<and> due inclusive after (dt_stamp c) then Inr (Some (dt_stamp c))
       else rule_scan rule after inclusive c False n)"

definition rrule_occurrence :: "job_env \<Rightarrow> pystr \<Rightarrow> pystr \<Rightarrow> dt \<Rightarrow> rat \<Rightarrow> bool \<Rightarrow> server_error + rat option" where
  "rrule_occurrence env expression zone rule_anchor after inclusive =
    ebind (validate_rrule_parts env expression) (\<lambda>parts.
      let count_limit = map_option (number env) (part parts ''COUNT'');
          rule_expression = (if count_limit = None then expression
            else join [59] (filter (\<lambda>p. \<not> starts_with (lit ''COUNT='') (upper env (strip p))) (split_on 59 expression)))
      in case rule_error env rule_expression rule_anchor of
           Some e \<Rightarrow> Inl (Http 400 (lit ''invalid RFC 5545 RRULE: '' @ e))
         | None \<Rightarrow> (case count_limit of
             Some limit \<Rightarrow> Inr (count_scan (rule_nth env rule_expression rule_anchor) limit after inclusive 0 0 MAX_RRULE_SCAN)
           | None \<Rightarrow> (case local_time env zone after of
               Inl e \<Rightarrow> Inl (if e \<in> {TypeError, ValueError} then Http 400 (lit ''invalid RFC 5545 RRULE'') else Raised e)
             | Inr cursor \<Rightarrow> rule_scan (rule_after env rule_expression rule_anchor) after inclusive cursor inclusive 10000)))"

definition anchor_value :: "jdict \<Rightarrow> json" where
  "anchor_value job =
    (let v = dget job ''schedule_start_at''; v = (if v = JNull then dget job ''scheduled_run_at'' else v)
     in if v = JNull then dget job ''next_run_at'' else v)"

definition next_job_occurrence :: "job_env \<Rightarrow> jdict \<Rightarrow> rat \<Rightarrow> bool \<Rightarrow> server_error + rat option" where
  "next_job_occurrence env job after inclusive =
    (let kind = job_schedule_kind env job; av = anchor_value job; job_id = str_of env (py_or (dget job ''id'') (js ''job'')) in
     if kind = ''interval'' then
       (if av = JNull then Inr None
        else ebind (raised (py_float env av)) (\<lambda>anchor.
          if \<not> truthy (dget job ''interval_seconds'') then Inr (if due inclusive after anchor then Some anchor else None)
          else ebind (raised (py_int (dget job ''interval_seconds''))) (\<lambda>interval.
            Inr (interval_occurrence anchor interval after inclusive))))
     else
       ebind (normalize_job_timezone env (dget job ''timezone'')) (\<lambda>zone.
       ebind (if av = JNull then Inr after else raised (py_float env av)) (\<lambda>anchor.
       if kind = ''cron'' then
         ebind (normalize_cron_expression env (dget job ''cron_expression'') job_id) (\<lambda>expression.
         let after = max after anchor in
         ebind (raised (local_time env zone after)) (\<lambda>base.
           cron_occurrence env expression job_id base after inclusive))
       else
         ebind (normalize_rrule_expression env (dget job ''rrule'') zone anchor) (\<lambda>expression.
         ebind (raised (local_time env zone anchor)) (\<lambda>rule_anchor.
           rrule_occurrence env expression zone rule_anchor after inclusive)))))"

section \<open>Occurrences lie after the given time\<close>

text \<open>The first time on the grid of an interval schedule.\<close>

definition grid :: "rat \<Rightarrow> int \<Rightarrow> nat \<Rightarrow> rat" where
  "grid anchor interval k = anchor + of_int interval * of_nat k"

lemma interval_step:
  fixes elapsed :: rat
  assumes "0 < n" "0 \<le> elapsed"
  shows "of_int (floor (elapsed / of_int n) * n) \<le> elapsed" "elapsed < of_int (floor (elapsed / of_int n) * n) + of_int n"
    "0 \<le> floor (elapsed / of_int n)"
proof -
  let ?q = "floor (elapsed / of_int n)"
  have n: "(0::rat) < of_int n" using assms by simp
  have "of_int ?q \<le> elapsed / of_int n" "elapsed / of_int n < of_int ?q + 1" by linarith+
  then have lo: "of_int ?q * of_int n \<le> elapsed" and hi: "elapsed < (of_int ?q + 1) * of_int n"
    by (simp_all only: pos_le_divide_eq [OF n] pos_divide_less_eq [OF n])
  show "of_int (?q * n) \<le> elapsed" using lo by simp
  show "elapsed < of_int (?q * n) + of_int n" using hi by (simp add: algebra_simps)
  show "0 \<le> ?q" using assms by simp
qed

lemma grid_before:
  assumes "0 < n" "0 \<le> q" "t = a + of_int (q * n)"
  shows "\<exists>k. t = grid a n k" "\<And>j. grid a n j < t + of_int n \<Longrightarrow> grid a n j \<le> t" "\<exists>k. t + of_int n = grid a n k"
proof -
  have t: "t = grid a n (nat q)" using assms by (simp add: grid_def algebra_simps)
  show "\<exists>k. t = grid a n k" "\<exists>k. t + of_int n = grid a n k"
    using t by (blast, intro exI [where x = "Suc (nat q)"]) (simp add: grid_def algebra_simps)
  show "grid a n j \<le> t" if "grid a n j < t + of_int n" for j
  proof -
    have "of_int n * (of_nat j :: rat) < of_int n * of_nat (Suc (nat q))" using that t by (simp add: grid_def algebra_simps)
    then have "j < Suc (nat q)" using assms(1) by (simp add: mult_less_cancel_left_pos)
    then show ?thesis using assms(1) by (simp add: t grid_def mult_left_mono)
  qed
qed

lemma interval_occurrence_least:
  assumes "0 < n"
  shows "\<exists>k. interval_occurrence a n after inc = Some (grid a n k) \<and> due inc after (grid a n k)
    \<and> (\<forall>j. due inc after (grid a n j) \<longrightarrow> grid a n k \<le> grid a n j)"
proof (cases "due inc after a")
  case True
  have "a \<le> grid a n j" for j using assms by (simp add: grid_def)
  then show ?thesis using assms True by (intro exI [where x = 0]) (simp add: interval_occurrence_def grid_def)
next
  case False
  then have le: "a \<le> after" by (simp add: due_def)
  define q where "q = floor ((after - a) / of_int n)"
  define t where "t = a + of_int (q * n)"
  have step: "t \<le> after" "after < t + of_int n" "0 \<le> q"
    using interval_step [OF assms, of "after - a"] le by (simp_all add: t_def q_def)
  note on_grid = grid_before [OF assms step(3) t_def]
  have occ: "interval_occurrence a n after inc = Some (if t < after \<or> \<not> inc \<and> t \<le> after then t + of_int n else t)"
    using assms False le by (simp add: interval_occurrence_def Let_def t_def q_def max_def)
  show ?thesis
  proof (cases "t < after \<or> \<not> inc \<and> t \<le> after")
    case True
    obtain k where k: "t + of_int n = grid a n k" using on_grid(3) by blast
    have "grid a n k \<le> grid a n j" if "due inc after (grid a n j)" for j
      using on_grid(2) [of j] that True step k by (force simp: due_def)
    then show ?thesis using occ True k step by (intro exI [where x = k]) (simp add: due_def)
  next
    case other: False
    obtain k where "t = grid a n k" using on_grid(1) by blast
    then show ?thesis using occ other step by (intro exI [where x = k]) (auto simp: due_def)
  qed
qed

lemma cron_scan_due: "cron_scan step expanded after inc i n = Inr (Some t) \<Longrightarrow> due inc after t"
  by (induction n arbitrary: i) (auto split: cron_step.splits if_splits)

lemma count_scan_due: "count_scan rule limit after inc i seen n = Some t \<Longrightarrow> due inc after t"
  by (induction n arbitrary: i seen) (auto split: option.splits if_splits)

lemma rule_scan_due: "rule_scan rule after inc cursor ic n = Inr (Some t) \<Longrightarrow> due inc after t"
  by (induction n arbitrary: cursor ic) (auto split: option.splits if_splits)

lemma interval_occurrence_due: "interval_occurrence a n after inc = Some t \<Longrightarrow> due inc after t"
  using interval_occurrence_least [of n a after inc] by (cases "0 < n") (auto simp: interval_occurrence_def)

lemma rrule_occurrence_due: "rrule_occurrence env expression zone anchor after inc = Inr (Some t) \<Longrightarrow> due inc after t"
  by (auto simp: rrule_occurrence_def ebind_Inr_iff Let_def split: option.splits sum.splits dest: count_scan_due rule_scan_due)

text \<open>A job is never scheduled at or before the time after which it was asked for: whatever its
  kind, time zone, expression and anchor, a next occurrence lies strictly later.\<close>

lemma next_occurrence_later:
  assumes "next_job_occurrence env job after False = Inr (Some t)"
  shows "after < t"
proof -
  have cron: "after < t" if "cron_occurrence env x i b (max after a) False = Inr (Some t)" for x i b a
    using that by (auto simp: cron_occurrence_def Let_def due_def dest: cron_scan_due)
  have rrule: "after < t" if "rrule_occurrence env x z r after False = Inr (Some t)" for x z r
    using rrule_occurrence_due [OF that] by (simp add: due_def)
  have interval: "after < t" if "interval_occurrence a n after False = Some t" for a n
    using interval_occurrence_due [OF that] by (simp add: due_def)
  show ?thesis
    using assms by (auto simp: next_job_occurrence_def Let_def ebind_Inr_iff due_def split: if_splits
        dest: cron cron [where a = after, simplified] rrule interval)
qed

interpretation occurrences: later_schedule "\<lambda>job t. next_job_occurrence env job t False" for env
  using next_occurrence_later by unfold_locales

text \<open>C34. An interval job keeps to its grid. Its next occurrence is the earliest of the times anchor, anchor
  plus one interval, anchor plus two, and so on, that lies after the given time (or at it, when asked for
  inclusively), so no occurrence drifts with the time at which runs complete.\<close>

theorem interval_schedule_grid:
  assumes "job_schedule_kind env job = ''interval''"
    and "py_float env (anchor_value job) = Inr a" "anchor_value job \<noteq> JNull"
    and "py_int (dget job ''interval_seconds'') = Inr n" "truthy (dget job ''interval_seconds'')" "0 < n"
  shows "\<exists>k. next_job_occurrence env job after inc = Inr (Some (grid a n k)) \<and> due inc after (grid a n k)
    \<and> (\<forall>j. due inc after (grid a n j) \<longrightarrow> grid a n k \<le> grid a n j)"
proof -
  have "next_job_occurrence env job after inc = Inr (interval_occurrence a n after inc)"
    using assms by (simp add: next_job_occurrence_def raised_def)
  then show ?thesis using interval_occurrence_least [OF assms(6)] by auto
qed

section \<open>Accepted recurrence rules\<close>

lemma parse_parts_keys:
  assumes "parse_parts env parts raws = Inr out" "distinct (map fst parts)" "set (map fst parts) \<subseteq> lit ` set RRULE_ALLOWED_PARTS"
  shows "distinct (map fst out) \<and> set (map fst out) \<subseteq> lit ` set RRULE_ALLOWED_PARTS \<and> length out = length parts + length raws"
  using assms
proof (induction env parts raws rule: parse_parts.induct)
  case (2 env parts raw rest)
  let ?key = "upper env (strip (takeWhile (\<lambda>c. c \<noteq> 61) raw))" and ?item = "strip (drop 1 (dropWhile (\<lambda>c. c \<noteq> 61) raw))"
  have ok: "\<not> (61 \<notin> set raw \<or> ?key = [] \<or> ?item = [])" "?key \<in> lit ` set RRULE_ALLOWED_PARTS" "?key \<notin> fst ` set parts"
    and tail: "parse_parts env (parts @ [(?key, ?item)]) rest = Inr out"
    using 2(2) by (simp_all add: Let_def split: if_splits)
  show ?case using 2(1) [OF refl refl _ _ _ tail] ok 2(3,4) by auto
qed simp

lemma check_count_ok:
  assumes "check_count env parts key = Inr u" "part parts key = Some v"
  shows "all_digits env v \<and> 1 \<le> number env v \<and> (key = ''COUNT'' \<longrightarrow> number env v \<le> MAX_RRULE_COUNT)"
  using assms by (auto simp: check_count_def split: if_splits)

lemma check_ranges_ok:
  assumes "check_ranges env parts ranges = Inr u" "(key, lo, hi, zero) \<in> set ranges" "part parts key = Some v"
  shows "\<forall>item \<in> set (split_on 44 v). lo \<le> signed_number env item \<and> signed_number env item \<le> hi
    \<and> (signed_number env item = 0 \<longrightarrow> zero)"
  using assms
proof (induction env parts ranges rule: check_ranges.induct)
  case (2 env parts key' lo' hi' zero' rest)
  show ?case
  proof (cases "part parts key'")
    case None
    then show ?thesis using 2 by auto
  next
    case (Some w)
    let ?bad = "\<lambda>n. n < lo' \<or> hi' < n \<or> n = 0 \<and> \<not> zero'"
    have "\<not> list_ex ?bad (map (signed_number env) (split_on 44 w))" and rest: "check_ranges env parts rest = Inr u"
      using 2(3) Some by (simp_all add: Let_def split: if_splits)
    then have in_range: "\<not> ?bad (signed_number env item)" if "item \<in> set (split_on 44 w)" for item
      using that by (simp add: list_ex_iff)
    have ih: "(key, lo, hi, zero) \<in> set rest \<Longrightarrow> ?thesis"
      using 2(2) [OF Some refl] 2(3) Some rest 2(5) by (simp add: Let_def split: if_splits)
    show ?thesis using 2(4,5) Some in_range ih by (force simp: not_less)
  qed
qed simp

text \<open>C35. A recurrence rule that passes validation has only allowed parts, each once and none dropped, a
  frequency, not both \<open>COUNT\<close> and \<open>UNTIL\<close>, a \<open>COUNT\<close> between 1 and 10000, a positive \<open>INTERVAL\<close>, and in every list of numbers only
  values within the RFC 5545 range of the part.\<close>

theorem accepted_rule_bounded:
  assumes ok: "validate_rrule_parts env expression = Inr parts" and "upper env [] = []"
  shows "distinct (map fst parts) \<and> set (map fst parts) \<subseteq> lit ` set RRULE_ALLOWED_PARTS
    \<and> length parts = length (split_on 59 expression)
    \<and> (\<exists>v. part parts ''FREQ'' = Some v \<and> upper env v \<in> lit ` set RRULE_FREQUENCIES)
    \<and> (part parts ''COUNT'' = None \<or> part parts ''UNTIL'' = None)
    \<and> (\<forall>v. part parts ''COUNT'' = Some v \<longrightarrow> 1 \<le> number env v \<and> number env v \<le> 10000)
    \<and> (\<forall>v. part parts ''INTERVAL'' = Some v \<longrightarrow> 1 \<le> number env v)
    \<and> (\<forall>(key, lo, hi, zero) \<in> set RRULE_INTEGER_LIST_RANGES. \<forall>v. part parts key = Some v \<longrightarrow>
         (\<forall>item \<in> set (split_on 44 v). lo \<le> signed_number env item \<and> signed_number env item \<le> hi
            \<and> (signed_number env item = 0 \<longrightarrow> zero)))"
proof -
  let ?freq = "upper env (case part parts ''FREQ'' of Some v \<Rightarrow> v | None \<Rightarrow> [])"
  have parsed: "parse_parts env [] (split_on 59 expression) = Inr parts"
    and freq: "?freq \<in> lit ` set RRULE_FREQUENCIES"
    and once: "\<not> (part parts ''COUNT'' \<noteq> None \<and> part parts ''UNTIL'' \<noteq> None)"
    and count: "check_count env parts ''COUNT'' = Inr ()" "check_count env parts ''INTERVAL'' = Inr ()"
    and ranges: "check_ranges env parts RRULE_INTEGER_LIST_RANGES = Inr ()"
    using ok by (auto simp: validate_rrule_parts_def ebind_Inr_iff Let_def split: if_splits)
  have "[] \<notin> lit ` set RRULE_FREQUENCIES" by (auto simp: RRULE_FREQUENCIES_def)
  then have "\<exists>v. part parts ''FREQ'' = Some v \<and> upper env v \<in> lit ` set RRULE_FREQUENCIES"
    using freq assms(2) by (cases "part parts ''FREQ''") auto
  moreover have "distinct (map fst parts)" "set (map fst parts) \<subseteq> lit ` set RRULE_ALLOWED_PARTS"
    "length parts = length (split_on 59 expression)"
    using parse_parts_keys [OF parsed] by simp_all
  moreover have "part parts ''COUNT'' = None \<or> part parts ''UNTIL'' = None" using once by blast
  moreover have "\<forall>v. part parts ''COUNT'' = Some v \<longrightarrow> 1 \<le> number env v \<and> number env v \<le> 10000"
    using check_count_ok [OF count(1)] by (simp add: MAX_RRULE_COUNT_def)
  moreover have "\<forall>v. part parts ''INTERVAL'' = Some v \<longrightarrow> 1 \<le> number env v" using check_count_ok [OF count(2)] by blast
  moreover have "\<forall>(key, lo, hi, zero) \<in> set RRULE_INTEGER_LIST_RANGES. \<forall>v. part parts key = Some v \<longrightarrow>
         (\<forall>item \<in> set (split_on 44 v). lo \<le> signed_number env item \<and> signed_number env item \<le> hi
            \<and> (signed_number env item = 0 \<longrightarrow> zero))"
    using check_ranges_ok [OF ranges] by blast
  ultimately show ?thesis by (intro conjI)
qed

section \<open>Examples\<close>

text \<open>ASCII tables, one time zone, a clock without gaps.\<close>

definition ascii_upper :: "pystr \<Rightarrow> pystr" where
  "ascii_upper s = map (\<lambda>c. if is_lower c then c - 32 else c) s"

definition utc_time :: "rat \<Rightarrow> dt" where
  "utc_time t = \<lparr>dt_stamp = t, dt_hour = floor (t / 3600) mod 24, dt_minute = floor (t / 60) mod 60, dt_second = floor t mod 60,
     dt_micro = 0, dt_fold = False, dt_exists = True\<rparr>"

definition utc_env :: job_env where
  "utc_env = \<lparr>upper = ascii_upper, lower = map (\<lambda>c. if is_upper c then c + 32 else c),
     digit = (\<lambda>c. if is_digit c then Some (c - 48) else None), word_char = is_alnum, py_repr = (\<lambda>_. []), float_str = (\<lambda>_. None),
     zone_key = (\<lambda>name. if name = lit ''UTC'' then Some name else None), local_time = (\<lambda>_ t. Inr (utc_time t)),
     cron_valid = (\<lambda>_ _. Inr True), cron_match = (\<lambda>_ _. Some False), cron_expanded = (\<lambda>_ _ _. [[Star], [Star], [Star], [Star], [Star]]),
     cron_next = (\<lambda>_ base _ i. Cron_at (utc_time (of_int ((floor (dt_stamp base / 60) + 1 + int i) * 60)))),
     rule_error = (\<lambda>_ _. None), rule_nth = (\<lambda>_ a i. Some (utc_time (dt_stamp a + of_nat i * 86400))),
     rule_after = (\<lambda>_ _ _ _. None)\<rparr>"

definition hourly_job :: jdict where
  "hourly_job = [(lit ''id'', js ''job_1''), (lit ''schedule_kind'', js ''interval''), (lit ''interval_seconds'', JInt 3600),
     (lit ''schedule_start_at'', JFloat 1000)]"

lemmas ascii_eval = utc_env_def ascii_upper_def lit_def strip_def lstrip_def rstrip_def is_space_def is_lower_def is_digit_def
  RRULE_ALLOWED_PARTS_def RRULE_FREQUENCIES_def

lemma utc_interval_kind:
  assumes "dget job ''schedule_kind'' = js ''interval''"
  shows "job_schedule_kind utc_env job = ''interval''"
  unfolding job_schedule_kind_def assms str_or_JStr by (simp add: VALID_JOB_SCHEDULE_KINDS_def ascii_eval is_upper_def)

lemma hourly_facts:
  "job_schedule_kind utc_env hourly_job = ''interval''" "py_float utc_env (anchor_value hourly_job) = Inr 1000"
  "anchor_value hourly_job \<noteq> JNull" "py_int (dget hourly_job ''interval_seconds'') = Inr 3600"
  "truthy (dget hourly_job ''interval_seconds'')"
  by (rule utc_interval_kind) (simp_all add: hourly_job_def anchor_value_def Let_def)

theorem interval_schedule_grid_witness:
  "\<exists>k. next_job_occurrence utc_env hourly_job 5000 False = Inr (Some (grid 1000 3600 k)) \<and> due False 5000 (grid 1000 3600 k)"
  using interval_schedule_grid [OF hourly_facts, of 5000 False] by auto

definition daily_rule :: pystr where
  "daily_rule = lit ''FREQ=DAILY;COUNT=3''"

definition daily_parts :: rule_parts where
  "daily_parts = [(lit ''FREQ'', lit ''DAILY''), (lit ''COUNT'', lit ''3'')]"

lemma parse_parts_step:
  assumes "upper env (strip (takeWhile (\<lambda>c. c \<noteq> 61) raw)) = key" "strip (drop 1 (dropWhile (\<lambda>c. c \<noteq> 61) raw)) = item"
    and "61 \<in> set raw" "key \<noteq> []" "item \<noteq> []" "key \<in> lit ` set RRULE_ALLOWED_PARTS" "key \<notin> fst ` set parts"
  shows "parse_parts env parts (raw # rest) = parse_parts env (parts @ [(key, item)]) rest"
  using assms by simp

lemma daily_parsed: "parse_parts utc_env [] (split_on 59 daily_rule) = Inr daily_parts"
proof -
  have cut: "split_on 59 daily_rule = [lit ''FREQ=DAILY'', lit ''COUNT=3'']" by (simp add: daily_rule_def lit_def)
  have freq: "parse_parts utc_env [] (lit ''FREQ=DAILY'' # rest) = parse_parts utc_env ([] @ [(lit ''FREQ'', lit ''DAILY'')]) rest" for rest
    by (rule parse_parts_step) (simp_all add: ascii_eval)
  have count: "parse_parts utc_env [(lit ''FREQ'', lit ''DAILY'')] (lit ''COUNT=3'' # rest)
      = parse_parts utc_env ([(lit ''FREQ'', lit ''DAILY'')] @ [(lit ''COUNT'', lit ''3'')]) rest" for rest
    by (rule parse_parts_step) (simp_all add: ascii_eval)
  show ?thesis using freq count by (simp add: cut daily_parts_def del: parse_parts.simps(2))
qed

lemma daily_checked:
  "part daily_parts ''COUNT'' = Some (lit ''3'')" "part daily_parts ''FREQ'' = Some (lit ''DAILY'')" "part daily_parts ''UNTIL'' = None"
  "part daily_parts ''BYDAY'' = None" "upper utc_env (lit ''DAILY'') = lit ''DAILY''"
  "check_count utc_env daily_parts ''COUNT'' = Inr ()" "check_count utc_env daily_parts ''INTERVAL'' = Inr ()"
  "check_ranges utc_env daily_parts RRULE_INTEGER_LIST_RANGES = Inr ()" "check_combination utc_env daily_parts (lit ''DAILY'') = Inr ()"
  by (simp_all add: part_def daily_parts_def check_count_def check_combination_def RRULE_INTEGER_LIST_RANGES_def all_digits_def
      number_def MAX_RRULE_COUNT_def ascii_eval)

theorem accepted_rule_bounded_witness:
  "validate_rrule_parts utc_env daily_rule = Inr daily_parts \<and> number utc_env (lit ''3'') \<le> 10000"
proof -
  have ok: "validate_rrule_parts utc_env daily_rule = Inr daily_parts"
    unfolding validate_rrule_parts_def daily_parsed
    by (simp add: daily_checked RRULE_FREQUENCIES_def)
  have up: "upper utc_env [] = []" by (simp add: ascii_eval)
  show ?thesis using accepted_rule_bounded [OF ok up] ok daily_checked(1) by blast
qed

end
