(* ===== verification/Scheduled_Jobs.thy ===== *)
theory Scheduled_Jobs
  imports Job_Schedules Event_Log "HOL-Library.List_Lexorder"
begin

text \<open>
  The store of scheduled jobs: \<open>JobStore\<close> of \<open>agent_server.py\<close>. Every operation runs under the store's lock; it
  mutates jobs in memory and then saves the registry, and an exception leaves the mutations made so far.
  Recorded are admitted runs, deferrals, parking for a server update, pauses, deletions, and the
  reconciliation after a restart with the runs that the event logs prove.
\<close>

section \<open>State\<close>

text \<open>\<open>registry\<close> is the job file. An event that is appended for a chat is given by the chat, its type, the job
  it is projected from and its message.\<close>

record job_store =
  jobs :: "(pystr \<times> jdict) list"
  registry :: "(pystr \<times> jdict) list"
  job_events :: "(pystr \<times> string \<times> jdict \<times> pystr) list"

text \<open>What an operation reads from outside: the time, two readings of \<open>now_iso\<close>, a new revision, and whether the
  registry can be written.\<close>

record clk =
  clk_now :: rat
  clk_iso :: pystr
  clk_iso_end :: pystr
  clk_revision :: pystr
  clk_saves :: bool


definition put_job :: "pystr \<Rightarrow> jdict \<Rightarrow> job_store \<Rightarrow> job_store" where
  "put_job jid job st = st\<lparr>jobs := AList.update jid job (jobs st)\<rparr>"

definition save :: "clk \<Rightarrow> job_store \<Rightarrow> 'a \<Rightarrow> job_store \<times> (server_error + 'a)" where
  "save clk st x = (if clk_saves clk then (st\<lparr>registry := jobs st\<rparr>, Inr x) else (st, Inl (Raised OSError)))"

definition dpops :: "jdict \<Rightarrow> string list \<Rightarrow> jdict" where
  "dpops d ks = foldl dpop d ks"

definition clear_job_runtime_unavailable_deferral :: "jdict \<Rightarrow> jdict" where
  "clear_job_runtime_unavailable_deferral job = dpops job [''_runtime_unavailable_occurrence'', ''_runtime_unavailable_defer_count'']"

definition clear_job_update_park :: "jdict \<Rightarrow> jdict" where
  "clear_job_update_park job = dpops job [''_update_park_schedule_id'', ''_update_park_occurrence'',
     ''_update_park_original_next_run_at'', ''_update_park_revision'']"

definition scheduled_value :: "jdict \<Rightarrow> json" where
  "scheduled_value job = (let v = dget job ''scheduled_run_at'' in if v = JNull then dget job ''next_run_at'' else v)"

text \<open>\<open>float(v) == t\<close> with \<open>TypeError\<close> and \<open>ValueError\<close> suppressed.\<close>

definition float_is :: "job_env \<Rightarrow> json \<Rightarrow> rat \<Rightarrow> bool" where
  "float_is env v t \<longleftrightarrow> py_float env v = Inr t"

definition opt_float :: "rat option \<Rightarrow> json" where
  "opt_float r = (case r of None \<Rightarrow> JNull | Some t \<Rightarrow> JFloat t)"

section \<open>Admitted runs\<close>

definition no_more_runs :: "jdict \<Rightarrow> jdict" where
  "no_more_runs job = dset (dset (dset job ''enabled'' (JBool False)) ''next_run_at'' JNull) ''scheduled_run_at'' JNull"

text \<open>The fields of an admitted run, before it is counted.\<close>

definition record_run :: "clk \<Rightarrow> bool \<Rightarrow> rat \<Rightarrow> jdict \<Rightarrow> jdict" where
  "record_run clk manual admitted job =
    (let job = dset job ''last_run_at'' (JStr (clk_iso clk)) in
     if manual then
       dpops (dset (dset job ''last_manual_run_at'' (dget job ''last_run_at'')) ''manual_run_pending'' (JBool False))
         [''manual_run_requested_at'', ''manual_run_defer_reason'', ''_last_manual_defer_event_at'', ''last_manual_run_error'',
          ''last_manual_run_error_at'']
     else dset job ''last_scheduled_run_at'' (JFloat admitted))"

definition recurring :: "job_env \<Rightarrow> jdict \<Rightarrow> int \<Rightarrow> int option \<Rightarrow> bool" where
  "recurring env job run_count max_runs \<longleftrightarrow> job_schedule_kind env job \<in> {''cron'', ''rrule''} \<or> truthy (dget job ''loop'')
     \<or> dget job ''interval_seconds'' \<noteq> JNull \<and> (case max_runs of None \<Rightarrow> False | Some m \<Rightarrow> run_count < m)"

text \<open>The part of \<open>mark_ran\<close> that moves the schedule of a counted run; an error leaves the job as it is.\<close>

definition advance_schedule :: "job_env \<Rightarrow> clk \<Rightarrow> bool \<Rightarrow> bool \<Rightarrow> rat \<Rightarrow> json \<Rightarrow> int \<Rightarrow> int option \<Rightarrow> jdict \<Rightarrow> server_error + jdict" where
  "advance_schedule env clk manual advance admitted current run_count max_runs job =
    (let limit_reached = (case max_runs of None \<Rightarrow> False | Some m \<Rightarrow> m \<le> run_count);
         recurs = recurring env job run_count max_runs; enabled = truthy (dget job ''enabled'');
         preserve = (manual \<and> enabled \<and> current \<noteq> JNull \<and> recurs \<and> \<not> limit_reached
           \<and> (case py_float env current of Inr t \<Rightarrow> clk_now clk < t | Inl _ \<Rightarrow> False))
     in if preserve then Inr job
        else if advance \<and> enabled \<and> recurs \<and> \<not> limit_reached then
          ebind (next_job_occurrence env job (max admitted (clk_now clk)) False) (\<lambda>n.
            let job = dset (dset job ''next_run_at'' (opt_float n)) ''scheduled_run_at'' (opt_float n)
            in Inr (if n = None then dset job ''enabled'' (JBool False) else job))
        else if limit_reached \<or> advance \<and> (\<not> enabled \<or> \<not> recurs) then Inr (no_more_runs job)
        else Inr job)"

definition finish_mark :: "clk \<Rightarrow> jdict \<Rightarrow> jdict" where
  "finish_mark clk job = dset (dset (clear_job_update_park (clear_job_runtime_unavailable_deferral job))
     ''updated_at'' (JStr (clk_iso_end clk))) ''_revision'' (JStr (clk_revision clk))"

definition admitted_at :: "job_env \<Rightarrow> clk \<Rightarrow> rat option \<Rightarrow> jdict \<Rightarrow> py_exn + rat" where
  "admitted_at env clk scheduled job = (case scheduled of
     Some t \<Rightarrow> Inr t
   | None \<Rightarrow> py_float env (py_or (py_or (dget job ''scheduled_run_at'') (dget job ''next_run_at'')) (JFloat (clk_now clk))))"

text \<open>\<open>max_runs\<close> when it is set.\<close>

definition run_limit :: "jdict \<Rightarrow> py_exn + int option" where
  "run_limit job = (if dget job ''max_runs'' = JNull then Inr None
     else case py_int (dget job ''max_runs'') of Inl e \<Rightarrow> Inl e | Inr m \<Rightarrow> Inr (Some m))"

definition mark_ran :: "job_env \<Rightarrow> clk \<Rightarrow> pystr \<Rightarrow> bool \<Rightarrow> pystr option \<Rightarrow> rat option \<Rightarrow> bool \<Rightarrow> job_store
    \<Rightarrow> job_store \<times> (server_error + jdict option)" where
  "mark_ran env clk jid manual expected_revision scheduled require_exact_match st =
    (case map_of (jobs st) jid of
       None \<Rightarrow> (st, Inr None)
     | Some job \<Rightarrow>
         if job = [] then (st, Inr None)
         else case admitted_at env clk scheduled job of
             Inl e \<Rightarrow> (st, Inl (Raised e))
           | Inr admitted \<Rightarrow>
               let current = scheduled_value job;
                   same_revision = (case expected_revision of None \<Rightarrow> True | Some r \<Rightarrow> dget job ''_revision'' = JStr r);
                   same_occurrence = (current \<noteq> JNull \<and> float_is env current admitted)
               in if require_exact_match \<and> (\<not> same_revision \<or> manual \<and> \<not> truthy (dget job ''manual_run_pending'')
                      \<or> \<not> manual \<and> \<not> same_occurrence)
                  then (st, Inr None)
                  else let job = record_run clk manual admitted job
                  in case py_int (py_or (dget job ''run_count'') (JInt 0)) of
                       Inl e \<Rightarrow> (put_job jid job st, Inl (Raised e))
                     | Inr n \<Rightarrow>
                         let job = dset job ''run_count'' (JInt (n + 1))
                         in case run_limit job of
                              Inl e \<Rightarrow> (put_job jid job st, Inl (Raised e))
                            | Inr limit \<Rightarrow>
                                (case advance_schedule env clk manual (same_revision \<or> same_occurrence) admitted current (n + 1) limit job of
                                   Inl e \<Rightarrow> (put_job jid job st, Inl e)
                                 | Inr job \<Rightarrow>
                                     let job = finish_mark clk job
                                     in save clk (put_job jid job st) (Some job)))"

section \<open>Reconciliation after a restart\<close>

text \<open>The revision, the canonical occurrence and the pending manual run by which a job's admission is recognised.\<close>

type_synonym expectation = "pystr \<times> rat option \<times> bool"

definition expected_admission :: "job_env \<Rightarrow> jdict \<Rightarrow> (pystr \<times> expectation) option" where
  "expected_admission env job =
    (let session_id = str_or env (dget job ''session_id''); revision = str_or env (dget job ''_revision'');
         manual_pending = truthy (dget job ''manual_run_pending'');
         occurrence = (case py_float env (scheduled_value job) of Inr t \<Rightarrow> Some t | Inl _ \<Rightarrow> None)
     in if session_id = [] \<or> \<not> starts_with (lit ''job_rev_'') revision \<or> occurrence = None \<and> \<not> manual_pending then None
        else Some (session_id, revision, occurrence, manual_pending))"

definition expected_in :: "job_env \<Rightarrow> (pystr \<times> jdict) list \<Rightarrow> pystr \<Rightarrow> (pystr \<times> expectation) list" where
  "expected_in env all_jobs session_id = concat (map (\<lambda>(jid, job). case expected_admission env job of
     Some (sid, ex) \<Rightarrow> if sid = session_id then [(jid, ex)] else [] | None \<Rightarrow> []) all_jobs)"

definition expected_sessions :: "job_env \<Rightarrow> (pystr \<times> jdict) list \<Rightarrow> pystr list" where
  "expected_sessions env all_jobs = sort (remdups (concat (map (\<lambda>(jid, job). case expected_admission env job of
     Some (sid, ex) \<Rightarrow> [sid] | None \<Rightarrow> []) all_jobs)))"

text \<open>The occurrence that a durable \<open>turn_started\<close> proves for a pending job.\<close>

definition admits :: "job_env \<Rightarrow> expectation \<Rightarrow> jdict \<Rightarrow> bool" where
  "admits env ex event = (case ex of (revision, occurrence, manual_pending) \<Rightarrow>
     str_or env (dget event ''job_revision'') = revision
     \<and> (case py_float env (dget event ''job_scheduled_run_at'') of
          Inl _ \<Rightarrow> False
        | Inr t \<Rightarrow> if dget event ''manual_run'' = JBool True then manual_pending else occurrence = Some t))"

fun scan_admissions :: "job_env \<Rightarrow> (pystr \<times> expectation) list \<Rightarrow> jdict list \<Rightarrow> (pystr \<times> jdict) list" where
  "scan_admissions env pending [] = []"
| "scan_admissions env pending (event # events) =
    (if pending = [] then []
     else if dget event ''type'' \<noteq> js ''turn_started'' \<or> dget event ''purpose'' \<noteq> js ''scheduled_job''
     then scan_admissions env pending events
     else let jid = str_or env (dget event ''job_id'')
          in case map_of pending jid of
               None \<Rightarrow> scan_admissions env pending events
             | Some ex \<Rightarrow>
                 if admits env ex event then (jid, event) # scan_admissions env (AList.delete jid pending) events
                 else scan_admissions env pending events)"

definition durable_scheduled_job_admissions ::
  "job_env \<Rightarrow> codec \<Rightarrow> (pystr \<Rightarrow> bytes option) \<Rightarrow> (pystr \<times> jdict) list \<Rightarrow> (pystr \<times> jdict) list" where
  "durable_scheduled_job_admissions env cd logs all_jobs =
    concat (map (\<lambda>sid. scan_admissions env (expected_in env all_jobs sid) (reversed_jsonl_events cd (logs sid))) (expected_sessions env all_jobs))"

text \<open>The marks, in the order of the job identifiers; \<open>clks i\<close> is read by the i-th. The result counts the jobs that were marked.\<close>

fun mark_all :: "job_env \<Rightarrow> (nat \<Rightarrow> clk) \<Rightarrow> nat \<Rightarrow> (pystr \<times> jdict) list \<Rightarrow> job_store \<Rightarrow> job_store \<times> (server_error + nat)" where
  "mark_all env clks i [] st = (st, Inr 0)"
| "mark_all env clks i ((jid, event) # rest) st =
    (case py_float env (dget event ''job_scheduled_run_at'') of
       Inl e \<Rightarrow> (st, Inl (Raised e))
     | Inr t \<Rightarrow>
         (case mark_ran env (clks i) jid (dget event ''manual_run'' = JBool True) (Some (str_or env (dget event ''job_revision'')))
             (Some t) True st of
            (st, Inl e) \<Rightarrow> (st, Inl e)
          | (st, Inr marked) \<Rightarrow>
              (case mark_all env clks (Suc i) rest st of
                 (st, Inl e) \<Rightarrow> (st, Inl e)
               | (st, Inr n) \<Rightarrow> (st, Inr (if marked = None then n else Suc n)))))"

definition reconcile_admitted_runs_after_restart ::
  "job_env \<Rightarrow> codec \<Rightarrow> (pystr \<Rightarrow> bytes option) \<Rightarrow> (nat \<Rightarrow> clk) \<Rightarrow> job_store \<Rightarrow> job_store \<times> (server_error + nat)" where
  "reconcile_admitted_runs_after_restart env cd logs clks st =
    mark_all env clks 0 (sort_key fst (durable_scheduled_job_admissions env cd logs (jobs st))) st"

section \<open>Deferrals\<close>

text \<open>\<open>JOB_BUSY_RETRY_SECONDS\<close> and \<open>JOB_DEFER_EVENT_MIN_SECONDS\<close> are settings.\<close>

record job_settings =
  busy_retry :: int
  defer_event_min :: int

definition emit_event :: "job_env \<Rightarrow> string \<Rightarrow> pystr \<Rightarrow> jdict \<Rightarrow> pystr \<Rightarrow> job_store \<Rightarrow> job_store" where
  "emit_event env kind jid job note st = (if truthy (dget job ''session_id'')
     then st\<lparr>job_events := job_events st @ [(str_of env (dget job ''session_id''), kind, job, note)]\<rparr> else st)"

definition deferred_note :: "job_env \<Rightarrow> pystr \<Rightarrow> jdict \<Rightarrow> pystr \<Rightarrow> pystr" where
  "deferred_note env jid job reason =
    lit ''Scheduled job deferred: '' @ str_of env (py_or (dget job ''title'') (JStr jid)) @ [32, 8212, 32] @ reason"

text \<open>The occurrence and the original due time that a park for a server update records.\<close>

definition park_values :: "job_env \<Rightarrow> pystr \<Rightarrow> rat option \<Rightarrow> jdict \<Rightarrow> (rat \<times> rat) option" where
  "park_values env schedule_id expected_next job =
    (let occurrence = (if dget job ''scheduled_run_at'' = JNull then opt_float expected_next else dget job ''scheduled_run_at'');
         original = (if dget job ''_update_park_schedule_id'' = JStr schedule_id \<and> dget job ''_update_park_original_next_run_at'' \<noteq> JNull
           then dget job ''_update_park_original_next_run_at'' else dget job ''next_run_at'')
     in case (py_float env occurrence, py_float env original) of (Inr a, Inr b) \<Rightarrow> Some (a, b) | _ \<Rightarrow> None)"

definition park_job :: "pystr \<Rightarrow> pystr \<Rightarrow> rat \<times> rat \<Rightarrow> jdict \<Rightarrow> jdict" where
  "park_job schedule_id revision v job = dset (dset (dset (dset job ''_update_park_schedule_id'' (JStr schedule_id))
     ''_update_park_occurrence'' (JFloat (fst v))) ''_update_park_original_next_run_at'' (JFloat (snd v))) ''_update_park_revision'' (JStr revision)"

text \<open>The new due time of a deferred job.\<close>

definition push_back :: "clk \<Rightarrow> int \<Rightarrow> pystr \<Rightarrow> jdict \<Rightarrow> jdict" where
  "push_back clk delay reason job = dset (dset (dset job ''next_run_at'' (JFloat (clk_now clk + of_int (max delay 5))))
     ''last_deferred_at'' (JStr (clk_iso clk))) ''last_defer_reason'' (JStr reason)"

definition new_revision :: "clk \<Rightarrow> jdict \<Rightarrow> jdict" where
  "new_revision clk job = dset (dset job ''updated_at'' (JStr (clk_iso_end clk))) ''_revision'' (JStr (clk_revision clk))"

definition after_save :: "job_store \<times> (server_error + 'a) \<Rightarrow> (job_store \<Rightarrow> job_store) \<Rightarrow> job_store \<times> (server_error + 'a)" where
  "after_save r f = (case r of (st, Inr x) \<Rightarrow> (f st, Inr x) | (st, Inl e) \<Rightarrow> (st, Inl e))"

definition defer_job :: "job_env \<Rightarrow> job_settings \<Rightarrow> clk \<Rightarrow> pystr \<Rightarrow> pystr \<Rightarrow> int option \<Rightarrow> pystr option \<Rightarrow> rat option \<Rightarrow> pystr option
    \<Rightarrow> job_store \<Rightarrow> job_store \<times> (server_error + bool)" where
  "defer_job env cfg clk jid reason delay_seconds expected_revision expected_next schedule_id st =
    (let delay = (case delay_seconds of Some d \<Rightarrow> if d \<noteq> 0 then d else busy_retry cfg | None \<Rightarrow> busy_retry cfg) in
     case map_of (jobs st) jid of
       None \<Rightarrow> (st, Inr False)
     | Some job \<Rightarrow>
         if job = [] \<or> \<not> truthy (dget job ''enabled'')
            \<or> (case expected_revision of None \<Rightarrow> False | Some r \<Rightarrow> dget job ''_revision'' \<noteq> JStr r)
            \<or> (case expected_next of None \<Rightarrow> False | Some t \<Rightarrow> \<not> float_is env (dget job ''next_run_at'') t)
         then (st, Inr False)
         else
           let parked = (case schedule_id of None \<Rightarrow> None | Some sid \<Rightarrow> park_values env sid expected_next job) in
           if schedule_id \<noteq> None \<and> parked = None then (st, Inl (Runtime_error (lit ''scheduled update park lost its occurrence'')))
           else
             let job = push_back clk delay reason (if schedule_id = None then clear_job_update_park job else job) in
             case py_float env (py_or (dget job ''_last_defer_event_at'') (JInt 0)) of
               Inl e \<Rightarrow> (put_job jid job st, Inl (Raised e))
             | Inr last_emit \<Rightarrow>
                 let emits = (defer_event_min cfg \<le> 0 \<or> of_int (defer_event_min cfg) \<le> clk_now clk - last_emit);
                     job = (if emits then dset job ''_last_defer_event_at'' (JFloat (clk_now clk)) else job);
                     shown = job;
                     job = new_revision clk job;
                     job = (case (schedule_id, parked) of (Some sid, Some v) \<Rightarrow> park_job sid (clk_revision clk) v job | _ \<Rightarrow> job)
                 in after_save (save clk (put_job jid job st) True)
                      (\<lambda>st. if emits then emit_event env ''job_deferred'' jid shown (deferred_note env jid shown reason) st else st))"

text \<open>\<open>resume_update_parked\<close> on one job: the job, whether it was parked, whether it is due again.\<close>

definition parked_for :: "job_env \<Rightarrow> pystr option \<Rightarrow> pystr option \<Rightarrow> jdict \<Rightarrow> bool" where
  "parked_for env schedule_id active job =
    (let parked = strip (str_or env (dget job ''_update_park_schedule_id''))
     in parked \<noteq> [] \<and> (schedule_id = None \<or> schedule_id = Some parked) \<and> (active = None \<or> active \<noteq> Some parked))"

definition exact_park :: "job_env \<Rightarrow> jdict \<Rightarrow> rat option" where
  "exact_park env job =
    (case (py_float env (dget job ''_update_park_occurrence''), py_float env (dget job ''scheduled_run_at''),
           py_float env (dget job ''_update_park_original_next_run_at'')) of
       (Inr parked, Inr current, Inr original) \<Rightarrow>
         if dget job ''_revision'' = JStr (str_or env (dget job ''_update_park_revision'')) \<and> truthy (dget job ''enabled'') \<and> current = parked
         then Some original else None
     | _ \<Rightarrow> None)"

definition resume_job :: "job_env \<Rightarrow> clk \<Rightarrow> pystr \<Rightarrow> jdict \<Rightarrow> jdict" where
  "resume_job env clk revision job =
    (let cleared = clear_job_update_park job;
         armed = (case exact_park env job of None \<Rightarrow> cleared
           | Some original \<Rightarrow> dset cleared ''next_run_at'' (JFloat (min original (clk_now clk))))
     in dset (dset armed ''updated_at'' (JStr (clk_iso clk))) ''_revision'' (JStr revision))"

definition resume_update_parked :: "job_env \<Rightarrow> clk \<Rightarrow> (nat \<Rightarrow> pystr) \<Rightarrow> pystr option \<Rightarrow> pystr option \<Rightarrow> job_store
    \<Rightarrow> job_store \<times> (server_error + nat)" where
  "resume_update_parked env clk revs schedule_id active st =
    (let hit = (\<lambda>job. parked_for env schedule_id active job);
         resumed = length (filter (\<lambda>(jid, job). hit job \<and> exact_park env job \<noteq> None) (jobs st));
         st' = st\<lparr>jobs := map (\<lambda>(i, jid, job). (jid, if hit job then resume_job env clk (revs i) job else job)) (enumerate 0 (jobs st))\<rparr>
     in if list_ex (\<lambda>(jid, job). hit job) (jobs st) then save clk st' resumed else (st, Inr resumed))"




section \<open>Pauses, deletions, revisions\<close>

definition drop_manual :: "jdict \<Rightarrow> jdict" where
  "drop_manual job = dpops (dset job ''manual_run_pending'' (JBool False))
     [''manual_run_requested_at'', ''manual_run_defer_reason'', ''_last_manual_defer_event_at'']"

definition pause_job :: "clk \<Rightarrow> pystr \<Rightarrow> jdict \<Rightarrow> jdict" where
  "pause_job clk revision job =
    (let paused = clear_job_update_park (clear_job_runtime_unavailable_deferral (no_more_runs job));
         paused = (if truthy (dget job ''manual_run_pending'') then drop_manual paused else paused)
     in dset (dset paused ''updated_at'' (JStr (clk_iso clk))) ''_revision'' (JStr revision))"

definition pauses :: "pystr \<Rightarrow> jdict \<Rightarrow> bool" where
  "pauses session_id job \<longleftrightarrow> dget job ''session_id'' = JStr session_id
     \<and> (truthy (dget job ''enabled'') \<or> truthy (dget job ''manual_run_pending''))"

definition pause_for_session :: "job_env \<Rightarrow> clk \<Rightarrow> (nat \<Rightarrow> pystr) \<Rightarrow> pystr \<Rightarrow> bool \<Rightarrow> job_store \<Rightarrow> job_store \<times> (server_error + nat)" where
  "pause_for_session env clk revs session_id persist_unchanged st =
    (let after = map (\<lambda>(i, jid, job). (jid, if pauses session_id job then pause_job clk (revs i) job else job)) (enumerate 0 (jobs st));
         paused = map (\<lambda>(old, new). snd new) (filter (\<lambda>(old, new). pauses session_id (snd old)) (zip (jobs st) after));
         name = (\<lambda>job. str_of env (py_or (dget job ''title'') (dget job ''id'')));
         note = (\<lambda>job. (session_id, ''job_updated'', job, lit ''Scheduled job paused because chat was archived: '' @ name job))
     in if paused = [] \<and> \<not> persist_unchanged then (st, Inr 0)
        else after_save (save clk (st\<lparr>jobs := after\<rparr>) (length paused)) (\<lambda>st. st\<lparr>job_events := job_events st @ map note paused\<rparr>))"

definition delete_job :: "job_env \<Rightarrow> clk \<Rightarrow> pystr \<Rightarrow> pystr option \<Rightarrow> job_store \<Rightarrow> job_store \<times> (server_error + bool)" where
  "delete_job env clk jid expected_session st =
    (case (case map_of (jobs st) jid of
         Some job \<Rightarrow> if job \<noteq> [] \<and> (case expected_session of None \<Rightarrow> True | Some sid \<Rightarrow> dget job ''session_id'' = JStr sid) then Some job else None
       | None \<Rightarrow> None) of
       None \<Rightarrow> if expected_session \<noteq> None then (st, Inl (Http 404 (lit ''job not found''))) else save clk st False
     | Some job \<Rightarrow>
         let gone = st\<lparr>jobs := AList.delete jid (jobs st)\<rparr> in
         if clk_saves clk
         then after_save (save clk gone True) (\<lambda>st. st\<lparr>job_events := job_events st @ [(str_or env (dget job ''session_id''), ''job_deleted'', job,
           lit ''Scheduled job deleted: '' @ str_of env (py_or (dget job ''title'') (JStr jid)))]\<rparr>)
         else (gone\<lparr>jobs := jobs gone @ [(jid, job)]\<rparr>, Inl (Raised OSError)))"

definition delete_for_session :: "clk \<Rightarrow> pystr \<Rightarrow> job_store \<Rightarrow> job_store \<times> (server_error + nat)" where
  "delete_for_session clk session_id st =
    (let doomed = filter (\<lambda>(jid, job). dget job ''session_id'' = JStr session_id) (jobs st);
         kept = filter (\<lambda>(jid, job). dget job ''session_id'' \<noteq> JStr session_id) (jobs st)
     in if clk_saves clk then save clk (st\<lparr>jobs := kept\<rparr>) (length doomed)
        else (st\<lparr>jobs := kept @ doomed\<rparr>, Inl (Raised OSError)))"

definition assert_dispatch_revision :: "pystr \<Rightarrow> pystr \<Rightarrow> pystr \<Rightarrow> job_store \<Rightarrow> server_error + unit" where
  "assert_dispatch_revision jid session_id expected_revision st =
    (case map_of (jobs st) jid of
       Some job \<Rightarrow> if job = [] \<or> dget job ''session_id'' \<noteq> JStr session_id \<or> dget job ''_revision'' \<noteq> JStr expected_revision
         then Inl (Http 409 (lit ''scheduled job changed before dispatch; retry the current revision'')) else Inr ()
     | None \<Rightarrow> Inl (Http 409 (lit ''scheduled job changed before dispatch; retry the current revision'')))"

section \<open>An admitted occurrence is not run again\<close>

lemma dget_dpops [simp]: "dget (dpops d ks) k = (if k \<in> set ks then JNull else dget d k)"
  unfolding dpops_def by (induction ks arbitrary: d) auto

text \<open>The job, if any, that an event admits.\<close>

definition job_admission :: "job_env \<Rightarrow> (pystr \<times> expectation) list \<Rightarrow> jdict \<Rightarrow> pystr option" where
  "job_admission env pending event =
    (if dget event ''type'' \<noteq> js ''turn_started'' \<or> dget event ''purpose'' \<noteq> js ''scheduled_job'' then None
     else case map_of pending (str_or env (dget event ''job_id'')) of
         None \<Rightarrow> None
       | Some ex \<Rightarrow> if admits env ex event then Some (str_or env (dget event ''job_id'')) else None)"

lemma scan_Nil: "scan_admissions env [] es = []"
  by (cases es) simp_all

lemma scan_step: "scan_admissions env pending (e # es) = (case job_admission env pending e of
    Some jid \<Rightarrow> (jid, e) # scan_admissions env (AList.delete jid pending) es | None \<Rightarrow> scan_admissions env pending es)"
  by (cases "pending = []"; cases "map_of pending (str_or env (dget e ''job_id''))") (simp_all add: job_admission_def scan_Nil Let_def)

declare scan_admissions.simps(2) [simp del]

lemma job_admission_SomeD:
  assumes "job_admission env pending e = Some jid"
  shows "str_or env (dget e ''job_id'') = jid" "\<exists>ex. map_of pending jid = Some ex \<and> admits env ex e"
  using assms by (auto simp: job_admission_def split: if_splits option.splits)

lemma scan_keys: "fst ` set (scan_admissions env pending es) \<subseteq> fst ` set pending"
proof (induction es arbitrary: pending)
  case (Cons e es)
  show ?case
  proof (cases "job_admission env pending e")
    case (Some jid)
    then have "jid \<in> fst ` set pending" using job_admission_SomeD(2) map_of_SomeD by (metis fst_conv image_eqI)
    moreover have "fst ` set (scan_admissions env (AList.delete jid pending) es) \<subseteq> fst ` set pending - {jid}"
      using Cons [of "AList.delete jid pending"] by (simp only: keys_AList_delete)
    ultimately show ?thesis by (auto simp: scan_step Some)
  qed (use Cons in \<open>simp add: scan_step\<close>)
qed simp

lemma scan_distinct: "distinct (map fst (scan_admissions env pending es))"
proof (induction es arbitrary: pending)
  case (Cons e es)
  have "jid \<notin> fst ` set (scan_admissions env (AList.delete jid pending) es)" for jid
    using scan_keys [of env "AList.delete jid pending" es] by (simp only: keys_AList_delete) blast
  then show ?case using Cons by (simp add: scan_step split: option.split)
qed simp

lemma scan_sound:
  "(jid, event) \<in> set (scan_admissions env pending es) \<Longrightarrow> \<exists>ex. map_of pending jid = Some ex \<and> admits env ex event"
proof (induction es arbitrary: pending)
  case (Cons e es)
  show ?case
  proof (cases "job_admission env pending e")
    case (Some hit)
    show ?thesis
    proof (cases "(jid, event) = (hit, e)")
      case True
      then show ?thesis using job_admission_SomeD(2) [OF Some] by simp
    next
      case False
      then have "(jid, event) \<in> set (scan_admissions env (AList.delete hit pending) es)" using Cons.prems by (auto simp: scan_step Some)
      from Cons.IH [OF this] show ?thesis by (cases "jid = hit") (simp_all add: AList.delete_conv')
    qed
  qed (use Cons in \<open>simp add: scan_step\<close>)
qed simp

text \<open>A matching event is found unless a newer one was.\<close>

lemma scan_complete:
  assumes "event \<in> set es" "map_of pending jid = Some ex" "admits env ex event"
    and event: "dget event ''type'' = js ''turn_started''" "dget event ''purpose'' = js ''scheduled_job''" "str_or env (dget event ''job_id'') = jid"
  shows "jid \<in> fst ` set (scan_admissions env pending es)"
  using assms(1-3)
proof (induction es arbitrary: pending)
  case (Cons e es)
  show ?case
  proof (cases "job_admission env pending e")
    case None
    moreover have "job_admission env pending event = Some jid" using Cons.prems event by (simp add: job_admission_def)
    ultimately have "event \<in> set es" using Cons.prems(1) by auto
    then show ?thesis using Cons None by (simp add: scan_step)
  next
    case (Some hit)
    show ?thesis
    proof (cases "hit = jid")
      case False
      then have "e \<noteq> event" using job_admission_SomeD(1) [OF Some] event(3) by auto
      moreover have "map_of (AList.delete hit pending) jid = Some ex" using False Cons.prems(2) by (simp add: AList.delete_conv')
      ultimately show ?thesis using Cons by (simp add: scan_step Some)
    qed (simp add: scan_step Some)
  qed
qed simp

text \<open>The expectations of one chat have the keys of its jobs.\<close>

lemma expected_in_Cons:
  "expected_in env ((jid, job) # all_jobs) sid = (if map_option fst (expected_admission env job) = Some sid
     then [(jid, snd (the (expected_admission env job)))] else []) @ expected_in env all_jobs sid"
  by (cases "expected_admission env job") (auto simp: expected_in_def)

lemma expected_in_iff: "(jid, ex) \<in> set (expected_in env all_jobs sid)
    \<longleftrightarrow> (\<exists>job. (jid, job) \<in> set all_jobs \<and> expected_admission env job = Some (sid, ex))"
proof (induction all_jobs)
  case (Cons p all_jobs)
  obtain k job where p: "p = (k, job)" by (cases p)
  show ?case
  proof (cases "map_option fst (expected_admission env job) = Some sid")
    case True
    then obtain ex' where some: "expected_admission env job = Some (sid, ex')" by (cases "expected_admission env job") auto
    have "(jid, ex) \<in> set (expected_in env (p # all_jobs) sid) \<longleftrightarrow> jid = k \<and> ex = ex' \<or> (jid, ex) \<in> set (expected_in env all_jobs sid)"
      by (simp only: p expected_in_Cons some option.map fst_conv snd_conv option.sel if_True simp_thms append.simps set_simps insert_iff prod.inject)
    then show ?thesis unfolding Cons using some by (auto simp: p)
  next
    case False
    then have none: "expected_admission env job \<noteq> Some (sid, ex)" by (metis fst_conv option.simps(9))
    have "expected_in env (p # all_jobs) sid = expected_in env all_jobs sid" using False by (simp only: p expected_in_Cons if_False append.simps)
    then show ?thesis unfolding Cons [symmetric] using none Cons by (auto simp: p)
  qed
qed (simp add: expected_in_def)

lemma expected_in_distinct: "distinct (map fst all_jobs) \<Longrightarrow> distinct (map fst (expected_in env all_jobs sid))"
proof (induction all_jobs)
  case (Cons p all_jobs)
  obtain jid job where p: "p = (jid, job)" by (cases p)
  have "(jid, ex) \<notin> set (expected_in env all_jobs sid)" for ex
    using Cons.prems unfolding expected_in_iff p by (metis distinct.simps(2) fst_conv image_eqI list.set_map list.simps(9))
  then have "jid \<notin> fst ` set (expected_in env all_jobs sid)" by auto
  then show ?case using Cons by (simp add: p expected_in_Cons)
qed (simp add: expected_in_def)

lemma expected_sessions_iff: "sid \<in> set (expected_sessions env all_jobs) \<longleftrightarrow> (\<exists>jid ex. (jid, ex) \<in> set (expected_in env all_jobs sid))"
proof -
  have "sid \<in> set (case expected_admission env job of Some (s, ex) \<Rightarrow> [s] | None \<Rightarrow> []) \<longleftrightarrow> (\<exists>ex. expected_admission env job = Some (sid, ex))" for job
    by (cases "expected_admission env job") auto
  then show ?thesis unfolding expected_in_iff expected_sessions_def by (simp add: split_beta) (metis fst_conv prod.collapse snd_conv)
qed

lemma expected_in_disjoint:
  assumes "distinct (map fst all_jobs)" "a \<noteq> b"
  shows "fst ` set (expected_in env all_jobs a) \<inter> fst ` set (expected_in env all_jobs b) = {}"
proof -
  have False if ab: "(jid, x) \<in> set (expected_in env all_jobs a)" "(jid, y) \<in> set (expected_in env all_jobs b)" for jid x y
  proof -
    obtain i j where "(jid, i) \<in> set all_jobs" "expected_admission env i = Some (a, x)"
        "(jid, j) \<in> set all_jobs" "expected_admission env j = Some (b, y)"
      using ab unfolding expected_in_iff by blast
    moreover from this have "i = j" using eq_key_imp_eq_value [OF assms(1)] by blast
    ultimately show False using assms(2) by simp
  qed
  then show ?thesis by fastforce
qed

lemma admissions_distinct:
  assumes "distinct (map fst all_jobs)"
  shows "distinct (map fst (durable_scheduled_job_admissions env cd logs all_jobs))"
proof -
  define scan where "scan sid = map fst (scan_admissions env (expected_in env all_jobs sid) (reversed_jsonl_events cd (logs sid)))" for sid
  have "distinct (concat (map scan (expected_sessions env all_jobs)))"
  proof (rule distinct_concat_map)
    show "distinct (expected_sessions env all_jobs)" by (simp add: expected_sessions_def)
    show "distinct (scan sid)" for sid unfolding scan_def by (rule scan_distinct)
    have keys: "set (scan sid) \<subseteq> fst ` set (expected_in env all_jobs sid)" for sid unfolding scan_def set_map by (rule scan_keys)
    show "set (scan a) \<inter> set (scan b) = {}" if "a \<noteq> b" for a b
      using expected_in_disjoint [OF assms that, of env] keys [of a] keys [of b] by (simp only: disjoint_iff subset_iff) blast
  qed
  moreover have "map fst (durable_scheduled_job_admissions env cd logs all_jobs) = concat (map scan (expected_sessions env all_jobs))"
    unfolding durable_scheduled_job_admissions_def map_concat map_map comp_def scan_def by (rule refl)
  ultimately show ?thesis by (simp only:)
qed

lemma admitted_job_found:
  assumes dist: "distinct (map fst all_jobs)" and job: "map_of all_jobs jid = Some job"
    and ex: "expected_admission env job = Some (sid, ex)"
    and event: "event \<in> set (reversed_jsonl_events cd (logs sid))" "admits env ex event"
      "dget event ''type'' = js ''turn_started''" "dget event ''purpose'' = js ''scheduled_job''" "str_or env (dget event ''job_id'') = jid"
  shows "\<exists>found. (jid, found) \<in> set (durable_scheduled_job_admissions env cd logs all_jobs) \<and> admits env ex found"
proof -
  have mem: "(jid, ex) \<in> set (expected_in env all_jobs sid)" using map_of_SomeD [OF job] ex by (auto simp: expected_in_iff)
  then have pending: "map_of (expected_in env all_jobs sid) jid = Some ex"
    using expected_in_distinct [OF dist] by (simp add: map_of_eq_Some_iff)
  obtain found where found: "(jid, found) \<in> set (scan_admissions env (expected_in env all_jobs sid) (reversed_jsonl_events cd (logs sid)))"
    using scan_complete [OF event(1) pending event(2-5)] by auto
  then have "admits env ex found" using scan_sound [OF found] pending by auto
  moreover have "sid \<in> set (expected_sessions env all_jobs)" using mem expected_sessions_iff by blast
  ultimately show ?thesis using found unfolding durable_scheduled_job_admissions_def by auto
qed

text \<open>A job whose occurrence at \<open>t\<close> is spent: it has stopped, or its schedule points later.\<close>

definition spent :: "rat \<Rightarrow> jdict \<Rightarrow> bool" where
  "spent t job \<longleftrightarrow> \<not> truthy (dget job ''enabled'') \<and> dget job ''next_run_at'' = JNull \<and> dget job ''scheduled_run_at'' = JNull
     \<or> (\<exists>u > t. dget job ''next_run_at'' = JFloat u \<and> dget job ''scheduled_run_at'' = JFloat u)"

lemma advance_spent:
  assumes "advance_schedule env clk False True t current n limit job = Inr job'"
  shows "spent t job' \<and> dget job' ''run_count'' = dget job ''run_count''"
proof -
  let ?limit = "case limit of None \<Rightarrow> False | Some m \<Rightarrow> m \<le> n"
  show ?thesis
  proof (cases "truthy (dget job ''enabled'') \<and> recurring env job n limit \<and> \<not> ?limit")
    case True
    then obtain r where r: "next_job_occurrence env job (max t (clk_now clk)) False = Inr r"
      and job': "job' = (let j = dset (dset job ''next_run_at'' (opt_float r)) ''scheduled_run_at'' (opt_float r)
        in if r = None then dset j ''enabled'' (JBool False) else j)"
      using assms by (auto simp: advance_schedule_def Let_def ebind_Inr_iff)
    show ?thesis
    proof (cases r)
      case (Some u)
      then show ?thesis using occurrences.advance_later(1) [of env job t "clk_now clk" u] r by (simp add: job' spent_def opt_float_def)
    qed (simp add: job' spent_def opt_float_def)
  next
    case False
    then have "job' = no_more_runs job" using assms by (simp add: advance_schedule_def Let_def split: if_splits)
    then show ?thesis by (simp add: spent_def no_more_runs_def)
  qed
qed

lemma finish_mark_fields [simp]:
  "k \<notin> {''updated_at'', ''_revision'', ''_runtime_unavailable_occurrence'', ''_runtime_unavailable_defer_count'',
     ''_update_park_schedule_id'', ''_update_park_occurrence'', ''_update_park_original_next_run_at'', ''_update_park_revision''} \<Longrightarrow>
   dget (finish_mark clk job) k = dget job k"
  by (auto simp: finish_mark_def clear_job_update_park_def clear_job_runtime_unavailable_deferral_def)

lemma finish_mark_spent: "spent t job \<Longrightarrow> spent t (finish_mark clk job)"
  by (simp add: spent_def)

lemma mark_ran_frame: "other \<noteq> jid \<Longrightarrow> map_of (jobs (fst (mark_ran env clk jid m r t x st))) other = map_of (jobs st) other"
  unfolding mark_ran_def save_def put_job_def Let_def
  by (simp add: AList.update_conv split: option.split sum.split)

text \<open>The outcome of a mark that must match and does not raise.\<close>

lemma mark_ran_done:
  assumes "mark_ran env clk jid m r t x st = (st', Inr marked)"
  shows "marked = None \<and> st' = st \<or> registry st' = jobs st'"
  using assms unfolding mark_ran_def save_def Let_def
  by (simp add: put_job_def split: option.splits sum.splits if_splits) auto

lemma mark_ran_admitted:
  assumes job: "map_of (jobs st) jid = Some job" and revn: "dget job ''_revision'' = JStr revn"
    and occ: "py_float env (scheduled_value job) = Inr t"
    and mark: "mark_ran env clk jid False (Some revn) (Some t) True st = (st', Inr marked)"
  shows "\<exists>job' n. marked = Some job' \<and> map_of (jobs st') jid = Some job' \<and> spent t job'
    \<and> py_int (py_or (dget job ''run_count'') (JInt 0)) = Inr n \<and> dget job' ''run_count'' = JInt (n + 1)"
proof -
  have ne: "job \<noteq> []" "scheduled_value job \<noteq> JNull" using revn occ by (auto simp: py_float_def)
  define run where "run = record_run clk False t job"
  have run: "dget run ''run_count'' = dget job ''run_count''" by (simp add: run_def record_run_def Let_def)
  obtain n where n: "py_int (py_or (dget job ''run_count'') (JInt 0)) = Inr n"
    using mark ne by (simp add: mark_ran_def job admitted_at_def revn occ float_is_def Let_def run_def [symmetric] run split: sum.splits)
  define counted where "counted = dset run ''run_count'' (JInt (n + 1))"
  obtain limit where limit: "run_limit counted = Inr limit"
    using mark ne by (simp add: mark_ran_def job admitted_at_def revn occ float_is_def Let_def run_def [symmetric] run n
        counted_def [symmetric] split: sum.splits)
  obtain job' where adv: "advance_schedule env clk False True t (scheduled_value job) (n + 1) limit counted = Inr job'"
    using mark ne by (simp add: mark_ran_def job admitted_at_def revn occ float_is_def Let_def run_def [symmetric] run n
        counted_def [symmetric] limit split: sum.splits)
  have fin: "save clk (put_job jid (finish_mark clk job') st) (Some (finish_mark clk job')) = (st', Inr marked)"
    using mark ne by (simp add: mark_ran_def job admitted_at_def revn occ float_is_def Let_def run_def [symmetric] run n
        counted_def [symmetric] limit adv)
  then have "marked = Some (finish_mark clk job')" "jobs st' = AList.update jid (finish_mark clk job') (jobs st)"
    by (auto simp: save_def put_job_def split: if_splits)
  moreover have "spent t job'" "dget job' ''run_count'' = JInt (n + 1)"
    using advance_spent [OF adv] by (simp_all add: counted_def)
  ultimately show ?thesis using n finish_mark_spent by (auto simp: AList.update_conv)
qed

lemma mark_all_others:
  assumes "mark_all env clks i marks st = (st', Inr n)" "jid \<notin> fst ` set marks"
  shows "map_of (jobs st') jid = map_of (jobs st) jid \<and> (registry st = jobs st \<longrightarrow> registry st' = jobs st')"
  using assms
proof (induction env clks i marks st arbitrary: n rule: mark_all.induct)
  case (2 env clks i k event rest st)
  obtain t where t: "py_float env (dget event ''job_scheduled_run_at'') = Inr t"
    using 2(2) by (simp split: sum.splits)
  obtain s1 r1 where m: "mark_ran env (clks i) k (dget event ''manual_run'' = JBool True) (Some (str_or env (dget event ''job_revision'')))
      (Some t) True st = (s1, r1)" by fastforce
  obtain marked where r1: "r1 = Inr marked" using 2(2) by (simp add: t m split: sum.splits)
  obtain n' where rest: "mark_all env clks (Suc i) rest s1 = (st', Inr n')"
    using 2(2) by (simp add: t m r1 split: sum.splits prod.splits)
  have "map_of (jobs s1) jid = map_of (jobs st) jid" using mark_ran_frame [of jid k env "clks i"] 2(3) m by (metis fst_conv imageI list.set_intros(1))
  moreover have "registry st = jobs st \<longrightarrow> registry s1 = jobs s1" using mark_ran_done [OF m [unfolded r1]] by auto
  ultimately show ?case using 2(1) [OF t m [symmetric] r1 rest] 2(3) by auto
qed simp

text \<open>The mark of one job in the list of all marks.\<close>

lemma mark_all_split:
  assumes "mark_all env clks i (before @ (jid, event) # after) st = (st', Inr n)" "jid \<notin> fst ` set before" "jid \<notin> fst ` set after"
    and "py_float env (dget event ''job_scheduled_run_at'') = Inr t"
  shows "\<exists>a b c marked. map_of (jobs a) jid = map_of (jobs st) jid
    \<and> mark_ran env c jid (dget event ''manual_run'' = JBool True) (Some (str_or env (dget event ''job_revision''))) (Some t) True a = (b, Inr marked)
    \<and> map_of (jobs st') jid = map_of (jobs b) jid \<and> (registry b = jobs b \<longrightarrow> registry st' = jobs st')"
  using assms
proof (induction before arbitrary: i st n)
  case Nil
  obtain b r where m: "mark_ran env (clks i) jid (dget event ''manual_run'' = JBool True) (Some (str_or env (dget event ''job_revision'')))
      (Some t) True st = (b, r)" by fastforce
  obtain marked where r: "r = Inr marked" using Nil(1) by (simp add: Nil(4) m split: sum.splits)
  obtain n' where "mark_all env clks (Suc i) after b = (st', Inr n')"
    using Nil(1) by (simp add: Nil(4) m r split: sum.splits prod.splits)
  from mark_all_others [OF this Nil(3)] m r show ?case by metis
next
  case (Cons p before)
  obtain k e where p: "p = (k, e)" by (cases p)
  obtain u where u: "py_float env (dget e ''job_scheduled_run_at'') = Inr u" using Cons(2) by (simp add: p split: sum.splits)
  obtain s1 r1 where m: "mark_ran env (clks i) k (dget e ''manual_run'' = JBool True) (Some (str_or env (dget e ''job_revision'')))
      (Some u) True st = (s1, r1)" by fastforce
  obtain marked where r1: "r1 = Inr marked" using Cons(2) by (simp add: p u m split: sum.splits)
  obtain n' where rest: "mark_all env clks (Suc i) (before @ (jid, event) # after) s1 = (st', Inr n')"
    using Cons(2) by (simp add: p u m r1 split: sum.splits prod.splits)
  have "map_of (jobs s1) jid = map_of (jobs st) jid" using mark_ran_frame [of jid k env "clks i"] Cons(3) m p by (metis fst_conv image_eqI list.set_intros(1))
  with Cons(1) [OF rest _ Cons(4,5)] Cons(3) show ?case by (simp add: p)
qed

text \<open>C31. A scheduled occurrence that was admitted is not run again after a crash. If the event log of the
  job's chat holds a \<open>turn_started\<close> of the job with its current revision and canonical occurrence, then a
  reconciliation that returns has counted the run and spent the occurrence: the job has stopped, or its
  schedule points to a strictly later time; and the job file on disk says so.\<close>

theorem admitted_occurrence_spent:
  assumes dist: "distinct (map fst (jobs st))" and job: "map_of (jobs st) jid = Some job"
    and session: "dget job ''session_id'' = JStr sid" "sid \<noteq> []"
    and revision: "dget job ''_revision'' = JStr revn" "starts_with (lit ''job_rev_'') revn"
    and occurrence: "py_float env (scheduled_value job) = Inr t" and manual: "\<not> truthy (dget job ''manual_run_pending'')"
    and log: "logs sid = Some f" "line \<in> set (split_on NL f)" "event \<in> set (line_event cd line)"
    and started: "dget event ''type'' = js ''turn_started''" "dget event ''purpose'' = js ''scheduled_job''" "dget event ''job_id'' = JStr jid"
      "dget event ''job_revision'' = JStr revn" "py_float env (dget event ''job_scheduled_run_at'') = Inr t" "dget event ''manual_run'' \<noteq> JBool True"
    and returns: "reconcile_admitted_runs_after_restart env cd logs clks st = (st', Inr n)"
  shows "\<exists>job' runs. map_of (jobs st') jid = Some job' \<and> map_of (registry st') jid = Some job' \<and> spent t job'
    \<and> py_int (py_or (dget job ''run_count'') (JInt 0)) = Inr runs \<and> dget job' ''run_count'' = JInt (runs + 1)"
proof -
  let ?ad = "durable_scheduled_job_admissions env cd logs (jobs st)"
  have ne: "revn \<noteq> []" using revision(2) by (auto simp: starts_with_def)
  have ex: "expected_admission env job = Some (sid, revn, Some t, False)"
    using session revision occurrence manual by (simp add: expected_admission_def str_or_JStr Let_def)
  have "event \<in> set (reversed_jsonl_events cd (logs sid))" using log by (auto simp: reversed_jsonl_events_eq)
  moreover have "admits env (revn, Some t, False) event" using started by (simp add: admits_def str_or_JStr)
  ultimately obtain found where found: "(jid, found) \<in> set ?ad" "admits env (revn, Some t, False) found"
    using admitted_job_found [OF dist job ex _ _ started(1,2)] started(3) str_or_JStr by metis
  then have fnd: "str_or env (dget found ''job_revision'') = revn" "py_float env (dget found ''job_scheduled_run_at'') = Inr t"
    "dget found ''manual_run'' \<noteq> JBool True"
    by (auto simp: admits_def split: sum.splits if_splits)
  have keys: "distinct (map fst (sort_key fst ?ad))" using admissions_distinct [OF dist] by (simp add: distinct_map)
  have "(jid, found) \<in> set (sort_key fst ?ad)" using found by simp
  then obtain before after where split: "sort_key fst ?ad = before @ (jid, found) # after" by (metis split_list)
  then have once: "jid \<notin> fst ` set before" "jid \<notin> fst ` set after" using keys by (simp_all add: split)
  obtain a b c marked where m: "map_of (jobs a) jid = Some job" "mark_ran env c jid False (Some revn) (Some t) True a = (b, Inr marked)"
      "map_of (jobs st') jid = map_of (jobs b) jid" "registry b = jobs b \<longrightarrow> registry st' = jobs st'"
    using mark_all_split [OF returns [unfolded reconcile_admitted_runs_after_restart_def split] once fnd(2)] job fnd by auto
  from mark_ran_admitted [OF m(1) revision(1) occurrence m(2)] mark_ran_done [OF m(2)] m(3,4) show ?thesis by force
qed

section \<open>A replaced schedule is left alone\<close>

lemma record_run_fields:
  "k \<in> {''next_run_at'', ''scheduled_run_at'', ''enabled'', ''max_runs''} \<Longrightarrow> dget (record_run clk False t job) k = dget job k"
  by (auto simp: record_run_def Let_def)

text \<open>An edit that overtakes a run keeps its schedule. When a run of an unlimited job is recorded after the job was
  given another revision and another occurrence, the run is counted, but the due time, the canonical
  occurrence and the switch of the edited job stay as the edit left them.\<close>

lemma replaced_schedule_kept:
  assumes job: "map_of (jobs st) jid = Some job" "job \<noteq> []" "dget job ''max_runs'' = JNull"
    and edited: "dget job ''_revision'' \<noteq> JStr r" "\<not> float_is env (scheduled_value job) t"
    and mark: "mark_ran env clk jid False (Some r) (Some t) False st = (st', Inr marked)"
  shows "\<exists>job'. map_of (jobs st') jid = Some job' \<and> dget job' ''next_run_at'' = dget job ''next_run_at''
    \<and> dget job' ''scheduled_run_at'' = dget job ''scheduled_run_at'' \<and> dget job' ''enabled'' = dget job ''enabled''
    \<and> dget job' ''last_scheduled_run_at'' = JFloat t"
proof -
  define run where "run = record_run clk False t job"
  have run: "dget run ''last_scheduled_run_at'' = JFloat t" by (simp add: run_def record_run_def Let_def)
  obtain n where n: "py_int (py_or (dget run ''run_count'') (JInt 0)) = Inr n"
    using mark edited by (simp add: mark_ran_def job admitted_at_def Let_def run_def [symmetric] split: sum.splits)
  define counted where "counted = dset run ''run_count'' (JInt (n + 1))"
  have limit: "run_limit counted = Inr None" using job(3) by (simp add: run_limit_def counted_def run_def record_run_fields)
  have "advance_schedule env clk False False t (scheduled_value job) (n + 1) None counted = Inr counted"
    by (simp add: advance_schedule_def Let_def)
  then have "save clk (put_job jid (finish_mark clk counted) st) (Some (finish_mark clk counted)) = (st', Inr marked)"
    using mark edited by (simp add: mark_ran_def job admitted_at_def Let_def run_def [symmetric] n counted_def [symmetric] limit)
  then have "map_of (jobs st') jid = Some (finish_mark clk counted)"
    by (auto simp: save_def put_job_def AList.update_conv split: if_splits)
  then show ?thesis by (intro exI [where x = "finish_mark clk counted"]) (simp add: counted_def run, simp add: run_def record_run_fields)
qed

section \<open>Deferrals end\<close>



lemma save_jobs: "save clk st x = (st', r) \<Longrightarrow> jobs st' = jobs st"
  by (auto simp: save_def split: if_splits)

lemma after_save_jobs:
  assumes "after_save (save clk st x) f = (st', r)" "\<And>s. jobs (f s) = jobs s"
  shows "jobs st' = jobs st \<and> (\<forall>y. r = Inr y \<longrightarrow> y = x)"
  using assms by (auto simp: after_save_def save_def split: if_splits)

lemma emit_event_jobs [simp]: "jobs (emit_event env kind jid job note st) = jobs st"
  by (simp add: emit_event_def)




section \<open>A parked job is due again\<close>

lemma map_of_enumerate:
  "map_of xs k = Some v \<Longrightarrow> \<exists>i. map_of (map (\<lambda>(i, k, v). (k, g i v)) (enumerate n xs)) k = Some (g i v)"
  by (induction xs arbitrary: n) (auto split: if_splits)

lemma park_fields:
  assumes "k \<notin> {''_update_park_schedule_id'', ''_update_park_occurrence'', ''_update_park_original_next_run_at'', ''_update_park_revision''}"
  shows "dget (park_job sid revn v job) k = dget job k" "dget (clear_job_update_park job) k = dget job k"
  using assms by (auto simp: park_job_def clear_job_update_park_def)

lemma deferred_parked:
  assumes job: "map_of (jobs st) jid = Some job"
    and parked: "defer_job env cfg clk jid reason delay er en (Some sid) st = (st', Inr True)"
  shows "\<exists>job' v. map_of (jobs st') jid = Some job' \<and> truthy (dget job ''enabled'') \<and> park_values env sid en job = Some v
    \<and> dget job' ''enabled'' = dget job ''enabled'' \<and> dget job' ''scheduled_run_at'' = dget job ''scheduled_run_at''
    \<and> dget job' ''_revision'' = JStr (clk_revision clk) \<and> dget job' ''_update_park_revision'' = JStr (clk_revision clk)
    \<and> dget job' ''_update_park_schedule_id'' = JStr sid \<and> dget job' ''_update_park_occurrence'' = JFloat (fst v)
    \<and> dget job' ''_update_park_original_next_run_at'' = JFloat (snd v)"
proof -
  obtain v where v: "park_values env sid en job = Some v" and on: "truthy (dget job ''enabled'')"
    using parked by (auto simp: defer_job_def job Let_def split: if_splits)
  obtain shown f where "after_save (save clk (put_job jid (park_job sid (clk_revision clk) v (new_revision clk shown)) st) True) f = (st', Inr True)"
      and f: "\<And>s. jobs (f s) = jobs s"
      and shown: "dget shown ''enabled'' = dget job ''enabled''" "dget shown ''scheduled_run_at'' = dget job ''scheduled_run_at''"
    using parked v
    by (auto simp: defer_job_def job Let_def push_back_def split: if_splits sum.splits)
  from after_save_jobs [OF this(1) f] show ?thesis
    by (intro exI [where x = "park_job sid (clk_revision clk) v (new_revision clk shown)"] exI [where x = v])
      (simp add: put_job_def AList.update_conv v on shown park_job_def new_revision_def)
qed

text \<open>C33. A job that was parked for a server update gets its run back. When the update's reservation has ended and
  the job is unchanged, resuming makes it due at once, no later than it originally was, keeps its
  canonical occurrence, and removes the park.\<close>

theorem parked_job_resumes:
  assumes job: "map_of (jobs st) jid = Some job" "dget job ''scheduled_run_at'' \<noteq> JNull" "dget job ''_update_park_schedule_id'' = JNull"
    and parked: "defer_job env cfg clk jid reason delay er en (Some sid) st = (st1, Inr True)"
    and sid: "strip sid = sid" "sid \<noteq> []" "schedule_id = None \<or> schedule_id = Some sid" "active \<noteq> Some sid"
    and resumed: "resume_update_parked env later revs schedule_id active st1 = (st2, Inr n)"
  shows "\<exists>job' original. map_of (jobs st2) jid = Some job' \<and> py_float env (dget job ''next_run_at'') = Inr original
    \<and> dget job' ''next_run_at'' = JFloat (min original (clk_now later)) \<and> truthy (dget job' ''enabled'')
    \<and> dget job' ''scheduled_run_at'' = dget job ''scheduled_run_at'' \<and> dget job' ''_update_park_schedule_id'' = JNull \<and> 0 < n"
proof -
  obtain job1 v where job1: "map_of (jobs st1) jid = Some job1" and on: "truthy (dget job ''enabled'')" and v: "park_values env sid en job = Some v"
    and fields: "dget job1 ''enabled'' = dget job ''enabled''" "dget job1 ''scheduled_run_at'' = dget job ''scheduled_run_at''"
      "dget job1 ''_revision'' = JStr (clk_revision clk)" "dget job1 ''_update_park_revision'' = JStr (clk_revision clk)"
      "dget job1 ''_update_park_schedule_id'' = JStr sid" "dget job1 ''_update_park_occurrence'' = JFloat (fst v)"
      "dget job1 ''_update_park_original_next_run_at'' = JFloat (snd v)"
    using deferred_parked [OF job(1) parked] by blast
  have vals: "py_float env (dget job ''scheduled_run_at'') = Inr (fst v)" "py_float env (dget job ''next_run_at'') = Inr (snd v)"
    using v job(2,3) by (auto simp: park_values_def Let_def split: sum.splits)
  have hit: "parked_for env schedule_id active job1" using sid by (auto simp: parked_for_def fields Let_def)
  have exact: "exact_park env job1 = Some (snd v)" using on by (simp add: exact_park_def fields vals)
  let ?resume = "\<lambda>i job. if parked_for env schedule_id active job then resume_job env later (revs i) job else job"
  have mem: "(jid, job1) \<in> set (jobs st1)" using job1 by (rule map_of_SomeD)
  then have "list_ex (\<lambda>(jid, job). parked_for env schedule_id active job) (jobs st1)" using hit by (auto simp: list_ex_iff)
  then have after: "jobs st2 = map (\<lambda>(i, jid, job). (jid, ?resume i job)) (enumerate 0 (jobs st1))"
    and n: "n = length (filter (\<lambda>(jid, job). parked_for env schedule_id active job \<and> exact_park env job \<noteq> None) (jobs st1))"
    using resumed by (auto simp: resume_update_parked_def save_def Let_def split: if_splits)
  have "0 < n" unfolding n using mem hit exact by (force simp: filter_empty_conv)
  moreover obtain i where "map_of (jobs st2) jid = Some (resume_job env later (revs i) job1)"
    using map_of_enumerate [OF job1, of ?resume 0] hit unfolding after by auto
  ultimately show ?thesis
    using vals on by (intro exI [where x = "resume_job env later (revs i) job1"] exI [where x = "snd v"])
      (simp add: resume_job_def exact Let_def fields park_fields clear_job_update_park_def)
qed

section \<open>Examples\<close>

definition once_job :: jdict where
  "once_job = [(lit ''session_id'', js ''s''), (lit ''enabled'', JBool True), (lit ''schedule_kind'', js ''interval''),
     (lit ''_revision'', js ''job_rev_1''), (lit ''next_run_at'', JFloat 50), (lit ''scheduled_run_at'', JFloat 50)]"

definition once_started :: jdict where
  "once_started = [(lit ''type'', js ''turn_started''), (lit ''purpose'', js ''scheduled_job''), (lit ''job_id'', js ''j''),
     (lit ''job_revision'', js ''job_rev_1''), (lit ''job_scheduled_run_at'', JFloat 50)]"

definition once_store :: job_store where
  "once_store = \<lparr>jobs = [(lit ''j'', once_job)], registry = [(lit ''j'', once_job)], job_events = []\<rparr>"

definition once_codec :: codec where
  "once_codec = one_record_codec [123] (JObj once_started)"

definition at_60 :: clk where
  "at_60 = \<lparr>clk_now = 60, clk_iso = lit ''t'', clk_iso_end = lit ''t'', clk_revision = lit ''job_rev_2'', clk_saves = True\<rparr>"

lemma once_expected: "expected_admission utc_env once_job = Some (lit ''s'', lit ''job_rev_1'', Some 50, False)"
  by (simp add: expected_admission_def once_job_def scheduled_value_def Let_def) (simp add: starts_with_def lit_def)

lemma once_admissions: "durable_scheduled_job_admissions utc_env once_codec (\<lambda>_. Some [123]) (jobs once_store) = [(lit ''j'', once_started)]"
proof -
  have "reversed_jsonl_events once_codec (Some [123]) = [once_started]"
    by (simp add: reversed_jsonl_events_eq line_event_def blank_def byte_space_def once_codec_def one_record_codec_def)
  then show ?thesis
    by (simp add: durable_scheduled_job_admissions_def expected_sessions_def expected_in_def once_store_def once_expected scan_step
        job_admission_def admits_def once_started_def)
qed

lemma once_reconciled: "\<exists>st n. reconcile_admitted_runs_after_restart utc_env once_codec (\<lambda>_. Some [123]) (\<lambda>_. at_60) once_store = (st, Inr n)"
proof -
  have kind: "job_schedule_kind utc_env (dset (record_run at_60 False 50 once_job) ''run_count'' (JInt 1)) = ''interval''"
    by (rule utc_interval_kind) (simp add: record_run_def once_job_def Let_def)
  have "\<exists>st job. mark_ran utc_env at_60 (lit ''j'') False (Some (lit ''job_rev_1'')) (Some 50) True once_store = (st, Inr (Some job))"
    using kind by (simp add: mark_ran_def once_store_def admitted_at_def scheduled_value_def float_is_def run_limit_def advance_schedule_def
        recurring_def save_def record_run_def once_job_def at_60_def py_or_def Let_def)
  then show ?thesis
    by (auto simp: reconcile_admitted_runs_after_restart_def once_admissions once_started_def)
qed

theorem admitted_occurrence_spent_witness:
  "\<exists>st n job. reconcile_admitted_runs_after_restart utc_env once_codec (\<lambda>_. Some [123]) (\<lambda>_. at_60) once_store = (st, Inr n)
    \<and> map_of (registry st) (lit ''j'') = Some job \<and> spent 50 job"
proof -
  obtain st n where r: "reconcile_admitted_runs_after_restart utc_env once_codec (\<lambda>_. Some [123]) (\<lambda>_. at_60) once_store = (st, Inr n)"
    using once_reconciled by blast
  have "distinct (map fst (jobs once_store))" "map_of (jobs once_store) (lit ''j'') = Some once_job"
    by (simp_all add: once_store_def)
  note spent = admitted_occurrence_spent [OF this, where sid = "lit ''s''" and revn = "lit ''job_rev_1''" and t = 50 and env = utc_env
      and f = "[123]" and line = "[123]" and event = once_started and cd = once_codec and logs = "\<lambda>_. Some [123]", OF _ _ _ _ _ _ _ _ _ _ _ _ _ _ _ r]
  have "starts_with (lit ''job_rev_'') (lit ''job_rev_1'')" by (simp add: starts_with_def lit_def)
  moreover have "once_started \<in> set (line_event once_codec [123])"
    by (simp add: line_event_def blank_def byte_space_def once_codec_def one_record_codec_def)
  ultimately show ?thesis using spent r by (simp add: once_job_def once_started_def scheduled_value_def) blast
qed

lemma replaced_schedule_kept_witness:
  "\<exists>st job. mark_ran utc_env at_60 (lit ''j'') False (Some (lit ''job_rev_0'')) (Some 40) False once_store = (st, Inr (Some job))
    \<and> map_of (jobs st) (lit ''j'') = Some job \<and> dget job ''next_run_at'' = JFloat 50"
proof -
  have job: "map_of (jobs once_store) (lit ''j'') = Some once_job" "once_job \<noteq> []" "dget once_job ''max_runs'' = JNull"
    "dget once_job ''_revision'' \<noteq> JStr (lit ''job_rev_0'')" "\<not> float_is utc_env (scheduled_value once_job) 40"
    "dget once_job ''next_run_at'' = JFloat 50"
    by (simp_all add: once_store_def once_job_def scheduled_value_def float_is_def)
  obtain st job' where m: "mark_ran utc_env at_60 (lit ''j'') False (Some (lit ''job_rev_0'')) (Some 40) False once_store = (st, Inr (Some job'))"
      "map_of (jobs st) (lit ''j'') = Some job'"
    by (simp add: mark_ran_def once_store_def admitted_at_def scheduled_value_def float_is_def run_limit_def advance_schedule_def
        save_def put_job_def record_run_def once_job_def at_60_def py_or_def Let_def)
  from replaced_schedule_kept [OF job(1-5) m(1)] m job(6) show ?thesis by auto
qed


theorem parked_job_resumes_witness:
  "\<exists>st1 st2 n job. defer_job utc_env \<lparr>busy_retry = 60, defer_event_min = 300\<rparr> at_60 (lit ''j'') (lit ''update'') None None None (Some (lit ''u1''))
      once_store = (st1, Inr True)
    \<and> resume_update_parked utc_env at_60 (\<lambda>_. lit ''job_rev_3'') None None st1 = (st2, Inr n)
    \<and> map_of (jobs st2) (lit ''j'') = Some job \<and> dget job ''next_run_at'' = JFloat 50"
proof -
  let ?cfg = "\<lparr>busy_retry = 60, defer_event_min = 300\<rparr>"
  obtain st1 where d: "defer_job utc_env ?cfg at_60 (lit ''j'') (lit ''update'') None None None (Some (lit ''u1'')) once_store = (st1, Inr True)"
    by (simp add: defer_job_def once_store_def once_job_def park_values_def push_back_def py_or_def after_save_def save_def at_60_def Let_def)
  obtain st2 r where s: "resume_update_parked utc_env at_60 (\<lambda>_. lit ''job_rev_3'') None None st1 = (st2, r)" by fastforce
  then obtain n where n: "r = Inr n" by (auto simp: resume_update_parked_def save_def at_60_def Let_def split: if_splits)
  have job: "map_of (jobs once_store) (lit ''j'') = Some once_job" "dget once_job ''scheduled_run_at'' \<noteq> JNull"
    "dget once_job ''_update_park_schedule_id'' = JNull" "py_float utc_env (dget once_job ''next_run_at'') = Inr 50"
    by (simp_all add: once_store_def once_job_def)
  have sid: "strip (lit ''u1'') = lit ''u1''" by (simp add: ascii_eval)
  have now: "clk_now at_60 = 60" by (simp add: at_60_def)
  obtain job where "map_of (jobs st2) (lit ''j'') = Some job" "dget job ''next_run_at'' = JFloat 50"
    using parked_job_resumes [OF job(1-3) d sid _ _ _ s [unfolded n]] job(4) by (auto simp: now)
  then show ?thesis using d s n by blast
qed

end
