(* ===== verification/Queue_Rows.thy ===== *)
theory Queue_Rows
  imports Mail_Grants
begin

text \<open>
  Rows of the turn queue as they are rebuilt from their events: \<open>queued_turn_from_event\<close> of \<open>agent_server.py\<close> and the
  functions that normalise the parts of a row (steering lineage, chat routes, peer routes, conversation fields).
\<close>

section \<open>Environment\<close>

text \<open>\<open>q_repr\<close> is \<open>str\<close> of a value that is no string; \<open>q_hidden\<close> says which characters are controls or line or paragraph
  separators (\<open>unicodedata\<close>); \<open>q_found\<close> lists the file records on disk whose path is wanted; \<open>q_now\<close> is \<open>now_iso()\<close>.\<close>

record queue_env =
  q_repr :: "json \<Rightarrow> pystr"
  q_hidden :: "nat \<Rightarrow> bool"
  q_found :: "pystr list \<Rightarrow> pystr list"
  q_now :: pystr

text \<open>\<open>str(v or "")\<close>.\<close>

definition qstr :: "queue_env \<Rightarrow> json \<Rightarrow> pystr" where
  "qstr env v = (case py_or v (JStr []) of JStr s \<Rightarrow> s | w \<Rightarrow> q_repr env w)"

lemma qstr_JStr [simp]: "qstr env (JStr s) = s"
  by (simp add: qstr_def py_or_def)

text \<open>\<open>list(v)\<close>, and the values that a loop over \<open>v\<close> visits.\<close>

fun py_list :: "json \<Rightarrow> py_exn + json list" where
  "py_list (JArr xs) = Inr xs"
| "py_list (JStr s) = Inr (map (\<lambda>c. JStr [c]) s)"
| "py_list (JObj d) = Inr (map (\<lambda>kv. JStr (fst kv)) d)"
| "py_list _ = Inl TypeError"

text \<open>\<open>list(event.get(key) or [])\<close>.\<close>

definition list_field :: "jdict \<Rightarrow> string \<Rightarrow> py_exn + json" where
  "list_field event key = (case py_list (py_or (dget event key) (JArr [])) of Inl e \<Rightarrow> Inl e | Inr xs \<Rightarrow> Inr (JArr xs))"

section \<open>Steering lineage\<close>

fun merge_ids :: "queue_env \<Rightarrow> pystr list \<Rightarrow> json list \<Rightarrow> pystr list" where
  "merge_ids env merged [] = merged"
| "merge_ids env merged (v # vs) =
    (let file_id = strip (qstr env v)
     in if file_id \<noteq> [] \<and> file_id \<notin> set merged then merge_ids env (merged @ [file_id]) vs else merge_ids env merged vs)"

definition merged_file_ids :: "queue_env \<Rightarrow> json list \<Rightarrow> pystr list" where
  "merged_file_ids env vs = merge_ids env [] vs"

definition ids_json :: "pystr list \<Rightarrow> json" where
  "ids_json ids = JArr (map JStr ids)"

definition lineage_item :: "pystr \<Rightarrow> pystr list \<Rightarrow> jdict" where
  "lineage_item prompt file_ids = [(lit ''prompt'', JStr prompt), (lit ''file_ids'', ids_json file_ids)]"

definition normalize_steering_lineage :: "queue_env \<Rightarrow> json \<Rightarrow> jdict list" where
  "normalize_steering_lineage env v = (case v of
     JArr items \<Rightarrow> concat (map (\<lambda>item. case item of
         JObj d \<Rightarrow>
           let prompt = qstr env (dget d ''prompt'');
               file_ids = merged_file_ids env (case dget d ''file_ids'' of JArr ids \<Rightarrow> ids | _ \<Rightarrow> [])
           in if strip prompt \<noteq> [] \<or> file_ids \<noteq> [] then [lineage_item prompt file_ids] else []
       | _ \<Rightarrow> []) items)
   | _ \<Rightarrow> [])"

definition lineage_json :: "jdict list \<Rightarrow> json" where
  "lineage_json items = JArr (map JObj items)"

section \<open>Legacy replay envelopes\<close>

definition ends_with :: "pystr \<Rightarrow> pystr \<Rightarrow> bool" where
  "ends_with p s \<longleftrightarrow> starts_with (rev p) (rev s)"

definition LEGACY_STEERING_PREFIX :: pystr where
  "LEGACY_STEERING_PREFIX = lit ''The previous agent turn was interrupted before completion. Continue that request while ''
     @ lit ''applying the steering instruction below. Treat both messages as user input, and give the ''
     @ lit ''steering instruction priority wherever they conflict.'' @ [10, 10]"

definition is_line_break :: "nat \<Rightarrow> bool" where
  "is_line_break c \<longleftrightarrow> c \<in> {10, 11, 12, 13, 28, 29, 30, 133, 8232, 8233}"

text \<open>\<open>str.splitlines()\<close>; a carriage return and a line feed together break once.\<close>

fun splitlines_acc :: "pystr \<Rightarrow> pystr \<Rightarrow> pystr list" where
  "splitlines_acc l [] = (if l = [] then [] else [rev l])"
| "splitlines_acc l (c # s) =
    (if is_line_break c
     then rev l # (case s of [] \<Rightarrow> [] | d # r \<Rightarrow> if c = 13 \<and> d = 10 then splitlines_acc [] r else splitlines_acc [] s)
     else splitlines_acc (c # l) s)"

definition legacy_attachment_paths :: "pystr \<Rightarrow> pystr list" where
  "legacy_attachment_paths s = map (\<lambda>line. let v = strip (drop 2 line) in case rfind_sub (lit '' ('') v of Some i \<Rightarrow> take i v | None \<Rightarrow> v)
     (filter (starts_with (lit ''- '')) (splitlines_acc [] s))"

definition legacy_file_ids_for_paths :: "queue_env \<Rightarrow> pystr list \<Rightarrow> pystr list" where
  "legacy_file_ids_for_paths env paths =
    (let wanted = filter (\<lambda>p. p \<noteq> []) (map strip paths)
     in if wanted = [] then [] else merged_file_ids env (map JStr (q_found env wanted)))"

definition split_legacy_scoped_attachments :: "queue_env \<Rightarrow> pystr \<Rightarrow> pystr \<times> pystr list" where
  "split_legacy_scoped_attachments env s =
    (let marker = [10, 10] @ lit ''[Interrupted message attachments]'' @ [10]; end_marker = [10] @ lit ''[End interrupted message attachments]''
     in case rfind_sub marker s of
          Some i \<Rightarrow> if ends_with end_marker s
            then (take i s, legacy_file_ids_for_paths env (legacy_attachment_paths
              (take (length s - length end_marker - (i + length marker)) (drop (i + length marker) s))))
            else (s, [])
        | None \<Rightarrow> (s, []))"

definition strip_agentsdock_provider_context :: "pystr \<Rightarrow> pystr" where
  "strip_agentsdock_provider_context s =
    (if \<not> starts_with (lit ''[AgentsDock context]'') s then s
     else
       let exact = [10] @ lit ''[End AgentsDock context]'' @ [10, 10]; base = lit ''User prompt follows.'' @ [10] @ lit '']'' @ [10, 10] in
       case find_sub exact s of
         Some i \<Rightarrow> drop (i + length exact) s
       | None \<Rightarrow> (case find_sub base s of
           None \<Rightarrow> s
         | Some i \<Rightarrow>
             let remainder = drop (i + length base) s in
             (case find_sub (lit ''Scheduled jobs:'') remainder of
                None \<Rightarrow> s
              | Some a \<Rightarrow> (case find_sub (lit ''Current jobs for this chat (turn-start snapshot; prompts omitted):'') (drop a remainder) of
                  None \<Rightarrow> s
                | Some b \<Rightarrow> (case find_sub [10, 10] (drop (a + b) remainder) of
                    None \<Rightarrow> s
                  | Some c \<Rightarrow>
                      let remainder = drop (a + b + c + 2) remainder;
                          heading = lit ''[Per-chat system instructions]'' @ [10];
                          remainder = (if starts_with ([10] @ heading) remainder then drop 1 remainder else remainder);
                          ending = [10] @ lit ''[End per-chat system instructions]'' @ [10, 10]
                      in if \<not> starts_with heading remainder then remainder
                         else (case find_sub ending remainder of None \<Rightarrow> s | Some d \<Rightarrow> drop (d + length ending) remainder))))))"

text \<open>The interrupted text and the steering text of an envelope that has exactly the generated form.\<close>

definition cut_envelope :: "pystr \<Rightarrow> pystr \<Rightarrow> pystr \<Rightarrow> pystr \<Rightarrow> pystr \<Rightarrow> pystr \<Rightarrow> (pystr \<times> pystr) option" where
  "cut_envelope prefix istart iend sstart send s =
    (let n = length prefix in
     if \<not> starts_with prefix s \<or> \<not> ends_with send s \<or> \<not> starts_with istart (drop n s) then None
     else case rfind_sub sstart s of
         None \<Rightarrow> None
       | Some a \<Rightarrow> (case rfind_sub iend (take a s) of
           None \<Rightarrow> None
         | Some b \<Rightarrow>
             if b + length iend \<noteq> a then None
             else Some (take (b - (n + length istart)) (drop (n + length istart) s),
               take (length s - length send - (a + length sstart)) (drop (a + length sstart) s))))"

definition legacy_parts :: "pystr \<Rightarrow> (pystr \<times> pystr) option" where
  "legacy_parts s = cut_envelope LEGACY_STEERING_PREFIX (lit ''[Interrupted message]'' @ [10]) ([10] @ lit ''[End interrupted message]'')
     ([10, 10] @ lit ''[Steering message]'' @ [10]) ([10] @ lit ''[End steering message]'') s"

lemma cut_envelope_shorter:
  assumes "cut_envelope prefix istart iend sstart send s = Some (t, u)" "prefix \<noteq> []"
  shows "length t < length s"
proof -
  have pre: "take (length prefix) s = prefix" and t: "\<exists>k m. t = take k (drop (length prefix + m) s)"
    using assms by (auto simp: cut_envelope_def Let_def starts_with_def split: if_splits option.splits)
  have "0 < length s" "0 < length prefix" using pre assms(2) by auto
  moreover obtain k m where "t = take k (drop (length prefix + m) s)" using t by blast
  then have "length t \<le> length s - (length prefix + m)" by simp
  ultimately show ?thesis by linarith
qed

lemma legacy_parts_shorter: "legacy_parts s = Some (t, u) \<Longrightarrow> length t < length s"
  unfolding legacy_parts_def by (erule cut_envelope_shorter) (simp add: LEGACY_STEERING_PREFIX_def)

lemma attachments_shorter: "length (fst (split_legacy_scoped_attachments env s)) \<le> length s"
  by (simp add: split_legacy_scoped_attachments_def Let_def split: option.split)

text \<open>The last item of a nested lineage takes the attachments when it has none of its own.\<close>

definition attach_last :: "pystr list \<Rightarrow> jdict list \<Rightarrow> jdict list" where
  "attach_last file_ids items = (if file_ids \<noteq> [] \<and> \<not> truthy (dget (last items) ''file_ids'')
     then butlast items @ [dset (last items) ''file_ids'' (ids_json file_ids)] else items)"

function parse_legacy_steering_lineage :: "queue_env \<Rightarrow> pystr \<Rightarrow> json list \<Rightarrow> jdict list" where
  "parse_legacy_steering_lineage env s latest_file_ids = (case legacy_parts s of
     None \<Rightarrow> []
   | Some (interrupted, steering) \<Rightarrow>
       let scoped = split_legacy_scoped_attachments env interrupted; itext = fst scoped; ifiles = snd scoped;
           nested = parse_legacy_steering_lineage env itext (map JStr ifiles);
           lineage = (if nested \<noteq> [] then attach_last ifiles nested
             else [lineage_item (strip_agentsdock_provider_context itext) ifiles])
       in normalize_steering_lineage env
            (lineage_json (lineage @ [lineage_item steering (merged_file_ids env latest_file_ids)])))"
  by pat_completeness auto
termination
proof (relation "measure (\<lambda>(env, s, ids). length s)")
  fix env :: queue_env and s :: pystr and latest :: "json list" and x interrupted steering scoped itext ifiles
  assume "legacy_parts s = Some x" "(interrupted, steering) = x" "scoped = split_legacy_scoped_attachments env interrupted"
    "itext = fst scoped" "ifiles = snd scoped"
  then show "((env, itext, map JStr ifiles), (env, s, latest)) \<in> measure (\<lambda>(env, s, ids). length s)"
    using legacy_parts_shorter [of s interrupted steering] attachments_shorter [of env interrupted] by auto
qed simp

declare parse_legacy_steering_lineage.simps [simp del]

section \<open>Routes\<close>

definition LOCAL_CROSS_CHAT_DELIVERY_PURPOSE :: string where
  "LOCAL_CROSS_CHAT_DELIVERY_PURPOSE = ''cross_chat_handoff_delivery''"

definition CROSS_CHAT_DELIVERY_PURPOSES :: "string list" where
  "CROSS_CHAT_DELIVERY_PURPOSES = [LOCAL_CROSS_CHAT_DELIVERY_PURPOSE, ''secure_peer_handoff_delivery'']"

definition PROVIDER_CROSS_CHAT_ROUTE_ACTIONS :: "string list" where
  "PROVIDER_CROSS_CHAT_ROUTE_ACTIONS = [''instruction'', ''request_reply'']"

definition AGENT_AMBIENT_LOCAL_HANDOFFS_ENABLED :: bool where
  "AGENT_AMBIENT_LOCAL_HANDOFFS_ENABLED = False"

definition route_alias :: "queue_env \<Rightarrow> json \<Rightarrow> pystr option" where
  "route_alias env v =
    (let alias = qstr env v
     in if alias \<noteq> strip alias \<or> alias = [] \<or> \<not> is_lower (hd alias) \<or> 32 < length alias
          \<or> \<not> list_all (\<lambda>c. is_lower c \<or> is_digit c \<or> c = 95 \<or> c = 45) (tl alias)
        then None else Some alias)"

definition route_actions :: "queue_env \<Rightarrow> json \<Rightarrow> json option" where
  "route_actions env v = (case v of
     JArr vs \<Rightarrow>
       let actions = map (qstr env) vs
       in if vs = [] \<or> length PROVIDER_CROSS_CHAT_ROUTE_ACTIONS < length actions \<or> \<not> distinct actions
            \<or> \<not> list_all (\<lambda>a. a \<in> lit ` set PROVIDER_CROSS_CHAT_ROUTE_ACTIONS) actions
          then None
          else Some (ids_json (filter (\<lambda>a. a \<in> set actions) (map lit PROVIDER_CROSS_CHAT_ROUTE_ACTIONS)))
   | _ \<Rightarrow> None)"

text \<open>Identifiers, aliases and targets that earlier routes of the list have taken.\<close>

type_synonym taken = "pystr list \<times> pystr list \<times> pystr list"

definition route_base :: "queue_env \<Rightarrow> jdict \<Rightarrow> taken \<Rightarrow> (pystr \<times> pystr \<times> pystr \<times> pystr \<times> json) option" where
  "route_base env raw taken = (case taken of (ids, aliases, targets) \<Rightarrow>
     let route_id = qstr env (dget raw ''route_id''); revision = qstr env (dget raw ''revision'');
         target = qstr env (dget raw ''target_session_id'')
     in case (route_alias env (dget raw ''alias''), route_actions env (dget raw ''actions'')) of
          (Some alias, Some actions) \<Rightarrow>
            if \<not> prefixed_hex32 ''route_'' route_id \<or> \<not> prefixed_hex32 ''rev_'' revision \<or> target = [] \<or> 128 < length target
               \<or> route_id \<in> set ids \<or> alias \<in> set aliases \<or> target \<in> set targets
            then None else Some (route_id, revision, alias, target, actions)
        | _ \<Rightarrow> None)"

definition take_route :: "pystr \<Rightarrow> pystr \<Rightarrow> pystr \<Rightarrow> taken \<Rightarrow> taken" where
  "take_route route_id alias target taken = (case taken of (ids, aliases, targets) \<Rightarrow> (route_id # ids, alias # aliases, target # targets))"

fun provider_routes :: "queue_env \<Rightarrow> taken \<Rightarrow> json list \<Rightarrow> jdict list" where
  "provider_routes env taken [] = []"
| "provider_routes env taken (v # vs) = (case v of
     JObj raw \<Rightarrow>
       let effect = qstr env (dget raw ''reciprocal_origin_effect_id''); pair = qstr env (dget raw ''pair_id'');
           paired = qstr env (dget raw ''paired_route_id'')
       in (case route_base env raw taken of
            None \<Rightarrow> provider_routes env taken vs
          | Some (route_id, revision, alias, target, actions) \<Rightarrow>
              if (pair \<noteq> []) \<noteq> (paired \<noteq> [])
                 \<or> pair \<noteq> [] \<and> (\<not> prefixed_hex32 ''pair_'' pair \<or> \<not> prefixed_hex32 ''route_'' paired \<or> paired = route_id)
                 \<or> effect \<noteq> [] \<and> \<not> prefixed_hex32 ''exchange_'' effect
              then provider_routes env taken vs
              else ([(lit ''route_id'', JStr route_id), (lit ''revision'', JStr revision), (lit ''alias'', JStr alias),
                     (lit ''target_session_id'', JStr target), (lit ''actions'', actions),
                     (lit ''created_at'', JStr (qstr env (dget raw ''created_at''))), (lit ''updated_at'', JStr (qstr env (dget raw ''updated_at'')))]
                    @ (if effect \<noteq> [] then [(lit ''reciprocal_origin_effect_id'', JStr effect)] else [])
                    @ (if pair \<noteq> [] then [(lit ''pair_id'', JStr pair), (lit ''paired_route_id'', JStr paired)] else []))
                   # provider_routes env (take_route route_id alias target taken) vs)
   | _ \<Rightarrow> provider_routes env taken vs)"

definition normalized_provider_cross_chat_routes :: "queue_env \<Rightarrow> json \<Rightarrow> jdict list" where
  "normalized_provider_cross_chat_routes env v = (case v of JArr vs \<Rightarrow> provider_routes env ([], [], []) vs | _ \<Rightarrow> [])"

definition ephemeral_kind :: "json \<Rightarrow> bool" where
  "ephemeral_kind v \<longleftrightarrow> v = js ''ambient_local'' \<or> v = js ''prompt_reference''"

fun ephemeral_routes :: "queue_env \<Rightarrow> taken \<Rightarrow> json list \<Rightarrow> jdict list" where
  "ephemeral_routes env taken [] = []"
| "ephemeral_routes env taken (v # vs) = (case v of
     JObj raw \<Rightarrow>
       let kind = dget raw ''route_kind'' in
       if \<not> ephemeral_kind kind \<or> kind = js ''ambient_local'' \<and> \<not> AGENT_AMBIENT_LOCAL_HANDOFFS_ENABLED then ephemeral_routes env taken vs
       else (case route_base env raw taken of
            None \<Rightarrow> ephemeral_routes env taken vs
          | Some (route_id, revision, alias, target, actions) \<Rightarrow>
              [(lit ''route_id'', JStr route_id), (lit ''revision'', JStr revision), (lit ''alias'', JStr alias),
               (lit ''target_session_id'', JStr target), (lit ''actions'', actions), (lit ''route_kind'', kind)]
              # ephemeral_routes env (take_route route_id alias target taken) vs)
   | _ \<Rightarrow> ephemeral_routes env taken vs)"

text \<open>A route kind that is a list or a dictionary cannot be looked up in a set.\<close>

definition normalized_provider_cross_chat_route_snapshot :: "queue_env \<Rightarrow> json \<Rightarrow> py_exn + jdict list" where
  "normalized_provider_cross_chat_route_snapshot env v = (case v of
     JArr vs \<Rightarrow>
       if list_ex (\<lambda>x. case x of JObj raw \<Rightarrow> \<not> hashable (dget raw ''route_kind'') | _ \<Rightarrow> False) vs then Inl TypeError
       else if list_ex (\<lambda>x. case x of JObj raw \<Rightarrow> ephemeral_kind (dget raw ''route_kind'') | _ \<Rightarrow> False) vs
       then Inr (ephemeral_routes env ([], [], []) vs)
       else Inr (normalized_provider_cross_chat_routes env v)
   | _ \<Rightarrow> Inr [])"

definition hinted_target :: "queue_env \<Rightarrow> json \<Rightarrow> pystr list" where
  "hinted_target env v = (case v of
     JObj raw \<Rightarrow>
       if dget raw ''target_kind'' = JNull \<and> dget raw ''action'' = js ''route'' \<and> dget raw ''grant_intent'' = JBool True
          \<and> qstr env (dget raw ''session_id'') \<noteq> []
       then [qstr env (dget raw ''session_id'')] else []
   | _ \<Rightarrow> [])"

definition provider_cross_chat_route_snapshot_for_hints :: "queue_env \<Rightarrow> json \<Rightarrow> json list \<Rightarrow> py_exn + jdict list" where
  "provider_cross_chat_route_snapshot_for_hints env v references =
    (if list_ex (\<lambda>x. case x of JObj _ \<Rightarrow> False | _ \<Rightarrow> True) references then Inl AttributeError
     else let targets = concat (map (hinted_target env) references) in
       ebind (normalized_provider_cross_chat_route_snapshot env v) (\<lambda>routes.
         Inr (filter (\<lambda>route. dget route ''route_kind'' = JNull
           \<and> (truthy (dget route ''pair_id'') \<or> qstr env (dget route ''target_session_id'') \<in> set targets)) routes)))"

definition secure_peer_keys :: "string list" where
  "secure_peer_keys = [''version'', ''role'', ''connection_id'', ''team_id'', ''hub_id'', ''source_server_identity'', ''source_chat_id'',
     ''source_route_id'', ''source_route_revision'', ''target_server_identity'', ''target_route_id'', ''target_route_revision'', ''action'']"

fun peer_routes :: "json list \<Rightarrow> server_error + json list" where
  "peer_routes [] = Inr []"
| "peer_routes (v # vs) = (case v of
     JObj d \<Rightarrow> if dkeys_eq d secure_peer_keys
       then ebind (peer_routes vs) (\<lambda>rest. Inr (JObj (map (\<lambda>k. (lit k, dget d k)) secure_peer_keys) # rest))
       else Inl (Http 400 (lit ''secure peer route snapshot is invalid''))
   | _ \<Rightarrow> Inl (Http 400 (lit ''secure peer route snapshot is invalid'')))"

definition normalized_secure_peer_route_snapshots :: "json \<Rightarrow> server_error + json" where
  "normalized_secure_peer_route_snapshots v = (case v of JArr vs \<Rightarrow> ebind (peer_routes vs) (\<lambda>rs. Inr (JArr rs)) | _ \<Rightarrow> Inr (JArr []))"

section \<open>Conversation fields\<close>

definition sanitized_provider_route_label :: "queue_env \<Rightarrow> json \<Rightarrow> pystr" where
  "sanitized_provider_route_label env v =
    (let clean = take 160 (normalize_ws (map (\<lambda>c. if q_hidden env c then 32 else c) (take 640 (qstr env v))))
     in if clean = [] then lit ''Untitled chat'' else clean)"

definition async_route_queue_fields :: "queue_env \<Rightarrow> jdict \<Rightarrow> jdict" where
  "async_route_queue_fields env item =
    (let conversation = qstr env (dget item ''conversation_id''); body = dget item ''message_body''; revision = dget item ''message_revision'' in
     if dget item ''purpose'' \<noteq> js LOCAL_CROSS_CHAT_DELIVERY_PURPOSE \<or> dget item ''conversation_mode'' \<noteq> js ''async_route_v1''
        \<or> \<not> truthy (dget item ''message_id'') \<or> \<not> py_eq (dget item ''message_id'') (dget item ''cross_chat_envelope_id'')
        \<or> truthy (dget item ''cross_chat_exchange_id'') \<or> truthy (dget item ''cross_chat_exchange_leg_id'')
        \<or> \<not> prefixed_hex32 ''pair_'' conversation
     then []
     else [(lit ''conversation_mode'', js ''async_route_v1''), (lit ''conversation_id'', JStr conversation),
           (lit ''message_id'', JStr (qstr env (dget item ''message_id''))),
           (lit ''source_title'', JStr (sanitized_provider_route_label env (dget item ''source_title''))),
           (lit ''target_title'', JStr (sanitized_provider_route_label env (dget item ''target_title'')))]
       @ (case (body, revision, dget item ''message_edited_by_user'') of
            (JStr b, JInt r, JBool edited) \<Rightarrow>
              if length b \<le> 100000 \<and> 0 \<le> r
              then [(lit ''message_body'', body), (lit ''message_revision'', revision), (lit ''message_edited_by_user'', JBool edited)] else []
          | _ \<Rightarrow> []))"

section \<open>A row from its event\<close>

text \<open>The lineage and the request prompt; a run-now event without a lineage may hold a generated replay envelope.\<close>

definition event_lineage :: "queue_env \<Rightarrow> jdict \<Rightarrow> py_exn + (jdict list \<times> json)" where
  "event_lineage env event =
    (let lineage = normalize_steering_lineage env (dget event ''steering_lineage''); request_prompt = dget event ''request_prompt'' in
     if dget event ''type'' = js ''turn_queue_run_now'' \<and> truthy (dget event ''replays_interrupted_message'') \<and> lineage = [] then
       ebind (py_list (py_or (dget event ''file_ids'') (JArr []))) (\<lambda>ids.
         let lineage = parse_legacy_steering_lineage env (qstr env request_prompt) ids
         in Inr (lineage, if lineage \<noteq> [] then dget (last lineage) ''prompt'' else dget event ''prompt''))
     else Inr (lineage, request_prompt))"

definition event_routes :: "queue_env \<Rightarrow> jdict \<Rightarrow> py_exn + json" where
  "event_routes env event =
    ebind (normalized_provider_cross_chat_route_snapshot env (dget event ''provider_cross_chat_route_snapshot'')) (\<lambda>routes.
      ebind (if dget event ''purpose'' = JNull
             then ebind (py_list (py_or (dget event ''chat_references'') (JArr []))) (\<lambda>refs.
               provider_cross_chat_route_snapshot_for_hints env (lineage_json routes) refs)
             else Inr routes) (\<lambda>routes. Inr (lineage_json routes)))"

definition first_set :: "json \<Rightarrow> json \<Rightarrow> json" where
  "first_set v w = (if v = JNull then w else v)"

text \<open>The row, given the fields that are computed first.\<close>

definition queued_row :: "queue_env \<Rightarrow> jdict \<Rightarrow> jdict \<Rightarrow> jdict list \<Rightarrow> json \<Rightarrow> bool \<Rightarrow> json \<Rightarrow> json \<Rightarrow> json \<Rightarrow> json \<Rightarrow> json \<Rightarrow> json
    \<Rightarrow> json \<Rightarrow> json \<Rightarrow> json \<Rightarrow> int \<Rightarrow> jdict" where
  "queued_row env event sess lineage request_prompt delivery_row routes file_ids display_file_ids chat_references team_references peer_snapshots
       obligation_ids exchange_ids capabilities pos =
     [(lit ''queued_id'', JStr (qstr env (dget event ''queued_id''))),
      (lit ''prompt'', first_set request_prompt (py_or (dget event ''prompt'') (JStr []))),
      (lit ''file_ids'', file_ids), (lit ''display_file_ids'', display_file_ids),
      (lit ''backend'', if delivery_row then JNull else py_or (dget event ''backend'') (dget sess ''backend'')),
      (lit ''model'', if delivery_row then JNull else first_set (dget event ''model'') (dget sess ''model'')),
      (lit ''effort'', if delivery_row then JNull else first_set (dget event ''effort'') (dget sess ''effort'')),
      (lit ''skill_selection'', if delivery_row then JNull else dget event ''skill_selection''),
      (lit ''display_prompt'', dget event ''display_prompt''), (lit ''shared_chat_id'', dget event ''shared_chat_id''),
      (lit ''shared_chat_request_id'', dget event ''shared_chat_request_id''), (lit ''author_label'', dget event ''author_label''),
      (lit ''purpose'', dget event ''purpose'')]
           @ async_route_queue_fields env event @
           [(lit ''digest_job_id'', dget event ''digest_job_id''), (lit ''digest_detail'', dget event ''digest_detail''),
      (lit ''source_session_id'', dget event ''source_session_id''), (lit ''target_session_id'', dget event ''target_session_id''),
      (lit ''chat_references'', chat_references), (lit ''team_references'', team_references),
      (lit ''cross_chat_envelope_id'', dget event ''cross_chat_envelope_id''),
      (lit ''cross_chat_exchange_id'', py_or (dget event ''cross_chat_exchange_id'') (dget event ''exchange_id'')),
      (lit ''cross_chat_exchange_leg_id'', py_or (dget event ''cross_chat_exchange_leg_id'') (dget event ''exchange_leg_id'')),
      (lit ''cross_chat_exchange_status'', JBool (truthy (dget event ''cross_chat_exchange_status''))),
      (lit ''secure_peer_envelope_id'', dget event ''secure_peer_envelope_id''),
      (lit ''secure_peer_route_snapshots'', peer_snapshots),
      (lit ''cross_chat_obligation_ids'', obligation_ids), (lit ''cross_chat_exchange_ids'', exchange_ids),
      (lit ''steer_interrupted_run_id'', py_or (dget event ''interrupted_run_id'') (dget event ''steer_interrupted_run_id'')),
      (lit ''replays_interrupted_message'', JBool (truthy (dget event ''replays_interrupted_message''))),
      (lit ''steering_lineage'', lineage_json lineage), (lit ''client_capabilities'', capabilities),
      (lit ''provider_cross_chat_route_snapshot'', routes),
      (lit ''provider_team_mail_route_snapshot'', routes_json (grant_snapshot (dget event ''provider_team_mail_route_snapshot''))),
      (lit ''created_at'', py_or (dget event ''ts'') (JStr (q_now env))), (lit ''position'', JInt pos),
      (lit ''_durable'', JBool True), (lit ''_paused_after_stop'', JBool False)]"

definition queued_turn_from_event :: "queue_env \<Rightarrow> jdict \<Rightarrow> jdict \<Rightarrow> nat \<Rightarrow> server_error + jdict" where
  "queued_turn_from_event env event sess position =
    ebind (raised (event_lineage env event)) (\<lambda>(lineage, request_prompt).
    ebind (if hashable (dget event ''purpose'') then Inr (dget event ''purpose'' \<in> (\<lambda>p. js p) ` set CROSS_CHAT_DELIVERY_PURPOSES)
           else Inl (Raised TypeError)) (\<lambda>delivery_row.
    ebind (raised (event_routes env event)) (\<lambda>routes.
    ebind (raised (list_field event ''file_ids'')) (\<lambda>file_ids.
    ebind (if dget event ''display_file_ids'' = JNull then Inr JNull else raised (list_field event ''display_file_ids'')) (\<lambda>display_file_ids.
    ebind (raised (list_field event ''chat_references'')) (\<lambda>chat_references.
    ebind (raised (list_field event ''team_references'')) (\<lambda>team_references.
    ebind (normalized_secure_peer_route_snapshots (dget event ''secure_peer_route_snapshots'')) (\<lambda>peer_snapshots.
    ebind (raised (list_field event ''cross_chat_obligation_ids'')) (\<lambda>obligation_ids.
    ebind (raised (list_field event ''cross_chat_exchange_ids'')) (\<lambda>exchange_ids.
    ebind (raised (list_field event ''client_capabilities'')) (\<lambda>capabilities.
    ebind (raised (py_int (py_or (dget event ''position'') (JInt (int position))))) (\<lambda>pos.
      Inr (queued_row env event sess lineage request_prompt delivery_row routes file_ids display_file_ids chat_references team_references peer_snapshots
        obligation_ids exchange_ids capabilities pos)))))))))))))"

lemma queued_turn_id: "queued_turn_from_event env event sess position = Inr row \<Longrightarrow> dget row ''queued_id'' = JStr (qstr env (dget event ''queued_id''))"
  by (auto simp: queued_turn_from_event_def ebind_Inr_iff queued_row_def)

end
