(* ===== verification/Queue_Recovery.thy ===== *)
theory Queue_Recovery
  imports Queue_Rows Event_Log
begin

text \<open>
  Recovery of the turn queues from the event logs: \<open>queued_event_lines\<close>, \<open>record_mailbox_migration_evidence\<close> and
  \<open>scan_queued_turns_from_events\<close> of \<open>agent_server.py\<close>. A scan replays the queue events of a chat over a table of
  pending rows and an order of their identifiers; an exception in one chat ends the whole scan.
\<close>

section \<open>Lines\<close>

definition ascii_bytes :: "string \<Rightarrow> bytes" where
  "ascii_bytes s = map of_nat (lit s)"

text \<open>A key in its JSON quotes.\<close>

definition quoted :: "string \<Rightarrow> bytes" where
  "quoted s = [34] @ ascii_bytes s @ [34]"

definition queued_event_lines :: "bool \<Rightarrow> bytes \<Rightarrow> bytes list" where
  "queued_event_lines include_envelopes f = filter (\<lambda>l. contains (quoted ''queued_id'') l \<or> contains (quoted ''turn_queue_paused'') l
     \<or> include_envelopes \<and> contains (quoted ''cross_chat_envelope_id'') l) (file_lines f)"

section \<open>Evidence for the mailbox migration\<close>

definition terminal_types :: "string list" where
  "terminal_types = [''turn_started'', ''turn_finished'', ''turn_stopped'', ''cross_chat_handoff_started'', ''cross_chat_handoff_delivered'',
     ''cross_chat_handoff_failed'', ''cross_chat_handoff_cancelled'', ''chat_conversation_message_started'',
     ''chat_conversation_message_delivered'', ''chat_conversation_message_failed'', ''chat_conversation_message_cancelled'']"

type_synonym evidence = "(pystr \<times> jdict) list"

text \<open>A type that is a list or a dictionary cannot be looked up in a set.\<close>

definition record_mailbox_migration_evidence :: "queue_env \<Rightarrow> jdict \<Rightarrow> evidence \<Rightarrow> server_error + evidence" where
  "record_mailbox_migration_evidence env event ev =
    (let key = qstr env (dget event ''cross_chat_envelope_id''); kind = dget event ''type'' in
     case map_of ev key of
       None \<Rightarrow> Inr ev
     | Some item \<Rightarrow>
         if \<not> hashable kind then Inl (Raised TypeError)
         else
           let item = (if kind \<in> (\<lambda>t. js t) ` set terminal_types then dset item ''started_or_terminal'' (JBool True) else item);
               item = (if kind \<in> {js ''turn_queue_delivery_fenced'', js ''turn_queue_run_now''} then dset item ''fenced_or_promoted'' (JBool True) else item)
           in Inr (AList.update key item ev))"

section \<open>Replaying one event\<close>

record queue_scan =
  pending_rows :: "(pystr \<times> jdict) list"
  row_order :: "pystr list"

definition drop_row :: "pystr \<Rightarrow> queue_scan \<Rightarrow> queue_scan" where
  "drop_row q st = st\<lparr>pending_rows := AList.delete q (pending_rows st), row_order := remove1 q (row_order st)\<rparr>"

definition put_row :: "pystr \<Rightarrow> jdict \<Rightarrow> queue_scan \<Rightarrow> queue_scan" where
  "put_row q row st = st\<lparr>pending_rows := AList.update q row (pending_rows st)\<rparr>"

definition pause_row :: "queue_env \<Rightarrow> queue_scan \<Rightarrow> json \<Rightarrow> queue_scan" where
  "pause_row env st v = (let q = qstr env v in case map_of (pending_rows st) q of
     None \<Rightarrow> st | Some row \<Rightarrow> put_row q (dset row ''_paused_after_stop'' (JBool True)) st)"

definition fence_row :: "pystr \<Rightarrow> queue_scan \<Rightarrow> queue_scan" where
  "fence_row q st = (case map_of (pending_rows st) q of
     None \<Rightarrow> st
   | Some row \<Rightarrow> put_row q (dset (dset row ''_paused_after_stop'' (JBool True)) ''_native_delivery_fenced'' (JBool True)) st)"

definition fenced_index :: "jdict \<Rightarrow> nat \<Rightarrow> nat" where
  "fenced_index event n = (case py_int (py_or (dget event ''position'') (JInt (int n + 1))) of
     Inr p \<Rightarrow> nat (max 0 (min (p - 1) (int n))) | Inl _ \<Rightarrow> n)"

definition insert_at :: "nat \<Rightarrow> 'a \<Rightarrow> 'a list \<Rightarrow> 'a list" where
  "insert_at i x xs = take i xs @ x # drop i xs"

definition scan_fenced :: "queue_env \<Rightarrow> jdict \<Rightarrow> jdict \<Rightarrow> pystr \<Rightarrow> queue_scan \<Rightarrow> server_error + queue_scan" where
  "scan_fenced env sess event q st =
    (if map_of (pending_rows st) q \<noteq> None then Inr (fence_row q st)
     else ebind (queued_turn_from_event env event sess (length (row_order st) + 1)) (\<lambda>row.
       Inr (fence_row q ((put_row q row st)\<lparr>row_order := insert_at (fenced_index event (length (row_order st))) q (row_order st)\<rparr>))))"

definition scan_queued :: "queue_env \<Rightarrow> jdict \<Rightarrow> jdict \<Rightarrow> pystr \<Rightarrow> queue_scan \<Rightarrow> server_error + queue_scan" where
  "scan_queued env sess event q st =
    ebind (queued_turn_from_event env event sess (length (row_order st) + 1)) (\<lambda>row.
      let st = put_row q row st in Inr (if q \<in> set (row_order st) then st else st\<lparr>row_order := row_order st @ [q]\<rparr>))"

text \<open>\<open>if event.get(key) is not None: row[key] = list(event.get(key) or [])\<close>, for several keys.\<close>

fun copy_lists :: "jdict \<Rightarrow> string list \<Rightarrow> jdict \<Rightarrow> server_error + jdict" where
  "copy_lists event [] row = Inr row"
| "copy_lists event (k # ks) row =
    (if dget event k = JNull then copy_lists event ks row
     else ebind (raised (list_field event k)) (\<lambda>v. copy_lists event ks (dset row k v)))"

definition copy_set :: "jdict \<Rightarrow> string \<Rightarrow> string \<Rightarrow> (json \<Rightarrow> json) \<Rightarrow> jdict \<Rightarrow> jdict" where
  "copy_set event from_key to_key f row = (if dget event from_key = JNull then row else dset row to_key (f (dget event from_key)))"

definition updated_prompt :: "queue_env \<Rightarrow> jdict \<Rightarrow> bool \<Rightarrow> jdict \<Rightarrow> server_error + jdict" where
  "updated_prompt env event run_now row =
    (if run_now \<and> truthy (dget event ''replays_interrupted_message'') \<and> normalize_steering_lineage env (dget event ''steering_lineage'') = [] then
       ebind (raised (py_list (py_or (dget event ''file_ids'') (JArr [])))) (\<lambda>ids.
         let lineage = parse_legacy_steering_lineage env (qstr env (dget event ''request_prompt'')) ids
         in Inr (dset (dset row ''prompt'' (if lineage \<noteq> [] then dget (last lineage) ''prompt'' else py_or (dget event ''prompt'') (JStr [])))
              ''steering_lineage'' (lineage_json lineage)))
     else if dget event ''request_prompt'' \<noteq> JNull then Inr (dset row ''prompt'' (py_or (dget event ''request_prompt'') (JStr [])))
     else if dget event ''prompt'' \<noteq> JNull then Inr (dset row ''prompt'' (py_or (dget event ''prompt'') (JStr [])))
     else Inr row)"

definition opened_row :: "queue_env \<Rightarrow> jdict \<Rightarrow> bool \<Rightarrow> jdict \<Rightarrow> jdict" where
  "opened_row env event run_now row =
    (let row = dict_merge row (async_route_queue_fields env (dict_merge row event))
     in if run_now then dpop (dset row ''_paused_after_stop'' (JBool False)) ''_native_delivery_fenced'' else row)"

definition copied_lists :: "jdict \<Rightarrow> jdict \<Rightarrow> server_error + jdict" where
  "copied_lists event row =
    ebind (copy_lists event [''file_ids'', ''display_file_ids'', ''chat_references'', ''team_references'']
      (copy_set event ''display_prompt'' ''display_prompt'' (\<lambda>v. v) row)) (\<lambda>row.
    copy_lists event [''cross_chat_obligation_ids'', ''cross_chat_exchange_ids'', ''client_capabilities'']
      (copy_set event ''provider_team_mail_route_snapshot'' ''provider_team_mail_route_snapshot'' (\<lambda>v. routes_json (grant_snapshot v)) row))"

definition copied_routes :: "queue_env \<Rightarrow> jdict \<Rightarrow> jdict \<Rightarrow> server_error + jdict" where
  "copied_routes env event row =
    (let row = (if dhas event ''skill_selection'' then dset row ''skill_selection'' (dget event ''skill_selection'') else row)
     in if dget event ''provider_cross_chat_route_snapshot'' = JNull then Inr row
        else ebind (raised (normalized_provider_cross_chat_route_snapshot env (dget event ''provider_cross_chat_route_snapshot''))) (\<lambda>routes.
          Inr (dset row ''provider_cross_chat_route_snapshot'' (lineage_json routes))))"

definition copied_links :: "queue_env \<Rightarrow> jdict \<Rightarrow> jdict \<Rightarrow> jdict" where
  "copied_links env event row =
    (let row = foldl (\<lambda>row k. copy_set event k k (\<lambda>v. v) row) row
           [''cross_chat_exchange_id'', ''cross_chat_exchange_leg_id'', ''cross_chat_exchange_status''];
         row = copy_set event ''interrupted_run_id'' ''steer_interrupted_run_id'' (\<lambda>v. v) row;
         row = copy_set event ''replays_interrupted_message'' ''replays_interrupted_message'' (\<lambda>v. JBool (truthy v)) row
     in copy_set event ''steering_lineage'' ''steering_lineage'' (\<lambda>v. lineage_json (normalize_steering_lineage env v)) row)"

definition update_row :: "queue_env \<Rightarrow> jdict \<Rightarrow> bool \<Rightarrow> jdict \<Rightarrow> server_error + jdict" where
  "update_row env event run_now row =
    ebind (updated_prompt env event run_now (opened_row env event run_now row)) (\<lambda>row.
    ebind (copied_lists event row) (\<lambda>row.
    ebind (copied_routes env event row) (\<lambda>row. Inr (copied_links env event row))))"

definition scan_updated :: "queue_env \<Rightarrow> jdict \<Rightarrow> bool \<Rightarrow> pystr \<Rightarrow> jdict \<Rightarrow> queue_scan \<Rightarrow> server_error + queue_scan" where
  "scan_updated env event run_now q row st =
    ebind (update_row env event run_now row) (\<lambda>row.
      let st = put_row q row st
      in Inr (if run_now \<and> q \<in> set (row_order st) then st\<lparr>row_order := q # remove1 q (row_order st)\<rparr> else st))"

text \<open>The listed identifiers that are pending, each with its position; \<open>None\<close> where the code raises.\<close>

fun reorder_items :: "queue_scan \<Rightarrow> json list \<Rightarrow> (pystr \<times> int) list option" where
  "reorder_items st [] = Some []"
| "reorder_items st (v # vs) = (case v of
     JObj item \<Rightarrow>
       (case dget item ''queued_id'' of
          JArr _ \<Rightarrow> None
        | JObj _ \<Rightarrow> None
        | JStr q \<Rightarrow> (if map_of (pending_rows st) q = None then reorder_items st vs
            else case py_int (py_or (dget item ''position'') (JInt 0)) of
                Inl _ \<Rightarrow> None
              | Inr p \<Rightarrow> map_option (\<lambda>rest. (q, p) # rest) (reorder_items st vs))
        | _ \<Rightarrow> reorder_items st vs)
   | _ \<Rightarrow> None)"

definition scan_reordered :: "jdict \<Rightarrow> queue_scan \<Rightarrow> queue_scan" where
  "scan_reordered event st =
    (case py_list (py_or (dget event ''positions'') (JArr [])) of
       Inl _ \<Rightarrow> st
     | Inr vs \<Rightarrow> (case reorder_items st vs of
         None \<Rightarrow> st
       | Some items \<Rightarrow>
           let seen = map fst (sort_key snd items)
           in st\<lparr>row_order := seen @ filter (\<lambda>q. q \<notin> set seen) (row_order st)\<rparr>))"

definition superseded_ids :: "queue_env \<Rightarrow> jdict \<Rightarrow> server_error + pystr list" where
  "superseded_ids env event =
    (if qstr env (dget event ''type'') = lit ''turn_queue_run_now''
     then ebind (raised (py_list (py_or (dget event ''superseded_queued_ids'') (JArr [])))) (\<lambda>vs. Inr (map (qstr env) vs))
     else Inr [])"

definition replay_event :: "queue_env \<Rightarrow> jdict \<Rightarrow> jdict \<Rightarrow> queue_scan \<Rightarrow> server_error + queue_scan" where
  "replay_event env sess event st =
    (let q = qstr env (dget event ''queued_id''); kind = qstr env (dget event ''type''); run_now = (kind = lit ''turn_queue_run_now'') in
     ebind (superseded_ids env event) (\<lambda>gone.
       let st = foldl (\<lambda>st q. drop_row q st) st gone in
       if kind = lit ''turn_queue_paused'' then
         ebind (raised (py_list (py_or (dget event ''queued_ids'') (JArr [])))) (\<lambda>vs. Inr (foldl (pause_row env) st vs))
       else if kind = lit ''turn_queue_delivery_fenced'' \<and> q \<noteq> [] then scan_fenced env sess event q st
       else if kind = lit ''turn_queued'' \<and> q \<noteq> [] then scan_queued env sess event q st
       else if kind = lit ''turn_queue_updated'' \<or> run_now then
         (case map_of (pending_rows st) q of Some row \<Rightarrow> scan_updated env event run_now q row st | None \<Rightarrow> Inr st)
       else if kind = lit ''turn_queue_reordered'' then Inr (scan_reordered event st)
       else if kind \<in> {lit ''turn_started'', lit ''turn_unqueued''} \<and> q \<noteq> [] then Inr (drop_row q st)
       else Inr st))"

section \<open>A chat, and all chats\<close>

fun replay_lines :: "queue_env \<Rightarrow> codec \<Rightarrow> jdict \<Rightarrow> bytes list \<Rightarrow> queue_scan \<times> evidence \<times> bool \<Rightarrow> server_error + queue_scan \<times> evidence \<times> bool" where
  "replay_lines env cd sess [] r = Inr r"
| "replay_lines env cd sess (l # ls) (st, ev, proven) = (case loads_replace cd l of
     None \<Rightarrow> replay_lines env cd sess ls (st, ev, False)
   | Some (JObj event) \<Rightarrow>
       ebind (if ev = [] then Inr ev else record_mailbox_migration_evidence env event ev) (\<lambda>ev'.
         ebind (replay_event env sess event st) (\<lambda>st.
           replay_lines env cd sess ls (st, ev', if ev = [] then proven else proven \<and> l \<noteq> [] \<and> last l = NL)))
   | Some _ \<Rightarrow> if ev = [] then Inl (Raised AttributeError) else replay_lines env cd sess ls (st, ev, False))"

definition has_content :: "queue_env \<Rightarrow> jdict \<Rightarrow> bool" where
  "has_content env row \<longleftrightarrow> strip (qstr env (dget row ''prompt'')) \<noteq> [] \<or> truthy (dget row ''file_ids'')"

definition recovered_rows :: "queue_env \<Rightarrow> queue_scan \<Rightarrow> jdict list" where
  "recovered_rows env st = concat (map (\<lambda>q. case map_of (pending_rows st) q of
     Some row \<Rightarrow> if has_content env row then [row] else [] | None \<Rightarrow> []) (row_order st))"

definition initial_scan :: queue_scan where
  "initial_scan = \<lparr>pending_rows = [], row_order = []\<rparr>"

text \<open>\<open>unchanged\<close>: the file has the same identity, size and time after the scan as before it.\<close>

definition scan_session :: "queue_env \<Rightarrow> codec \<Rightarrow> pystr \<Rightarrow> jdict \<Rightarrow> bytes option \<Rightarrow> bool \<Rightarrow> evidence \<Rightarrow> server_error + jdict list \<times> evidence" where
  "scan_session env cd session_id sess path unchanged mailbox_evidence =
    (let mine = (\<lambda>(k, v). dget v ''target_session_id'' = JStr session_id);
         ev = map (\<lambda>(k, v). (k, dset v ''complete'' (JBool False))) (filter mine mailbox_evidence);
         merge = (\<lambda>new. map (\<lambda>(k, v). (k, case map_of new k of Some w \<Rightarrow> w | None \<Rightarrow> v)) mailbox_evidence)
     in case path of
          None \<Rightarrow> Inr ([], merge ev)
        | Some f \<Rightarrow>
            ebind (replay_lines env cd sess (queued_event_lines (ev \<noteq> []) f) (initial_scan, ev, True)) (\<lambda>(st, ev, proven).
              Inr (recovered_rows env st, merge (map (\<lambda>(k, v). (k, dset v ''complete'' (JBool (proven \<and> unchanged)))) ev))))"

fun scan_queued_turns_from_events ::
  "queue_env \<Rightarrow> codec \<Rightarrow> (pystr \<Rightarrow> bytes option) \<Rightarrow> (pystr \<Rightarrow> bool) \<Rightarrow> (pystr \<times> jdict) list \<Rightarrow> evidence
    \<Rightarrow> server_error + (pystr \<times> jdict list) list \<times> evidence" where
  "scan_queued_turns_from_events env cd logs unchanged [] ev = Inr ([], ev)"
| "scan_queued_turns_from_events env cd logs unchanged ((sid, sess) # chats) ev =
    ebind (scan_session env cd sid sess (logs sid) (unchanged sid) ev) (\<lambda>(items, ev).
      ebind (scan_queued_turns_from_events env cd logs unchanged chats ev) (\<lambda>(recovered, ev).
        Inr ((if items = [] then [] else [(sid, items)]) @ recovered, ev)))"

section \<open>The turns that wait\<close>

text \<open>The specification: the identifiers that were queued or fenced and not started, unqueued or superseded since.\<close>

definition turn_step :: "queue_env \<Rightarrow> pystr set \<Rightarrow> jdict \<Rightarrow> pystr set" where
  "turn_step env waiting event =
    (let q = qstr env (dget event ''queued_id''); kind = qstr env (dget event ''type'');
         waiting = waiting - (case superseded_ids env event of Inr gone \<Rightarrow> set gone | Inl _ \<Rightarrow> {})
     in if kind \<in> {lit ''turn_queued'', lit ''turn_queue_delivery_fenced''} \<and> q \<noteq> [] then insert q waiting
        else if kind \<in> {lit ''turn_started'', lit ''turn_unqueued''} \<and> q \<noteq> [] then waiting - {q}
        else waiting)"

definition waiting_turns :: "queue_env \<Rightarrow> jdict list \<Rightarrow> pystr set" where
  "waiting_turns env events = foldl (turn_step env) {} events"

abbreviation row_ids :: "queue_scan \<Rightarrow> pystr set" where
  "row_ids st \<equiv> fst ` set (pending_rows st)"

lemma put_row_simps [simp]: "row_ids (put_row q row st) = insert q (row_ids st)" "row_order (put_row q row st) = row_order st"
  "map_of (pending_rows (put_row q row st)) = (map_of (pending_rows st))(q \<mapsto> row)"
  by (simp_all add: put_row_def AList.update_conv')

lemma drop_row_simps [simp]: "row_ids (drop_row q st) = row_ids st - {q}" "row_order (drop_row q st) = remove1 q (row_order st)"
  "map_of (pending_rows (drop_row q st)) = (map_of (pending_rows st))(q := None)"
  by (simp_all add: drop_row_def AList.delete_conv')

lemma row_ids_iff: "q \<in> row_ids st \<longleftrightarrow> map_of (pending_rows st) q \<noteq> None"
  by (simp add: map_of_eq_None_iff)

text \<open>A row carries its identifier; the order lists the pending rows, each once.\<close>

definition rows_named :: "queue_scan \<Rightarrow> bool" where
  "rows_named st \<longleftrightarrow> (\<forall>q row. map_of (pending_rows st) q = Some row \<longrightarrow> dget row ''queued_id'' = JStr q)"

definition rows_ordered :: "queue_scan \<Rightarrow> bool" where
  "rows_ordered st \<longleftrightarrow> distinct (row_order st) \<and> set (row_order st) = row_ids st"

text \<open>Updates that only touch one row's other fields.\<close>

lemma async_keys: "fst ` set (async_route_queue_fields env item) \<subseteq> lit ` {''conversation_mode'', ''conversation_id'', ''message_id'',
    ''source_title'', ''target_title'', ''message_body'', ''message_revision'', ''message_edited_by_user''}"
  unfolding async_route_queue_fields_def Let_def by (auto split: json.splits if_splits)

lemma copy_lists_id: "copy_lists event ks row = Inr row' \<Longrightarrow> ''queued_id'' \<notin> set ks \<Longrightarrow> dget row' ''queued_id'' = dget row ''queued_id''"
  by (induction event ks row rule: copy_lists.induct) (auto simp: ebind_Inr_iff split: if_splits)

lemma copy_set_id [simp]: "k \<noteq> ''queued_id'' \<Longrightarrow> dget (copy_set event j k f row) ''queued_id'' = dget row ''queued_id''"
  by (simp add: copy_set_def)

lemma updated_prompt_id: "updated_prompt env event run_now row = Inr row' \<Longrightarrow> dget row' ''queued_id'' = dget row ''queued_id''"
  by (auto simp: updated_prompt_def ebind_Inr_iff Let_def split: if_splits)

lemma opened_row_id: "dget (opened_row env event run_now row) ''queued_id'' = dget row ''queued_id''"
proof -
  have "dget (dict_merge row (async_route_queue_fields env item)) ''queued_id'' = dget row ''queued_id''" for item
    using async_keys [of env item] by (intro dget_dict_merge_other) (auto simp: dhas_def map_of_eq_None_iff)
  then show ?thesis by (simp add: opened_row_def Let_def)
qed

lemma copied_lists_id: "copied_lists event row = Inr row' \<Longrightarrow> dget row' ''queued_id'' = dget row ''queued_id''"
proof -
  assume "copied_lists event row = Inr row'"
  then obtain r where r: "copy_lists event [''file_ids'', ''display_file_ids'', ''chat_references'', ''team_references'']
      (copy_set event ''display_prompt'' ''display_prompt'' (\<lambda>v. v) row) = Inr r"
    "copy_lists event [''cross_chat_obligation_ids'', ''cross_chat_exchange_ids'', ''client_capabilities'']
      (copy_set event ''provider_team_mail_route_snapshot'' ''provider_team_mail_route_snapshot'' (\<lambda>v. routes_json (grant_snapshot v)) r) = Inr row'"
    unfolding copied_lists_def ebind_Inr_iff by blast
  from copy_lists_id [OF r(1)] copy_lists_id [OF r(2)] show ?thesis by simp
qed

lemma copied_routes_id: "copied_routes env event row = Inr row' \<Longrightarrow> dget row' ''queued_id'' = dget row ''queued_id''"
  by (auto simp: copied_routes_def ebind_Inr_iff Let_def split: if_splits)

lemma copied_links_id: "dget (copied_links env event row) ''queued_id'' = dget row ''queued_id''"
  by (simp add: copied_links_def Let_def)

lemma update_row_id:
  assumes "update_row env event run_now row = Inr row'"
  shows "dget row' ''queued_id'' = dget row ''queued_id''"
proof -
  obtain a b c where "updated_prompt env event run_now (opened_row env event run_now row) = Inr a"
      "copied_lists event a = Inr b" "copied_routes env event b = Inr c" "row' = copied_links env event c"
    using assms unfolding update_row_def ebind_Inr_iff by blast
  then show ?thesis by (metis opened_row_id updated_prompt_id copied_lists_id copied_routes_id copied_links_id)
qed

text \<open>Dropping several rows.\<close>

lemma drops:
  "row_ids (foldl (\<lambda>st q. drop_row q st) st gone) = row_ids st - set gone"
  "rows_named st \<Longrightarrow> rows_named (foldl (\<lambda>st q. drop_row q st) st gone)"
  "rows_ordered st \<Longrightarrow> rows_ordered (foldl (\<lambda>st q. drop_row q st) st gone)"
proof -
  have named: "rows_named (drop_row q st)" if "rows_named st" for q st using that by (simp add: rows_named_def)
  have ordered: "rows_ordered (drop_row q st)" if "rows_ordered st" for q st using that by (simp add: rows_ordered_def)
  show "row_ids (foldl (\<lambda>st q. drop_row q st) st gone) = row_ids st - set gone"
    by (induction gone arbitrary: st) auto
  show "rows_named st \<Longrightarrow> rows_named (foldl (\<lambda>st q. drop_row q st) st gone)"
    by (induction gone arbitrary: st) (simp_all add: named)
  show "rows_ordered st \<Longrightarrow> rows_ordered (foldl (\<lambda>st q. drop_row q st) st gone)"
    by (induction gone arbitrary: st) (simp_all add: ordered)
qed

text \<open>Replacing a row by one with the same identifier.\<close>

lemma put_same:
  assumes "map_of (pending_rows st) q = Some row" "dget row' ''queued_id'' = dget row ''queued_id''"
  shows "row_ids (put_row q row' st) = row_ids st" "rows_named st \<Longrightarrow> rows_named (put_row q row' st)"
    "rows_ordered st \<Longrightarrow> rows_ordered (put_row q row' st)"
proof -
  have "q \<in> row_ids st" using assms(1) by (simp add: row_ids_iff)
  then show "row_ids (put_row q row' st) = row_ids st" by auto
  then show "rows_ordered st \<Longrightarrow> rows_ordered (put_row q row' st)" by (simp add: rows_ordered_def)
  show "rows_named st \<Longrightarrow> rows_named (put_row q row' st)" using assms by (simp add: rows_named_def)
qed

lemma fence_row_keeps:
  "row_ids (fence_row q st) = row_ids st" "rows_named st \<Longrightarrow> rows_named (fence_row q st)" "rows_ordered st \<Longrightarrow> rows_ordered (fence_row q st)"
proof -
  have "row_ids (fence_row q st) = row_ids st \<and> (rows_named st \<longrightarrow> rows_named (fence_row q st)) \<and> (rows_ordered st \<longrightarrow> rows_ordered (fence_row q st))"
  proof (cases "map_of (pending_rows st) q")
    case (Some row)
    then show ?thesis unfolding fence_row_def by (simp only: option.case) (intro conjI impI put_same [OF Some]; simp)
  qed (simp add: fence_row_def)
  then show "row_ids (fence_row q st) = row_ids st" "rows_named st \<Longrightarrow> rows_named (fence_row q st)" "rows_ordered st \<Longrightarrow> rows_ordered (fence_row q st)"
    by simp_all
qed

lemma pause_rows_keep:
  "row_ids (foldl (pause_row env) st vs) = row_ids st" "rows_named st \<Longrightarrow> rows_named (foldl (pause_row env) st vs)"
  "rows_ordered st \<Longrightarrow> rows_ordered (foldl (pause_row env) st vs)"
proof -
  have one: "row_ids (pause_row env st v) = row_ids st \<and> (rows_named st \<longrightarrow> rows_named (pause_row env st v))
      \<and> (rows_ordered st \<longrightarrow> rows_ordered (pause_row env st v))" for st v
  proof (cases "map_of (pending_rows st) (qstr env v)")
    case (Some row)
    then show ?thesis unfolding pause_row_def Let_def by (simp only: option.case) (intro conjI impI put_same [OF Some]; simp)
  qed (simp add: pause_row_def)
  show "row_ids (foldl (pause_row env) st vs) = row_ids st" by (induction vs arbitrary: st) (simp_all add: one)
  show "rows_named st \<Longrightarrow> rows_named (foldl (pause_row env) st vs)" by (induction vs arbitrary: st) (simp_all add: one)
  show "rows_ordered st \<Longrightarrow> rows_ordered (foldl (pause_row env) st vs)" by (induction vs arbitrary: st) (simp_all add: one)
qed

text \<open>What a step does to the identifiers, and that it keeps rows named and ordered.\<close>

definition steps_to :: "bool \<Rightarrow> queue_scan \<Rightarrow> pystr set \<Rightarrow> queue_scan \<Rightarrow> bool" where
  "steps_to b st ids st' \<longleftrightarrow> row_ids st' = ids \<and> (rows_named st \<longrightarrow> rows_named st') \<and> (b \<longrightarrow> rows_ordered st \<longrightarrow> rows_ordered st')"

lemma steps_to_trans: "steps_to w a i b \<Longrightarrow> steps_to w b j c \<Longrightarrow> steps_to w a j c"
  by (simp add: steps_to_def)

lemma steps_to_refl: "steps_to w st (row_ids st) st"
  by (simp add: steps_to_def)

lemma drops_step: "steps_to w st (row_ids st - set gone) (foldl (\<lambda>st q. drop_row q st) st gone)"
  unfolding steps_to_def using drops [of st gone] by blast

lemma reordered_simps [simp]: "rows_named (st\<lparr>row_order := xs\<rparr>) = rows_named st"
  "rows_ordered (st\<lparr>row_order := xs\<rparr>) \<longleftrightarrow> distinct xs \<and> set xs = row_ids st"
  by (simp_all add: rows_named_def rows_ordered_def)

lemma rows_orderedD: "rows_ordered st \<Longrightarrow> distinct (row_order st)" "rows_ordered st \<Longrightarrow> set (row_order st) = row_ids st"
  by (simp_all add: rows_ordered_def)

lemma put_new_row:
  assumes "dget row ''queued_id'' = JStr q"
  shows "rows_named st \<Longrightarrow> rows_named (put_row q row st)"
  using assms by (simp add: rows_named_def)

lemma scan_queued_step:
  assumes "scan_queued env sess event q st = Inr st'" "qstr env (dget event ''queued_id'') = q"
  shows "steps_to w st (insert q (row_ids st)) st'"
proof -
  obtain row where row: "queued_turn_from_event env event sess (length (row_order st) + 1) = Inr row"
      and st': "st' = (if q \<in> set (row_order st) then put_row q row st else (put_row q row st)\<lparr>row_order := row_order st @ [q]\<rparr>)"
    using assms(1) unfolding scan_queued_def ebind_Inr_iff Let_def by auto
  have named: "rows_named st \<Longrightarrow> rows_named (put_row q row st)" using queued_turn_id [OF row] assms(2) by (intro put_new_row) simp_all
  show ?thesis
  proof (cases "q \<in> set (row_order st)")
    case True
    have "rows_ordered (put_row q row st)" if o: "rows_ordered st"
      using rows_orderedD [OF o] True by (simp add: rows_ordered_def insert_absorb)
    then show ?thesis using named True by (simp add: steps_to_def st')
  next
    case False
    then show ?thesis using named rows_orderedD [of st] by (auto simp: steps_to_def st')
  qed
qed

lemma insert_at_simps: "set (insert_at i x xs) = insert x (set xs)" "x \<notin> set xs \<Longrightarrow> distinct xs \<Longrightarrow> distinct (insert_at i x xs)"
proof -
  show "set (insert_at i x xs) = insert x (set xs)"
    by (simp add: insert_at_def) (metis append_take_drop_id set_append)
  assume "x \<notin> set xs" "distinct xs"
  then have "x \<notin> set (take i xs)" "x \<notin> set (drop i xs)" by (auto dest: in_set_takeD in_set_dropD)
  with \<open>distinct xs\<close> show "distinct (insert_at i x xs)" by (simp add: insert_at_def set_take_disj_set_drop_if_distinct)
qed

lemma scan_fenced_step:
  assumes "scan_fenced env sess event q st = Inr st'" "qstr env (dget event ''queued_id'') = q"
  shows "steps_to w st (insert q (row_ids st)) st'"
proof (cases "map_of (pending_rows st) q")
  case None
  then have new: "q \<notin> row_ids st" by (simp add: row_ids_iff)
  obtain row where row: "queued_turn_from_event env event sess (length (row_order st) + 1) = Inr row"
      and st': "st' = fence_row q ((put_row q row st)\<lparr>row_order := insert_at (fenced_index event (length (row_order st))) q (row_order st)\<rparr>)"
      (is "_ = fence_row q ?s")
    using assms(1) None by (auto simp: scan_fenced_def ebind_Inr_iff)
  have "rows_named st \<Longrightarrow> rows_named (put_row q row st)" using queued_turn_id [OF row] assms(2) by (intro put_new_row) simp_all
  then have "steps_to w st (insert q (row_ids st)) ?s"
    using new rows_orderedD [of st] by (simp add: steps_to_def insert_at_simps)
  moreover have "steps_to w ?s (row_ids ?s) st'" unfolding st' steps_to_def using fence_row_keeps [where q = q and st = ?s] by blast
  ultimately show ?thesis using steps_to_trans [of w st _ ?s "row_ids ?s" st'] by simp
next
  case (Some row)
  then have "q \<in> row_ids st" "st' = fence_row q st" using assms(1) by (auto simp: row_ids_iff scan_fenced_def)
  then show ?thesis using fence_row_keeps [where q = q and st = st] by (simp add: steps_to_def insert_absorb)
qed

lemma scan_updated_step:
  assumes "scan_updated env event run_now q row st = Inr st'" "map_of (pending_rows st) q = Some row"
  shows "steps_to w st (row_ids st) st'"
proof -
  obtain row' where row': "update_row env event run_now row = Inr row'"
      and st': "st' = (if run_now \<and> q \<in> set (row_order st) then (put_row q row' st)\<lparr>row_order := q # remove1 q (row_order st)\<rparr> else put_row q row' st)"
    using assms(1) unfolding scan_updated_def ebind_Inr_iff Let_def by auto
  note same = put_same [OF assms(2) update_row_id [OF row']]
  have "q \<in> row_ids st" using assms(2) by (simp add: row_ids_iff)
  then show ?thesis using same rows_orderedD [of st] by (simp add: steps_to_def st' insert_absorb)
qed

text \<open>The identifiers that a reordering names, in the order of the event.\<close>

definition named_ids :: "json list \<Rightarrow> pystr list" where
  "named_ids vs = concat (map (\<lambda>v. case v of JObj item \<Rightarrow> (case dget item ''queued_id'' of JStr q \<Rightarrow> [q] | _ \<Rightarrow> []) | _ \<Rightarrow> []) vs)"

lemma reorder_items_ids: "reorder_items st vs = Some items \<Longrightarrow> map fst items = filter (\<lambda>q. q \<in> row_ids st) (named_ids vs)"
proof (induction vs arbitrary: items)
  case (Cons v vs)
  obtain item where v: "v = JObj item" using Cons.prems by (cases v) auto
  have names: "named_ids (JObj item # vs) = (case dget item ''queued_id'' of JStr q \<Rightarrow> [q] | _ \<Rightarrow> []) @ named_ids vs" by (simp add: named_ids_def)
  show ?case
  proof (cases "dget item ''queued_id''")
    case (JStr q)
    show ?thesis
    proof (cases "map_of (pending_rows st) q")
      case None
      then show ?thesis using Cons by (simp add: v JStr names row_ids_iff)
    next
      case (Some row)
      then obtain p rest where "reorder_items st vs = Some rest" "items = (q, p) # rest"
        using Cons.prems by (auto simp: v JStr split: sum.splits)
      then show ?thesis using Cons.IH Some by (simp add: v names JStr row_ids_iff)
    qed
  qed (use Cons in \<open>simp_all add: v names\<close>)
qed (simp add: named_ids_def)

definition reorders_once :: "queue_env \<Rightarrow> jdict \<Rightarrow> bool" where
  "reorders_once env event \<longleftrightarrow> qstr env (dget event ''type'') = lit ''turn_queue_reordered'' \<longrightarrow>
     (case py_list (py_or (dget event ''positions'') (JArr [])) of Inr vs \<Rightarrow> distinct (named_ids vs) | Inl _ \<Rightarrow> True)"

lemma scan_reordered_step:
  "steps_to (case py_list (py_or (dget event ''positions'') (JArr [])) of Inr vs \<Rightarrow> distinct (named_ids vs) | Inl _ \<Rightarrow> True)
     st (row_ids st) (scan_reordered event st)"
proof (cases "py_list (py_or (dget event ''positions'') (JArr []))")
  case (Inr vs)
  show ?thesis
  proof (cases "reorder_items st vs")
    case (Some items)
    let ?seen = "map fst (sort_key snd items)"
    have ids: "map fst items = filter (\<lambda>q. q \<in> row_ids st) (named_ids vs)" by (rule reorder_items_ids [OF Some])
    have "distinct ?seen" if "distinct (named_ids vs)"
    proof -
      have "distinct (map fst items)" using that by (simp only: ids distinct_filter)
      then show ?thesis by (simp add: distinct_map)
    qed
    moreover have "set ?seen \<subseteq> row_ids st" using arg_cong [OF ids, of set] by auto
    ultimately show ?thesis by (auto simp: scan_reordered_def Inr Some Let_def steps_to_def rows_named_def rows_ordered_def)
  qed (simp add: scan_reordered_def Inr steps_to_refl)
qed (simp add: scan_reordered_def steps_to_refl)

lemma replay_event_step:
  assumes ok: "replay_event env sess event st = Inr st'"
  shows "steps_to (reorders_once env event) st (turn_step env (row_ids st) event) st'"
proof -
  let ?w = "reorders_once env event"
  let ?q = "qstr env (dget event ''queued_id'')" and ?kind = "qstr env (dget event ''type'')"
  obtain gone where gone: "superseded_ids env event = Inr gone"
    using ok by (auto simp: replay_event_def Let_def ebind_Inr_iff)
  define s where "s = foldl (\<lambda>st q. drop_row q st) st gone"
  have first: "steps_to ?w st (row_ids st - set gone) s" unfolding s_def by (rule drops_step)
  then have ids: "row_ids s = row_ids st - set gone" by (simp add: steps_to_def)
  have then_step: "steps_to ?w st i st'" if "steps_to ?w s i st'" for i using steps_to_trans [OF first that] .
  note body = ok [unfolded replay_event_def Let_def gone ebind_simps s_def [symmetric]]
  note spec = turn_step_def Let_def gone
  consider (paused) "?kind = lit ''turn_queue_paused''" | (fenced) "?kind = lit ''turn_queue_delivery_fenced''" "?q \<noteq> []"
    | (queued) "?kind = lit ''turn_queued''" "?q \<noteq> []" | (updated) "?kind = lit ''turn_queue_updated'' \<or> ?kind = lit ''turn_queue_run_now''"
    | (reordered) "?kind = lit ''turn_queue_reordered''" | (gone) "?kind = lit ''turn_started'' \<or> ?kind = lit ''turn_unqueued''" "?q \<noteq> []"
    | (other) "?kind \<notin> {lit ''turn_queue_paused'', lit ''turn_queue_updated'', lit ''turn_queue_run_now'', lit ''turn_queue_reordered''}"
        "?q = [] \<or> ?kind \<notin> {lit ''turn_queue_delivery_fenced'', lit ''turn_queued'', lit ''turn_started'', lit ''turn_unqueued''}"
    by blast
  then show ?thesis
  proof cases
    case paused
    then obtain vs where "st' = foldl (pause_row env) s vs" using body by (auto simp: ebind_Inr_iff)
    then have "steps_to ?w s (row_ids s) st'" using pause_rows_keep [where env = env and st = s and vs = vs] by (simp add: steps_to_def)
    from then_step [OF this] show ?thesis by (simp add: spec paused ids)
  next
    case fenced
    then have "scan_fenced env sess event ?q s = Inr st'" using body by simp
    from then_step [OF scan_fenced_step [OF this refl]] show ?thesis using fenced by (simp add: spec ids)
  next
    case queued
    then have "scan_queued env sess event ?q s = Inr st'" using body by simp
    from then_step [OF scan_queued_step [OF this refl]] show ?thesis using queued by (simp add: spec ids)
  next
    case updated
    have "steps_to ?w s (row_ids s) st'"
    proof (cases "map_of (pending_rows s) ?q")
      case None
      then show ?thesis using body updated steps_to_refl [of ?w s] by auto
    next
      case (Some row)
      then have "scan_updated env event (?kind = lit ''turn_queue_run_now'') ?q row s = Inr st'" using body updated by auto
      from scan_updated_step [OF this Some] show ?thesis .
    qed
    from then_step [OF this] show ?thesis using updated by (auto simp: spec ids)
  next
    case reordered
    then have "st' = scan_reordered event s" using body by simp
    with scan_reordered_step [of event s] reordered have "steps_to ?w s (row_ids s) st'" by (simp add: reorders_once_def)
    from then_step [OF this] show ?thesis by (simp add: spec reordered ids)
  next
    case gone
    then have "st' = drop_row ?q s" using body by auto
    then have "steps_to ?w s (row_ids s - {?q}) st'" using drops_step [of ?w s "[?q]"] by simp
    from then_step [OF this] show ?thesis using gone by (auto simp: spec ids)
  next
    case other
    then have "st' = s" using body by (auto split: if_splits)
    then show ?thesis using first other by (auto simp: spec)
  qed
qed

text \<open>The events of the lines that are read and decode to an object.\<close>

definition queue_log :: "codec \<Rightarrow> bytes list \<Rightarrow> jdict list" where
  "queue_log cd ls = concat (map (\<lambda>l. case loads_replace cd l of Some (JObj event) \<Rightarrow> [event] | _ \<Rightarrow> []) ls)"

lemma replay_lines_steps:
  assumes "replay_lines env cd sess ls (st, ev, c) = Inr (st', r)"
  shows "steps_to (\<forall>e \<in> set (queue_log cd ls). reorders_once env e) st (foldl (turn_step env) (row_ids st) (queue_log cd ls)) st'"
  using assms
proof (induction ls arbitrary: st ev c)
  case (Cons l ls)
  show ?case
  proof (cases "\<exists>event. loads_replace cd l = Some (JObj event)")
    case True
    then obtain event where e: "loads_replace cd l = Some (JObj event)" by blast
    obtain s ev' c' where s: "replay_event env sess event st = Inr s" and rest: "replay_lines env cd sess ls (s, ev', c') = Inr (st', r)"
      using Cons.prems by (auto simp: e ebind_Inr_iff)
    have log: "queue_log cd (l # ls) = event # queue_log cd ls" by (simp add: queue_log_def e)
    have "row_ids s = turn_step env (row_ids st) event" using replay_event_step [OF s] by (simp add: steps_to_def)
    then show ?thesis using replay_event_step [OF s] Cons.IH [OF rest] by (simp add: log steps_to_def)
  next
    case False
    then have log: "queue_log cd (l # ls) = queue_log cd ls"
      by (auto simp: queue_log_def split: option.split json.split)
    obtain ev' c' where "replay_lines env cd sess ls (st, ev', c') = Inr (st', r)"
      using Cons.prems False by (auto split: option.splits json.splits if_splits)
    from Cons.IH [OF this] show ?thesis by (simp only: log)
  qed
qed (simp add: queue_log_def steps_to_refl)

lemma initial_scan_ok: "row_ids initial_scan = {}" "rows_named initial_scan" "rows_ordered initial_scan"
  by (simp_all add: initial_scan_def rows_named_def rows_ordered_def)

text \<open>The events that a scan of a chat replays.\<close>

definition replayed :: "codec \<Rightarrow> pystr \<Rightarrow> evidence \<Rightarrow> bytes \<Rightarrow> jdict list" where
  "replayed cd session_id ev f = queue_log cd (queued_event_lines (\<exists>kv \<in> set ev. dget (snd kv) ''target_session_id'' = JStr session_id) f)"

lemma scan_session_lines:
  assumes "scan_session env cd sid sess (Some f) unchanged ev = Inr (rows, ev')"
  obtains st ev0 r where "replay_lines env cd sess (queued_event_lines (\<exists>kv \<in> set ev. dget (snd kv) ''target_session_id'' = JStr sid) f)
      (initial_scan, ev0, True) = Inr (st, r)" "rows = recovered_rows env st"
proof -
  let ?mine = "\<lambda>(k, v). dget v ''target_session_id'' = JStr sid"
  have flag: "(map (\<lambda>(k, v). (k, dset v ''complete'' (JBool False))) (filter ?mine ev) \<noteq> [])
      = (\<exists>kv \<in> set ev. dget (snd kv) ''target_session_id'' = JStr sid)"
    by (force simp: filter_empty_conv)
  show ?thesis using assms that unfolding scan_session_def Let_def flag by (auto simp: ebind_Inr_iff)
qed

lemma scan_session_final:
  assumes "scan_session env cd sid sess (Some f) unchanged ev = Inr (rows, ev')"
  obtains st where "rows = recovered_rows env st" "row_ids st = waiting_turns env (replayed cd sid ev f)" "rows_named st"
    "(\<forall>e \<in> set (replayed cd sid ev f). reorders_once env e) \<Longrightarrow> rows_ordered st"
proof -
  obtain st ev0 r where "replay_lines env cd sess (queued_event_lines (\<exists>kv \<in> set ev. dget (snd kv) ''target_session_id'' = JStr sid) f)
      (initial_scan, ev0, True) = Inr (st, r)" and rows: "rows = recovered_rows env st"
    using scan_session_lines [OF assms] .
  from replay_lines_steps [OF this(1)] show ?thesis
    using that [OF rows] by (simp add: steps_to_def initial_scan_ok replayed_def waiting_turns_def)
qed

lemma ordered_row:
  assumes "rows_ordered st" "q \<in> set (row_order st)"
  obtains row where "map_of (pending_rows st) q = Some row"
proof -
  have "q \<in> row_ids st" using assms rows_orderedD(2) by blast
  then show ?thesis using that unfolding row_ids_iff by blast
qed

lemma recovered_rows_eq:
  assumes "rows_ordered st"
  shows "recovered_rows env st = map (\<lambda>q. the (map_of (pending_rows st) q))
    (filter (\<lambda>q. has_content env (the (map_of (pending_rows st) q))) (row_order st))"
proof -
  have "concat (map (\<lambda>q. case map_of (pending_rows st) q of Some row \<Rightarrow> if has_content env row then [row] else [] | None \<Rightarrow> []) qs)
      = map (\<lambda>q. the (map_of (pending_rows st) q)) (filter (\<lambda>q. has_content env (the (map_of (pending_rows st) q))) qs)"
    if "set qs \<subseteq> set (row_order st)" for qs
    using that
  proof (induction qs)
    case (Cons q qs)
    then obtain row where "map_of (pending_rows st) q = Some row" using ordered_row [OF assms, of q] by auto
    with Cons show ?case by simp
  qed simp
  then show ?thesis by (simp add: recovered_rows_def)
qed

text \<open>C36. The recovered queue is the queue that the log describes. When reorderings name no turn twice, the rows
  are, in some order without repetition, those of exactly the turns that were queued or fenced and have
  since been neither started, unqueued nor superseded; a waiting turn is missing only if its row has
  no text and no files.\<close>

theorem recovered_queue_exact:
  assumes "scan_session env cd sid sess (Some f) unchanged ev = Inr (rows, ev')"
    and "\<forall>e \<in> set (replayed cd sid ev f). reorders_once env e"
  shows "\<exists>queue row. distinct queue \<and> set queue = waiting_turns env (replayed cd sid ev f)
    \<and> (\<forall>q \<in> set queue. dget (row q) ''queued_id'' = JStr q) \<and> rows = map row (filter (\<lambda>q. has_content env (row q)) queue)"
proof -
  obtain st where st: "rows = recovered_rows env st" "row_ids st = waiting_turns env (replayed cd sid ev f)" "rows_named st" "rows_ordered st"
    using scan_session_final [OF assms(1)] assms(2) by metis
  have "dget (the (map_of (pending_rows st) q)) ''queued_id'' = JStr q" if listed: "q \<in> set (row_order st)" for q
  proof -
    obtain row where "map_of (pending_rows st) q = Some row" by (rule ordered_row [OF st(4) listed])
    then show ?thesis using st(3) by (simp add: rows_named_def)
  qed
  then show ?thesis
    using st recovered_rows_eq [OF st(4)]
    by (intro exI [where x = "row_order st"] exI [where x = "\<lambda>q. the (map_of (pending_rows st) q)"]) (simp add: rows_ordered_def)
qed

lemma turn_step_gone:
  assumes "q \<notin> waiting" "qstr env (dget event ''type'') \<in> {lit ''turn_queued'', lit ''turn_queue_delivery_fenced''} \<Longrightarrow> qstr env (dget event ''queued_id'') \<noteq> q"
  shows "q \<notin> turn_step env waiting event"
  using assms by (auto simp: turn_step_def Let_def)

lemma turns_stay_gone:
  assumes "q \<notin> waiting"
    "\<And>e. e \<in> set es \<Longrightarrow> qstr env (dget e ''type'') \<in> {lit ''turn_queued'', lit ''turn_queue_delivery_fenced''} \<Longrightarrow> qstr env (dget e ''queued_id'') \<noteq> q"
  shows "q \<notin> foldl (turn_step env) waiting es"
  using assms
proof (induction es arbitrary: waiting)
  case (Cons e es)
  have "q \<notin> turn_step env waiting e" using Cons.prems by (intro turn_step_gone) auto
  then show ?case using Cons.IH Cons.prems(2) by simp
qed simp

text \<open>A turn that was dispatched is not queued again by a restart: once its start or removal is in the log and
  it was not queued anew, no recovered row of the chat is that turn, however the queue was reordered,
  updated or paused meanwhile.\<close>

lemma dispatched_turn_not_recovered:
  assumes scan: "scan_session env cd sid sess (Some f) unchanged ev = Inr (rows, ev')"
    and log: "replayed cd sid ev f = before @ event # after"
    and gone: "qstr env (dget event ''type'') \<in> {lit ''turn_started'', lit ''turn_unqueued''}" "qstr env (dget event ''queued_id'') = q" "q \<noteq> []"
    and once: "\<forall>e \<in> set after. qstr env (dget e ''type'') \<in> {lit ''turn_queued'', lit ''turn_queue_delivery_fenced''} \<longrightarrow>
      qstr env (dget e ''queued_id'') \<noteq> q"
  shows "\<forall>row \<in> set rows. dget row ''queued_id'' \<noteq> JStr q"
proof -
  obtain st where st: "rows = recovered_rows env st" "row_ids st = waiting_turns env (replayed cd sid ev f)" "rows_named st"
    using scan_session_final [OF scan] by metis
  have "q \<notin> turn_step env w event" for w using gone by (auto simp: turn_step_def Let_def)
  then have "q \<notin> foldl (turn_step env) (turn_step env w event) after" for w using once by (intro turns_stay_gone) auto
  then have "q \<notin> row_ids st" by (simp only: st(2) log waiting_turns_def foldl_append foldl.simps not_False_eq_True)
  moreover have "\<exists>k. map_of (pending_rows st) k = Some row" if "row \<in> set rows" for row
    using that by (auto simp: st(1) recovered_rows_def split: option.splits if_splits)
  ultimately show ?thesis using st(3) unfolding rows_named_def row_ids_iff by (metis json.inject(4) option.distinct(1))
qed

section \<open>Examples\<close>

definition sample_env :: queue_env where
  "sample_env = \<lparr>q_repr = (\<lambda>_. []), q_hidden = (\<lambda>_. False), q_found = (\<lambda>ids. ids), q_now = []\<rparr>"

definition sample_event :: "string \<Rightarrow> string \<Rightarrow> jdict" where
  "sample_event kind q = [(lit ''type'', js kind), (lit ''queued_id'', js q), (lit ''prompt'', js ''Hello'')]"

definition sample_line :: "byte \<Rightarrow> bytes" where
  "sample_line b = quoted ''queued_id'' @ [b, NL]"

definition sample_codec :: codec where
  "sample_codec = \<lparr>loads_replace = (\<lambda>l. if l = sample_line 1 then Some (JObj (sample_event ''turn_queued'' ''a''))
       else if l = sample_line 2 then Some (JObj (sample_event ''turn_queued'' ''b''))
       else if l = sample_line 3 then Some (JObj (sample_event ''turn_started'' ''a'')) else None),
     loads_strict = (\<lambda>_. None)\<rparr>"

definition sample_log :: bytes where
  "sample_log = sample_line 1 @ sample_line 2 @ sample_line 3"

lemma sample_lines: "queued_event_lines False sample_log = [sample_line 1, sample_line 2, sample_line 3]"
proof -
  have "contains (quoted ''queued_id'') (sample_line b)" for b
    by (simp add: contains_def sample_line_def quoted_def starts_with_def find_sub.simps [where s = "34 # x" for x])
  moreover have "file_lines sample_log = [sample_line 1, sample_line 2, sample_line 3]"
    by (simp add: sample_log_def sample_line_def quoted_def ascii_bytes_def lit_def)
  ultimately show ?thesis by (simp add: queued_event_lines_def)
qed

lemma sample_replayed: "replayed sample_codec (lit ''s'') [] sample_log
    = [sample_event ''turn_queued'' ''a'', sample_event ''turn_queued'' ''b'', sample_event ''turn_started'' ''a'']"
  by (simp add: replayed_def sample_lines queue_log_def sample_codec_def sample_line_def)

lemma absent_fields:
  "normalize_steering_lineage env JNull = []" "py_or JNull v = v" "py_list (JArr vs) = Inr vs" "lineage_json [] = JArr []"
  "normalized_provider_cross_chat_route_snapshot env JNull = Inr []" "normalized_provider_cross_chat_route_snapshot env (JArr []) = Inr []"
  "provider_cross_chat_route_snapshot_for_hints env (JArr []) [] = Inr []" "normalized_secure_peer_route_snapshots JNull = Inr (JArr [])"
  by (simp_all add: normalize_steering_lineage_def py_or_def lineage_json_def normalized_provider_cross_chat_route_snapshot_def
      provider_cross_chat_route_snapshot_for_hints_def normalized_secure_peer_route_snapshots_def normalized_provider_cross_chat_routes_def)

lemma sample_get: "dget (sample_event kind q) k = (if k = ''type'' then js kind else if k = ''queued_id'' then js q
    else if k = ''prompt'' then js ''Hello'' else JNull)"
  by (simp add: sample_event_def)

lemma sample_row:
  assumes "queued_turn_from_event sample_env (sample_event ''turn_queued'' q) [] n = r"
  obtains row where "r = Inr row" "has_content sample_env row" "dget row ''queued_id'' = js q"
proof -
  let ?e = "sample_event ''turn_queued'' q"
  have lineage: "event_lineage sample_env ?e = Inr ([], JNull)" by (simp add: event_lineage_def sample_get absent_fields)
  have routes: "event_routes sample_env ?e = Inr (JArr [])" by (simp add: event_routes_def sample_get absent_fields)
  have lists: "list_field ?e k = Inr (JArr [])" if "k \<notin> {''type'', ''queued_id'', ''prompt''}" for k
    using that by (simp add: list_field_def sample_get absent_fields)
  have content: "strip (lit ''Hello'') \<noteq> []" by (simp add: strip_Nil_iff lit_def is_space_def)
  have "\<exists>row. r = Inr row \<and> dget row ''prompt'' = js ''Hello'' \<and> dget row ''queued_id'' = js q"
    unfolding assms [symmetric] queued_turn_from_event_def lineage routes
    by (simp add: queued_row_def lists raised_def sample_get absent_fields first_set_def py_or_def)
  then obtain row where "r = Inr row" "dget row ''prompt'' = js ''Hello''" "dget row ''queued_id'' = js q" by blast
  then show ?thesis using content by (intro that [of row]) (simp_all add: has_content_def)
qed

lemma sample_scan:
  obtains row where "scan_session sample_env sample_codec (lit ''s'') [] (Some sample_log) True [] = Inr ([row], [])" "dget row ''queued_id'' = js ''b''"
proof -
  obtain a where a: "queued_turn_from_event sample_env (sample_event ''turn_queued'' ''a'') [] 1 = Inr a" by (rule sample_row [OF refl])
  obtain b where b: "queued_turn_from_event sample_env (sample_event ''turn_queued'' ''b'') [] 2 = Inr b" "has_content sample_env b" "dget b ''queued_id'' = js ''b''"
    by (rule sample_row [OF refl])
  have decode: "loads_replace sample_codec (sample_line 1) = Some (JObj (sample_event ''turn_queued'' ''a''))"
    "loads_replace sample_codec (sample_line 2) = Some (JObj (sample_event ''turn_queued'' ''b''))"
    "loads_replace sample_codec (sample_line 3) = Some (JObj (sample_event ''turn_started'' ''a''))"
    by (simp_all add: sample_codec_def sample_line_def)
  have events: "replay_event sample_env [] (sample_event ''turn_queued'' ''a'') initial_scan = Inr \<lparr>pending_rows = [(lit ''a'', a)], row_order = [lit ''a'']\<rparr>"
    "replay_event sample_env [] (sample_event ''turn_queued'' ''b'') \<lparr>pending_rows = [(lit ''a'', a)], row_order = [lit ''a'']\<rparr>
      = Inr \<lparr>pending_rows = [(lit ''a'', a), (lit ''b'', b)], row_order = [lit ''a'', lit ''b'']\<rparr>"
    "replay_event sample_env [] (sample_event ''turn_started'' ''a'') \<lparr>pending_rows = [(lit ''a'', a), (lit ''b'', b)], row_order = [lit ''a'', lit ''b'']\<rparr>
      = Inr \<lparr>pending_rows = [(lit ''b'', b)], row_order = [lit ''b'']\<rparr>"
    using a b(1) by (simp_all add: replay_event_def superseded_ids_def sample_get scan_queued_def put_row_def drop_row_def initial_scan_def Let_def numeral_2_eq_2)
  show ?thesis
    by (rule that [of b]) (simp_all add: scan_session_def sample_lines decode events recovered_rows_def b)
qed

theorem recovered_queue_exact_witness:
  "\<exists>rows queue row. scan_session sample_env sample_codec (lit ''s'') [] (Some sample_log) True [] = Inr (rows, [])
    \<and> set queue = {lit ''b''} \<and> rows = map row (filter (\<lambda>q. has_content sample_env (row q)) queue)"
proof -
  obtain r where r: "scan_session sample_env sample_codec (lit ''s'') [] (Some sample_log) True [] = Inr ([r], [])" by (rule sample_scan)
  have once: "\<forall>e \<in> set (replayed sample_codec (lit ''s'') [] sample_log). reorders_once sample_env e"
    by (simp add: sample_replayed reorders_once_def sample_get)
  have "waiting_turns sample_env (replayed sample_codec (lit ''s'') [] sample_log) = {lit ''b''}"
    by (auto simp: sample_replayed waiting_turns_def turn_step_def superseded_ids_def sample_get Let_def)
  then show ?thesis using recovered_queue_exact [OF r once] r by metis
qed

lemma dispatched_turn_not_recovered_witness:
  "\<exists>row. scan_session sample_env sample_codec (lit ''s'') [] (Some sample_log) True [] = Inr ([row], []) \<and> dget row ''queued_id'' \<noteq> js ''a''"
proof -
  obtain r where r: "scan_session sample_env sample_codec (lit ''s'') [] (Some sample_log) True [] = Inr ([r], [])" by (rule sample_scan)
  have log: "replayed sample_codec (lit ''s'') [] sample_log
      = [sample_event ''turn_queued'' ''a'', sample_event ''turn_queued'' ''b''] @ sample_event ''turn_started'' ''a'' # []"
    by (simp add: sample_replayed)
  show ?thesis using dispatched_turn_not_recovered [OF r log, where q = "lit ''a''"] r by (simp add: sample_get)
qed

end
