(* ===== verification/Turn_Queue.thy ===== *)
theory Turn_Queue
  imports Queue_Recovery
begin

text \<open>
  The live turn queue of one chat: \<open>enqueue_turn\<close>, \<open>unqueue_turn\<close>, \<open>move_queued_turn\<close>,
  \<open>pause_queued_turns_after_explicit_stop\<close>, \<open>requeue_turn_front\<close>, \<open>fence_native_steer_delivery\<close>,
  \<open>requeue_native_steer_after_safe_rejection\<close> and the choice of the next turn in
  \<open>_start_next_queued_turn_locked\<close> of \<open>agent_server.py\<close>, each as the section that runs under the queue lock.
  A durable append either commits its events with their stamps or raises and commits nothing, as \<open>Event_Log\<close>
  shows. The order of the keys in an event's payload is not kept.
\<close>

section \<open>State\<close>

record turn_state =
  queued_rows :: "jdict list option"
  run_now_row :: "jdict option"
  run_now_results :: "pystr list"
  journal :: "jdict list"

type_synonym stamp = "int \<times> pystr \<times> pystr"

definition journal_event :: "pystr \<Rightarrow> stamp \<Rightarrow> string \<Rightarrow> jdict \<Rightarrow> jdict" where
  "journal_event sid st kind payload = (case st of (seq, ident, ts) \<Rightarrow> make_event sid seq (lit kind, payload, ident, ts))"

definition record_event :: "jdict \<Rightarrow> turn_state \<Rightarrow> turn_state" where
  "record_event event s = s\<lparr>journal := journal s @ [event]\<rparr>"

text \<open>\<open>QUEUED_TURNS.get(session_id) or ()\<close>, and an assignment that drops an empty queue.\<close>

definition turn_rows :: "turn_state \<Rightarrow> jdict list" where
  "turn_rows s = (case queued_rows s of Some items \<Rightarrow> items | None \<Rightarrow> [])"

definition keep_rows :: "jdict list \<Rightarrow> turn_state \<Rightarrow> turn_state" where
  "keep_rows kept s = s\<lparr>queued_rows := if kept = [] then None else Some kept\<rparr>"

definition row_id :: "queue_env \<Rightarrow> jdict \<Rightarrow> pystr" where
  "row_id env item = qstr env (dget item ''queued_id'')"

definition queue_position :: "queue_env \<Rightarrow> nat \<Rightarrow> jdict \<Rightarrow> json" where
  "queue_position env idx item = JObj [(lit ''queued_id'', JStr (row_id env item)), (lit ''position'', JInt (int idx + 1))]"

definition queue_positions :: "queue_env \<Rightarrow> jdict list \<Rightarrow> json list" where
  "queue_positions env items = map (\<lambda>(idx, item). queue_position env idx item) (zip [0..<length items] items)"

fun first_index :: "('a \<Rightarrow> bool) \<Rightarrow> 'a list \<Rightarrow> nat option" where
  "first_index P [] = None"
| "first_index P (x # xs) = (if P x then Some 0 else map_option Suc (first_index P xs))"

definition queued_index :: "pystr \<Rightarrow> jdict list \<Rightarrow> nat option" where
  "queued_index q items = first_index (\<lambda>item. dget item ''queued_id'' = JStr q) items"

definition reject_promoted_queue_mutation :: "queue_env \<Rightarrow> turn_state \<Rightarrow> pystr \<Rightarrow> server_error + unit" where
  "reject_promoted_queue_mutation env s q = (case run_now_row s of
     None \<Rightarrow> Inr ()
   | Some promoted \<Rightarrow> if row_id env promoted \<noteq> q then Inr ()
       else Inl (Http 409 (lit ''This queued turn is already being promoted to the provider and can no longer be edited, moved, or removed.'')))"

text \<open>Several fields of a row as lists.\<close>

fun list_fields :: "jdict \<Rightarrow> string list \<Rightarrow> server_error + jdict" where
  "list_fields item [] = Inr []"
| "list_fields item (k # ks) = ebind (raised (list_field item k)) (\<lambda>v. ebind (list_fields item ks) (\<lambda>rest. Inr ((lit k, v) # rest)))"

definition same_fields :: "jdict \<Rightarrow> string list \<Rightarrow> jdict" where
  "same_fields item ks = map (\<lambda>k. (lit k, dget item k)) ks"

text \<open>Membership of a value in a frozen set of strings.\<close>

definition in_strings :: "json \<Rightarrow> string list \<Rightarrow> server_error + bool" where
  "in_strings v ss = (if hashable v then Inr (v \<in> (\<lambda>k. js k) ` set ss) else Inl (Raised TypeError))"

section \<open>Admission\<close>

record turn_request =
  rq_prompt :: pystr
  rq_shared_chat_id :: "pystr option"
  rq_shared_chat_request_id :: "pystr option"
  rq_file_ids :: "pystr list"
  rq_backend :: "pystr option"
  rq_model :: "pystr option"
  rq_effort :: "pystr option"
  rq_skill_selection :: "jdict option"
  rq_display_prompt :: "pystr option"
  rq_purpose :: "pystr option"
  rq_digest_job_id :: "pystr option"
  rq_digest_detail :: "pystr option"
  rq_source_session_id :: "pystr option"
  rq_target_session_id :: "pystr option"
  rq_client_capabilities :: "pystr list"
  rq_chat_references :: "jdict list"
  rq_team_references :: "jdict list"
  rq_cross_chat_envelope_id :: "pystr option"
  rq_cross_chat_exchange_id :: "pystr option"
  rq_cross_chat_exchange_leg_id :: "pystr option"
  rq_cross_chat_exchange_status :: bool
  rq_secure_peer_envelope_id :: "pystr option"

text \<open>What was settled before the row is built: the drawn identifier, normalised routes and snapshots, the fields
  of the conversation that a delivery belongs to, registered obligations, and admission markers.\<close>

record queue_entry =
  qe_id :: pystr
  qe_mail_routes :: "jdict list"
  qe_conversation :: jdict
  qe_peer_snapshots :: "jdict list"
  qe_obligation_ids :: "pystr list"
  qe_exchange_ids :: "pystr list"
  qe_routes :: "jdict list"
  qe_created_at :: pystr
  qe_mail_admission :: json
  qe_route_admission :: json
  qe_reciprocal :: "(pystr \<times> pystr \<times> pystr \<times> json) option"

definition opt_str :: "pystr option \<Rightarrow> json" where
  "opt_str v = (case v of Some s \<Rightarrow> JStr s | None \<Rightarrow> JNull)"

definition strs_json :: "pystr list \<Rightarrow> json" where
  "strs_json ss = JArr (map JStr ss)"

definition shared_chat_metadata :: "turn_request \<Rightarrow> jdict" where
  "shared_chat_metadata rq = (case (rq_shared_chat_id rq, rq_shared_chat_request_id rq) of
     (Some chat, Some request) \<Rightarrow>
       if chat = [] \<or> request = [] then []
       else [(lit ''shared_chat_id'', JStr chat), (lit ''shared_chat_request_id'', JStr request), (lit ''author_label'', js ''Collaborator'')]
   | _ \<Rightarrow> [])"

text \<open>The fields that the row and its event have in common.\<close>

definition admitted_fields :: "turn_request \<Rightarrow> queue_entry \<Rightarrow> jdict" where
  "admitted_fields rq e =
    [(lit ''file_ids'', strs_json (rq_file_ids rq)), (lit ''model'', opt_str (rq_model rq)), (lit ''effort'', opt_str (rq_effort rq)),
     (lit ''skill_selection'', case rq_skill_selection rq of Some d \<Rightarrow> JObj d | None \<Rightarrow> JNull),
     (lit ''display_prompt'', opt_str (rq_display_prompt rq)), (lit ''purpose'', opt_str (rq_purpose rq)),
     (lit ''digest_job_id'', opt_str (rq_digest_job_id rq)), (lit ''digest_detail'', opt_str (rq_digest_detail rq)),
     (lit ''source_session_id'', opt_str (rq_source_session_id rq)), (lit ''target_session_id'', opt_str (rq_target_session_id rq)),
     (lit ''chat_references'', lineage_json (rq_chat_references rq)), (lit ''team_references'', lineage_json (rq_team_references rq)),
     (lit ''cross_chat_envelope_id'', opt_str (rq_cross_chat_envelope_id rq)),
     (lit ''cross_chat_exchange_id'', opt_str (rq_cross_chat_exchange_id rq)),
     (lit ''cross_chat_exchange_leg_id'', opt_str (rq_cross_chat_exchange_leg_id rq)),
     (lit ''cross_chat_exchange_status'', JBool (rq_cross_chat_exchange_status rq)),
     (lit ''secure_peer_envelope_id'', opt_str (rq_secure_peer_envelope_id rq)),
     (lit ''secure_peer_route_snapshots'', lineage_json (qe_peer_snapshots e)),
     (lit ''cross_chat_obligation_ids'', strs_json (qe_obligation_ids e)), (lit ''cross_chat_exchange_ids'', strs_json (qe_exchange_ids e)),
     (lit ''client_capabilities'', strs_json (rq_client_capabilities rq)),
     (lit ''provider_cross_chat_route_snapshot'', lineage_json (qe_routes e))]"

definition queue_item :: "turn_request \<Rightarrow> queue_entry \<Rightarrow> jdict" where
  "queue_item rq e =
    dict_merge
      (dict_merge (dict_merge ((lit ''queued_id'', JStr (qe_id e)) # shared_chat_metadata rq)
        ((lit ''provider_team_mail_route_snapshot'', lineage_json (qe_mail_routes e)) # qe_conversation e))
        (if qe_conversation e \<noteq> [] then [(lit ''_async_body_verified'', JBool True)] else []))
      ([(lit ''prompt'', JStr (rq_prompt rq)), (lit ''backend'', opt_str (rq_backend rq))] @ admitted_fields rq e
       @ [(lit ''created_at'', JStr (qe_created_at e)), (lit ''_durable'', JBool False)])"

text \<open>The effect that a pending reciprocal grant has, as its acceptance event names it.\<close>

definition reciprocal_fields :: "(pystr \<times> pystr \<times> pystr \<times> json) option \<Rightarrow> jdict" where
  "reciprocal_fields r = (case r of None \<Rightarrow> []
   | Some (effect_id, route_id, target, actions) \<Rightarrow>
       [(lit ''provider_cross_chat_reciprocal_effect_id'', JStr effect_id), (lit ''provider_cross_chat_reciprocal_route_id'', JStr route_id),
        (lit ''provider_cross_chat_reciprocal_target_session_id'', JStr target), (lit ''provider_cross_chat_reciprocal_actions'', actions)])"

definition queued_payload :: "jdict \<Rightarrow> pystr \<Rightarrow> turn_request \<Rightarrow> queue_entry \<Rightarrow> pystr \<Rightarrow> nat \<Rightarrow> jdict" where
  "queued_payload sess default_backend rq e display_prompt position =
    dict_merge
      (dict_merge ((lit ''queued_id'', JStr (qe_id e)) # shared_chat_metadata rq)
        ([(lit ''provider_team_mail_route_snapshot'', lineage_json (qe_mail_routes e)),
          (lit ''provider_team_mail_grant_admission_id'', qe_mail_admission e)] @ qe_conversation e))
      ([(lit ''backend'', py_or (py_or (opt_str (rq_backend rq)) (dget sess ''backend'')) (JStr default_backend)),
        (lit ''prompt'', JStr display_prompt), (lit ''request_prompt'', JStr (rq_prompt rq))] @ admitted_fields rq e
       @ [(lit ''position'', JInt (int position)),
          (lit ''exchange_id'', opt_str (rq_cross_chat_exchange_id rq)), (lit ''exchange_leg_id'', opt_str (rq_cross_chat_exchange_leg_id rq)),
          (lit ''provider_cross_chat_grant_admission_id'', qe_route_admission e)]
       @ reciprocal_fields (qe_reciprocal e))"

text \<open>How the calls inside the admission end: the delivery record is bound or not, the append, the settlement of the
  mail grants, the peer owner (an exception also tells whether the owner was bound), the append of a removal,
  and the commit of the route grants.\<close>

record enqueue_outcome =
  en_bind :: "server_error + bool"
  en_append :: "server_error + stamp"
  en_settle :: "server_error + unit"
  en_peer :: "server_error \<times> bool + bool"
  en_unqueue :: "server_error + stamp"
  en_grants :: "server_error + unit"

text \<open>The row that this call appended is the last one: the queue lock is held throughout.\<close>

definition drop_provisional :: "turn_state \<Rightarrow> turn_state" where
  "drop_provisional s = keep_rows (butlast (turn_rows s)) s"

definition mark_durable :: "turn_state \<Rightarrow> turn_state" where
  "mark_durable s = s\<lparr>queued_rows := Some (butlast (turn_rows s) @ [dset (last (turn_rows s)) ''_durable'' (JBool True)])\<rparr>"

definition removed_payload :: "pystr \<Rightarrow> pystr \<Rightarrow> turn_request \<Rightarrow> string \<Rightarrow> jdict" where
  "removed_payload sid q rq message =
    [(lit ''queued_id'', JStr q), (lit ''purpose'', js ''secure_peer_handoff_delivery''),
     (lit ''secure_peer_envelope_id'', opt_str (rq_secure_peer_envelope_id rq)), (lit ''target_session_id'', JStr sid),
     (lit ''message'', js message)]"

definition peer_bound :: "pystr \<Rightarrow> turn_request \<Rightarrow> queue_entry \<Rightarrow> enqueue_outcome \<Rightarrow> turn_state \<Rightarrow> (server_error + unit) \<times> turn_state" where
  "peer_bound sid rq e out s =
    (let unqueued = (\<lambda>st message. drop_provisional (record_event (journal_event sid st ''turn_unqueued'' (removed_payload sid (qe_id e) rq message)) s))
     in if rq_purpose rq \<noteq> Some (lit ''secure_peer_handoff_delivery'') then (Inr (), s)
        else case en_peer out of
          Inr True \<Rightarrow> (Inr (), s)
        | Inr False \<Rightarrow> (case en_unqueue out of
              Inl err \<Rightarrow> (Inl err, s)
            | Inr st \<Rightarrow> (Inl (Http 410 (lit ''secure peer authorization ended before queue admission'')),
                unqueued st ''Secure peer authorization ended before queue admission.''))
        | Inl (err, True) \<Rightarrow> (case en_unqueue out of
              Inl _ \<Rightarrow> (Inl err, s)
            | Inr st \<Rightarrow> (Inl err, unqueued st ''Secure peer queue admission was cancelled before completion.''))
        | Inl (err, False) \<Rightarrow> (Inl err, s))"

definition published :: "pystr \<Rightarrow> turn_request \<Rightarrow> queue_entry \<Rightarrow> enqueue_outcome \<Rightarrow> nat \<Rightarrow> turn_state \<Rightarrow> (server_error + nat) \<times> turn_state" where
  "published sid rq e out position s =
    (case en_settle out of
       Inl err \<Rightarrow> (Inl err, s)
     | Inr _ \<Rightarrow> (case peer_bound sid rq e out s of
         (Inl err, s) \<Rightarrow> (Inl err, s)
       | (Inr _, s) \<Rightarrow> (case en_grants out of Inl err \<Rightarrow> (Inl err, s) | Inr _ \<Rightarrow> (Inr position, s))))"

text \<open>A delivery that was bound before its event is not bound again, so only peer deliveries can still be refused
  behind the event.\<close>

definition enqueue_turn :: "pystr \<Rightarrow> jdict \<Rightarrow> pystr \<Rightarrow> turn_request \<Rightarrow> queue_entry \<Rightarrow> pystr \<Rightarrow> enqueue_outcome
    \<Rightarrow> turn_state \<Rightarrow> (server_error + nat) \<times> turn_state" where
  "enqueue_turn sid sess default_backend rq e display_prompt out s =
    (let s = s\<lparr>queued_rows := Some (turn_rows s @ [queue_item rq e])\<rparr>;
         position = length (turn_rows s);
         publish = (case en_append out of
           Inl err \<Rightarrow> (Inl err, drop_provisional s)
         | Inr st \<Rightarrow> published sid rq e out position (mark_durable (record_event
             (journal_event sid st ''turn_queued'' (queued_payload sess default_backend rq e display_prompt position)) s)))
     in if rq_purpose rq \<noteq> Some (lit ''cross_chat_handoff_delivery'') then publish
        else case en_bind out of
          Inl err \<Rightarrow> (Inl err, drop_provisional s)
        | Inr False \<Rightarrow> (Inl (Http 410 (lit ''cross-chat authorization ended before queue admission'')), drop_provisional s)
        | Inr True \<Rightarrow> publish)"

section \<open>Removal and reordering\<close>

text \<open>The calls that the client of a chat makes see whether the chat exists and whether an update blocks them.\<close>

definition unqueued_payload :: "jdict \<Rightarrow> pystr \<Rightarrow> pystr \<Rightarrow> jdict \<Rightarrow> nat \<Rightarrow> server_error + jdict" where
  "unqueued_payload sess default_backend q removed remaining =
    ebind (list_fields removed [''file_ids'', ''chat_references'', ''team_references'', ''cross_chat_obligation_ids'', ''cross_chat_exchange_ids'']) (\<lambda>lists.
      Inr ([(lit ''queued_id'', JStr q),
            (lit ''backend'', py_or (py_or (dget removed ''backend'') (dget sess ''backend'')) (JStr default_backend)),
            (lit ''prompt'', py_or (dget removed ''prompt'') (JStr [])), (lit ''message'', js ''Removed queued message.''),
            (lit ''remaining'', JInt (int remaining))]
           @ same_fields removed [''purpose'', ''digest_job_id'', ''digest_detail'', ''source_session_id'', ''target_session_id'', ''secure_peer_envelope_id'']
           @ lists))"

definition unqueue_turn :: "queue_env \<Rightarrow> pystr \<Rightarrow> jdict option \<Rightarrow> pystr \<Rightarrow> pystr option \<Rightarrow> pystr \<Rightarrow> (server_error + stamp)
    \<Rightarrow> turn_state \<Rightarrow> (server_error + nat) \<times> turn_state" where
  "unqueue_turn env sid chat default_backend blocker q appended s =
    (case chat of
       None \<Rightarrow> (Inl (Http 404 (lit ''session not found'')), s)
     | Some sess \<Rightarrow>
    case blocker of
       Some detail \<Rightarrow> (Inl (Http 503 detail), s)
     | None \<Rightarrow>
    case reject_promoted_queue_mutation env s q of
       Inl err \<Rightarrow> (Inl err, s)
     | Inr _ \<Rightarrow>
    case queued_index q (turn_rows s) of
       None \<Rightarrow> (Inl (Http 404 (lit ''queued turn not found'')), s)
     | Some i \<Rightarrow>
       let removed = turn_rows s ! i; kept = take i (turn_rows s) @ drop (Suc i) (turn_rows s) in
       case in_strings (dget removed ''purpose'') [''cross_chat_handoff_delivery'', ''secure_peer_handoff_delivery''] of
         Inl err \<Rightarrow> (Inl err, s)
       | Inr True \<Rightarrow> (Inl (Http 409 (lit ''cross-chat delivery can only be cancelled from its source handoff'')), s)
       | Inr False \<Rightarrow>
           (case ebind (unqueued_payload sess default_backend q removed (length kept)) (\<lambda>payload. ebind appended (\<lambda>st. Inr (payload, st))) of
              Inl err \<Rightarrow> (Inl err, s\<lparr>queued_rows := Some (turn_rows s)\<rparr>)
            | Inr (payload, st) \<Rightarrow> (Inr (length kept), record_event (journal_event sid st ''turn_unqueued'' payload) (keep_rows kept s))))"

definition swap_rows :: "nat \<Rightarrow> nat \<Rightarrow> 'a list \<Rightarrow> 'a list" where
  "swap_rows i j items = items[i := items ! j, j := items ! i]"

definition arranged_delivery :: "jdict \<Rightarrow> server_error + bool" where
  "arranged_delivery item = in_strings (dget item ''purpose'') (CROSS_CHAT_DELIVERY_PURPOSES @ [''scheduled_job''])"

text \<open>Where a turn moves and what it passes; \<open>None\<close> as the expected neighbour stands for a client that names none.\<close>

definition move_target :: "bool \<Rightarrow> nat \<Rightarrow> nat \<Rightarrow> nat" where
  "move_target up i n = nat (max 0 (min (int n - 1) (if up then int i - 1 else int i + 1)))"

definition moved_rows :: "queue_env \<Rightarrow> turn_state \<Rightarrow> bool \<Rightarrow> json \<Rightarrow> nat \<Rightarrow> server_error + jdict list" where
  "moved_rows env s up expected i =
    (let items = turn_rows s; j = move_target up i (length items);
         adjacent = (if j \<noteq> i then dget (items ! j) ''queued_id'' else JNull) in
     if expected \<noteq> JNull \<and> adjacent \<noteq> expected then Inl (Http 409 (lit ''Queue changed; refresh before moving this message''))
     else if j = i then Inr items
     else ebind (reject_promoted_queue_mutation env s (qstr env adjacent)) (\<lambda>_.
       ebind (if expected \<noteq> JNull then Inr False
              else ebind (arranged_delivery (items ! i)) (\<lambda>b. if b then Inr True else arranged_delivery (items ! j))) (\<lambda>fenced.
       if fenced then Inl (Http 409 (lit ''Update the app to arrange queued deliveries safely''))
       else Inr (swap_rows i j items))))"

text \<open>\<open>direction\<close> is given stripped and in lower case.\<close>

definition move_queued_turn :: "queue_env \<Rightarrow> pystr \<Rightarrow> bool \<Rightarrow> pystr \<Rightarrow> json \<Rightarrow> pystr option \<Rightarrow> pystr \<Rightarrow> (server_error + stamp)
    \<Rightarrow> turn_state \<Rightarrow> (server_error + json list) \<times> turn_state" where
  "move_queued_turn env sid known direction expected blocker q appended s =
    (if \<not> known then (Inl (Http 404 (lit ''session not found'')), s)
     else if direction \<notin> {lit ''up'', lit ''down''} then (Inl (Http 400 (lit ''direction must be up or down'')), s)
     else case blocker of
       Some detail \<Rightarrow> (Inl (Http 503 detail), s)
     | None \<Rightarrow>
    case reject_promoted_queue_mutation env s q of
       Inl err \<Rightarrow> (Inl err, s)
     | Inr _ \<Rightarrow>
    case queued_index q (turn_rows s) of
       None \<Rightarrow> (Inl (Http 404 (lit ''queued turn not found'')), s)
     | Some i \<Rightarrow>
    case moved_rows env s (direction = lit ''up'') expected i of
       Inl err \<Rightarrow> (Inl err, s)
     | Inr items \<Rightarrow>
       (case appended of
          Inl err \<Rightarrow> (Inl err, s\<lparr>queued_rows := Some (turn_rows s)\<rparr>)
        | Inr st \<Rightarrow>
            (Inr (queue_positions env items),
             record_event (journal_event sid st ''turn_queue_reordered'' [(lit ''queued_id'', JStr q), (lit ''direction'', JStr direction),
               (lit ''positions'', JArr (queue_positions env items))]) (s\<lparr>queued_rows := Some items\<rparr>))))"

section \<open>Holding a queue after a stop\<close>

text \<open>The identifiers of the rows that are held: deliveries between chats are not.\<close>

fun held_ids :: "queue_env \<Rightarrow> jdict list \<Rightarrow> server_error + pystr list" where
  "held_ids env [] = Inr []"
| "held_ids env (item # items) =
    (let q = strip (row_id env item) in
     ebind (if q = [] then Inr True else in_strings (dget item ''purpose'') CROSS_CHAT_DELIVERY_PURPOSES) (\<lambda>skip.
       ebind (held_ids env items) (\<lambda>qs. Inr (if skip then qs else q # qs))))"

definition hidden_delivery_at_head :: "jdict list \<Rightarrow> server_error + bool" where
  "hidden_delivery_at_head items = (case items of
     [] \<Rightarrow> Inr False
   | item # _ \<Rightarrow> ebind (in_strings (dget item ''purpose'') CROSS_CHAT_DELIVERY_PURPOSES) (\<lambda>b.
       Inr (b \<and> \<not> truthy (dget item ''_paused_after_stop''))))"

definition hold_row :: "queue_env \<Rightarrow> pystr list \<Rightarrow> bool \<Rightarrow> jdict \<Rightarrow> jdict" where
  "hold_row env qs durable item =
    (if strip (row_id env item) \<in> set qs
     then let item = dset item ''_paused_after_stop'' (JBool True) in if durable then item else dset item ''_durable'' (JBool False)
     else item)"

definition hold_rows :: "queue_env \<Rightarrow> pystr list \<Rightarrow> bool \<Rightarrow> turn_state \<Rightarrow> turn_state" where
  "hold_rows env qs durable s = s\<lparr>queued_rows := map_option (map (hold_row env qs durable)) (queued_rows s),
     run_now_row := map_option (hold_row env qs durable) (run_now_row s),
     run_now_results := filter (\<lambda>q. q \<notin> set qs) (run_now_results s)\<rparr>"

text \<open>The result is the number of held turns, and whether a hidden delivery is to be started.\<close>

definition pause_queued_turns_after_explicit_stop :: "queue_env \<Rightarrow> pystr \<Rightarrow> (server_error + stamp) \<Rightarrow> turn_state
    \<Rightarrow> (server_error + nat \<times> bool) \<times> turn_state" where
  "pause_queued_turns_after_explicit_stop env sid appended s =
    (let items = (case run_now_row s of Some item \<Rightarrow> [item] | None \<Rightarrow> []) @ turn_rows s in
     case ebind (held_ids env items) (\<lambda>qs. ebind (hidden_delivery_at_head items) (\<lambda>hidden. Inr (qs, hidden))) of
       Inl err \<Rightarrow> (Inl err, s)
     | Inr (qs, hidden) \<Rightarrow>
         if qs = [] then (Inr (0, hidden), s)
         else (Inr (length qs, hidden), case appended of
           Inl _ \<Rightarrow> hold_rows env qs False s
         | Inr st \<Rightarrow> hold_rows env qs True (record_event (journal_event sid st ''turn_queue_paused''
             [(lit ''queued_ids'', strs_json qs), (lit ''message'', js ''Queued messages were kept after the parent turn stopped.'')]) s)))"

section \<open>The next turn\<close>

definition held_back :: "jdict \<Rightarrow> bool" where
  "held_back item \<longleftrightarrow> dget item ''_durable'' = JBool False \<or> dget item ''_paused_after_stop'' = JBool True"

definition requeue_turn_front :: "jdict \<Rightarrow> turn_state \<Rightarrow> turn_state" where
  "requeue_turn_front item s = s\<lparr>queued_rows := Some (item # turn_rows s)\<rparr>"

definition take_queued :: "turn_state \<Rightarrow> jdict option \<times> turn_state" where
  "take_queued s = (case turn_rows s of
     [] \<Rightarrow> (None, s\<lparr>queued_rows := None\<rparr>)
   | item # rest \<Rightarrow> if held_back item then (None, s) else (Some item, keep_rows rest s))"

definition start_next_queued_turn :: "queue_env \<Rightarrow> bool \<Rightarrow> turn_state \<Rightarrow> jdict option \<times> turn_state" where
  "start_next_queued_turn env steering s =
    (if steering then (None, s)
     else case run_now_row s of
       None \<Rightarrow> take_queued s
     | Some item \<Rightarrow>
         if held_back item then
           (None, if dget item ''_paused_after_stop'' = JBool True
              then if list_ex (\<lambda>candidate. row_id env candidate = row_id env item) (turn_rows s)
                   then s\<lparr>run_now_row := None, queued_rows := Some (turn_rows s)\<rparr>
                   else requeue_turn_front item (s\<lparr>run_now_row := None\<rparr>)
              else s)
         else (Some item, s\<lparr>run_now_row := None\<rparr>))"

section \<open>Native steering\<close>

definition str_of :: "queue_env \<Rightarrow> json \<Rightarrow> pystr" where
  "str_of env v = (case v of JStr s \<Rightarrow> s | _ \<Rightarrow> q_repr env v)"

definition steer_display :: "queue_env \<Rightarrow> jdict \<Rightarrow> pystr" where
  "steer_display env selected =
    (if dget selected ''display_prompt'' \<noteq> JNull then str_of env (dget selected ''display_prompt'') else qstr env (dget selected ''prompt''))"

definition steer_files :: "jdict \<Rightarrow> py_exn + json" where
  "steer_files selected =
    (if dget selected ''display_file_ids'' \<noteq> JNull then ebind (py_list (dget selected ''display_file_ids'')) (\<lambda>vs. Inr (JArr vs))
     else list_field selected ''file_ids'')"

text \<open>The fields that both events about a steered row copy from it.\<close>

definition steer_fields :: "queue_env \<Rightarrow> jdict \<Rightarrow> server_error + jdict" where
  "steer_fields env selected =
    ebind (list_fields selected [''file_ids'', ''chat_references'', ''team_references'', ''cross_chat_obligation_ids'', ''cross_chat_exchange_ids'',
      ''client_capabilities'']) (\<lambda>lists.
    ebind (raised (steer_files selected)) (\<lambda>files.
    ebind (raised (normalized_provider_cross_chat_route_snapshot env (dget selected ''provider_cross_chat_route_snapshot''))) (\<lambda>routes.
      Inr (same_fields selected [''queued_id'', ''model'', ''effort'', ''purpose'', ''digest_job_id'', ''digest_detail'', ''source_session_id'',
             ''target_session_id'', ''cross_chat_envelope_id'', ''cross_chat_exchange_id'', ''cross_chat_exchange_leg_id'']
           @ [(lit ''prompt'', JStr (steer_display env selected)), (lit ''request_prompt'', JStr (qstr env (dget selected ''prompt''))),
              (lit ''display_file_ids'', files), (lit ''cross_chat_exchange_status'', JBool (truthy (dget selected ''cross_chat_exchange_status''))),
              (lit ''provider_team_mail_route_snapshot'', routes_json (grant_snapshot (dget selected ''provider_team_mail_route_snapshot''))),
              (lit ''provider_cross_chat_route_snapshot'', lineage_json routes)]
           @ lists))))"

definition fence_native_steer_delivery :: "queue_env \<Rightarrow> pystr \<Rightarrow> json \<Rightarrow> (server_error + stamp \<times> stamp) \<Rightarrow> jdict \<Rightarrow> turn_state
    \<Rightarrow> (server_error + jdict) \<times> turn_state" where
  "fence_native_steer_delivery env sid backend appended selected s =
    (if dget selected ''_native_delivery_fenced'' = JBool True then (Inr selected, s)
     else case ebind (steer_fields env selected) (\<lambda>copied. ebind appended (\<lambda>st. Inr (copied, st))) of
       Inl err \<Rightarrow> (Inl err, s)
     | Inr (copied, st1, st2) \<Rightarrow>
         (Inr (dset (dset selected ''_paused_after_stop'' (JBool True)) ''_native_delivery_fenced'' (JBool True)),
          record_event (journal_event sid st2 ''turn_queue_delivery_fenced''
              (copied @ [(lit ''backend'', backend), (lit ''display_prompt'', JStr (steer_display env selected)),
                (lit ''position'', dget selected ''_native_delivery_queue_position''),
                (lit ''message'', js ''Force Send delivery started; keep this message paused until its provider lifecycle is durably committed.'')]))
            (record_event (journal_event sid st1 ''turn_unqueued''
              [(lit ''queued_id'', dget selected ''queued_id''), (lit ''reason'', js ''native_delivery_fence'')]) s)))"

definition native_steer_requeue_event_payload :: "queue_env \<Rightarrow> jdict \<Rightarrow> pystr \<Rightarrow> jdict \<Rightarrow> nat \<Rightarrow> server_error + jdict" where
  "native_steer_requeue_event_payload env sess default_backend selected position =
    ebind (steer_fields env selected) (\<lambda>copied.
      Inr (copied @ same_fields selected [''display_prompt''] @
        [(lit ''backend'', py_or (py_or (dget selected ''backend'') (dget sess ''backend'')) (JStr default_backend)),
         (lit ''position'', JInt (int position)),
         (lit ''exchange_id'', dget selected ''cross_chat_exchange_id''), (lit ''exchange_leg_id'', dget selected ''cross_chat_exchange_leg_id''),
         (lit ''message'', js ''Force Send was rejected before provider delivery; the message returned to normal queue delivery.'')]))"

text \<open>The place of a row that returns: before its old successor, else behind its old predecessor, else at its old index.\<close>

definition return_index :: "jdict list \<Rightarrow> nat \<Rightarrow> pystr option \<Rightarrow> pystr option \<Rightarrow> nat" where
  "return_index items selected_index predecessor successor =
    (case Option.bind successor (\<lambda>q. queued_index q items) of
       Some i \<Rightarrow> i
     | None \<Rightarrow> (case Option.bind predecessor (\<lambda>q. queued_index q items) of
         Some i \<Rightarrow> i + 1
       | None \<Rightarrow> min selected_index (length items)))"

definition returned_positions :: "queue_env \<Rightarrow> jdict list \<Rightarrow> json list" where
  "returned_positions env items =
    map (\<lambda>(idx, item). queue_position env idx item) (filter (\<lambda>(idx, item). strip (row_id env item) \<noteq> []) (zip [0..<length items] items))"

text \<open>Three stamps: of the queued event, of the reordering and of the pause, which is only written when asked for.
  The error is the cause that the code wraps into its hand-off error.\<close>

definition requeue_native_steer_after_safe_rejection :: "queue_env \<Rightarrow> pystr \<Rightarrow> jdict \<Rightarrow> pystr \<Rightarrow> jdict \<Rightarrow> nat \<Rightarrow> pystr option \<Rightarrow> pystr option
    \<Rightarrow> bool \<Rightarrow> (server_error + stamp \<times> stamp \<times> stamp) \<Rightarrow> turn_state \<Rightarrow> (server_error + unit) \<times> turn_state" where
  "requeue_native_steer_after_safe_rejection env sid sess default_backend selected selected_index predecessor successor preserve_pause appended s =
    (let i = return_index (turn_rows s) selected_index predecessor successor;
         items = insert_at i selected (turn_rows s);
         settled = (\<lambda>row. s\<lparr>queued_rows := Some (insert_at i (dpop row ''_native_delivery_queue_position'') (turn_rows s))\<rparr>)
     in case ebind (native_steer_requeue_event_payload env sess default_backend selected (i + 1)) (\<lambda>payload. ebind appended (\<lambda>st. Inr (payload, st))) of
       Inl err \<Rightarrow> (Inl err, settled (dset selected ''_paused_after_stop'' (JBool True)))
     | Inr (payload, st1, st2, st3) \<Rightarrow>
         let s' = settled (dpop (dset selected ''_paused_after_stop'' (JBool preserve_pause)) ''_native_delivery_fenced'');
             s' = record_event (journal_event sid st1 ''turn_queued'' payload) s';
             s' = record_event (journal_event sid st2 ''turn_queue_reordered'' [(lit ''positions'', JArr (returned_positions env items)),
               (lit ''message'', js ''Queue order restored after Force Send was rejected before provider delivery.'')]) s'
         in (Inr (), if preserve_pause
              then record_event (journal_event sid st3 ''turn_queue_paused'' [(lit ''queued_ids'', JArr [JStr (row_id env selected)]),
                (lit ''message'', js ''The goal follow-up was not delivered and remains paused until explicitly retried.'')]) s'
              else s'))"

end
