(* ===== verification/Queue_Journal.thy ===== *)
theory Queue_Journal
  imports Turn_Queue
begin

text \<open>
  What the event of an admission holds, and the row that a restart rebuilds from it.
\<close>

section \<open>Fields of merged dictionaries\<close>

lemma dict_merge_simps: "dict_merge a [] = a" "dict_merge a (kv # b) = dict_merge (AList.update (fst kv) (snd kv) a) b"
  by (simp_all add: dict_merge_def)

lemma distinct_dict_merge: "distinct (map fst a) \<Longrightarrow> distinct (map fst (dict_merge a b))"
  by (induction b arbitrary: a) (simp_all add: dict_merge_simps distinct_update)

lemma dget_dict_merge:
  assumes "distinct (map fst b)"
  shows "dget (dict_merge a b) k = (if dhas b k then dget b k else dget a k)"
proof -
  have "distinct (map fst (rev b))" using assms by (simp add: rev_map [symmetric])
  then have "map_of (rev b) = map_of b" using map_of_inject_set [OF _ assms, of "rev b"] by simp
  then show ?thesis by (simp add: dget_def dhas_def map_of_dict_merge split: option.split)
qed

lemma dhas_dict_merge: "dhas (dict_merge a b) k \<longleftrightarrow> dhas a k \<or> dhas b k"
proof -
  have "map_of (rev b) (lit k) = None \<longleftrightarrow> map_of b (lit k) = None" by (simp add: map_of_eq_None_iff)
  then show ?thesis by (auto simp: dhas_def map_of_dict_merge split: option.splits)
qed

lemma dget_absent: "\<not> dhas d k \<Longrightarrow> dget d k = JNull"
  by (simp add: dget_def dhas_def)

lemma dhas_append [simp]: "dhas (a @ b) k \<longleftrightarrow> dhas a k \<or> dhas b k"
  by (simp add: dhas_def map_add_def split: option.split)

lemma dget_append: "dget (a @ b) k = (if dhas a k then dget a k else dget b k)"
  by (simp add: dget_def dhas_def map_add_def split: option.split)

section \<open>The event of an admission\<close>

text \<open>The keys of \<open>async_route_conversation_fields\<close> and \<open>async_message_target_fields\<close>.\<close>

definition conversation_keys :: "string list" where
  "conversation_keys = [''conversation_mode'', ''conversation_id'', ''message_id'', ''source_session_id'', ''target_session_id'',
     ''source_title'', ''target_title'', ''delivery_mode'', ''created_at'', ''received_at'', ''read_at'', ''reply_to_message_id'',
     ''inbox_state'', ''message_body'', ''message_revision'', ''message_edited_by_user'']"

text \<open>An entry that went through the checks before it: its routes and snapshots are in normal form.\<close>

definition entry_ready :: "queue_env \<Rightarrow> queue_entry \<Rightarrow> bool" where
  "entry_ready env e \<longleftrightarrow> strip (qe_id e) \<noteq> [] \<and> list_all (\<lambda>kv. fst kv \<in> lit ` set conversation_keys) (qe_conversation e)
     \<and> (\<exists>v. normalized_provider_cross_chat_route_snapshot env v = Inr (qe_routes e))
     \<and> (\<exists>v. normalized_secure_peer_route_snapshots v = Inr (lineage_json (qe_peer_snapshots e)))"

lemma conversation_has: "entry_ready env e \<Longrightarrow> dhas (qe_conversation e) k \<Longrightarrow> k \<in> set conversation_keys"
  by (auto simp: entry_ready_def dhas_def list_all_iff dest!: map_of_SomeD)

lemma shared_keys: "dhas (shared_chat_metadata rq) k \<Longrightarrow> k \<in> {''shared_chat_id'', ''shared_chat_request_id'', ''author_label''}"
  by (auto simp: shared_chat_metadata_def split: option.splits if_splits)

lemma distinct_keys: "map fst d = map lit ks \<Longrightarrow> distinct ks \<Longrightarrow> distinct (map fst d)"
  by (simp add: distinct_map inj_on_def)

lemma distinct_shared: "distinct (map fst ((lit ''queued_id'', JStr q) # shared_chat_metadata rq))"
proof (cases "shared_chat_metadata rq = []")
  case False
  then have "map fst ((lit ''queued_id'', JStr q) # shared_chat_metadata rq)
      = map lit [''queued_id'', ''shared_chat_id'', ''shared_chat_request_id'', ''author_label'']"
    by (simp add: shared_chat_metadata_def split: option.splits if_splits)
  then show ?thesis by (rule distinct_keys) simp
qed simp

text \<open>The last group of fields of the payload, which overrides the others.\<close>

definition payload_fields :: "jdict \<Rightarrow> pystr \<Rightarrow> turn_request \<Rightarrow> queue_entry \<Rightarrow> pystr \<Rightarrow> nat \<Rightarrow> jdict" where
  "payload_fields sess default_backend rq e display_prompt position =
     [(lit ''backend'', py_or (py_or (opt_str (rq_backend rq)) (dget sess ''backend'')) (JStr default_backend)),
      (lit ''prompt'', JStr display_prompt), (lit ''request_prompt'', JStr (rq_prompt rq))] @ admitted_fields rq e
     @ [(lit ''position'', JInt (int position)),
        (lit ''exchange_id'', opt_str (rq_cross_chat_exchange_id rq)), (lit ''exchange_leg_id'', opt_str (rq_cross_chat_exchange_leg_id rq)),
        (lit ''provider_cross_chat_grant_admission_id'', qe_route_admission e)]
     @ reciprocal_fields (qe_reciprocal e)"

definition payload_keys :: "string list" where
  "payload_keys = [''backend'', ''prompt'', ''request_prompt'', ''file_ids'', ''model'', ''effort'', ''skill_selection'', ''display_prompt'',
     ''purpose'', ''digest_job_id'', ''digest_detail'', ''source_session_id'', ''target_session_id'', ''chat_references'', ''team_references'',
     ''cross_chat_envelope_id'', ''cross_chat_exchange_id'', ''cross_chat_exchange_leg_id'', ''cross_chat_exchange_status'',
     ''secure_peer_envelope_id'', ''secure_peer_route_snapshots'', ''cross_chat_obligation_ids'', ''cross_chat_exchange_ids'',
     ''client_capabilities'', ''provider_cross_chat_route_snapshot'', ''position'', ''exchange_id'', ''exchange_leg_id'',
     ''provider_cross_chat_grant_admission_id'']"

definition reciprocal_keys :: "string list" where
  "reciprocal_keys = [''provider_cross_chat_reciprocal_effect_id'', ''provider_cross_chat_reciprocal_route_id'',
     ''provider_cross_chat_reciprocal_target_session_id'', ''provider_cross_chat_reciprocal_actions'']"

lemma payload_fields_keys:
  "map fst (payload_fields sess b rq e dp n) = map lit (payload_keys @ (if qe_reciprocal e = None then [] else reciprocal_keys))"
  by (simp add: payload_fields_def admitted_fields_def payload_keys_def reciprocal_fields_def reciprocal_keys_def split: option.split prod.split)

lemma distinct_payload_fields: "distinct (map fst (payload_fields sess b rq e dp n))"
  by (rule distinct_keys [OF payload_fields_keys]) (simp add: payload_keys_def reciprocal_keys_def)

lemma dhas_keys: "map fst d = map lit ks \<Longrightarrow> dhas d k \<longleftrightarrow> k \<in> set ks"
proof -
  assume "map fst d = map lit ks"
  then have "fst ` set d = lit ` set ks" by (metis set_map)
  then show ?thesis by (auto simp: dhas_def map_of_eq_None_iff)
qed

lemma dhas_payload_fields: "dhas (payload_fields sess b rq e dp n) k
    \<longleftrightarrow> k \<in> set payload_keys \<or> qe_reciprocal e \<noteq> None \<and> k \<in> set reciprocal_keys"
  unfolding dhas_keys [OF payload_fields_keys] by simp

lemma payload_has:
  "dhas (queued_payload sess b rq e dp n) k \<longleftrightarrow> k = ''queued_id'' \<or> dhas (shared_chat_metadata rq) k
     \<or> k \<in> {''provider_team_mail_route_snapshot'', ''provider_team_mail_grant_admission_id''} \<or> dhas (qe_conversation e) k
     \<or> dhas (payload_fields sess b rq e dp n) k"
  unfolding queued_payload_def payload_fields_def [symmetric] dhas_dict_merge by auto

lemma payload_get:
  assumes "entry_ready env e" "k \<notin> set conversation_keys \<or> k \<in> set payload_keys"
    "k \<notin> {''provider_team_mail_route_snapshot'', ''provider_team_mail_grant_admission_id''}"
  shows "dget (queued_payload sess b rq e dp n) k
    = (if dhas (payload_fields sess b rq e dp n) k then dget (payload_fields sess b rq e dp n) k
       else dget ((lit ''queued_id'', JStr (qe_id e)) # shared_chat_metadata rq) k)"
proof (cases "dhas (payload_fields sess b rq e dp n) k")
  case False
  then have "k \<notin> set conversation_keys" using assms(2) by (auto simp: dhas_payload_fields)
  then have "\<not> dhas ([(lit ''provider_team_mail_route_snapshot'', lineage_json (qe_mail_routes e)),
      (lit ''provider_team_mail_grant_admission_id'', qe_mail_admission e)] @ qe_conversation e) k"
    using conversation_has [OF assms(1), of k] assms(3) by auto
  then show ?thesis using False
    unfolding queued_payload_def payload_fields_def [symmetric] dget_dict_merge [OF distinct_payload_fields]
    by (simp only: dget_dict_merge_other if_False not_False_eq_True)
qed (simp only: queued_payload_def payload_fields_def [symmetric] dget_dict_merge [OF distinct_payload_fields] if_True)

lemma distinct_payload: "distinct (map fst (queued_payload sess b rq e dp n))"
  unfolding queued_payload_def by (intro distinct_dict_merge distinct_shared)

lemma journal_event_get:
  assumes "distinct (map fst payload)"
  shows "dget (journal_event sid st kind payload) k = (if dhas payload k then dget payload k
    else dget [(lit ''seq'', JInt (fst st)), (lit ''id'', JStr (fst (snd st))), (lit ''session_id'', JStr sid), (lit ''type'', js kind), (lit ''ts'', JStr (snd (snd st)))] k)"
  by (cases st) (simp add: journal_event_def make_event_def dget_dict_merge [OF assms] case_prod_beta)

section \<open>Normal forms are kept\<close>

definition kinds_hashable :: "jdict list \<Rightarrow> bool" where
  "kinds_hashable routes \<longleftrightarrow> list_all (\<lambda>r. hashable (dget r ''route_kind'')) routes"

lemma provider_routes_kinds: "kinds_hashable (provider_routes env taken vs)"
  by (induction env taken vs rule: provider_routes.induct)
    (auto simp: kinds_hashable_def Let_def split: json.split option.split)

lemma ephemeral_routes_kinds: "kinds_hashable (ephemeral_routes env taken vs)"
proof (induction env taken vs rule: ephemeral_routes.induct)
  case (2 env taken v vs)
  have "hashable k" if "ephemeral_kind k" for k using that by (auto simp: ephemeral_kind_def)
  with 2 show ?case by (auto simp: kinds_hashable_def Let_def split: json.split option.split)
qed (simp add: kinds_hashable_def)

lemma normalized_kinds: "normalized_provider_cross_chat_route_snapshot env v = Inr rs \<Longrightarrow> kinds_hashable rs"
proof (cases v)
  case (JArr vs)
  assume "normalized_provider_cross_chat_route_snapshot env v = Inr rs"
  then have "rs = ephemeral_routes env ([], [], []) vs \<or> rs = provider_routes env ([], [], []) vs"
    unfolding normalized_provider_cross_chat_route_snapshot_def normalized_provider_cross_chat_routes_def JArr json.case
    by (metis Inl_Inr_False sum.inject(2))
  then show ?thesis using ephemeral_routes_kinds provider_routes_kinds by blast
qed (auto simp: normalized_provider_cross_chat_route_snapshot_def kinds_hashable_def)

lemma normalized_again:
  assumes "kinds_hashable rs"
  obtains rs' where "normalized_provider_cross_chat_route_snapshot env (lineage_json rs) = Inr rs'" "kinds_hashable rs'"
proof -
  have "\<not> list_ex (\<lambda>x. case x of JObj raw \<Rightarrow> \<not> hashable (dget raw ''route_kind'') | _ \<Rightarrow> False) (map JObj rs)"
    using assms by (auto simp: kinds_hashable_def list_ex_iff list_all_iff)
  then have "\<exists>rs'. normalized_provider_cross_chat_route_snapshot env (lineage_json rs) = Inr rs'"
    by (simp add: normalized_provider_cross_chat_route_snapshot_def lineage_json_def)
  then show ?thesis using that normalized_kinds by blast
qed

lemma peer_routes_again: "peer_routes vs = Inr rs \<Longrightarrow> peer_routes rs = Inr rs"
proof (induction vs arbitrary: rs)
  case (Cons v vs)
  obtain d rest where d: "dkeys_eq d secure_peer_keys" "peer_routes vs = Inr rest"
      and rs: "rs = JObj (map (\<lambda>k. (lit k, dget d k)) secure_peer_keys) # rest"
    using Cons.prems by (auto simp: ebind_Inr_iff split: json.splits if_splits)
  let ?d = "map (\<lambda>k. (lit k, dget d k)) secure_peer_keys"
  have "dkeys_eq ?d secure_peer_keys" "map (\<lambda>k. (lit k, dget ?d k)) secure_peer_keys = ?d"
    by (simp_all add: dkeys_eq_def secure_peer_keys_def)
  then show ?case using Cons.IH [OF d(2)] by (simp add: rs)
qed simp

lemma peer_snapshots_again:
  assumes "normalized_secure_peer_route_snapshots v = Inr (JArr rs)"
  shows "normalized_secure_peer_route_snapshots (JArr rs) = Inr (JArr rs)"
proof -
  have "rs = [] \<or> (\<exists>vs. peer_routes vs = Inr rs)"
    using assms by (auto simp: normalized_secure_peer_route_snapshots_def ebind_Inr_iff split: json.splits)
  then have "peer_routes rs = Inr rs" using peer_routes_again by auto
  then show ?thesis by (simp add: normalized_secure_peer_route_snapshots_def)
qed

section \<open>The row that is rebuilt\<close>

lemma async_has: "dhas (async_route_queue_fields env item) k \<Longrightarrow> k \<in> {''conversation_mode'', ''conversation_id'', ''message_id'',
    ''source_title'', ''target_title'', ''message_body'', ''message_revision'', ''message_edited_by_user''}"
proof -
  assume "dhas (async_route_queue_fields env item) k"
  then have "lit k \<in> fst ` set (async_route_queue_fields env item)" by (force simp: dhas_def dest: map_of_SomeD)
  then show ?thesis using async_keys [of env item] by auto
qed

text \<open>The fields that are copied, and the ones that are read as lists.\<close>

definition copied_keys :: "string list" where
  "copied_keys = [''display_prompt'', ''shared_chat_id'', ''shared_chat_request_id'', ''author_label'', ''purpose'', ''digest_job_id'',
     ''digest_detail'', ''source_session_id'', ''target_session_id'', ''cross_chat_envelope_id'', ''secure_peer_envelope_id'']"

definition listed_keys :: "string list" where
  "listed_keys = [''file_ids'', ''chat_references'', ''team_references'', ''cross_chat_obligation_ids'', ''cross_chat_exchange_ids'', ''client_capabilities'']"

lemma row_get_append:
  "k \<notin> {''conversation_mode'', ''conversation_id'', ''message_id'', ''source_title'', ''target_title'', ''message_body'', ''message_revision'',
    ''message_edited_by_user''} \<Longrightarrow> dget (async_route_queue_fields env item @ d) k = dget d k"
  using async_has [of env item k] by (auto simp: dget_append)

lemma queued_turn_shape:
  assumes "queued_turn_from_event env event sess n = Inr row"
  obtains lineage rp delivery routes fids display refs trefs peers obligations exchanges caps pos where
    "row = queued_row env event sess lineage rp delivery routes fids display refs trefs peers obligations exchanges caps pos"
    "event_lineage env event = Inr (lineage, rp)" "list_field event ''file_ids'' = Inr fids" "list_field event ''chat_references'' = Inr refs"
    "list_field event ''team_references'' = Inr trefs" "normalized_secure_peer_route_snapshots (dget event ''secure_peer_route_snapshots'') = Inr peers"
    "list_field event ''cross_chat_obligation_ids'' = Inr obligations" "list_field event ''cross_chat_exchange_ids'' = Inr exchanges"
    "list_field event ''client_capabilities'' = Inr caps"
proof (cases "event_lineage env event")
  case (Inl err)
  then show ?thesis using assms by (simp add: queued_turn_from_event_def raised_def)
next
  case (Inr p)
  obtain lineage rp where p: "p = (lineage, rp)" by (cases p)
  have start: "raised (event_lineage env event) = Inr (lineage, rp)" using Inr p by simp
  show ?thesis using assms that Inr p unfolding queued_turn_from_event_def start ebind_simps case_prod_conv ebind_Inr_iff raised_Inr_iff by blast
qed

lemma queued_row_fields:
  fixes env event sess lineage rp delivery routes fids display refs trefs peers obligations exchanges caps pos
  defines "row \<equiv> queued_row env event sess lineage rp delivery routes fids display refs trefs peers obligations exchanges caps pos"
  shows "dget row ''prompt'' = first_set rp (py_or (dget event ''prompt'') (JStr []))"
    "dget row ''file_ids'' = fids"
    "dget row ''chat_references'' = refs"
    "dget row ''team_references'' = trefs"
    "dget row ''cross_chat_obligation_ids'' = obligations"
    "dget row ''cross_chat_exchange_ids'' = exchanges"
    "dget row ''client_capabilities'' = caps"
    "dget row ''secure_peer_route_snapshots'' = peers"
    "dget row ''cross_chat_exchange_id'' = py_or (dget event ''cross_chat_exchange_id'') (dget event ''exchange_id'')"
    "dget row ''cross_chat_exchange_leg_id'' = py_or (dget event ''cross_chat_exchange_leg_id'') (dget event ''exchange_leg_id'')"
    "dget row ''cross_chat_exchange_status'' = JBool (truthy (dget event ''cross_chat_exchange_status''))"
    "dget row ''_paused_after_stop'' = JBool False"
  unfolding row_def queued_row_def by (simp_all add: row_get_append)

lemma queued_row_copied:
  "list_all (\<lambda>k. dget (queued_row env event sess lineage rp delivery routes fids display refs trefs peers obligations exchanges caps pos) k = dget event k) copied_keys"
  unfolding copied_keys_def queued_row_def by (simp add: row_get_append)

section \<open>A queued message survives a restart\<close>

definition attribution_keys :: "string list" where
  "attribution_keys = [''shared_chat_id'', ''shared_chat_request_id'', ''author_label'']"

definition unset_keys :: "string list" where
  "unset_keys = [''steering_lineage'', ''display_file_ids'', ''superseded_queued_ids'']"

definition header_keys :: "string list" where
  "header_keys = [''seq'', ''id'', ''session_id'', ''type'', ''ts'']"

definition written_keys :: "string list" where
  "written_keys = payload_keys @ reciprocal_keys @ conversation_keys @ [''provider_team_mail_route_snapshot'', ''provider_team_mail_grant_admission_id'']"

lemma keys_apart:
  "list_all (\<lambda>k. k \<notin> set written_keys) (''queued_id'' # ''type'' # attribution_keys @ unset_keys)"
  "list_all (\<lambda>k. k \<noteq> ''queued_id'' \<and> k \<notin> set header_keys) (attribution_keys @ unset_keys)"
  "list_all (\<lambda>k. k \<notin> set attribution_keys) (''queued_id'' # ''type'' # unset_keys)"
  "list_all (\<lambda>k. k \<notin> {''provider_team_mail_route_snapshot'', ''provider_team_mail_grant_admission_id''}) payload_keys"
  by code_simp+

lemma unwritten:
  assumes "entry_ready env e" "k \<notin> set written_keys"
  shows "dhas (queued_payload sess b rq e dp n) k \<longleftrightarrow> k = ''queued_id'' \<or> dhas (shared_chat_metadata rq) k"
    "dget (queued_payload sess b rq e dp n) k = dget ((lit ''queued_id'', JStr (qe_id e)) # shared_chat_metadata rq) k"
proof -
  have k: "k \<notin> set payload_keys" "k \<notin> set reciprocal_keys" "k \<notin> set conversation_keys"
      "k \<notin> {''provider_team_mail_route_snapshot'', ''provider_team_mail_grant_admission_id''}"
    using assms(2) by (simp_all add: written_keys_def)
  then have p: "\<not> dhas (payload_fields sess b rq e dp n) k" by (simp add: dhas_payload_fields)
  have c: "\<not> dhas (qe_conversation e) k" using conversation_has [OF assms(1)] k(3) by blast
  show "dhas (queued_payload sess b rq e dp n) k \<longleftrightarrow> k = ''queued_id'' \<or> dhas (shared_chat_metadata rq) k"
    using p c k(4) by (simp add: payload_has)
  show "dget (queued_payload sess b rq e dp n) k = dget ((lit ''queued_id'', JStr (qe_id e)) # shared_chat_metadata rq) k"
    using payload_get [OF assms(1) disjI1 [OF k(3)] k(4), of sess b rq dp n] p by simp
qed

lemma shared_has: "dhas (shared_chat_metadata rq) k \<Longrightarrow> k \<in> set attribution_keys"
  using shared_keys by (simp add: attribution_keys_def)

lemma event_header:
  "k \<notin> set header_keys \<Longrightarrow> dget [(lit ''seq'', a), (lit ''id'', b), (lit ''session_id'', c), (lit ''type'', d), (lit ''ts'', e)] k = JNull"
  by (auto simp: header_keys_def)

lemma admission_fields:
  fixes env e sid st sess b rq dp n
  assumes "entry_ready env e"
  defines "event \<equiv> journal_event sid st ''turn_queued'' (queued_payload sess b rq e dp n)"
  shows "k \<in> set payload_keys \<Longrightarrow> dget event k = dget (payload_fields sess b rq e dp n) k"
    "dget event ''queued_id'' = JStr (qe_id e)" "dget event ''type'' = js ''turn_queued''"
    "k \<in> set attribution_keys \<Longrightarrow> dget event k = dget (shared_chat_metadata rq) k"
    "k \<in> set unset_keys \<Longrightarrow> dget event k = JNull"
proof -
  let ?p = "queued_payload sess b rq e dp n"
  note get = journal_event_get [OF distinct_payload, of sid st "''turn_queued''" sess b rq e dp n]
  note apart = keys_apart [unfolded list_all_iff]
  show "dget event k = dget (payload_fields sess b rq e dp n) k" if k: "k \<in> set payload_keys"
  proof -
    have h: "dhas (payload_fields sess b rq e dp n) k" using k by (simp add: dhas_payload_fields)
    have "dget ?p k = dget (payload_fields sess b rq e dp n) k"
      using payload_get [OF assms(1) disjI2 [OF k] apart(4) [rule_format, OF k], of sess b rq dp n] h by simp
    then show ?thesis using h by (simp add: event_def get payload_has)
  qed
  have "''queued_id'' \<notin> set written_keys" using apart(1) by simp
  then show "dget event ''queued_id'' = JStr (qe_id e)"
    using unwritten [OF assms(1), of "''queued_id''" sess b rq dp n] by (simp add: event_def get)
  have "''type'' \<notin> set written_keys" "''type'' \<notin> set attribution_keys" using apart(1,3) by simp_all
  then show "dget event ''type'' = js ''turn_queued''"
    using unwritten [OF assms(1), of "''type''" sess b rq dp n] shared_has [of rq "''type''"] by (auto simp: event_def get)
  show "dget event k = dget (shared_chat_metadata rq) k" if "k \<in> set attribution_keys"
  proof -
    have k: "k \<notin> set written_keys" "k \<noteq> ''queued_id''" "k \<notin> set header_keys" using apart(1,2) that by simp_all
    have p: "dhas ?p k \<longleftrightarrow> dhas (shared_chat_metadata rq) k" "dget ?p k = dget (shared_chat_metadata rq) k"
      using unwritten [OF assms(1) k(1), of sess b rq dp n] k(2) by simp_all
    show ?thesis unfolding event_def get p event_header [OF k(3)] by (simp add: dget_absent)
  qed
  show "dget event k = JNull" if "k \<in> set unset_keys"
  proof -
    have k: "k \<notin> set written_keys" "k \<noteq> ''queued_id''" "k \<notin> set header_keys" "k \<notin> set attribution_keys" using apart that by simp_all
    have "\<not> dhas (shared_chat_metadata rq) k" using shared_has k(4) by blast
    then have p: "dhas ?p k = False" using unwritten(1) [OF assms(1) k(1), of sess b rq dp n] k(2) by simp
    show ?thesis unfolding event_def get p event_header [OF k(3)] by simp
  qed
qed

text \<open>The fields that the live row and the rebuilt row share.\<close>

definition kept_keys :: "string list" where
  "kept_keys = [''queued_id'', ''prompt'', ''file_ids'', ''display_prompt'', ''purpose'', ''digest_job_id'', ''digest_detail'',
     ''source_session_id'', ''target_session_id'', ''chat_references'', ''team_references'', ''cross_chat_envelope_id'',
     ''cross_chat_exchange_id'', ''cross_chat_exchange_leg_id'', ''cross_chat_exchange_status'', ''secure_peer_envelope_id'',
     ''secure_peer_route_snapshots'', ''cross_chat_obligation_ids'', ''cross_chat_exchange_ids'', ''client_capabilities'']"

lemma payload_values:
  fixes sess b rq e dp n
  defines "d \<equiv> payload_fields sess b rq e dp n"
  shows "dget d ''request_prompt'' = JStr (rq_prompt rq)" "dget d ''purpose'' = opt_str (rq_purpose rq)"
    "dget d ''chat_references'' = lineage_json (rq_chat_references rq)" "dget d ''position'' = JInt (int n)"
    "dget d ''provider_cross_chat_route_snapshot'' = lineage_json (qe_routes e)"
    "dget d ''secure_peer_route_snapshots'' = lineage_json (qe_peer_snapshots e)"
    "dget d ''exchange_id'' = dget d ''cross_chat_exchange_id''" "dget d ''exchange_leg_id'' = dget d ''cross_chat_exchange_leg_id''"
    "dget d ''cross_chat_exchange_status'' = JBool (rq_cross_chat_exchange_status rq)"
  by (simp_all add: d_def payload_fields_def admitted_fields_def)

lemma listed_values: "list_all (\<lambda>k. \<exists>vs. dget (payload_fields sess b rq e dp n) k = JArr vs) listed_keys"
  by (simp add: listed_keys_def payload_fields_def admitted_fields_def strs_json_def lineage_json_def)

lemma item_fields: "distinct (map fst ([(lit ''prompt'', JStr (rq_prompt rq)), (lit ''backend'', opt_str (rq_backend rq))] @ admitted_fields rq e
       @ [(lit ''created_at'', JStr (qe_created_at e)), (lit ''_durable'', JBool False)]))" (is "distinct (map fst ?d)")
proof -
  have "map fst ?d = map lit ([''prompt'', ''backend''] @ filter (\<lambda>k. k \<notin> {''backend'', ''prompt'', ''request_prompt'', ''position'', ''exchange_id'',
      ''exchange_leg_id'', ''provider_cross_chat_grant_admission_id''}) payload_keys @ [''created_at'', ''_durable''])"
    by (simp add: admitted_fields_def payload_keys_def)
  then show ?thesis by (rule distinct_keys) (simp add: payload_keys_def)
qed

text \<open>The rebuilt row exists: nothing in the event makes the scan raise.\<close>

lemma py_or_JArr [simp]: "py_list (py_or (JArr vs) (JArr [])) = Inr vs"
  by (simp add: py_or_def)

lemma listed: "dget event k = JArr vs \<Longrightarrow> list_field event k = Inr (JArr vs)"
  by (simp add: list_field_def)

text \<open>An event from which a row can be rebuilt.\<close>

definition rebuildable :: "jdict \<Rightarrow> bool" where
  "rebuildable event \<longleftrightarrow> dget event ''type'' \<noteq> js ''turn_queue_run_now'' \<and> hashable (dget event ''purpose'')
     \<and> (\<exists>refs. dget event ''chat_references'' = lineage_json refs) \<and> list_all (\<lambda>k. \<exists>vs. dget event k = JArr vs) listed_keys
     \<and> (\<exists>rs. dget event ''provider_cross_chat_route_snapshot'' = lineage_json rs \<and> kinds_hashable rs)
     \<and> (dget event ''display_file_ids'' = JNull \<or> (\<exists>vs. dget event ''display_file_ids'' = JArr vs))
     \<and> (\<exists>peers. normalized_secure_peer_route_snapshots (dget event ''secure_peer_route_snapshots'') = Inr peers)
     \<and> (dget event ''position'' = JNull \<or> (\<exists>i. dget event ''position'' = JInt i))"

lemma rebuildable_routes:
  assumes "dget event ''chat_references'' = lineage_json refs" "dget event ''provider_cross_chat_route_snapshot'' = lineage_json rs" "kinds_hashable rs"
  obtains routes where "event_routes env event = Inr routes"
proof -
  obtain r1 where r1: "normalized_provider_cross_chat_route_snapshot env (lineage_json rs) = Inr r1" "kinds_hashable r1"
    using normalized_again [OF assms(3)] .
  obtain r2 where r2: "normalized_provider_cross_chat_route_snapshot env (lineage_json r1) = Inr r2" using normalized_again [OF r1(2)] .
  have refs: "py_list (py_or (lineage_json refs) (JArr [])) = Inr (map JObj refs)" by (simp add: lineage_json_def)
  have "\<not> list_ex (\<lambda>x. case x of JObj _ \<Rightarrow> False | _ \<Rightarrow> True) (map JObj refs)" by (simp add: list_ex_iff)
  then obtain r3 where "provider_cross_chat_route_snapshot_for_hints env (lineage_json r1) (map JObj refs) = Inr r3"
    by (simp add: provider_cross_chat_route_snapshot_for_hints_def r2 Let_def)
  then show ?thesis using that by (cases "dget event ''purpose'' = JNull") (auto simp: event_routes_def assms(1,2) r1 refs)
qed

lemma rebuilt_row:
  assumes "rebuildable event"
  obtains row where "queued_turn_from_event env event sess n = Inr row"
proof -
  obtain refs rs peers where e: "dget event ''type'' \<noteq> js ''turn_queue_run_now''" "hashable (dget event ''purpose'')"
      "dget event ''chat_references'' = lineage_json refs" "list_all (\<lambda>k. \<exists>vs. dget event k = JArr vs) listed_keys"
      "dget event ''provider_cross_chat_route_snapshot'' = lineage_json rs" "kinds_hashable rs"
      "dget event ''display_file_ids'' = JNull \<or> (\<exists>vs. dget event ''display_file_ids'' = JArr vs)"
      "normalized_secure_peer_route_snapshots (dget event ''secure_peer_route_snapshots'') = Inr peers"
      "dget event ''position'' = JNull \<or> (\<exists>i. dget event ''position'' = JInt i)"
    using assms unfolding rebuildable_def by blast
  obtain routes where routes: "event_routes env event = Inr routes" using rebuildable_routes [OF e(3,5,6)] .
  have lists: "\<exists>v. list_field event k = Inr v" if "k \<in> set listed_keys" for k using e(4) that listed by (auto simp: list_all_iff)
  obtain l1 l2 l3 l4 l5 l6 where l: "list_field event ''file_ids'' = Inr l1" "list_field event ''chat_references'' = Inr l2"
      "list_field event ''team_references'' = Inr l3" "list_field event ''cross_chat_obligation_ids'' = Inr l4"
      "list_field event ''cross_chat_exchange_ids'' = Inr l5" "list_field event ''client_capabilities'' = Inr l6"
    using lists by (simp add: listed_keys_def) metis
  obtain d where d: "(if dget event ''display_file_ids'' = JNull then Inr JNull else raised (list_field event ''display_file_ids'')) = Inr d"
    using e(7) listed [of event "''display_file_ids''"] by (auto simp: raised_def)
  have "\<exists>p. py_int (py_or (dget event ''position'') (JInt (int n))) = Inr p" using e(9) by (elim disjE exE) (simp_all add: py_or_def)
  then obtain p where p: "py_int (py_or (dget event ''position'') (JInt (int n))) = Inr p" ..
  show ?thesis using that e(1,2) routes l d p e(8)
    unfolding queued_turn_from_event_def event_lineage_def by (simp add: raised_def)
qed

lemma admission_rebuildable:
  assumes "entry_ready env e"
  shows "rebuildable (journal_event sid st ''turn_queued'' (queued_payload sess b rq e dp n))"
proof -
  note get = admission_fields [OF assms, where sid = sid and st = st and sess = sess and b = b and rq = rq and dp = dp and n = n]
  have keys: "list_all (\<lambda>k. k \<in> set payload_keys) (''purpose'' # ''provider_cross_chat_route_snapshot'' # ''secure_peer_route_snapshots''
      # ''position'' # ''chat_references'' # listed_keys)" by code_simp
  obtain v where "normalized_provider_cross_chat_route_snapshot env v = Inr (qe_routes e)" using assms by (auto simp: entry_ready_def)
  then have kinds: "kinds_hashable (qe_routes e)" by (rule normalized_kinds)
  obtain w where "normalized_secure_peer_route_snapshots w = Inr (lineage_json (qe_peer_snapshots e))" using assms by (auto simp: entry_ready_def)
  then have peers: "normalized_secure_peer_route_snapshots (lineage_json (qe_peer_snapshots e)) = Inr (lineage_json (qe_peer_snapshots e))"
    unfolding lineage_json_def by (rule peer_snapshots_again)
  have "hashable (opt_str (rq_purpose rq))" by (simp add: opt_str_def split: option.split)
  moreover have "list_all (\<lambda>k. \<exists>vs. dget (journal_event sid st ''turn_queued'' (queued_payload sess b rq e dp n)) k = JArr vs) listed_keys"
    using listed_values [of sess b rq e dp n] keys get(1) by (simp add: list_all_iff)
  ultimately show ?thesis
    using get(1) [of "''purpose''"] get(1) [of "''provider_cross_chat_route_snapshot''"] get(1) [of "''secure_peer_route_snapshots''"]
      get(1) [of "''position''"] get(1) [of "''chat_references''"] get(5) [of "''display_file_ids''"] get(3) keys kinds peers
    by (simp add: rebuildable_def payload_values unset_keys_def) blast
qed

lemma item_get:
  "k \<in> set kept_keys \<Longrightarrow> k \<noteq> ''queued_id'' \<Longrightarrow> k \<noteq> ''prompt'' \<Longrightarrow> dget (queue_item rq e) k = dget (payload_fields sess b rq e dp n) k"
  "dget (queue_item rq e) ''prompt'' = JStr (rq_prompt rq)"
proof -
  let ?d = "[(lit ''prompt'', JStr (rq_prompt rq)), (lit ''backend'', opt_str (rq_backend rq))] @ admitted_fields rq e
       @ [(lit ''created_at'', JStr (qe_created_at e)), (lit ''_durable'', JBool False)]"
  have get: "dget (queue_item rq e) k = dget ?d k" if "dhas ?d k" for k
    unfolding queue_item_def dget_dict_merge [OF item_fields] using that by simp
  show "dget (queue_item rq e) ''prompt'' = JStr (rq_prompt rq)" using get [of "''prompt''"] by simp
  let ?a = "admitted_fields rq e"
  have a: "map fst ?a = map lit (filter (\<lambda>k. k \<notin> {''backend'', ''prompt'', ''request_prompt'', ''position'', ''exchange_id'',
      ''exchange_leg_id'', ''provider_cross_chat_grant_admission_id''}) payload_keys)"
    by (simp add: admitted_fields_def payload_keys_def)
  have keys: "list_all (\<lambda>k. k = ''queued_id'' \<or> k = ''prompt'' \<or> k \<in> set payload_keys \<and> k \<notin> {''backend'', ''request_prompt'', ''position'', ''exchange_id'',
      ''exchange_leg_id'', ''provider_cross_chat_grant_admission_id''}) kept_keys" by code_simp
  show "dget (queue_item rq e) k = dget (payload_fields sess b rq e dp n) k" if k: "k \<in> set kept_keys" "k \<noteq> ''queued_id''" "k \<noteq> ''prompt''"
  proof -
    have k': "k \<in> set payload_keys" "k \<notin> {''backend'', ''request_prompt'', ''position'', ''exchange_id'',
      ''exchange_leg_id'', ''provider_cross_chat_grant_admission_id''}" using keys [unfolded list_all_iff, rule_format, OF k(1)] k(2,3) by simp_all
    then have has: "dhas ?a k" using k(3) by (simp add: dhas_keys [OF a])
    have ne: "''backend'' \<noteq> k" "''request_prompt'' \<noteq> k" "''prompt'' \<noteq> k" using k'(2) k(3) by auto
    have "dget (payload_fields sess b rq e dp n) k = dget ?a k" using ne has by (simp add: payload_fields_def dget_append)
    moreover have "dget ?d k = dget ?a k" using ne has by (simp add: dget_append)
    ultimately show ?thesis using get [of k] has by simp
  qed
qed

lemma item_attribution:
  assumes "entry_ready env e" "k = ''queued_id'' \<or> k \<in> set attribution_keys"
  shows "dget (queue_item rq e) k = dget ((lit ''queued_id'', JStr (qe_id e)) # shared_chat_metadata rq) k"
proof -
  let ?d = "[(lit ''prompt'', JStr (rq_prompt rq)), (lit ''backend'', opt_str (rq_backend rq))] @ admitted_fields rq e
       @ [(lit ''created_at'', JStr (qe_created_at e)), (lit ''_durable'', JBool False)]"
  have d: "map fst ?d = map lit ([''prompt'', ''backend''] @ filter (\<lambda>k. k \<notin> {''backend'', ''prompt'', ''request_prompt'', ''position'', ''exchange_id'',
      ''exchange_leg_id'', ''provider_cross_chat_grant_admission_id''}) payload_keys @ [''created_at'', ''_durable''])"
    by (simp add: admitted_fields_def payload_keys_def)
  have "list_all (\<lambda>k. k \<notin> set conversation_keys \<and> k \<noteq> ''provider_team_mail_route_snapshot'' \<and> k \<noteq> ''_async_body_verified''
      \<and> k \<notin> set ([''prompt'', ''backend''] @ payload_keys @ [''created_at'', ''_durable''])) (''queued_id'' # attribution_keys)" by code_simp
  then have k: "k \<notin> set conversation_keys" "k \<noteq> ''provider_team_mail_route_snapshot''" "k \<noteq> ''_async_body_verified''"
      "k \<notin> set ([''prompt'', ''backend''] @ payload_keys @ [''created_at'', ''_durable''])"
    using assms(2) by (auto simp only: list_all_iff set_simps insert_iff)
  have "\<not> dhas ?d k" unfolding dhas_keys [OF d] using k(4) by (simp del: filter.simps)
  moreover have "\<not> dhas (if qe_conversation e \<noteq> [] then [(lit ''_async_body_verified'', JBool True)] else []) k" using k(3) by (simp add: eq_commute)
  moreover have "\<not> dhas ((lit ''provider_team_mail_route_snapshot'', lineage_json (qe_mail_routes e)) # qe_conversation e) k"
    using conversation_has [OF assms(1)] k(1,2) by (simp add: eq_commute) blast
  ultimately show ?thesis unfolding queue_item_def by (simp only: dget_dict_merge_other not_False_eq_True)
qed

lemma rebuilt_fields:
  fixes env e sid st sess b rq dp position
  assumes "entry_ready env e"
  defines "event \<equiv> journal_event sid st ''turn_queued'' (queued_payload sess b rq e dp position)"
  defines "d \<equiv> payload_fields sess b rq e dp position"
  assumes row: "queued_turn_from_event env event sess' n = Inr row"
  shows "list_all (\<lambda>k. dget row k = dget d k) (removeAll ''queued_id'' (removeAll ''prompt'' kept_keys))"
    "dget row ''prompt'' = JStr (rq_prompt rq)" "dget row ''queued_id'' = JStr (qe_id e)" "dget row ''_paused_after_stop'' = JBool False"
    "list_all (\<lambda>k. dget row k = dget (shared_chat_metadata rq) k) attribution_keys"
proof -
  note get = admission_fields [OF assms(1), where sid = sid and st = st and sess = sess and b = b and rq = rq and dp = dp and n = position, folded event_def d_def]
  show "dget row ''queued_id'' = JStr (qe_id e)" using queued_turn_id [OF row] get(2) by simp
  obtain lineage rp delivery routes fids display refs trefs peers obligations exchanges caps pos where
    r: "row = queued_row env event sess' lineage rp delivery routes fids display refs trefs peers obligations exchanges caps pos"
    "event_lineage env event = Inr (lineage, rp)" "list_field event ''file_ids'' = Inr fids" "list_field event ''chat_references'' = Inr refs"
    "list_field event ''team_references'' = Inr trefs" "normalized_secure_peer_route_snapshots (dget event ''secure_peer_route_snapshots'') = Inr peers"
    "list_field event ''cross_chat_obligation_ids'' = Inr obligations" "list_field event ''cross_chat_exchange_ids'' = Inr exchanges"
    "list_field event ''client_capabilities'' = Inr caps" by (rule queued_turn_shape [OF row])
  note fields = queued_row_fields [where env = env and event = event and sess = sess' and lineage = lineage and rp = rp and delivery = delivery
      and routes = routes and fids = fids and display = display and refs = refs and trefs = trefs and peers = peers and obligations = obligations
      and exchanges = exchanges and caps = caps and pos = pos, folded r(1)]
  have copied: "list_all (\<lambda>k. dget row k = dget event k) copied_keys" unfolding r(1) by (rule queued_row_copied)
  show "dget row ''_paused_after_stop'' = JBool False" by (rule fields)
  have pk: "list_all (\<lambda>k. k \<in> set payload_keys) (''request_prompt'' # ''secure_peer_route_snapshots'' # ''exchange_id'' # ''exchange_leg_id''
      # removeAll ''queued_id'' (removeAll ''prompt'' kept_keys))" by code_simp
  have ak: "list_all (\<lambda>k. k \<in> set copied_keys) attribution_keys" by code_simp
  show "list_all (\<lambda>k. dget row k = dget (shared_chat_metadata rq) k) attribution_keys"
    using copied ak get(4) by (simp add: list_all_iff)
  have rp: "dget event ''request_prompt'' = JStr (rq_prompt rq)" using get(1) [of "''request_prompt''"] pk by (simp add: d_def payload_values)
  have "rp = JStr (rq_prompt rq)" using r(2) get(3) rp by (auto simp: event_lineage_def)
  then show "dget row ''prompt'' = JStr (rq_prompt rq)" using fields(1) by (simp add: first_set_def)
  have payload: "dget event k = dget d k" if "k \<in> set (removeAll ''queued_id'' (removeAll ''prompt'' kept_keys))" for k
    using get(1) pk that by (simp add: list_all_iff)
  show "list_all (\<lambda>k. dget row k = dget d k) (removeAll ''queued_id'' (removeAll ''prompt'' kept_keys))"
  proof -
    let ?keys = "removeAll ''queued_id'' (removeAll ''prompt'' kept_keys)"
    let ?links = "[''cross_chat_exchange_id'', ''cross_chat_exchange_leg_id'', ''cross_chat_exchange_status'', ''secure_peer_route_snapshots'']"
    have kinds: "list_all (\<lambda>k. k \<in> set copied_keys \<or> k \<in> set listed_keys \<or> k \<in> set ?links) ?keys"
      "list_all (\<lambda>k. k \<in> set ?keys) (listed_keys @ ?links)" by code_simp+
    have "list_all (\<lambda>k. list_field event k = Inr (dget row k)) listed_keys" by (simp add: listed_keys_def r(3-5,7-9) fields)
    then have lists: "dget row k = dget d k" if k: "k \<in> set listed_keys" for k
    proof -
      obtain vs where vs: "dget d k = JArr vs" using listed_values [of sess b rq e dp position] k by (auto simp: d_def list_all_iff)
      have ev: "dget event k = JArr vs" using payload [of k] kinds(2) k vs by (simp add: list_all_iff)
      show ?thesis using listed [OF ev] vs k \<open>list_all (\<lambda>k. list_field event k = Inr (dget row k)) listed_keys\<close> by (simp add: list_all_iff)
    qed
    have e: "list_all (\<lambda>k. dget event k = dget d k) (''exchange_id'' # ''exchange_leg_id'' # ?links)"
      using get(1) pk kinds(2) by (simp add: list_all_iff)
    have same: "py_or v v = v" for v by (simp add: py_or_def)
    obtain w where "normalized_secure_peer_route_snapshots w = Inr (lineage_json (qe_peer_snapshots e))" using assms(1) by (auto simp: entry_ready_def)
    then have "normalized_secure_peer_route_snapshots (lineage_json (qe_peer_snapshots e)) = Inr (lineage_json (qe_peer_snapshots e))"
      unfolding lineage_json_def by (rule peer_snapshots_again)
    then have "list_all (\<lambda>k. dget row k = dget d k) ?links" using e r(6) fields same by (simp add: d_def payload_values)
    then show ?thesis using kinds(1) copied lists payload unfolding list_all_iff by metis
  qed
qed

text \<open>C40. A queued message survives a restart. The event that admits it can always be turned back into a row, and the
  rebuilt row has the prompt, attachments, references, attribution, delivery identifiers and capabilities of the
  row that the server held in memory; it is not held back.\<close>

theorem admitted_row_rebuilt:
  assumes "entry_ready env e"
  shows "\<exists>row. queued_turn_from_event env (journal_event sid st ''turn_queued'' (queued_payload sess b rq e dp position)) sess' n = Inr row
    \<and> list_all (\<lambda>k. dget row k = dget (queue_item rq e) k) (kept_keys @ attribution_keys) \<and> dget row ''_paused_after_stop'' = JBool False"
proof -
  obtain row where row: "queued_turn_from_event env (journal_event sid st ''turn_queued'' (queued_payload sess b rq e dp position)) sess' n = Inr row"
    using rebuilt_row [OF admission_rebuildable [OF assms]] .
  note fields = rebuilt_fields [OF assms row]
  have "dget row k = dget (queue_item rq e) k" if k: "k \<in> set kept_keys" for k
  proof (cases "k = ''queued_id'' \<or> k = ''prompt''")
    case True
    then show ?thesis using fields(2,3) item_get(2) item_attribution [OF assms, of "''queued_id''"] by auto
  next
    case False
    then show ?thesis using fields(1) k item_get(1) [of k rq e sess b dp position] by (simp add: list_all_iff)
  qed
  moreover have "dget row k = dget (queue_item rq e) k" if k: "k \<in> set attribution_keys" for k
  proof -
    have "''queued_id'' \<noteq> k" using keys_apart(2) k by (auto simp: list_all_iff)
    then show ?thesis using fields(5) k item_attribution [OF assms, of k] by (simp add: list_all_iff)
  qed
  ultimately show ?thesis using row fields(4) by (auto simp: list_all_iff)
qed

definition sample_request :: turn_request where
  "sample_request = \<lparr>rq_prompt = lit ''Hello'', rq_shared_chat_id = None, rq_shared_chat_request_id = None, rq_file_ids = [lit ''file_1''],
     rq_backend = None, rq_model = None, rq_effort = None, rq_skill_selection = None, rq_display_prompt = None, rq_purpose = None,
     rq_digest_job_id = None, rq_digest_detail = None, rq_source_session_id = None, rq_target_session_id = None,
     rq_client_capabilities = [], rq_chat_references = [], rq_team_references = [], rq_cross_chat_envelope_id = None,
     rq_cross_chat_exchange_id = None, rq_cross_chat_exchange_leg_id = None, rq_cross_chat_exchange_status = False,
     rq_secure_peer_envelope_id = None\<rparr>"

definition sample_entry :: queue_entry where
  "sample_entry = \<lparr>qe_id = lit ''queued_1'', qe_mail_routes = [], qe_conversation = [], qe_peer_snapshots = [], qe_obligation_ids = [],
     qe_exchange_ids = [], qe_routes = [], qe_created_at = [], qe_mail_admission = JNull, qe_route_admission = JNull, qe_reciprocal = None\<rparr>"

lemma sample_entry_ready: "entry_ready sample_env sample_entry"
proof -
  have "strip (lit ''queued_1'') \<noteq> []" by (simp add: strip_Nil_iff lit_def is_space_def)
  then show ?thesis using absent_fields(5) [of sample_env] absent_fields(8) by (auto simp: entry_ready_def sample_entry_def lineage_json_def)
qed

theorem admitted_row_rebuilt_witness:
  "\<exists>row. queued_turn_from_event sample_env (journal_event (lit ''s'') (1, [], []) ''turn_queued''
      (queued_payload [] (lit ''claude'') sample_request sample_entry (lit ''Hello'') 1)) [] 1 = Inr row
    \<and> dget row ''prompt'' = js ''Hello'' \<and> dget row ''file_ids'' = JArr [js ''file_1'']"
proof -
  have "list_all (\<lambda>k. k \<in> set kept_keys) [''prompt'', ''file_ids'']" by code_simp
  moreover have "dget (queue_item sample_request sample_entry) ''prompt'' = js ''Hello''"
    using item_get(2) [of sample_request sample_entry] by (simp add: sample_request_def)
  moreover have "dget (queue_item sample_request sample_entry) ''file_ids'' = JArr [js ''file_1'']"
    using item_get(1) [of "''file_ids''" sample_request sample_entry "[]" "[]" "[]" 0] calculation(1)
    by (simp add: payload_fields_def admitted_fields_def sample_request_def strs_json_def)
  ultimately show ?thesis
    using admitted_row_rebuilt [OF sample_entry_ready, of "lit ''s''" "(1, [], [])" "[]" "lit ''claude''" sample_request "lit ''Hello''" 1 "[]" 1]
    by (auto simp: list_all_iff)
qed

end
