(* ===== verification/Queue_Agreement.thy ===== *)
theory Queue_Agreement
  imports Queue_Journal "HOL-Library.Multiset"
begin

text \<open>
  The live queue of a chat against the queue that a restart would rebuild from its journal: after every operation,
  in every outcome, no waiting turn is lost or doubled, and the order is the same unless a turn was put back in
  front after its dispatch failed.
\<close>

section \<open>Replaying a journal\<close>

fun replay_journal :: "queue_env \<Rightarrow> jdict \<Rightarrow> jdict list \<Rightarrow> queue_scan \<Rightarrow> server_error + queue_scan" where
  "replay_journal env sess [] st = Inr st"
| "replay_journal env sess (event # events) st = ebind (replay_event env sess event st) (replay_journal env sess events)"

lemma replay_journal_append:
  "replay_journal env sess (es @ fs) st = ebind (replay_journal env sess es st) (replay_journal env sess fs)"
  by (induction es arbitrary: st) (auto simp: ebind_def split: sum.split)


section \<open>Single events\<close>

definition event_of :: "queue_env \<Rightarrow> jdict \<Rightarrow> string \<Rightarrow> pystr \<Rightarrow> bool" where
  "event_of env event kind q \<longleftrightarrow> dget event ''type'' = js kind \<and> row_id env event = q"

lemma event_ofD: "event_of env event kind q \<Longrightarrow> qstr env (dget event ''type'') = lit kind" "event_of env event kind q \<Longrightarrow> qstr env (dget event ''queued_id'') = q"
  by (simp_all add: event_of_def row_id_def)

lemma not_superseding: "event_of env event kind q \<Longrightarrow> kind \<noteq> ''turn_queue_run_now'' \<Longrightarrow> superseded_ids env event = Inr []"
  by (simp add: superseded_ids_def event_ofD)

lemma replay_removed:
  assumes "event_of env event kind q" "kind = ''turn_started'' \<or> kind = ''turn_unqueued''" "q \<noteq> []"
  shows "replay_event env sess event st = Inr (drop_row q st)"
  using assms(2,3) not_superseding [OF assms(1)] by (auto simp: replay_event_def event_ofD [OF assms(1)] Let_def)

lemma replay_queued:
  assumes "event_of env event ''turn_queued'' q" "q \<noteq> []" "rebuildable event" "q \<notin> set (row_order st)"
  obtains row where "replay_event env sess event st = Inr ((put_row q row st)\<lparr>row_order := row_order st @ [q]\<rparr>)"
    "dget row ''queued_id'' = JStr q"
proof -
  obtain row where row: "queued_turn_from_event env event sess (length (row_order st) + 1) = Inr row" using rebuilt_row [OF assms(3)] .
  have "replay_event env sess event st = scan_queued env sess event q st"
    using not_superseding [OF assms(1)] assms(2) by (simp add: replay_event_def event_ofD [OF assms(1)] Let_def)
  then show ?thesis using that [of row] assms(4) queued_turn_id [OF row] row by (simp add: scan_queued_def event_ofD [OF assms(1)] Let_def)
qed

lemma replay_paused:
  assumes "dget event ''type'' = js ''turn_queue_paused''" "dget event ''queued_ids'' = JArr vs"
  shows "replay_event env sess event st = Inr (foldl (pause_row env) st vs)"
proof -
  have "event_of env event ''turn_queue_paused'' (row_id env event)" using assms(1) by (simp add: event_of_def)
  then show ?thesis using not_superseding assms by (simp add: replay_event_def Let_def raised_def)
qed

text \<open>A reordering that lists waiting turns in ascending positions puts them first.\<close>

lemma reorder_items_all:
  assumes "\<And>q. q \<in> set qs \<Longrightarrow> map_of (pending_rows st) q \<noteq> None" "length ps = length qs"
  shows "reorder_items st (map (\<lambda>(q, p). JObj [(lit ''queued_id'', JStr q), (lit ''position'', JInt p)]) (zip qs ps)) = Some (zip qs ps)"
  using assms
proof (induction qs arbitrary: ps)
  case (Cons q qs)
  then obtain p ps' where ps: "ps = p # ps'" "length ps' = length qs" by (cases ps) auto
  have "py_int (py_or (JInt p) (JInt 0)) = Inr p" by (simp add: py_or_def)
  then show ?case using Cons.IH [OF _ ps(2)] Cons.prems(1) by (simp add: ps)
qed simp

lemma replay_reordered:
  assumes "dget event ''type'' = js ''turn_queue_reordered''"
    and "dget event ''positions'' = JArr (map (\<lambda>(q, p). JObj [(lit ''queued_id'', JStr q), (lit ''position'', JInt p)]) (zip qs ps))"
    and "length ps = length qs" "sorted ps" "set qs \<subseteq> row_ids st"
  shows "replay_event env sess event st = Inr (st\<lparr>row_order := qs @ filter (\<lambda>q. q \<notin> set qs) (row_order st)\<rparr>)"
proof -
  have items: "reorder_items st (map (\<lambda>(q, p). JObj [(lit ''queued_id'', JStr q), (lit ''position'', JInt p)]) (zip qs ps)) = Some (zip qs ps)"
  proof (intro reorder_items_all assms(3))
    show "map_of (pending_rows st) q \<noteq> None" if "q \<in> set qs" for q using assms(5) that row_ids_iff by blast
  qed
  have "sort_key snd (zip qs ps) = zip qs ps" using assms(3,4) by (intro sort_key_id_if_sorted) simp
  moreover have "map fst (zip qs ps) = qs" using assms(3) by simp
  ultimately have "scan_reordered event st = st\<lparr>row_order := qs @ filter (\<lambda>q. q \<notin> set qs) (row_order st)\<rparr>"
    by (simp add: scan_reordered_def assms(2) items Let_def)
  moreover have "superseded_ids env event = Inr []" using assms(1) by (intro not_superseding [of env event "''turn_queue_reordered''" "row_id env event"]) (simp_all add: event_of_def)
  ultimately show ?thesis by (simp add: replay_event_def assms(1) Let_def)
qed

section \<open>Agreement\<close>

abbreviation turn_names :: "queue_env \<Rightarrow> turn_state \<Rightarrow> pystr list" where
  "turn_names env s \<equiv> map (row_id env) (turn_rows s)"

definition replays :: "queue_env \<Rightarrow> jdict \<Rightarrow> turn_state \<Rightarrow> queue_scan \<Rightarrow> bool" where
  "replays env sess s st \<longleftrightarrow> replay_journal env sess (journal s) initial_scan = Inr st \<and> rows_named st \<and> rows_ordered st"

text \<open>\<open>held\<close>: the turns that left the queue and have not started. \<open>exact\<close>: the order is also the same.\<close>

definition matches :: "queue_env \<Rightarrow> pystr set \<Rightarrow> bool \<Rightarrow> turn_state \<Rightarrow> queue_scan \<Rightarrow> bool" where
  "matches env held exact s st \<longleftrightarrow> distinct (turn_names env s) \<and> set (turn_names env s) \<inter> held = {}
     \<and> set (row_order st) = set (turn_names env s) \<union> held \<and> list_all (\<lambda>q. strip q \<noteq> []) (row_order st)
     \<and> pred_option (\<lambda>p. row_id env p \<in> held) (run_now_row s)
     \<and> (exact \<longrightarrow> filter (\<lambda>q. q \<notin> held) (row_order st) = turn_names env s)"

definition agrees :: "queue_env \<Rightarrow> jdict \<Rightarrow> pystr set \<Rightarrow> bool \<Rightarrow> turn_state \<Rightarrow> bool" where
  "agrees env sess held exact s \<longleftrightarrow> (\<exists>st. replays env sess s st \<and> matches env held exact s st)"

lemma agreesE:
  assumes "agrees env sess held exact s"
  obtains st where "replays env sess s st" "matches env held exact s st"
  using assms unfolding agrees_def by blast

lemma agreesI: "replays env sess s st \<Longrightarrow> matches env held exact s st \<Longrightarrow> agrees env sess held exact s"
  unfolding agrees_def by blast

lemma replays_ordered: "replays env sess s st \<Longrightarrow> distinct (row_order st)" "replays env sess s st \<Longrightarrow> set (row_order st) = row_ids st"
  using rows_orderedD by (auto simp: replays_def)

lemma agrees_cong:
  assumes "agrees env sess held exact s" "turn_names env s' = turn_names env s" "journal s' = journal s"
    "map_option (row_id env) (run_now_row s') = map_option (row_id env) (run_now_row s)"
  shows "agrees env sess held exact s'"
proof -
  have "pred_option (\<lambda>p. row_id env p \<in> held) (run_now_row s') = pred_option (\<lambda>p. row_id env p \<in> held) (run_now_row s)"
    using assms(4) by (cases "run_now_row s"; cases "run_now_row s'") auto
  then show ?thesis using assms(1-3) by (simp add: agrees_def replays_def matches_def)
qed

lemma replays_record:
  assumes "replays env sess s st" "replay_event env sess event st = Inr st'" "journal s' = journal s @ [event]" "reorders_once env event"
  shows "replays env sess s' st'"
  using assms replay_event_step [OF assms(2)] by (simp add: replays_def replay_journal_append steps_to_def)

lemma keep_rows_simps [simp]: "turn_rows (keep_rows xs s) = xs" "journal (keep_rows xs s) = journal s" "run_now_row (keep_rows xs s) = run_now_row s"
  by (simp_all add: keep_rows_def turn_rows_def)

lemma record_event_simps [simp]: "turn_rows (record_event e s) = turn_rows s" "journal (record_event e s) = journal s @ [e]"
  "run_now_row (record_event e s) = run_now_row s" "queued_rows (record_event e s) = queued_rows s"
  by (simp_all add: record_event_def turn_rows_def)

lemma set_rows_simps [simp]: "turn_rows (s\<lparr>queued_rows := Some xs\<rparr>) = xs" "turn_rows (s\<lparr>queued_rows := None\<rparr>) = []"
  "turn_rows (s\<lparr>run_now_row := r\<rparr>) = turn_rows s" "turn_rows (s\<lparr>run_now_results := rs\<rparr>) = turn_rows s" "turn_rows (s\<lparr>journal := es\<rparr>) = turn_rows s"
  by (simp_all add: turn_rows_def)

lemma row_id_dset [simp]: "k \<noteq> ''queued_id'' \<Longrightarrow> row_id env (dset d k v) = row_id env d"
  "k \<noteq> ''queued_id'' \<Longrightarrow> row_id env (dpop d k) = row_id env d"
  by (simp_all add: row_id_def)

text \<open>The keys of a payload decide what its event says.\<close>

lemma list_fields_keys: "list_fields item ks = Inr d \<Longrightarrow> map fst d = map lit ks"
  by (induction ks arbitrary: d) (auto simp: ebind_Inr_iff)

lemma same_fields_keys: "map fst (same_fields item ks) = map lit ks"
  by (simp add: same_fields_def)

lemma journal_event_of:
  assumes "map fst payload = map lit ks" "distinct ks" "''type'' \<notin> set ks" "''queued_id'' \<in> set ks"
    "row_id env payload = q"
  shows "event_of env (journal_event sid st kind payload) kind q"
proof -
  note get = journal_event_get [OF distinct_keys [OF assms(1,2)], of sid st kind]
  show ?thesis using assms(3-5) by (simp add: event_of_def row_id_def get dhas_keys [OF assms(1)])
qed

lemma journal_event_field:
  assumes "map fst payload = map lit ks" "distinct ks"
  shows "k \<in> set ks \<Longrightarrow> dget (journal_event sid st kind payload) k = dget payload k"
    "''type'' \<notin> set ks \<Longrightarrow> dget (journal_event sid st kind payload) ''type'' = js kind"
  using journal_event_get [OF distinct_keys [OF assms], of sid st kind] by (simp_all add: dhas_keys [OF assms(1)])

section \<open>Operations\<close>

lemma removed_matches:
  assumes "matches env held exact s st" "distinct (row_order st)" "q \<in> set (turn_names env s)"
    and "turn_names env s' = remove1 q (turn_names env s)" "run_now_row s' = run_now_row s"
  shows "matches env held exact s' (drop_row q st)"
  using assms by (auto simp: matches_def filter_remove1 list_all_iff)

lemma started_matches:
  assumes "matches env held exact s st" "distinct (row_order st)" "q \<in> held"
    and "turn_names env s' = turn_names env s" "run_now_row s' = run_now_row s" "pred_option (\<lambda>p. row_id env p \<noteq> q) (run_now_row s)"
  shows "matches env (held - {q}) exact s' (drop_row q st)"
proof -
  have "filter (\<lambda>x. x \<notin> held - {q}) (remove1 q (row_order st)) = filter (\<lambda>x. x \<notin> held) (row_order st)"
    using assms(2,3) by (simp add: distinct_remove1_removeAll removeAll_filter_not_eq) (rule filter_cong; auto)
  then show ?thesis using assms by (cases "run_now_row s") (auto simp: matches_def list_all_iff)
qed

subsection \<open>Admission\<close>

lemma queued_matches:
  assumes "matches env held exact s st" "distinct (row_order st)" "q \<notin> set (turn_names env s) \<union> held" "strip q \<noteq> []"
    and "turn_names env s' = turn_names env s @ [q]" "run_now_row s' = run_now_row s"
  shows "matches env held exact s' ((put_row q row st)\<lparr>row_order := row_order st @ [q]\<rparr>)"
  using assms by (auto simp: matches_def list_all_iff)

lemma item_id: "entry_ready env e \<Longrightarrow> row_id env (queue_item rq e) = qe_id e"
  using item_attribution [of env e "''queued_id''" rq] by (simp add: row_id_def)

lemma admission_event_of: "entry_ready env e \<Longrightarrow> event_of env (journal_event sid st ''turn_queued'' (queued_payload sess b rq e dp n)) ''turn_queued'' (qe_id e)"
  using admission_fields(2,3) [of env e] by (simp add: event_of_def row_id_def)

lemma plain_event: "event_of env event kind q \<Longrightarrow> kind \<noteq> ''turn_queue_reordered'' \<Longrightarrow> reorders_once env event"
  by (simp add: reorders_once_def event_ofD)

lemma removal_agrees:
  assumes "agrees env sess held exact s" "event_of env event ''turn_unqueued'' q" "q \<in> set (turn_names env s)"
    and "turn_names env s' = remove1 q (turn_names env s)" "run_now_row s' = run_now_row s" "journal s' = journal s @ [event]"
  shows "agrees env sess held exact s'"
proof -
  obtain st where st: "replays env sess s st" "matches env held exact s st" using agreesE [OF assms(1)] .
  have "strip q \<noteq> []" using st(2) assms(3) by (auto simp: matches_def list_all_iff)
  then have "q \<noteq> []" by (auto simp: strip_def lstrip_def rstrip_def)
  then have "replay_event env sess event st = Inr (drop_row q st)" using replay_removed [OF assms(2)] by simp
  from replays_record [OF st(1) this assms(6)] plain_event [OF assms(2)] removed_matches [OF st(2) replays_ordered(1) [OF st(1)] assms(3,4,5)]
  show ?thesis using agreesI by simp
qed

definition admitted_state :: "pystr \<Rightarrow> jdict \<Rightarrow> pystr \<Rightarrow> turn_request \<Rightarrow> queue_entry \<Rightarrow> pystr \<Rightarrow> stamp \<Rightarrow> turn_state \<Rightarrow> turn_state" where
  "admitted_state sid sess b rq e dp st s =
    mark_durable (record_event (journal_event sid st ''turn_queued'' (queued_payload sess b rq e dp (length (turn_rows s) + 1)))
      (s\<lparr>queued_rows := Some (turn_rows s @ [queue_item rq e])\<rparr>))"

lemma admitted_state_simps [simp]:
  "turn_rows (admitted_state sid sess b rq e dp st s) = turn_rows s @ [dset (queue_item rq e) ''_durable'' (JBool True)]"
  "journal (admitted_state sid sess b rq e dp st s) = journal s @ [journal_event sid st ''turn_queued'' (queued_payload sess b rq e dp (length (turn_rows s) + 1))]"
  "run_now_row (admitted_state sid sess b rq e dp st s) = run_now_row s"
  by (simp_all add: admitted_state_def mark_durable_def)

lemma admitted_agrees:
  assumes "agrees env sess held exact s" "entry_ready env e" "qe_id e \<notin> set (turn_names env s) \<union> held"
  shows "agrees env sess held exact (admitted_state sid chat b rq e dp st s)"
proof -
  let ?s' = "admitted_state sid chat b rq e dp st s"
  obtain sc where sc: "replays env sess s sc" "matches env held exact s sc" using agreesE [OF assms(1)] .
  have id: "strip (qe_id e) \<noteq> []" "qe_id e \<noteq> []" using assms(2) by (auto simp: entry_ready_def strip_def lstrip_def rstrip_def)
  have new: "qe_id e \<notin> set (row_order sc)" using sc(2) assms(3) by (simp add: matches_def)
  note ev = admission_event_of [OF assms(2), of sid st chat b rq dp "length (turn_rows s) + 1"]
  obtain row where row: "replay_event env sess (journal_event sid st ''turn_queued'' (queued_payload chat b rq e dp (length (turn_rows s) + 1))) sc
      = Inr ((put_row (qe_id e) row sc)\<lparr>row_order := row_order sc @ [qe_id e]\<rparr>)"
    using replay_queued [OF ev id(2) admission_rebuildable [OF assms(2)] new] .
  have "replays env sess ?s' ((put_row (qe_id e) row sc)\<lparr>row_order := row_order sc @ [qe_id e]\<rparr>)"
    using plain_event [OF ev] by (intro replays_record [OF sc(1) row]) simp_all
  moreover have "matches env held exact ?s' ((put_row (qe_id e) row sc)\<lparr>row_order := row_order sc @ [qe_id e]\<rparr>)"
    using queued_matches [OF sc(2) replays_ordered(1) [OF sc(1)] assms(3) id(1)] item_id [OF assms(2)] by simp
  ultimately show ?thesis by (rule agreesI)
qed

lemma removed_payload_of: "event_of env (journal_event sid st ''turn_unqueued'' (removed_payload sid q rq m)) ''turn_unqueued'' q"
  by (rule journal_event_of [where ks = "[''queued_id'', ''purpose'', ''secure_peer_envelope_id'', ''target_session_id'', ''message'']"])
    (simp_all add: removed_payload_def row_id_def)

lemma published_states:
  assumes "published sid rq e out n a = (r, s')"
  shows "s' = a \<or> (\<exists>err. peer_bound sid rq e out a = (err, s'))"
proof (cases "en_settle out")
  case (Inr u)
  obtain p a' where p: "peer_bound sid rq e out a = (p, a')" by (cases "peer_bound sid rq e out a")
  have "s' = a'" using assms unfolding published_def Inr p by (cases p; cases "en_grants out") simp_all
  then show ?thesis using p by blast
qed (use assms in \<open>simp add: published_def\<close>)

lemma peer_bound_states:
  assumes "peer_bound sid rq e out a = (r, s')"
  shows "s' = a \<or> (\<exists>st m. s' = drop_provisional (record_event (journal_event sid st ''turn_unqueued'' (removed_payload sid (qe_id e) rq m)) a))"
    (is "_ \<or> (\<exists>st m. s' = ?gone st m)")
proof (cases "rq_purpose rq \<noteq> Some (lit ''secure_peer_handoff_delivery'')")
  case False
  have "\<exists>m. \<forall>st. en_unqueue out = Inr st \<longrightarrow> s' = a \<or> s' = ?gone st m"
  proof (cases "en_peer out")
    case (Inl p)
    obtain err b where p: "p = (err, b)" by (cases p)
    show ?thesis using assms False Inl p by (cases b) (auto simp: peer_bound_def)
  next
    case (Inr b)
    then show ?thesis using assms False by (cases b) (auto simp: peer_bound_def)
  qed
  moreover have "s' = a" if "en_unqueue out = Inl err" for err
  proof (cases "en_peer out")
    case (Inl p)
    obtain err b where p: "p = (err, b)" by (cases p)
    show ?thesis using assms False Inl p that by (cases b) (simp_all add: peer_bound_def)
  next
    case (Inr b)
    then show ?thesis using assms False that by (cases b) (simp_all add: peer_bound_def)
  qed
  ultimately show ?thesis by (cases "en_unqueue out") blast+
qed (use assms in \<open>simp add: peer_bound_def\<close>)

text \<open>An admission ends in one of three states: as before, admitted, or admitted and removed.\<close>

lemma enqueue_states:
  assumes "enqueue_turn sid sess b rq e dp out s = (r, s')"
  obtains "turn_rows s' = turn_rows s" "journal s' = journal s" "run_now_row s' = run_now_row s"
  | st where "s' = admitted_state sid sess b rq e dp st s"
  | st st2 m where "turn_rows s' = turn_rows s" "run_now_row s' = run_now_row s"
    "journal s' = journal (admitted_state sid sess b rq e dp st s) @ [journal_event sid st2 ''turn_unqueued'' (removed_payload sid (qe_id e) rq m)]"
proof -
  let ?s = "s\<lparr>queued_rows := Some (turn_rows s @ [queue_item rq e])\<rparr>"
  have undo: "turn_rows (drop_provisional ?s) = turn_rows s" "journal (drop_provisional ?s) = journal s" "run_now_row (drop_provisional ?s) = run_now_row s"
    by (simp_all add: drop_provisional_def)
  have "s' = drop_provisional ?s \<or> (\<exists>st. published sid rq e out (length (turn_rows s) + 1) (admitted_state sid sess b rq e dp st s) = (r, s'))"
    using assms unfolding enqueue_turn_def Let_def set_rows_simps length_append_singleton admitted_state_def
    by (cases "rq_purpose rq = Some (lit ''cross_chat_handoff_delivery'')"; cases "en_bind out"; cases "en_append out") (auto split: if_splits bool.splits)
  then consider "s' = drop_provisional ?s" | st where "published sid rq e out (length (turn_rows s) + 1) (admitted_state sid sess b rq e dp st s) = (r, s')" by blast
  then show ?thesis
  proof cases
    case 1
    then show ?thesis using that(1) undo by simp
  next
    case (2 st)
    let ?a = "admitted_state sid sess b rq e dp st s"
    consider "s' = ?a" | st2 m where "s' = drop_provisional (record_event (journal_event sid st2 ''turn_unqueued'' (removed_payload sid (qe_id e) rq m)) ?a)"
      using published_states [OF 2] peer_bound_states by blast
    then show ?thesis using that(2,3) by cases (auto simp: drop_provisional_def)
  qed
qed

lemma enqueue_agrees:
  assumes "agrees env sess held exact s" "entry_ready env e" "qe_id e \<notin> set (turn_names env s) \<union> held"
    and "enqueue_turn sid chat b rq e dp out s = (r, s')"
  shows "agrees env sess held exact s'"
  using assms(4)
proof (cases rule: enqueue_states)
  case 1
  then show ?thesis by (intro agrees_cong [OF assms(1)]) simp_all
next
  case (2 st)
  then show ?thesis using admitted_agrees [OF assms(1-3)] by simp
next
  case (3 st st2 m)
  have "remove1 (qe_id e) (turn_names env s @ [qe_id e]) = turn_names env s" using assms(3) by (simp add: remove1_append)
  then show ?thesis using 3
    by (intro removal_agrees [OF admitted_agrees [OF assms(1-3), of sid chat b rq dp st] removed_payload_of]) (simp_all add: item_id [OF assms(2)])
qed

subsection \<open>Removal and reordering\<close>

lemma first_index_Some: "first_index P xs = Some i \<Longrightarrow> i < length xs \<and> P (xs ! i)"
  by (induction xs arbitrary: i) (auto split: if_splits)

lemma queued_index_Some:
  assumes "queued_index q items = Some i"
  shows "i < length items" "row_id env (items ! i) = q"
  using first_index_Some [OF assms [unfolded queued_index_def]] by (simp_all add: row_id_def)

lemma cut_is_remove1:
  assumes "distinct xs" "i < length xs"
  shows "take i xs @ drop (Suc i) xs = remove1 (xs ! i) xs"
proof -
  have "xs ! i \<notin> set (take i xs)" using assms by (metis distinct_take id_take_nth_drop distinct_append disjoint_iff list.set_intros(1))
  moreover have "xs = take i xs @ xs ! i # drop (Suc i) xs" using assms(2) by (rule id_take_nth_drop)
  ultimately show ?thesis by (metis remove1_append remove1.simps(2))
qed

lemma unqueue_states:
  assumes "unqueue_turn env sid chat b blocker q appended s = (r, s')"
  obtains "turn_rows s' = turn_rows s" "journal s' = journal s" "run_now_row s' = run_now_row s"
  | i st payload sess where "queued_index q (turn_rows s) = Some i" "unqueued_payload sess b q (turn_rows s ! i) (length (turn_rows s') ) = Inr payload"
    "turn_rows s' = take i (turn_rows s) @ drop (Suc i) (turn_rows s)" "run_now_row s' = run_now_row s"
    "journal s' = journal s @ [journal_event sid st ''turn_unqueued'' payload]"
proof (cases chat)
  case None
  then show ?thesis using assms that(1) by (simp add: unqueue_turn_def)
next
  case (Some sess)
  show ?thesis
  proof (cases "blocker = None \<and> (\<exists>u. reject_promoted_queue_mutation env s q = Inr u)")
    case False
    then show ?thesis using assms that(1) Some by (auto simp: unqueue_turn_def split: option.splits sum.splits)
  next
    case pass: True
    then obtain u where u: "blocker = None" "reject_promoted_queue_mutation env s q = Inr u" by blast
    show ?thesis
    proof (cases "queued_index q (turn_rows s)")
      case None
      then show ?thesis using assms that(1) Some u by (simp add: unqueue_turn_def)
    next
      case i: (Some i)
      let ?kept = "take i (turn_rows s) @ drop (Suc i) (turn_rows s)"
      let ?payload = "ebind (unqueued_payload sess b q (turn_rows s ! i) (length ?kept)) (\<lambda>payload. ebind appended (\<lambda>st. Inr (payload, st)))"
      show ?thesis
      proof (cases "in_strings (dget (turn_rows s ! i) ''purpose'') [''cross_chat_handoff_delivery'', ''secure_peer_handoff_delivery''] = Inr False")
        case False
        then have "s' = s" using assms Some u i by (auto simp: unqueue_turn_def Let_def split: sum.splits bool.splits)
        then show ?thesis using that(1) by simp
      next
        case True
        show ?thesis
        proof (cases ?payload)
          case (Inl err)
          then have "s' = s\<lparr>queued_rows := Some (turn_rows s)\<rparr>" using assms Some u i True by (simp add: unqueue_turn_def Let_def)
          then show ?thesis using that(1) by simp
        next
          case (Inr p)
          then obtain payload st where p: "p = (payload, st)" "unqueued_payload sess b q (turn_rows s ! i) (length ?kept) = Inr payload"
            by (cases p) (auto simp: ebind_Inr_iff)
          have "s' = record_event (journal_event sid st ''turn_unqueued'' payload) (keep_rows ?kept s)"
            using assms Some u i True Inr p(1) by (simp add: unqueue_turn_def Let_def)
          then show ?thesis using that(2) [OF i, of sess payload st] p(2) by simp
        qed
      qed
    qed
  qed
qed

lemma unqueued_payload_of:
  assumes "unqueued_payload sess b q removed n = Inr payload"
  shows "event_of env (journal_event sid st ''turn_unqueued'' payload) ''turn_unqueued'' q"
proof -
  obtain lists where lists: "list_fields removed [''file_ids'', ''chat_references'', ''team_references'', ''cross_chat_obligation_ids'', ''cross_chat_exchange_ids''] = Inr lists"
      and payload: "payload = [(lit ''queued_id'', JStr q),
            (lit ''backend'', py_or (py_or (dget removed ''backend'') (dget sess ''backend'')) (JStr b)),
            (lit ''prompt'', py_or (dget removed ''prompt'') (JStr [])), (lit ''message'', js ''Removed queued message.''),
            (lit ''remaining'', JInt (int n))]
           @ same_fields removed [''purpose'', ''digest_job_id'', ''digest_detail'', ''source_session_id'', ''target_session_id'', ''secure_peer_envelope_id'']
           @ lists"
    using assms unfolding unqueued_payload_def ebind_Inr_iff by auto
  show ?thesis
  proof (rule journal_event_of)
    show "map fst payload = map lit ([''queued_id'', ''backend'', ''prompt'', ''message'', ''remaining'', ''purpose'', ''digest_job_id'', ''digest_detail'',
        ''source_session_id'', ''target_session_id'', ''secure_peer_envelope_id''] @ [''file_ids'', ''chat_references'', ''team_references'',
        ''cross_chat_obligation_ids'', ''cross_chat_exchange_ids''])"
      unfolding payload map_append list_fields_keys [OF lists] same_fields_keys by simp
  qed (simp_all add: payload row_id_def)
qed

lemma unqueue_agrees:
  assumes "agrees env sess held exact s" "unqueue_turn env sid chat b blocker q appended s = (r, s')"
  shows "agrees env sess held exact s'"
  using assms(2)
proof (cases rule: unqueue_states)
  case 1
  then show ?thesis by (intro agrees_cong [OF assms(1)]) simp_all
next
  case (2 i st payload chat')
  note i = queued_index_Some [OF 2(1)]
  have "distinct (turn_names env s)" using assms(1) by (auto simp: agrees_def matches_def)
  from cut_is_remove1 [OF this] have "turn_names env s' = remove1 (turn_names env s ! i) (turn_names env s)"
    using i(1) 2(3) by (simp add: take_map drop_map)
  moreover have "turn_names env s ! i = q" using i by simp
  moreover have "q \<in> set (turn_names env s)" using i by (metis nth_mem length_map calculation(2))
  ultimately show ?thesis using 2 by (intro removal_agrees [OF assms(1) unqueued_payload_of [OF 2(2)]]) simp_all
qed

lemma queue_positions_zip:
  "queue_positions env items = map (\<lambda>(q, p). JObj [(lit ''queued_id'', JStr q), (lit ''position'', JInt p)])
     (zip (map (row_id env) items) (map (\<lambda>i. int i + 1) [0..<length items]))"
  by (rule nth_equalityI) (simp_all add: queue_positions_def queue_position_def)

lemma sorted_positions: "sorted (map (\<lambda>i. int i + 1) [0..<n])"
  by (simp add: sorted_iff_nth_mono)

lemma named_positions: "named_ids (queue_positions env items) = map (row_id env) items"
proof -
  have "named_ids (map (\<lambda>(q, p). JObj [(lit ''queued_id'', JStr q), (lit ''position'', JInt p)]) (zip qs ps)) = qs" if "length qs = length ps" for qs ps
    using that by (induction qs ps rule: list_induct2) (simp_all add: named_ids_def)
  then show ?thesis by (simp add: queue_positions_zip)
qed

text \<open>A reordering that lists the whole queue restores the order, whatever it was.\<close>

lemma reordered_agrees:
  assumes "replays env sess s st" "matches env held exact s st"
    and "dget event ''type'' = js ''turn_queue_reordered''" "dget event ''positions'' = JArr (queue_positions env (turn_rows s'))"
    and "set (turn_names env s') = set (turn_names env s)" "distinct (turn_names env s')" "run_now_row s' = run_now_row s"
    and "journal s' = journal s @ [event]"
  shows "agrees env sess held True s'"
proof -
  let ?st = "st\<lparr>row_order := turn_names env s' @ filter (\<lambda>q. q \<notin> set (turn_names env s')) (row_order st)\<rparr>"
  have m: "set (turn_names env s') \<inter> held = {}" "set (row_order st) = set (turn_names env s') \<union> held"
    using assms(2,5) by (simp_all add: matches_def)
  have "set (turn_names env s') \<subseteq> row_ids st" using m(2) replays_ordered(2) [OF assms(1)] by blast
  from replay_reordered [OF assms(3) assms(4) [unfolded queue_positions_zip] _ sorted_positions this]
  have step: "replay_event env sess event st = Inr ?st" by simp
  have "reorders_once env event"
    using assms(6) named_positions [of env "turn_rows s'"] by (auto simp: reorders_once_def assms(4) py_or_def named_ids_def)
  from replays_record [OF assms(1) step assms(8) this] have "replays env sess s' ?st" .
  moreover have "matches env held True s' ?st"
  proof -
    have "filter (\<lambda>q. q \<notin> held) (turn_names env s') = turn_names env s'" using m(1) by (intro filter_True) auto
    moreover have "filter (\<lambda>q. q \<notin> held) (filter (\<lambda>q. q \<notin> set (turn_names env s')) (row_order st)) = []"
      using m(2) by (auto simp: filter_empty_conv)
    ultimately show ?thesis using assms(2,6,7) m unfolding matches_def by (auto simp: list_all_iff)
  qed
  ultimately show ?thesis by (rule agreesI)
qed

lemma swap_rows_same: "i < length xs \<Longrightarrow> j < length xs \<Longrightarrow> mset (swap_rows i j xs) = mset xs"
  by (simp add: swap_rows_def mset_swap)

lemma moved_rows_same:
  assumes "moved_rows env s up expected i = Inr items" "i < length (turn_rows s)"
  shows "mset items = mset (turn_rows s)"
proof -
  have j: "move_target up i (length (turn_rows s)) < length (turn_rows s)" using assms(2) by (auto simp: move_target_def)
  have "items = turn_rows s \<or> items = swap_rows i (move_target up i (length (turn_rows s))) (turn_rows s)"
    using assms(1) unfolding moved_rows_def Let_def by (auto simp: ebind_Inr_iff split: if_splits)
  then show ?thesis using swap_rows_same [OF assms(2) j] by auto
qed

lemma move_states:
  assumes "move_queued_turn env sid known direction expected blocker q appended s = (r, s')"
  obtains "turn_rows s' = turn_rows s" "journal s' = journal s" "run_now_row s' = run_now_row s" "\<exists>err. r = Inl err"
  | st items where "mset items = mset (turn_rows s)" "turn_rows s' = items" "run_now_row s' = run_now_row s" "r = Inr (queue_positions env items)"
    "journal s' = journal s @ [journal_event sid st ''turn_queue_reordered'' [(lit ''queued_id'', JStr q), (lit ''direction'', JStr direction),
       (lit ''positions'', JArr (queue_positions env items))]]"
proof (cases "known \<and> direction \<in> {lit ''up'', lit ''down''} \<and> blocker = None \<and> (\<exists>u. reject_promoted_queue_mutation env s q = Inr u)")
  case False
  then have "s' = s" "\<exists>err. r = Inl err" using assms by (auto simp: move_queued_turn_def split: option.splits sum.splits if_splits)
  then show ?thesis using that(1) by simp
next
  case True
  then obtain u where ok: "known" "direction \<in> {lit ''up'', lit ''down''}" "blocker = None" "reject_promoted_queue_mutation env s q = Inr u" by blast
  show ?thesis
  proof (cases "queued_index q (turn_rows s)")
    case None
    then have "s' = s" "\<exists>err. r = Inl err" using assms ok by (auto simp: move_queued_turn_def)
    then show ?thesis using that(1) by simp
  next
    case (Some i)
    show ?thesis
    proof (cases "moved_rows env s (direction = lit ''up'') expected i")
      case (Inl err)
      then have "s' = s" "\<exists>err. r = Inl err" using assms ok Some by (auto simp: move_queued_turn_def)
      then show ?thesis using that(1) by simp
    next
      case (Inr items)
      note same = moved_rows_same [OF Inr queued_index_Some(1) [OF Some]]
      show ?thesis
      proof (cases appended)
        case (Inl err)
        then have "s' = s\<lparr>queued_rows := Some (turn_rows s)\<rparr>" "\<exists>err. r = Inl err" using assms ok Some Inr by (auto simp: move_queued_turn_def)
        then show ?thesis using that(1) by simp
      next
        case stamp: (Inr st)
        have "s' = record_event (journal_event sid st ''turn_queue_reordered'' [(lit ''queued_id'', JStr q), (lit ''direction'', JStr direction),
               (lit ''positions'', JArr (queue_positions env items))]) (s\<lparr>queued_rows := Some items\<rparr>)" "r = Inr (queue_positions env items)"
          using assms ok Some Inr stamp by (auto simp: move_queued_turn_def)
        then show ?thesis using that(2) [OF same] by simp
      qed
    qed
  qed
qed

lemma move_agrees:
  assumes "agrees env sess held exact s" "move_queued_turn env sid known direction expected blocker q appended s = (r, s')"
  shows "agrees env sess held (exact \<or> (\<exists>ps. r = Inr ps)) s'"
  using assms(2)
proof (cases rule: move_states)
  case 1
  then show ?thesis using agrees_cong [OF assms(1)] by auto
next
  case (2 st items)
  obtain sc where sc: "replays env sess s sc" "matches env held exact s sc" using agreesE [OF assms(1)] .
  let ?payload = "[(lit ''queued_id'', JStr q), (lit ''direction'', JStr direction), (lit ''positions'', JArr (queue_positions env items))]"
  have keys: "map fst ?payload = map lit [''queued_id'', ''direction'', ''positions'']" "distinct [''queued_id'', ''direction'', ''positions'']" by simp_all
  note field = journal_event_field [OF keys]
  have names: "mset (turn_names env s') = mset (turn_names env s)" using 2(1,2) by simp
  have "agrees env sess held True s'"
  proof (rule reordered_agrees [OF sc])
    show "distinct (turn_names env s')" using sc(2) mset_eq_imp_distinct_iff [OF names] by (simp add: matches_def)
    show "set (turn_names env s') = set (turn_names env s)" using names by (metis set_mset_mset)
  qed (use 2 field in simp_all)
  then show ?thesis using 2(4) by simp
qed

subsection \<open>Holding and dispatch\<close>

lemma pause_row_order: "row_order (foldl (pause_row env) st vs) = row_order st"
proof (induction vs arbitrary: st)
  case (Cons v vs)
  have "row_order (pause_row env st v) = row_order st" by (simp add: pause_row_def Let_def split: option.split)
  with Cons show ?case by simp
qed simp

lemma paused_agrees:
  assumes "agrees env sess held exact s" "dget event ''type'' = js ''turn_queue_paused''" "dget event ''queued_ids'' = JArr vs"
    and "turn_names env s' = turn_names env s" "map_option (row_id env) (run_now_row s') = map_option (row_id env) (run_now_row s)"
    and "journal s' = journal s @ [event]"
  shows "agrees env sess held exact s'"
proof -
  obtain st where st: "replays env sess s st" "matches env held exact s st" using agreesE [OF assms(1)] .
  have "reorders_once env event" using assms(2) by (simp add: reorders_once_def)
  from replays_record [OF st(1) replay_paused [OF assms(2,3)] assms(6) this]
  have "replays env sess s' (foldl (pause_row env) st vs)" .
  moreover have "pred_option (\<lambda>p. row_id env p \<in> held) (run_now_row s') = pred_option (\<lambda>p. row_id env p \<in> held) (run_now_row s)"
    using assms(5) by (cases "run_now_row s"; cases "run_now_row s'") auto
  then have "matches env held exact s' (foldl (pause_row env) st vs)" using st(2) assms(4) by (simp add: matches_def pause_row_order)
  ultimately show ?thesis by (rule agreesI)
qed

lemma hold_row_id [simp]: "row_id env (hold_row env qs durable item) = row_id env item"
  by (simp add: hold_row_def Let_def)

lemma hold_rows_simps [simp]: "turn_rows (hold_rows env qs durable s) = map (hold_row env qs durable) (turn_rows s)"
  "journal (hold_rows env qs durable s) = journal s"
  "map_option (row_id env) (run_now_row (hold_rows env qs durable s)) = map_option (row_id env) (run_now_row s)"
  by (simp_all add: hold_rows_def turn_rows_def option.map_comp comp_def split: option.split)

lemma pause_agrees:
  assumes "agrees env sess held exact s" "pause_queued_turns_after_explicit_stop env sid appended s = (r, s')"
  shows "agrees env sess held exact s'"
proof -
  let ?payload = "\<lambda>qs. [(lit ''queued_ids'', strs_json qs), (lit ''message'', js ''Queued messages were kept after the parent turn stopped.'')]"
  have keys: "map fst (?payload qs) = map lit [''queued_ids'', ''message'']" "distinct [''queued_ids'', ''message'']" for qs by simp_all
  note field = journal_event_field [OF keys]
  consider "s' = s" | qs where "s' = hold_rows env qs False s"
    | qs st where "s' = hold_rows env qs True (record_event (journal_event sid st ''turn_queue_paused'' (?payload qs)) s)"
    using assms(2) unfolding pause_queued_turns_after_explicit_stop_def Let_def by (auto split: sum.splits prod.splits if_splits)
  then show ?thesis
  proof cases
    case 2
    then show ?thesis using agrees_cong [OF assms(1)] by simp
  next
    case (3 qs st)
    then show ?thesis using field by (intro paused_agrees [OF assms(1), where vs = "map JStr qs"]) (simp_all add: strs_json_def)
  qed (simp add: assms(1))
qed

definition held_after :: "queue_env \<Rightarrow> pystr set \<Rightarrow> turn_state \<Rightarrow> jdict option \<Rightarrow> turn_state \<Rightarrow> pystr set" where
  "held_after env held s item s' = (case (item, run_now_row s) of
     (Some row, _) \<Rightarrow> insert (row_id env row) held
   | (None, Some promoted) \<Rightarrow> if run_now_row s' = None then held - {row_id env promoted} else held
   | (None, None) \<Rightarrow> held)"

lemma fronted_agrees:
  assumes "agrees env sess held exact s" "row_id env item \<in> held" "turn_rows s' = item # turn_rows s" "journal s' = journal s"
    and "pred_option (\<lambda>p. row_id env p \<in> held - {row_id env item}) (run_now_row s')"
  shows "agrees env sess (held - {row_id env item}) False s'"
proof -
  obtain st where st: "replays env sess s st" "matches env held exact s st" using agreesE [OF assms(1)] .
  have "replays env sess s' st" using st(1) assms(4) by (simp add: replays_def)
  moreover have "matches env (held - {row_id env item}) False s' st" using st(2) assms(2,3,5) by (auto simp: matches_def)
  ultimately show ?thesis by (rule agreesI)
qed

lemma taken_agrees:
  assumes "agrees env sess held exact s" "turn_rows s = item # turn_rows s'" "journal s' = journal s" "run_now_row s' = run_now_row s"
  shows "agrees env sess (insert (row_id env item) held) exact s'"
proof -
  obtain st where st: "replays env sess s st" "matches env held exact s st" using agreesE [OF assms(1)] .
  let ?q = "row_id env item"
  have q: "?q \<notin> set (turn_names env s')" using st(2) assms(2) by (simp add: matches_def)
  have "filter (\<lambda>q. q \<notin> insert ?q held) (row_order st) = filter (\<lambda>q. q \<noteq> ?q) (filter (\<lambda>q. q \<notin> held) (row_order st))"
    by (simp add: filter_filter conj_commute)
  moreover have "filter (\<lambda>q. q \<noteq> ?q) (turn_names env s) = turn_names env s'"
  proof -
    have "filter (\<lambda>q. q \<noteq> ?q) (turn_names env s') = turn_names env s'" using q by (intro filter_True) metis
    then show ?thesis by (simp add: assms(2))
  qed
  ultimately have "exact \<longrightarrow> filter (\<lambda>q. q \<notin> insert ?q held) (row_order st) = turn_names env s'"
  proof -
    have "exact \<Longrightarrow> filter (\<lambda>q. q \<notin> held) (row_order st) = turn_names env s" using st(2) by (simp add: matches_def)
    then show ?thesis using \<open>filter (\<lambda>q. q \<noteq> ?q) (turn_names env s) = turn_names env s'\<close>
        \<open>filter (\<lambda>q. q \<notin> insert ?q held) (row_order st) = filter (\<lambda>q. q \<noteq> ?q) (filter (\<lambda>q. q \<notin> held) (row_order st))\<close> by metis
  qed
  moreover have "pred_option (\<lambda>p. row_id env p \<in> insert ?q held) (run_now_row s)" using st(2) by (cases "run_now_row s") (auto simp: matches_def)
  ultimately have "matches env (insert ?q held) exact s' st" using st(2) assms(2,4) q by (simp add: matches_def)
  moreover have "replays env sess s' st" using st(1) assms(3) by (simp add: replays_def)
  ultimately show ?thesis using agreesI by blast
qed

lemma start_agrees:
  assumes "agrees env sess held exact s" "start_next_queued_turn env steering s = (item, s')"
  shows "agrees env sess (held_after env held s item s') (exact \<and> (item \<noteq> None \<or> run_now_row s' = run_now_row s)) s'"
proof (cases "steering")
  case True
  then show ?thesis using assms by (auto simp: start_next_queued_turn_def held_after_def split: option.split)
next
  case False
  show ?thesis
  proof (cases "run_now_row s")
    case None
    then have take: "take_queued s = (item, s')" using assms(2) False by (simp add: start_next_queued_turn_def)
    show ?thesis
    proof (cases "turn_rows s")
      case Nil
      then have s': "item = None" "s' = s\<lparr>queued_rows := None\<rparr>" using take by (auto simp: take_queued_def)
      have "agrees env sess held exact s'" using Nil by (intro agrees_cong [OF assms(1)]) (simp_all add: s')
      then show ?thesis using None s' by (simp add: held_after_def)
    next
      case (Cons x rest)
      show ?thesis
      proof (cases "held_back x")
        case True
        then show ?thesis using take Cons None assms(1) by (auto simp: take_queued_def held_after_def)
      next
        case False
        then have s': "item = Some x" "s' = keep_rows rest s" using take Cons by (auto simp: take_queued_def)
        have "agrees env sess (insert (row_id env x) held) exact s'" using Cons by (intro taken_agrees [OF assms(1)]) (simp_all add: s')
        then show ?thesis by (simp add: held_after_def s')
      qed
    qed
  next
    case (Some p)
    have p: "row_id env p \<in> held" "row_id env p \<notin> set (turn_names env s)"
      using assms(1) Some by (auto simp: agrees_def matches_def)
    then have fresh: "\<not> list_ex (\<lambda>c. row_id env c = row_id env p) (turn_rows s)" by (auto simp: list_ex_iff image_def)
    consider "\<not> held_back p" "item = Some p" "s' = s\<lparr>run_now_row := None\<rparr>"
      | "item = None" "s' = requeue_turn_front p (s\<lparr>run_now_row := None\<rparr>)" | "item = None" "s' = s"
      using assms(2) False Some fresh by (auto simp: start_next_queued_turn_def split: if_splits)
    then show ?thesis
    proof cases
      case 1
      have "agrees env sess held exact s'"
        using assms(1) 1(3) by (auto simp: agrees_def matches_def replays_def)
      then show ?thesis using 1 p(1) by (simp add: held_after_def insert_absorb)
    next
      case 2
      have "agrees env sess (held - {row_id env p}) False s'"
        using p by (intro fronted_agrees [OF assms(1)]) (simp_all add: 2 requeue_turn_front_def)
      then show ?thesis using 2 Some by (simp add: held_after_def requeue_turn_front_def)
    next
      case 3
      then show ?thesis using assms(1) Some by (simp add: held_after_def)
    qed
  qed
qed

lemma started_agrees:
  assumes "agrees env sess held exact s" "event_of env event ''turn_started'' q" "q \<in> held" "pred_option (\<lambda>p. row_id env p \<noteq> q) (run_now_row s)"
  shows "agrees env sess (held - {q}) exact (record_event event s)"
proof -
  obtain st where st: "replays env sess s st" "matches env held exact s st" using agreesE [OF assms(1)] .
  have "strip q \<noteq> []" using st(2) assms(3) by (auto simp: matches_def list_all_iff)
  then have "q \<noteq> []" by (auto simp: strip_def lstrip_def rstrip_def)
  then have "replay_event env sess event st = Inr (drop_row q st)" using replay_removed [OF assms(2)] by simp
  from replays_record [OF st(1) this, of "record_event event s"] plain_event [OF assms(2)]
    started_matches [OF st(2) replays_ordered(1) [OF st(1)] assms(3) _ _ assms(4), of "record_event event s"]
  show ?thesis using agreesI by simp
qed

subsection \<open>Native steering\<close>

text \<open>What the fields of a live row look like when it comes from an admission or from a recovery.\<close>

definition steerable :: "jdict \<Rightarrow> bool" where
  "steerable row \<longleftrightarrow> hashable (dget row ''purpose'') \<and> (dget row ''chat_references'' = JNull \<or> (\<exists>refs. dget row ''chat_references'' = lineage_json refs))
     \<and> (dget row ''_native_delivery_queue_position'' = JNull \<or> (\<exists>i. dget row ''_native_delivery_queue_position'' = JInt i))"

definition steer_keys :: "string list" where
  "steer_keys = [''queued_id'', ''model'', ''effort'', ''purpose'', ''digest_job_id'', ''digest_detail'', ''source_session_id'',
     ''target_session_id'', ''cross_chat_envelope_id'', ''cross_chat_exchange_id'', ''cross_chat_exchange_leg_id'', ''prompt'', ''request_prompt'',
     ''display_file_ids'', ''cross_chat_exchange_status'', ''provider_team_mail_route_snapshot'', ''provider_cross_chat_route_snapshot'',
     ''file_ids'', ''chat_references'', ''team_references'', ''cross_chat_obligation_ids'', ''cross_chat_exchange_ids'', ''client_capabilities'']"

lemma list_fields_get: "list_fields item ks = Inr d \<Longrightarrow> k \<in> set ks \<Longrightarrow> list_field item k = Inr (dget d k)"
  by (induction ks arbitrary: d) (auto simp: ebind_Inr_iff)

lemma list_field_JArr: "list_field item k = Inr v \<Longrightarrow> \<exists>vs. v = JArr vs"
  by (auto simp: list_field_def split: sum.splits)

lemma steer_fields_get:
  assumes "steer_fields env row = Inr copied" "steerable row"
  shows "map fst copied = map lit steer_keys" "row_id env copied = row_id env row" "dget copied ''purpose'' = dget row ''purpose''"
    "\<exists>refs. dget copied ''chat_references'' = lineage_json refs" "list_all (\<lambda>k. \<exists>vs. dget copied k = JArr vs) listed_keys"
    "\<exists>rs. dget copied ''provider_cross_chat_route_snapshot'' = lineage_json rs \<and> kinds_hashable rs"
    "\<exists>vs. dget copied ''display_file_ids'' = JArr vs"
proof -
  let ?ks = "[''file_ids'', ''chat_references'', ''team_references'', ''cross_chat_obligation_ids'', ''cross_chat_exchange_ids'', ''client_capabilities'']"
  let ?same = "[''queued_id'', ''model'', ''effort'', ''purpose'', ''digest_job_id'', ''digest_detail'', ''source_session_id'',
             ''target_session_id'', ''cross_chat_envelope_id'', ''cross_chat_exchange_id'', ''cross_chat_exchange_leg_id'']"
  obtain lists fids routes where l: "list_fields row ?ks = Inr lists" "steer_files row = Inr fids"
      "normalized_provider_cross_chat_route_snapshot env (dget row ''provider_cross_chat_route_snapshot'') = Inr routes"
      and copied: "copied = same_fields row ?same
           @ [(lit ''prompt'', JStr (steer_display env row)), (lit ''request_prompt'', JStr (qstr env (dget row ''prompt''))),
              (lit ''display_file_ids'', fids), (lit ''cross_chat_exchange_status'', JBool (truthy (dget row ''cross_chat_exchange_status''))),
              (lit ''provider_team_mail_route_snapshot'', routes_json (grant_snapshot (dget row ''provider_team_mail_route_snapshot''))),
              (lit ''provider_cross_chat_route_snapshot'', lineage_json routes)]
           @ lists"
    using assms(1) unfolding steer_fields_def ebind_Inr_iff raised_Inr_iff by auto
  show "map fst copied = map lit steer_keys"
    unfolding copied map_append list_fields_keys [OF l(1)] same_fields_keys steer_keys_def by simp
  have same: "dget copied k = dget row k" if "k = ''queued_id'' \<or> k = ''purpose''" for k
    using that by (auto simp: copied same_fields_def)
  show "row_id env copied = row_id env row" "dget copied ''purpose'' = dget row ''purpose''" by (simp_all add: row_id_def same)
  have tail: "dget copied k = dget lists k" if "k \<in> set ?ks" for k
  proof -
    have "\<not> dhas (same_fields row ?same) k" "k \<notin> {''prompt'', ''request_prompt'', ''display_file_ids'', ''cross_chat_exchange_status'',
        ''provider_team_mail_route_snapshot'', ''provider_cross_chat_route_snapshot''}"
      using that by (auto simp: dhas_keys [OF same_fields_keys])
    then show ?thesis by (simp add: copied dget_append eq_commute [of _ k])
  qed
  have lists: "list_field row k = Inr (dget copied k)" if "k \<in> set ?ks" for k using list_fields_get [OF l(1) that] tail [OF that] by simp
  show "list_all (\<lambda>k. \<exists>vs. dget copied k = JArr vs) listed_keys"
    unfolding listed_keys_def list_all_iff using lists list_field_JArr by blast
  have refs: "list_field row ''chat_references'' = Inr (dget copied ''chat_references'')" by (rule lists) simp
  show "\<exists>refs. dget copied ''chat_references'' = lineage_json refs"
  proof (cases "dget row ''chat_references'' = JNull")
    case True
    then have "dget copied ''chat_references'' = lineage_json []" using refs by (simp add: list_field_def py_or_def lineage_json_def)
    then show ?thesis by blast
  next
    case False
    then obtain rs where "dget row ''chat_references'' = lineage_json rs" using assms(2) by (auto simp: steerable_def)
    then have "dget copied ''chat_references'' = lineage_json rs" using refs by (simp add: list_field_def lineage_json_def)
    then show ?thesis by blast
  qed
  have "\<not> dhas (same_fields row ?same) ''provider_cross_chat_route_snapshot''" "\<not> dhas (same_fields row ?same) ''display_file_ids''"
    by (simp_all add: dhas_keys [OF same_fields_keys])
  then have "dget copied ''provider_cross_chat_route_snapshot'' = lineage_json routes" "dget copied ''display_file_ids'' = fids"
    by (simp_all add: copied dget_append)
  moreover have "\<exists>vs. fids = JArr vs"
    using l(2) list_field_JArr by (auto simp: steer_files_def ebind_Inr_iff split: if_splits)
  ultimately show "\<exists>rs. dget copied ''provider_cross_chat_route_snapshot'' = lineage_json rs \<and> kinds_hashable rs" "\<exists>vs. dget copied ''display_file_ids'' = JArr vs"
    using normalized_kinds [OF l(3)] by auto
qed

text \<open>An event whose payload extends these fields is rebuildable.\<close>

lemma steered_rebuildable:
  assumes "steer_fields env row = Inr copied" "steerable row" "map fst extra = map lit ks" "distinct (steer_keys @ ks)"
    and "''type'' \<notin> set ks" "''secure_peer_route_snapshots'' \<notin> set ks" "dget extra ''position'' = JNull \<or> (\<exists>i. dget extra ''position'' = JInt i)"
    and "kind \<noteq> ''turn_queue_run_now''" "''position'' \<in> set ks"
  shows "rebuildable (journal_event sid st kind (copied @ extra))" "event_of env (journal_event sid st kind (copied @ extra)) kind (row_id env row)"
proof -
  note c = steer_fields_get [OF assms(1,2)]
  have keys: "map fst (copied @ extra) = map lit (steer_keys @ ks)" using c(1) assms(3) by simp
  let ?e = "journal_event sid st kind (copied @ extra)"
  have apart: "list_all (\<lambda>k. k \<in> set steer_keys) (''queued_id'' # ''purpose'' # ''chat_references'' # ''provider_cross_chat_route_snapshot''
      # ''display_file_ids'' # listed_keys)" "''type'' \<notin> set steer_keys" "''position'' \<notin> set steer_keys" "''secure_peer_route_snapshots'' \<notin> set steer_keys"
    by code_simp+
  have get: "dget ?e k = dget copied k" if "k \<in> set steer_keys" for k
    using journal_event_field(1) [OF keys assms(4), of k sid st kind] that by (simp add: dget_append dhas_keys [OF c(1)])
  have pos: "dget ?e ''position'' = dget extra ''position''"
    using journal_event_field(1) [OF keys assms(4), of "''position''" sid st kind] assms(9) apart(3) by (simp add: dget_append dhas_keys [OF c(1)])
  have type: "dget ?e ''type'' = js kind" using journal_event_field(2) [OF keys assms(4)] apart(2) assms(5) by simp
  have "\<not> dhas (copied @ extra) ''secure_peer_route_snapshots''" using dhas_keys [OF keys] apart(4) assms(6) by simp
  then have peers: "dget ?e ''secure_peer_route_snapshots'' = JNull" using journal_event_get [OF distinct_keys [OF keys assms(4)], of sid st kind] by simp
  have "list_all (\<lambda>k. \<exists>vs. dget ?e k = JArr vs) listed_keys" using c(5) get apart(1) by (simp add: list_all_iff)
  then show "rebuildable ?e"
    using c(3,4,6,7) get apart(1) assms(2,7,8) absent_fields(8)
    by (simp add: rebuildable_def type pos peers steerable_def)
  show "event_of env ?e kind (row_id env row)" using c(2) get [of "''queued_id''"] apart(1) by (simp add: event_of_def row_id_def type)
qed

lemma replay_fenced:
  assumes "event_of env event ''turn_queue_delivery_fenced'' q" "q \<noteq> []" "rebuildable event" "q \<notin> row_ids st"
  obtains st' i where "replay_event env sess event st = Inr st'" "row_order st' = insert_at i q (row_order st)"
proof -
  obtain row where row: "queued_turn_from_event env event sess (length (row_order st) + 1) = Inr row" using rebuilt_row [OF assms(3)] .
  have "replay_event env sess event st = scan_fenced env sess event q st"
    using not_superseding [OF assms(1)] assms(2) by (simp add: replay_event_def event_ofD [OF assms(1)] Let_def)
  moreover have "map_of (pending_rows st) q = None" using assms(4) by (simp add: row_ids_iff)
  moreover have "row_order (fence_row q s) = row_order s" for s by (simp add: fence_row_def split: option.split)
  ultimately show ?thesis using that row by (simp add: scan_fenced_def)
qed

lemma filter_insert_at: "\<not> P x \<Longrightarrow> filter P (insert_at i x xs) = filter P xs"
  by (simp add: insert_at_def) (metis append_take_drop_id filter_append)

lemma not_blank: "strip q \<noteq> [] \<Longrightarrow> q \<noteq> []"
  by (auto simp: strip_def lstrip_def rstrip_def)

lemma held_pending:
  assumes "matches env held exact s st" "q \<in> held"
  shows "q \<noteq> [] \<and> q \<in> set (row_order st)"
proof -
  have "q \<in> set (row_order st)" using assms by (simp add: matches_def)
  moreover from this have "strip q \<noteq> []" using assms(1) by (simp add: matches_def list_all_iff)
  ultimately show ?thesis using not_blank by blast
qed

lemma fence_agrees:
  assumes "agrees env sess held exact s" "row_id env selected \<in> held" "steerable selected"
    and "fence_native_steer_delivery env sid backend appended selected s = (r, s')"
  shows "agrees env sess held exact s'"
proof -
  let ?extra = "[(lit ''backend'', backend), (lit ''display_prompt'', JStr (steer_display env selected)),
      (lit ''position'', dget selected ''_native_delivery_queue_position''),
      (lit ''message'', js ''Force Send delivery started; keep this message paused until its provider lifecycle is durably committed.'')]"
  let ?gone = "[(lit ''queued_id'', dget selected ''queued_id''), (lit ''reason'', js ''native_delivery_fence'')]"
  let ?q = "row_id env selected"
  consider "s' = s" | copied st1 st2 where "steer_fields env selected = Inr copied"
      "s' = record_event (journal_event sid st2 ''turn_queue_delivery_fenced'' (copied @ ?extra)) (record_event (journal_event sid st1 ''turn_unqueued'' ?gone) s)"
    using assms(4) unfolding fence_native_steer_delivery_def
    by (cases "dget selected ''_native_delivery_fenced'' = JBool True"; cases "steer_fields env selected"; cases appended) auto
  then show ?thesis
  proof cases
    case (2 copied st1 st2)
    let ?e1 = "journal_event sid st1 ''turn_unqueued'' ?gone" and ?e2 = "journal_event sid st2 ''turn_queue_delivery_fenced'' (copied @ ?extra)"
    have e1: "event_of env ?e1 ''turn_unqueued'' ?q"
      by (rule journal_event_of [where ks = "[''queued_id'', ''reason'']"]) (simp_all add: row_id_def)
    have keys: "map fst ?extra = map lit [''backend'', ''display_prompt'', ''position'', ''message'']" by simp
    have apart: "distinct (steer_keys @ [''backend'', ''display_prompt'', ''position'', ''message''])" by code_simp
    have pos: "dget ?extra ''position'' = JNull \<or> (\<exists>i. dget ?extra ''position'' = JInt i)" using assms(3) by (simp add: steerable_def)
    have plain: "''type'' \<notin> set [''backend'', ''display_prompt'', ''position'', ''message'']"
      "''secure_peer_route_snapshots'' \<notin> set [''backend'', ''display_prompt'', ''position'', ''message'']"
      "''position'' \<in> set [''backend'', ''display_prompt'', ''position'', ''message'']" "''turn_queue_delivery_fenced'' \<noteq> ''turn_queue_run_now''" by code_simp+
    note e2 = steered_rebuildable [OF 2(1) assms(3) keys apart plain(1,2) pos plain(4,3), of sid st2]
    obtain st where st: "replays env sess s st" "matches env held exact s st" using agreesE [OF assms(1)] .
    have q: "?q \<noteq> []" using held_pending [OF st(2) assms(2)] by simp
    have r1: "replay_event env sess ?e1 st = Inr (drop_row ?q st)" using replay_removed [OF e1] q by simp
    have s1: "replays env sess (record_event ?e1 s) (drop_row ?q st)"
      by (rule replays_record [OF st(1) r1]) (simp_all add: plain_event [OF e1])
    have "?q \<notin> row_ids (drop_row ?q st)" by simp
    from replay_fenced [OF e2(2) q e2(1) this] obtain st' i where
      r2: "replay_event env sess ?e2 (drop_row ?q st) = Inr st'" "row_order st' = insert_at i ?q (row_order (drop_row ?q st))" .
    have "replays env sess s' st'"
      by (rule replays_record [OF s1 r2(1)]) (simp_all add: 2(2) plain_event [OF e2(2)])
    moreover have "matches env held exact s' st'"
    proof -
      have "set (row_order st') = set (row_order st)"
        using assms(2) st replays_ordered(1) [OF st(1)] by (auto simp: r2(2) insert_at_simps matches_def)
      moreover have "filter (\<lambda>q. q \<notin> held) (row_order st') = filter (\<lambda>q. q \<notin> held) (row_order st)"
        using assms(2) by (simp add: r2(2) filter_insert_at filter_remove1)
      ultimately show ?thesis using st(2) by (simp add: matches_def 2(2) list_all_iff)
    qed
    ultimately show ?thesis by (rule agreesI)
  qed (simp add: assms(1))
qed

text \<open>An event of a turn that is still pending only refreshes its row.\<close>

lemma replay_requeued:
  assumes "event_of env event ''turn_queued'' q" "q \<noteq> []" "rebuildable event" "q \<in> set (row_order st)"
  obtains row where "replay_event env sess event st = Inr (put_row q row st)"
proof -
  obtain row where row: "queued_turn_from_event env event sess (length (row_order st) + 1) = Inr row" using rebuilt_row [OF assms(3)] .
  have "replay_event env sess event st = scan_queued env sess event q st"
    using not_superseding [OF assms(1)] assms(2) by (simp add: replay_event_def event_ofD [OF assms(1)] Let_def)
  then show ?thesis using that [of row] assms(4) row by (simp add: scan_queued_def Let_def)
qed

lemma returned_all:
  assumes "list_all (\<lambda>item. strip (row_id env item) \<noteq> []) items"
  shows "returned_positions env items = queue_positions env items"
proof -
  have "filter (\<lambda>(idx, item). strip (row_id env item) \<noteq> []) (zip [0..<length items] items) = zip [0..<length items] items"
    using assms by (intro filter_True) (auto simp: list_all_iff dest: set_zip_rightD)
  then show ?thesis by (simp add: returned_positions_def queue_positions_def)
qed

lemma returned_matches:
  assumes "matches env held exact s st" "q \<in> held" "turn_names env s' = insert_at i q (turn_names env s)" "row_order st' = row_order st"
    and "pred_option (\<lambda>p. row_id env p \<in> held - {q}) (run_now_row s')"
  shows "matches env (held - {q}) False s' st'"
proof -
  have m: "distinct (turn_names env s)" "set (turn_names env s) \<inter> held = {}" "set (row_order st) = set (turn_names env s) \<union> held"
      "list_all (\<lambda>q. strip q \<noteq> []) (row_order st)"
    using assms(1) by (simp_all add: matches_def)
  have "q \<notin> set (turn_names env s)" using m(2) assms(2) by blast
  then have "distinct (insert_at i q (turn_names env s))" using m(1) by (rule insert_at_simps(2))
  moreover have "insert q (set (turn_names env s)) \<inter> (held - {q}) = {}" using m(2) by blast
  moreover have "set (row_order st) = insert q (set (turn_names env s)) \<union> (held - {q})" using m(3) assms(2) by blast
  ultimately show ?thesis using m(4) assms(5) unfolding matches_def assms(3,4) insert_at_simps(1) by blast
qed

lemma requeue_agrees:
  assumes "agrees env sess held exact s" "row_id env selected \<in> held" "steerable selected"
    and "pred_option (\<lambda>p. row_id env p \<noteq> row_id env selected) (run_now_row s)"
    and "requeue_native_steer_after_safe_rejection env sid chat b selected k predecessor successor preserve appended s = (r, s')"
  shows "agrees env sess (held - {row_id env selected}) (r = Inr ()) s'"
proof -
  let ?q = "row_id env selected"
  define i where "i = return_index (turn_rows s) k predecessor successor"
  let ?items = "insert_at i selected (turn_rows s)"
  obtain st where st: "replays env sess s st" "matches env held exact s st" using agreesE [OF assms(1)] .
  have names: "turn_names env s1 = insert_at i ?q (turn_names env s)" if "turn_rows s1 = insert_at i row (turn_rows s)" "row_id env row = ?q" for s1 row
    using that by (simp add: insert_at_def take_map drop_map)
  have promoted: "pred_option (\<lambda>p. row_id env p \<in> held - {?q}) (run_now_row s1)" if "run_now_row s1 = run_now_row s" for s1 :: turn_state
    using st(2) assms(4) that by (cases "run_now_row s") (auto simp: matches_def)
  consider err row where "r = Inl err" "s' = s\<lparr>queued_rows := Some (insert_at i row (turn_rows s))\<rparr>" "row_id env row = ?q"
    | payload st1 st2 st3 row s1 s2 where "native_steer_requeue_event_payload env chat b selected (i + 1) = Inr payload"
      "s1 = record_event (journal_event sid st1 ''turn_queued'' payload) (s\<lparr>queued_rows := Some (insert_at i row (turn_rows s))\<rparr>)" "row_id env row = ?q"
      "s2 = record_event (journal_event sid st2 ''turn_queue_reordered'' [(lit ''positions'', JArr (returned_positions env ?items)),
               (lit ''message'', js ''Queue order restored after Force Send was rejected before provider delivery.'')]) s1"
      "s' = (if preserve then record_event (journal_event sid st3 ''turn_queue_paused'' [(lit ''queued_ids'', JArr [JStr ?q]),
                (lit ''message'', js ''The goal follow-up was not delivered and remains paused until explicitly retried.'')]) s2 else s2)"
      "r = Inr ()"
  proof (cases "ebind (native_steer_requeue_event_payload env chat b selected (i + 1)) (\<lambda>payload. ebind appended (\<lambda>st. Inr (payload, st)))")
    case (Inl err)
    then show ?thesis using assms(5) that(1) [of err "dpop (dset selected ''_paused_after_stop'' (JBool True)) ''_native_delivery_queue_position''"]
      by (auto simp: requeue_native_steer_after_safe_rejection_def i_def [symmetric] Let_def)
  next
    case (Inr p)
    obtain payload st1 st2 st3 where p: "p = (payload, st1, st2, st3)" by (cases p)
    then have payload: "native_steer_requeue_event_payload env chat b selected (i + 1) = Inr payload" using Inr by (auto simp: ebind_Inr_iff)
    let ?row = "dpop (dpop (dset selected ''_paused_after_stop'' (JBool preserve)) ''_native_delivery_fenced'') ''_native_delivery_queue_position''"
    show ?thesis using assms(5) Inr unfolding requeue_native_steer_after_safe_rejection_def i_def [symmetric] Let_def p
      by (intro that(2) [where payload = payload and ?st1.0 = st1 and ?st2.0 = st2 and ?st3.0 = st3 and row = ?row, OF payload refl]) auto
  qed
  then show ?thesis
  proof cases
    case (1 err row)
    have "replays env sess s' st" using st(1) by (simp add: 1 replays_def)
    moreover have "matches env (held - {?q}) False s' st"
      by (rule returned_matches [OF st(2) assms(2) names [of s' row] refl promoted]) (simp_all add: 1)
    ultimately show ?thesis using agreesI 1(1) by simp
  next
    case (2 payload st1 st2 st3 row s1 s2)
    let ?ks = "[''display_prompt'', ''backend'', ''position'', ''exchange_id'', ''exchange_leg_id'', ''message'']"
    obtain copied where c: "steer_fields env selected = Inr copied" and payload: "payload = copied @
        [(lit ''display_prompt'', dget selected ''display_prompt''),
         (lit ''backend'', py_or (py_or (dget selected ''backend'') (dget chat ''backend'')) (JStr b)), (lit ''position'', JInt (int (i + 1))),
         (lit ''exchange_id'', dget selected ''cross_chat_exchange_id''), (lit ''exchange_leg_id'', dget selected ''cross_chat_exchange_leg_id''),
         (lit ''message'', js ''Force Send was rejected before provider delivery; the message returned to normal queue delivery.'')]"
      using 2(1) by (auto simp: native_steer_requeue_event_payload_def ebind_Inr_iff same_fields_def)
    let ?e1 = "journal_event sid st1 ''turn_queued'' payload"
    have apart: "distinct (steer_keys @ ?ks)" by code_simp
    have e1: "rebuildable ?e1" "event_of env ?e1 ''turn_queued'' ?q"
      unfolding payload by (rule steered_rebuildable [OF c assms(3) _ apart]; simp)+
    have q: "?q \<noteq> []" "?q \<in> set (row_order st)" using held_pending [OF st(2) assms(2)] by simp_all
    obtain qrow where r1: "replay_event env sess ?e1 st = Inr (put_row ?q qrow st)" using replay_requeued [OF e1(2) q(1) e1(1) q(2)] .
    have s1: "replays env sess s1 (put_row ?q qrow st)" by (rule replays_record [OF st(1) r1]) (simp_all add: 2(2) plain_event [OF e1(2)])
    have m1: "matches env (held - {?q}) False s1 (put_row ?q qrow st)"
      by (rule returned_matches [OF st(2) assms(2) names [of s1 row] _ promoted]) (simp_all add: 2(2,3) put_row_def)
    have "list_all (\<lambda>item. strip (row_id env item) \<noteq> []) ?items"
      using st(2) assms(2) by (auto simp: matches_def list_all_iff insert_at_simps)
    then have positions: "returned_positions env ?items = queue_positions env (turn_rows s2)"
      using 2(2,3,4) names [of s2 selected] by (simp add: returned_all queue_positions_zip insert_at_def take_map drop_map)
    let ?p2 = "[(lit ''positions'', JArr (returned_positions env ?items)),
               (lit ''message'', js ''Queue order restored after Force Send was rejected before provider delivery.'')]"
    have keys2: "map fst ?p2 = map lit [''positions'', ''message'']" "distinct [''positions'', ''message'']" by simp_all
    note field2 = journal_event_field [OF keys2]
    have two: "agrees env sess (held - {?q}) True s2"
    proof (rule reordered_agrees [OF s1 m1])
      let ?e2 = "journal_event sid st2 ''turn_queue_reordered'' ?p2"
      show "journal s2 = journal s1 @ [?e2]" "run_now_row s2 = run_now_row s1" "set (turn_names env s2) = set (turn_names env s1)"
        unfolding 2(4) by simp_all
      show "distinct (turn_names env s2)" using m1 unfolding 2(4) matches_def by simp
      show "dget ?e2 ''type'' = js ''turn_queue_reordered''" by (rule field2(2)) simp
      have "dget ?e2 ''positions'' = dget ?p2 ''positions''" by (rule field2(1)) simp
      also have "\<dots> = JArr (queue_positions env (turn_rows s2))" unfolding positions by simp
      finally show "dget ?e2 ''positions'' = JArr (queue_positions env (turn_rows s2))" .
    qed
    show ?thesis
    proof (cases preserve)
      case True
      let ?p3 = "[(lit ''queued_ids'', JArr [JStr ?q]),
                (lit ''message'', js ''The goal follow-up was not delivered and remains paused until explicitly retried.'')]"
      have keys3: "map fst ?p3 = map lit [''queued_ids'', ''message'']" "distinct [''queued_ids'', ''message'']" by simp_all
      note field3 = journal_event_field [OF keys3]
      have "agrees env sess (held - {?q}) True s'"
        using True field3 by (intro paused_agrees [OF two, where vs = "[JStr ?q]"]) (simp_all add: 2(5))
      then show ?thesis by (simp add: 2(6))
    qed (use two 2(5,6) in simp)
  qed
qed

section \<open>Runs of a queue\<close>

text \<open>Every interleaving of the operations, in every outcome. \<open>started\<close> is the event that the admission of a
  dispatched turn writes; \<open>fronted\<close> returns a dispatched turn.\<close>

definition fresh_queue :: turn_state where
  "fresh_queue = \<lparr>queued_rows = None, run_now_row = None, run_now_results = [], journal = []\<rparr>"

inductive queue_run :: "queue_env \<Rightarrow> jdict \<Rightarrow> turn_state \<Rightarrow> pystr set \<Rightarrow> bool \<Rightarrow> bool" for env sess where
  fresh: "queue_run env sess fresh_queue {} True"
| enqueued: "queue_run env sess s held exact \<Longrightarrow> entry_ready env e \<Longrightarrow> qe_id e \<notin> set (turn_names env s) \<union> held
    \<Longrightarrow> enqueue_turn sid chat b rq e dp out s = (r, s') \<Longrightarrow> queue_run env sess s' held exact"
| unqueued: "queue_run env sess s held exact \<Longrightarrow> unqueue_turn env sid chat b blocker q appended s = (r, s')
    \<Longrightarrow> queue_run env sess s' held exact"
| moved: "queue_run env sess s held exact \<Longrightarrow> move_queued_turn env sid known direction expected blocker q appended s = (r, s')
    \<Longrightarrow> queue_run env sess s' held (exact \<or> (\<exists>ps. r = Inr ps))"
| stopped: "queue_run env sess s held exact \<Longrightarrow> pause_queued_turns_after_explicit_stop env sid appended s = (r, s')
    \<Longrightarrow> queue_run env sess s' held exact"
| dispatched: "queue_run env sess s held exact \<Longrightarrow> start_next_queued_turn env steering s = (item, s')
    \<Longrightarrow> queue_run env sess s' (held_after env held s item s') (exact \<and> (item \<noteq> None \<or> run_now_row s' = run_now_row s))"
| started: "queue_run env sess s held exact \<Longrightarrow> event_of env event ''turn_started'' q \<Longrightarrow> q \<in> held
    \<Longrightarrow> pred_option (\<lambda>p. row_id env p \<noteq> q) (run_now_row s) \<Longrightarrow> queue_run env sess (record_event event s) (held - {q}) exact"
| fronted: "queue_run env sess s held exact \<Longrightarrow> row_id env item \<in> held \<Longrightarrow> pred_option (\<lambda>p. row_id env p \<noteq> row_id env item) (run_now_row s)
    \<Longrightarrow> queue_run env sess (requeue_turn_front item s) (held - {row_id env item}) False"
| fenced: "queue_run env sess s held exact \<Longrightarrow> row_id env selected \<in> held \<Longrightarrow> steerable selected
    \<Longrightarrow> fence_native_steer_delivery env sid backend appended selected s = (r, s') \<Longrightarrow> queue_run env sess s' held exact"
| rejected: "queue_run env sess s held exact \<Longrightarrow> row_id env selected \<in> held \<Longrightarrow> steerable selected
    \<Longrightarrow> pred_option (\<lambda>p. row_id env p \<noteq> row_id env selected) (run_now_row s)
    \<Longrightarrow> requeue_native_steer_after_safe_rejection env sid chat b selected k predecessor successor preserve appended s = (r, s')
    \<Longrightarrow> queue_run env sess s' (held - {row_id env selected}) (r = Inr ())"

lemma fresh_agrees: "agrees env sess {} True fresh_queue"
proof (rule agreesI)
  show "replays env sess fresh_queue initial_scan" by (simp add: replays_def fresh_queue_def initial_scan_ok)
  show "matches env {} True fresh_queue initial_scan" by (simp add: matches_def fresh_queue_def turn_rows_def initial_scan_def)
qed

lemma run_agrees: "queue_run env sess s held exact \<Longrightarrow> agrees env sess held exact s"
proof (induction rule: queue_run.induct)
  case (fronted s held exact item)
  have "pred_option (\<lambda>p. row_id env p \<in> held) (run_now_row s)" using fronted(4) by (auto simp: agrees_def matches_def)
  then have "pred_option (\<lambda>p. row_id env p \<in> held - {row_id env item}) (run_now_row s)" using fronted(3) by (cases "run_now_row s") auto
  then show ?case using fronted(2,4) by (intro fronted_agrees) (simp_all add: requeue_turn_front_def)
next
  case (dispatched s held exact steering item s')
  then show ?case by (intro start_agrees)
qed (auto intro: fresh_agrees enqueue_agrees unqueue_agrees move_agrees pause_agrees started_agrees fence_agrees requeue_agrees simp del: Un_iff)



section \<open>A stop holds the queue\<close>

lemma held_ids_mem:
  assumes "held_ids env items = Inr qs" "item \<in> set items" "strip (row_id env item) \<noteq> []"
    "dget item ''purpose'' \<notin> (\<lambda>k. js k) ` set CROSS_CHAT_DELIVERY_PURPOSES"
  shows "strip (row_id env item) \<in> set qs"
  using assms(1,2)
proof (induction items arbitrary: qs)
  case (Cons x items)
  obtain skip rest where skip: "(if strip (row_id env x) = [] then Inr True else in_strings (dget x ''purpose'') CROSS_CHAT_DELIVERY_PURPOSES) = Inr skip"
      and rest: "held_ids env items = Inr rest" "qs = (if skip then rest else strip (row_id env x) # rest)"
    using Cons.prems(1) by (auto simp: ebind_Inr_iff Let_def)
  show ?case
  proof (cases "x = item")
    case True
    have "\<not> skip" using skip assms(3,4) True by (auto simp: in_strings_def split: if_splits)
    then show ?thesis using rest(2) True by simp
  next
    case False
    then show ?thesis using Cons.IH [OF rest(1)] Cons.prems(2) rest(2) by (auto split: if_splits)
  qed
qed simp

definition paused_in :: "queue_scan \<Rightarrow> pystr \<Rightarrow> bool" where
  "paused_in st q \<longleftrightarrow> (\<exists>row. map_of (pending_rows st) q = Some row \<and> dget row ''_paused_after_stop'' = JBool True)"

lemma pause_row_paused: "paused_in st q \<Longrightarrow> paused_in (pause_row env st v) q" "q \<in> row_ids st \<Longrightarrow> paused_in (pause_row env st (JStr q)) q"
  by (auto simp: paused_in_def pause_row_def Let_def row_ids_iff split: option.splits)

lemma pause_rows_paused: "q \<in> set qs \<Longrightarrow> q \<in> row_ids st \<Longrightarrow> paused_in (foldl (pause_row env) st (map JStr qs)) q"
proof (induction qs arbitrary: st)
  case (Cons x qs)
  have keep: "paused_in st' q \<Longrightarrow> paused_in (foldl (pause_row env) st' (map JStr qs)) q" for st'
    by (induction qs arbitrary: st') (simp_all add: pause_row_paused(1))
  have ids: "row_ids (pause_row env st v) = row_ids st" for v using pause_rows_keep(1) [where env = env and st = st and vs = "[v]"] by simp
  show ?case
  proof (cases "x = q")
    case True
    then show ?thesis using keep pause_row_paused(2) [OF Cons.prems(2)] by simp
  next
    case False
    then show ?thesis using Cons.IH [of "pause_row env st (JStr x)"] Cons.prems ids by simp
  qed
qed simp

text \<open>C39. After an explicit stop whose hold was written, every queued message of the user is held, in memory and in the
  queue that a restart rebuilds: neither the running server nor a restarted one takes it from the queue.\<close>

theorem stopped_queue_stays_held:
  assumes "queue_run env sess s held exact" "pause_queued_turns_after_explicit_stop env sid (Inr st) s = (Inr res, s')"
    and "row \<in> set (turn_rows s)" "dget row ''purpose'' \<notin> (\<lambda>k. js k) ` set CROSS_CHAT_DELIVERY_PURPOSES"
    and "strip (row_id env row) = row_id env row"
  shows "(\<exists>row' \<in> set (turn_rows s'). row_id env row' = row_id env row \<and> held_back row')
    \<and> (\<exists>sc. replay_journal env sess (journal s') initial_scan = Inr sc \<and> paused_in sc (row_id env row))"
proof -
  let ?items = "(case run_now_row s of Some item \<Rightarrow> [item] | None \<Rightarrow> []) @ turn_rows s" and ?q = "row_id env row"
  obtain sc where sc: "replays env sess s sc" "matches env held exact s sc" using agreesE [OF run_agrees [OF assms(1)]] .
  have q: "?q \<in> set (row_order sc)" using sc(2) assms(3) by (simp add: matches_def)
  have named: "strip ?q \<noteq> []" using sc(2) q by (simp add: matches_def list_all_iff)
  obtain qs hidden where ids: "held_ids env ?items = Inr qs" "hidden_delivery_at_head ?items = Inr hidden"
    using assms(2) by (cases "held_ids env ?items"; cases "hidden_delivery_at_head ?items") (simp_all add: pause_queued_turns_after_explicit_stop_def)
  have mem: "?q \<in> set qs" using held_ids_mem [OF ids(1) _ named assms(4)] assms(3,5) by simp
  let ?payload = "[(lit ''queued_ids'', strs_json qs), (lit ''message'', js ''Queued messages were kept after the parent turn stopped.'')]"
  let ?e = "journal_event sid st ''turn_queue_paused'' ?payload"
  have s': "s' = hold_rows env qs True (record_event ?e s)"
  proof -
    have "qs \<noteq> []" using mem by auto
    then show ?thesis using assms(2) ids unfolding pause_queued_turns_after_explicit_stop_def by simp
  qed
  have "held_back (hold_row env qs True row)" using mem assms(5) by (simp add: held_back_def hold_row_def)
  then have live: "\<exists>row' \<in> set (turn_rows s'). row_id env row' = ?q \<and> held_back row'" using assms(3) unfolding s' by (intro bexI [of _ "hold_row env qs True row"]) simp_all
  have keys: "map fst ?payload = map lit [''queued_ids'', ''message'']" "distinct [''queued_ids'', ''message'']" by simp_all
  have "dget ?e ''type'' = js ''turn_queue_paused''" "dget ?e ''queued_ids'' = JArr (map JStr qs)"
    using journal_event_field [OF keys] by (simp_all add: strs_json_def)
  then have step: "replay_event env sess ?e sc = Inr (foldl (pause_row env) sc (map JStr qs))" by (rule replay_paused)
  have "replay_journal env sess (journal s') initial_scan = Inr (foldl (pause_row env) sc (map JStr qs))"
    using sc(1) step by (simp add: s' replays_def replay_journal_append)
  moreover have "paused_in (foldl (pause_row env) sc (map JStr qs)) ?q" using mem q replays_ordered(2) [OF sc(1)] by (intro pause_rows_paused) simp_all
  ultimately show ?thesis using live by blast
qed

section \<open>Example\<close>

definition sample_outcome :: enqueue_outcome where
  "sample_outcome = \<lparr>en_bind = Inr True, en_append = Inr (1, [], []), en_settle = Inr (), en_peer = Inr True, en_unqueue = Inr (2, [], []),
     en_grants = Inr ()\<rparr>"

definition sample_queue :: turn_state where
  "sample_queue = admitted_state (lit ''s'') [] (lit ''claude'') sample_request sample_entry (lit ''Hello'') (1, [], []) fresh_queue"

lemma sample_run: "queue_run sample_env [] sample_queue {} True" "turn_names sample_env sample_queue = [lit ''queued_1'']"
proof -
  have "enqueue_turn (lit ''s'') [] (lit ''claude'') sample_request sample_entry (lit ''Hello'') sample_outcome fresh_queue = (Inr 1, sample_queue)"
    by (simp add: enqueue_turn_def sample_request_def sample_outcome_def published_def peer_bound_def sample_queue_def admitted_state_def fresh_queue_def turn_rows_def)
  then show "queue_run sample_env [] sample_queue {} True"
    by (intro queue_run.enqueued [OF queue_run.fresh sample_entry_ready]) (simp add: fresh_queue_def turn_rows_def)
  have "turn_rows fresh_queue = []" by (simp add: fresh_queue_def turn_rows_def)
  then show "turn_names sample_env sample_queue = [lit ''queued_1'']"
    using item_id [OF sample_entry_ready, of sample_request] by (simp add: sample_queue_def) (simp add: sample_entry_def)
qed








theorem stopped_queue_stays_held_witness:
  "\<exists>s' sc. replay_journal sample_env [] (journal s') initial_scan = Inr sc \<and> paused_in sc (lit ''queued_1'') \<and> list_ex held_back (turn_rows s')"
proof -
  obtain row where row: "turn_rows sample_queue = [row]" "row_id sample_env row = lit ''queued_1''" using sample_run(2) by (cases "turn_rows sample_queue") auto
  have user: "dget row ''purpose'' = JNull"
  proof -
    have "list_all (\<lambda>k. k \<in> set kept_keys \<and> k \<noteq> ''queued_id'' \<and> k \<noteq> ''prompt'') [''purpose'']" by code_simp
    then have "dget (queue_item sample_request sample_entry) ''purpose'' = JNull"
      using item_get(1) [of "''purpose''" sample_request sample_entry "[]" "[]" "[]" 0] by (simp add: payload_values opt_str_def sample_request_def)
    moreover have "row = dset (queue_item sample_request sample_entry) ''_durable'' (JBool True)"
    proof -
      have "turn_rows fresh_queue = []" by (simp add: fresh_queue_def turn_rows_def)
      then show ?thesis using row(1) by (simp add: sample_queue_def)
    qed
    ultimately show ?thesis by simp
  qed
  have clean: "strip (lit ''queued_1'') = lit ''queued_1''" "strip (lit ''queued_1'') \<noteq> []"
    by (simp_all add: strip_def lstrip_def rstrip_def lit_def is_space_def)
  have "run_now_row sample_queue = None" by (simp add: sample_queue_def fresh_queue_def)
  then have items: "(case run_now_row sample_queue of Some item \<Rightarrow> [item] | None \<Rightarrow> []) @ turn_rows sample_queue = [row]" using row(1) by simp
  have none: "JNull \<notin> (\<lambda>k. js k) ` set CROSS_CHAT_DELIVERY_PURPOSES" by auto
  have ids: "held_ids sample_env [row] = Inr [lit ''queued_1'']" "hidden_delivery_at_head [row] = Inr False"
    using row(2) user clean none by (simp_all add: in_strings_def hidden_delivery_at_head_def)
  obtain s' where s': "pause_queued_turns_after_explicit_stop sample_env (lit ''s'') (Inr (2, [], [])) sample_queue = (Inr (1, False), s')"
    unfolding pause_queued_turns_after_explicit_stop_def items Let_def ids by simp
  have "row \<in> set (turn_rows sample_queue)" "strip (row_id sample_env row) = row_id sample_env row" using row clean by simp_all
  from stopped_queue_stays_held [OF sample_run(1) s' this(1) _ this(2)] none user row(2) show ?thesis by (auto simp: list_ex_iff)
qed

end
