(* ===== verification/Spec2Isabelle.thy ===== *)
theory Spec2Isabelle
  imports Prelude Event_Log Mail_Hints Notification_Hints Mailbox_Safety Mail_Grants Background_Tasks
    Chat_Controls Chat_Projection Share_Pages Share_Revocation Interactive_Shares Claude_Provenance Side_Chat_Safety
    Live_Chats Video_Stream Access_Tokens Scheduled_Jobs Queue_Agreement
begin

text \<open>
  AgentsServer: a verification library for the parts of the server that own state.

  The server runs agent chats. Each chat has a durable event log; chats on one server exchange messages
  through a mailbox, and chats of different servers through a team hub that wakes its readers with hints;
  a chat can be shared as a frozen snapshot or interactively; and temporary side questions are answered
  next to a chat. This library models the components below in the order in which data flows through them.
  Every definition is a function on explicit state; nothing in it is assumed.

  \<^bold>\<open>Shared vocabulary.\<close> \<open>Prelude\<close>: Python strings as code points, JSON values with Python's equality and
  truth, \<open>json.dumps\<close>, UTF-8, exceptions as the left of a sum. \<open>Interfaces\<close>: the contracts that several
  components share, as locales: allocation of sequence numbers (\<open>seq_allocator\<close>, interpreted on the event log
  and on the mailbox), parsers with a normal form (\<open>normal_form\<close>, interpreted on mail routes, shared messages,
  side histories and lineage contexts), and stores that only grow (\<open>growing_store\<close>, interpreted on both
  share stores and on the live views), and schedules that only name later times
  (\<open>later_schedule\<close>, interpreted on the job schedules). \<open>Hint_Registry\<close> has the locale of a bounded subscription registry, which both hint brokers interpret.

  \<^bold>\<open>The event log\<close> (\<open>agent_server.py\<close>). \<open>Event_Log\<close>: the chunked backwards scans and the newest-first iterator
  equal a scan of all lines; a torn tail is repaired without losing a complete record; sequence numbers
  increase across torn writes and failed rollbacks; the sparse index never makes a reader skip an
  event; a malformed index has the three outcomes stated there.

  \<^bold>\<open>The chat mailbox\<close> (\<open>chat_mailbox.py\<close>). \<open>Chat_Mailbox\<close> has the tables as lists of records and one
  definition per operation; \<open>Mailbox_Safety\<close> shows that each message is read or cancelled at most once, that
  a retried read replays its page, that pages are maximal within their bounds, that what was stored can
  be read, and that wakes are admitted with increasing cutoffs.

  \<^bold>\<open>Hints of the team hub\<close> (\<open>mail_hints.py\<close>, \<open>mail_hint_streams.py\<close>, \<open>notification_hints.py\<close>). \<open>Mail_Hints\<close> and
  \<open>Notification_Hints\<close>: cursors, brokers and leases; readers see only their own mailbox with strictly
  increasing cursors under any interleaving, and seeding merges a snapshot with racing publications.

  \<^bold>\<open>Grants and reconciliation\<close> (\<open>team_mail_grants.py\<close>, \<open>claude_background_reconciliation.py\<close>). \<open>Mail_Grants\<close>:
  routes have a canonical form, and settling a staged grant decides between old and new routes.
  \<open>Background_Tasks\<close>: the checkpoint keeps the newest state of every task that fits and counts the rest.

  \<^bold>\<open>Shared chats.\<close> \<open>Public_Transcript\<close> (\<open>public_chat_transcript.py\<close>) projects events to visible text and conceals
  internal runs and imported deliveries; \<open>Transcript_Preview\<close>: a reviewed prefix reads the same again.
  \<open>Chat_Projection\<close> (\<open>interactive_chat_projection.py\<close>): following a growing log equals one read of it.
  \<open>Public_Shares\<close>, \<open>Share_Pages\<close>, \<open>Share_Revocation\<close> (\<open>public_chat_shares.py\<close>): streamed pages are cut exactly,
  read back unchanged, and close for good when revoked. \<open>Interactive_Shares\<close> (\<open>interactive_chat_shares.py\<close>):
  tokens, submissions at most once, upload quota. \<open>Chat_Controls\<close> (\<open>interactive_chat_controls.py\<close>): a guest reaches
  only the installed callbacks, for the chat of the share.

  \<^bold>\<open>Serving a shared chat.\<close> \<open>Live_Chats\<close> (\<open>interactive_chat_runtime.py\<close>): a cache of readers with revisions, its
  coroutines cut at their awaits; a viewer misses no update. \<open>Video_Stream\<close> (\<open>shared_chat_video_stream.py\<close>): byte ranges,
  headers and the streaming loop; what is sent is exactly the requested range, and descriptor and
  admission lease are given back on every exit.

  \<^bold>\<open>Access tokens of the team hub\<close> (\<open>security.py\<close>). \<open>Access_Tokens\<close>: URL-safe base64, canonical JSON, minting and
  verification; minted tokens are accepted until they expire, and only tokens with the keyed hash and
  the expected claims are.

  \<^bold>\<open>Scheduled jobs\<close> (\<open>agent_server.py\<close>). \<open>Job_Schedules\<close>: kinds, validation of cron expressions and recurrence rules,
  and the next occurrence, which for an interval is the earliest grid point after the given time.
  \<open>Scheduled_Jobs\<close>: the job store in memory and on disk; an occurrence that the event log proves admitted is not
  run again after a crash, an edited schedule is left alone, deferrals for an unavailable runtime end, and
  a parked job becomes due again.

  \<^bold>\<open>The turn queue\<close> (\<open>agent_server.py\<close>). \<open>Queue_Rows\<close>: rebuilding the row of a queued turn from its event, with legacy
  replay envelopes and route snapshots. \<open>Queue_Recovery\<close>: the scan of the event logs at start; the recovered queue
  is exactly the set of turns that still wait, and a dispatched turn is not recovered. \<open>Turn_Queue\<close>: the operations on
  the live queue, each as the section that runs under the queue lock, with the result of every append and binding
  as an argument. \<open>Queue_Journal\<close>: the event of an admission rebuilds the row it admitted. \<open>Queue_Agreement\<close>:
  under every outcome of every operation the live queue agrees with the queue that its journal replays to; a
  restart rebuilds it in order; and a stopped turn stays held. Only a turn that was dispatched and put back in
  front may take another place after a restart.

  \<^bold>\<open>Side questions\<close> (\<open>side_questions.py\<close>). \<open>Side_Context\<close>: history, context snapshot and prompt; automated turns are
  invisible. \<open>Side_Questions\<close>: receipts, native conversations and request checks, with each coroutine cut at
  its awaits. \<open>Side_Chats\<close> and \<open>Side_Chat_Safety\<close>: over all interleavings a native conversation refines a
  linear dialogue, a cleared one is silent, and a cancelled request cannot start.

  \<^bold>\<open>Imported history\<close> (\<open>claude_history_provenance.py\<close>). \<open>Claude_Provenance\<close>: an interruption has an origin only
  when parent links connect it to an earlier prompt; the tracker can be stopped and resumed.

  \<^bold>\<open>Parameters.\<close> Code and data that the sources only call are arguments of the definitions: decoding of
  bytes to JSON (\<open>codec\<close>, \<open>loads\<close>), hash functions, time stamps and the printing of floats, the projector and
  control callbacks, random identifiers, clocks, the outcome of each file operation, and the replies of
  native side conversations, keyed hashes, the calls on a video descriptor,
  Unicode tables, and the time zone, cron and recurrence packages, \<open>str\<close> of values that are not strings, the records
  of uploaded files, and the stamps and outcomes of queue appends. Hypotheses about them state documented behaviour only, and each property
  with hypotheses is applied to a concrete instance in its witness.

  \<^bold>\<open>Bounds.\<close> Loops are structural recursion or have a termination proof; no fuel is used. Python integers are
  \<open>int\<close>; limits are the constants of the sources. Floating point values are rationals.

  \<^bold>\<open>Not modelled.\<close> HTTP and WebSocket routes, provider processes and their protocols, terminals, session
  management, creation and dispatch of jobs of \<open>agent_server.py\<close>, promotion (Force Send) and editing of queued turns, the
  settlement of grants and ledgers around an admission, the SQL of the team hub store, the secure peer protocol, updates
  and process supervision, command line tools, repair of provider transcripts, HTML rendering, and the
  opening and signing of shared video files: they are glue over other programs, cryptography, SQLite or
  the operating system. SQLite transactions of the modelled stores are taken as atomic.
\<close>

end
